(* ===== verification/Prelude.thy ===== *)
theory Prelude
  imports Main "HOL-Library.Word" "HOL-Library.AList"
begin

text \<open>
  Shared vocabulary of the LinkForge development: the names of Go's machine types, the
  collections the component theories fill, Go strings and byte slices, and the association
  lists that stand for Go maps which the program iterates over.
\<close>

section \<open>Machine types\<close>

type_synonym byte = "8 word"
type_synonym u16 = "16 word"
type_synonym u32 = "32 word"
type_synonym u64 = "64 word"
type_synonym bytes = "byte list"

text \<open>The collections the component theories extend: equations that compute (\<open>model_defs\<close>),
  facts about lengths of wire fields (\<open>wire_len\<close>), and preservation facts (\<open>preserves\<close>).\<close>

named_theorems model_defs
named_theorems wire_len
named_theorems preserves

section \<open>Words read as naturals\<close>

lemma word_less_unat: "a < b \<longleftrightarrow> unat a < unat b" for a b :: "'a::len word"
  by (rule word_less_nat_alt)

lemma unat_Suc_no_wrap: "a < b \<Longrightarrow> unat (a + 1) = Suc (unat a)" for a b :: "'a::len word"
proof -
  assume "a < b"
  then have "a \<noteq> - 1"
    by (metis not_less word_order.extremum)
  then have "1 + a \<noteq> 0"
    by (metis add_eq_0_iff minus_equation_iff)
  then have "unat (1 + a) = Suc (unat a)"
    by (simp add: unatSuc)
  then show ?thesis
    by (simp add: add.commute)
qed

lemma unat_diff_le: "a \<le> b \<Longrightarrow> unat (b - a) = unat b - unat a" for a b :: "'a::len word"
  by (simp add: unat_sub)

section \<open>Go strings and byte slices\<close>

text \<open>A Go string is a byte sequence; HOL's \<^typ>\<open>string\<close> is a list of 8-bit characters, so the
  conversions are a bijection.\<close>

definition bytes_of_string :: "string \<Rightarrow> bytes" where
  "bytes_of_string s = map of_char s"

definition string_of_bytes :: "bytes \<Rightarrow> string" where
  "string_of_bytes b = map (\<lambda>w. char_of (unat w)) b"

lemma length_bytes_of_string [simp, wire_len]: "length (bytes_of_string s) = length s"
  by (simp add: bytes_of_string_def)

lemma length_string_of_bytes [simp]: "length (string_of_bytes b) = length b"
  by (simp add: string_of_bytes_def)

lemma of_char_char_of_byte: "of_char (char_of (unat b)) = b" for b :: byte
proof -
  have "of_char (char_of (unat b)) = (of_nat (of_char (char_of (unat b) :: char)) :: byte)"
    by (simp only: of_nat_of_char)
  also have "(of_char (char_of (unat b) :: char) :: nat) = unat b mod 256"
    by (rule of_char_of)
  also have "\<dots> = unat b"
    using unsigned_less [of b, where ?'a = nat] by simp
  finally show ?thesis by simp
qed

lemma char_of_byte_of_char: "char_of (unat (of_char c :: byte)) = c"
proof -
  have "unat (of_char c :: byte) = unat (of_nat (of_char c) :: byte)"
    by (simp only: of_nat_of_char)
  also have "\<dots> = of_char c"
    by (simp add: unat_of_nat)
  finally show ?thesis by (simp only: char_of_char)
qed

lemma string_of_bytes_of_string [simp]: "string_of_bytes (bytes_of_string s) = s"
  by (simp add: string_of_bytes_def bytes_of_string_def o_def char_of_byte_of_char)

lemma bytes_of_string_of_bytes [simp]: "bytes_of_string (string_of_bytes b) = b"
  by (simp add: string_of_bytes_def bytes_of_string_def o_def of_char_char_of_byte)

lemma bytes_of_string_inject [simp]: "bytes_of_string a = bytes_of_string b \<longleftrightarrow> a = b"
  by (metis string_of_bytes_of_string)

section \<open>Slices\<close>

text \<open>\<open>slice i j b\<close> is Go's \<open>b[i:j]\<close> for \<open>i \<le> j \<le> len(b)\<close>; every use in the models is guarded by
  the length check the code makes.\<close>

definition slice :: "nat \<Rightarrow> nat \<Rightarrow> 'a list \<Rightarrow> 'a list" where
  "slice i j b = take (j - i) (drop i b)"

lemma length_slice [simp, wire_len]: "j \<le> length b \<Longrightarrow> length (slice i j b) = j - i"
  by (simp add: slice_def)

lemma slice_append_left: "j \<le> length a \<Longrightarrow> slice i j (a @ b) = slice i j a"
  by (auto simp: slice_def)

lemma slice_append_right: "length a \<le> i \<Longrightarrow> slice i j (a @ b) = slice (i - length a) (j - length a) b"
  by (auto simp: slice_def)

lemma slice_all: "j = length b \<Longrightarrow> slice 0 j b = b"
  by (simp add: slice_def)

lemma slice_take: "j \<le> n \<Longrightarrow> slice i j (take n b) = slice i j b"
  by (simp add: slice_def drop_take min_absorb1 diff_le_mono)

lemma slice_Suc_Cons [simp]: "slice (Suc i) (Suc j) (x # b) = slice i j b"
  by (simp add: slice_def)

lemma slice_to_end: "slice i (length b) b = drop i b"
  by (simp add: slice_def)

lemma slice_two: "Suc i < length b \<Longrightarrow> slice i (Suc (Suc i)) b = [b ! i, b ! Suc i]"
proof -
  assume "Suc i < length b"
  then have "drop i b = b ! i # b ! Suc i # drop (Suc (Suc i)) b"
    by (metis Cons_nth_drop_Suc Suc_lessD)
  then show ?thesis by (simp add: slice_def)
qed

lemma slice_adjacent: "i \<le> j \<Longrightarrow> j \<le> k \<Longrightarrow> slice i j b @ slice j k b = slice i k b"
proof -
  assume "i \<le> j" "j \<le> k"
  then have "drop j b = drop (j - i) (drop i b)" "k - i = (j - i) + (k - j)" by auto
  then show ?thesis unfolding slice_def by (simp only: take_add)
qed

section \<open>Go maps with iteration\<close>

text \<open>A Go map is an association list with at most one entry per key. The order of the list is the
  order in which one \<open>range\<close> loop visits it; facts about the models hold for every order.\<close>

abbreviation map_get :: "('k \<times> 'v) list \<Rightarrow> 'k \<Rightarrow> 'v option" where
  "map_get m k \<equiv> map_of m k"

abbreviation map_put :: "('k \<times> 'v) list \<Rightarrow> 'k \<Rightarrow> 'v \<Rightarrow> ('k \<times> 'v) list" where
  "map_put m k v \<equiv> AList.update k v m"

abbreviation map_del :: "('k \<times> 'v) list \<Rightarrow> 'k \<Rightarrow> ('k \<times> 'v) list" where
  "map_del m k \<equiv> AList.delete k m"

definition keys_unique :: "('k \<times> 'v) list \<Rightarrow> bool" where
  "keys_unique m \<longleftrightarrow> distinct (map fst m)"

lemma keys_unique_Nil [simp]: "keys_unique []"
  by (simp add: keys_unique_def)

lemma keys_unique_put [simp, preserves]: "keys_unique m \<Longrightarrow> keys_unique (map_put m k v)"
  by (simp add: keys_unique_def distinct_update)

lemma keys_unique_del [simp, preserves]: "keys_unique m \<Longrightarrow> keys_unique (map_del m k)"
  by (simp add: keys_unique_def distinct_delete)

lemma keys_unique_filter [simp, preserves]: "keys_unique m \<Longrightarrow> keys_unique (filter P m)"
  by (auto simp: keys_unique_def distinct_map intro: inj_on_subset)

lemma map_get_put: "map_get (map_put m k v) k' = (if k' = k then Some v else map_get m k')"
  by (simp add: update_conv')

lemma map_get_del: "map_get (map_del m k) k' = (if k' = k then None else map_get m k')"
  by (simp add: delete_conv')

lemma map_get_mem: "keys_unique m \<Longrightarrow> (k, v) \<in> set m \<longleftrightarrow> map_get m k = Some v"
  by (simp add: keys_unique_def)

lemma map_get_filter:
  "keys_unique m \<Longrightarrow>
   map_get (filter P m) k = (case map_get m k of Some v \<Rightarrow> if P (k, v) then Some v else None | None \<Rightarrow> None)"
proof (induction m)
  case Nil
  then show ?case by simp
next
  case (Cons e m)
  obtain k0 v0 where e: "e = (k0, v0)" by (cases e)
  from Cons.prems have um: "keys_unique m" and nin: "k0 \<notin> fst ` set m"
    by (auto simp: keys_unique_def e)
  from nin have "map_get m k0 = None"
    by (simp add: map_of_eq_None_iff)
  with Cons.IH [OF um] show ?case
    by (auto simp: e split: option.splits)
qed

lemma map_get_filter_key: "Q k \<Longrightarrow> map_get (filter (\<lambda>(n, _). Q n) m) k = map_get m k"
  by (induction m) auto

lemma map_put_new: "k \<notin> fst ` set m \<Longrightarrow> map_put m k v = m @ [(k, v)]"
  by (induction m) auto

lemma set_map_del_subset: "set (map_del m k) \<subseteq> set m"
  by (induction m) auto

lemma set_map_put_subset: "set (map_put m k v) \<subseteq> insert (k, v) (set m)"
  by (induction m) auto

lemma length_map_put:
  "length (map_put m k v) = (if k \<in> fst ` set m then length m else Suc (length m))"
  by (induction m) auto

lemma length_map_del:
  "keys_unique m \<Longrightarrow> length (map_del m k) = (if k \<in> fst ` set m then length m - 1 else length m)"
proof (induction m)
  case Nil
  then show ?case by simp
next
  case (Cons e m)
  have um: "keys_unique m" and nin: "fst e \<notin> fst ` set m"
    using Cons.prems by (auto simp: keys_unique_def)
  show ?case
  proof (cases "fst e = k")
    case True
    with nin have "map_del m k = m"
      by (intro delete_id) simp
    with True show ?thesis by (cases e) auto
  next
    case False
    then show ?thesis
      using Cons.IH [OF um] by (cases e) (auto dest!: length_pos_if_in_set)
  qed
qed

lemma map_get_None_iff: "map_get m k = None \<longleftrightarrow> k \<notin> fst ` set m"
  by (rule map_of_eq_None_iff)

end
