(* ===== verification/Go_Time.thy ===== *)
theory Go_Time
  imports Prelude
begin

text \<open>
  Go's \<open>time.Time\<close> and \<open>time.Duration\<close>, as far as the program uses them. An instant is the number of
  nanoseconds since 1 January of year 1 UTC, so the zero \<open>Time\<close> is 0 and \<open>IsZero\<close> tests for it; a
  duration is a signed 64-bit count of nanoseconds, kept as an \<^typ>\<open>int\<close> whose saturation and
  wrap-around are written out. Every reading of the clock is an argument of the models.
\<close>

type_synonym gotime = int
type_synonym duration = int

definition zero_time :: gotime where
  [model_defs]: "zero_time = 0"

definition is_zero :: "gotime \<Rightarrow> bool" where
  [model_defs]: "is_zero t \<longleftrightarrow> t = zero_time"

text \<open>\<open>time.Time.Sub\<close> saturates at the ends of the \<open>int64\<close> range.\<close>

definition min_duration :: duration where
  "min_duration = - (2 ^ 63)"

definition max_duration :: duration where
  "max_duration = 2 ^ 63 - 1"

definition time_sub :: "gotime \<Rightarrow> gotime \<Rightarrow> duration" where
  "time_sub t u = max min_duration (min max_duration (t - u))"

definition millisecond :: duration where [model_defs]: "millisecond = 1000000"
definition second :: duration where [model_defs]: "second = 1000000000"
definition minute :: duration where [model_defs]: "minute = 60000000000"
definition hour :: duration where [model_defs]: "hour = 3600000000000"

text \<open>Seconds from year 1 to the Unix epoch, and the conversions the program makes: \<open>t.Unix()\<close>
  (seconds, wrapping at 64 bits when stored as \<open>uint64\<close>), \<open>time.Unix(s, 0)\<close> (which adds the epoch
  offset in \<open>int64\<close>), \<open>t.UnixNano()\<close> and \<open>time.Unix(0, n)\<close>.\<close>

definition unix_epoch :: int where
  "unix_epoch = 62135596800"

definition time_unix_u64 :: "gotime \<Rightarrow> u64" where
  "time_unix_u64 t = word_of_int (t div second - unix_epoch)"

definition unix_time :: "u64 \<Rightarrow> gotime" where
  "unix_time s = signed_take_bit 63 (sint s + unix_epoch) * second"

definition unix_nano :: "gotime \<Rightarrow> int" where
  "unix_nano t = signed_take_bit 63 (t - unix_epoch * second)"

definition time_unix_nano :: "int \<Rightarrow> gotime" where
  "time_unix_nano n = n + unix_epoch * second"

text \<open>The instants that both conversions represent exactly: those whose Unix seconds fit 32 bits
  (the years 1970 to 2106) for the second-resolution wire field.\<close>

definition wire_time :: "gotime \<Rightarrow> bool" where
  "wire_time t \<longleftrightarrow> unix_epoch * second \<le> t \<and> t < (unix_epoch + 2 ^ 32) * second"

definition truncate_second :: "gotime \<Rightarrow> gotime" where
  "truncate_second t = (t div second) * second"

lemma unix_time_roundtrip:
  assumes "wire_time t"
  shows "unix_time (time_unix_u64 t) = truncate_second t"
proof -
  define s where "s = t div second - unix_epoch"
  from assms have "0 \<le> s" "s < 2 ^ 32"
    by (auto simp: wire_time_def s_def second_def unix_epoch_def)
  then have "sint (word_of_int s :: u64) = s"
    by (simp add: sint_word_ariths signed_take_bit_int_eq_self sint_sbintrunc')
  moreover have "signed_take_bit 63 (s + unix_epoch) = s + unix_epoch"
    using \<open>0 \<le> s\<close> \<open>s < 2 ^ 32\<close>
    by (intro signed_take_bit_int_eq_self) (auto simp: unix_epoch_def)
  ultimately show ?thesis
    by (simp add: unix_time_def time_unix_u64_def truncate_second_def s_def)
qed

lemma time_unix_nano_roundtrip:
  "- (2 ^ 63) \<le> t - unix_epoch * second \<Longrightarrow> t - unix_epoch * second < 2 ^ 63
   \<Longrightarrow> time_unix_nano (unix_nano t) = t"
  by (simp add: time_unix_nano_def unix_nano_def signed_take_bit_int_eq_self)

text \<open>A bound far inside the \<open>int64\<close> range is decided by the exact difference.\<close>

lemma time_sub_le_iff: "\<bar>d\<bar> < 2 ^ 62 \<Longrightarrow> time_sub t u \<le> d \<longleftrightarrow> t - u \<le> d"
  by (auto simp: time_sub_def min_duration_def max_duration_def)

lemma time_sub_ge_iff: "\<bar>d\<bar> < 2 ^ 62 \<Longrightarrow> d \<le> time_sub t u \<longleftrightarrow> d \<le> t - u"
  by (auto simp: time_sub_def min_duration_def max_duration_def)

lemma time_sub_less_iff: "\<bar>d\<bar> < 2 ^ 62 \<Longrightarrow> time_sub t u < d \<longleftrightarrow> t - u < d"
  by (auto simp: time_sub_def min_duration_def max_duration_def)

lemma time_sub_gr_iff: "\<bar>d\<bar> < 2 ^ 62 \<Longrightarrow> d < time_sub t u \<longleftrightarrow> d < t - u"
  by (auto simp: time_sub_def min_duration_def max_duration_def)

lemmas time_sub_iffs = time_sub_le_iff time_sub_ge_iff time_sub_less_iff time_sub_gr_iff

text \<open>The comparison with the handshake tolerance used for both handshake messages.\<close>

lemma time_sub_self [simp]: "time_sub t t = 0"
  by (simp add: time_sub_def min_duration_def max_duration_def)

end
