(* ===== verification/Byte_Order.thy ===== *)
theory Byte_Order
  imports Prelude
begin

text \<open>
  Go's \<open>encoding/binary.BigEndian\<close>: the network byte order of every multi-byte wire field. The
  writers and readers are given once for any width; the three widths of the wire format are
  instances. The interface they offer to the packet formats is the locale \<open>field_codec\<close>.
\<close>

unbundle bit_operations_syntax

section \<open>Writing and reading\<close>

text \<open>\<open>put_be n w\<close> lists the low \<open>n\<close> bytes of \<open>w\<close>, the most significant first; \<open>get_be\<close> shifts the
  accumulator by one byte for every byte read.\<close>

primrec put_be :: "nat \<Rightarrow> 'a::len word \<Rightarrow> bytes" where
  "put_be 0 w = []"
| "put_be (Suc n) w = put_be n (drop_bit 8 w) @ [ucast w]"

definition get_be :: "bytes \<Rightarrow> 'a::len word" where
  "get_be bs = foldl (\<lambda>acc b. push_bit 8 acc OR ucast b) 0 bs"

definition put_uint16 :: "u16 \<Rightarrow> bytes" where "put_uint16 w = put_be 2 w"
definition put_uint32 :: "u32 \<Rightarrow> bytes" where "put_uint32 w = put_be 4 w"
definition put_uint64 :: "u64 \<Rightarrow> bytes" where "put_uint64 w = put_be 8 w"
definition get_uint16 :: "bytes \<Rightarrow> u16" where "get_uint16 b = get_be (take 2 b)"
definition get_uint32 :: "bytes \<Rightarrow> u32" where "get_uint32 b = get_be (take 4 b)"
definition get_uint64 :: "bytes \<Rightarrow> u64" where "get_uint64 b = get_be (take 8 b)"

lemmas put_uint_defs = put_uint16_def put_uint32_def put_uint64_def
lemmas get_uint_defs = get_uint16_def get_uint32_def get_uint64_def

section \<open>The two directions are inverse\<close>

lemma length_put_be [simp, wire_len]: "length (put_be n w) = n"
  by (induction n arbitrary: w) auto

lemma get_be_Nil [simp]: "get_be [] = 0"
  by (simp add: get_be_def)

lemma get_be_snoc [simp]: "get_be (bs @ [b]) = push_bit 8 (get_be bs) OR ucast b"
  by (simp add: get_be_def)

lemma get_put_be: "get_be (put_be n w) = take_bit (8 * n) w"
proof (induction n arbitrary: w)
  case 0
  then show ?case by simp
next
  case (Suc n)
  have "get_be (put_be (Suc n) w) = push_bit 8 (take_bit (8 * n) (drop_bit 8 w)) OR ucast (ucast w :: byte)"
    by (simp add: Suc.IH)
  also have "\<dots> = take_bit (8 * Suc n) w"
    by (rule bit_word_eqI) (auto simp: bit_simps)
  finally show ?case .
qed

lemma bit_get_be_bound: "bit (get_be bs :: 'a::len word) i \<Longrightarrow> i < 8 * length bs"
proof (induction bs arbitrary: i rule: rev_induct)
  case Nil
  then show ?case by simp
next
  case (snoc b bs)
  from snoc.prems consider "8 \<le> i" "bit (get_be bs :: 'a word) (i - 8)" | "bit b i"
    by (auto simp: bit_simps)
  then show ?case
  proof cases
    case 1
    with snoc.IH [of "i - 8"] show ?thesis by simp
  next
    case 2
    then have "i < 8" using bit_imp_le_length [of b i] by simp
    then show ?thesis by simp
  qed
qed

lemma put_get_be: "8 * length bs \<le> LENGTH('a) \<Longrightarrow> put_be (length bs) (get_be bs :: 'a::len word) = bs"
proof (induction bs rule: rev_induct)
  case Nil
  then show ?case by simp
next
  case (snoc b bs)
  let ?x = "get_be bs :: 'a word"
  have fits: "8 * length bs + 8 \<le> LENGTH('a)" using snoc.prems by simp
  have hi: "drop_bit 8 (push_bit 8 ?x OR ucast b) = ?x"
  proof (rule bit_word_eqI)
    fix i assume "i < LENGTH('a)"
    show "bit (drop_bit 8 (push_bit 8 ?x OR ucast b)) i = bit ?x i"
      using fits bit_get_be_bound [of bs i, where ?'a = 'a]
      by (auto simp: bit_simps dest: bit_imp_le_length)
  qed
  have lo: "ucast (push_bit 8 ?x OR ucast b) = b"
    using fits by (intro bit_word_eqI) (auto simp: bit_simps)
  have "put_be (length (bs @ [b])) (get_be (bs @ [b]) :: 'a word)
      = put_be (length bs) (drop_bit 8 (push_bit 8 ?x OR ucast b)) @ [ucast (push_bit 8 ?x OR ucast b)]"
    by simp
  also have "\<dots> = put_be (length bs) ?x @ [b]"
    by (simp only: hi lo)
  also have "\<dots> = bs @ [b]"
    using snoc.IH fits by simp
  finally show ?case .
qed

section \<open>The interface the packet formats use\<close>

text \<open>A fixed-width field: what is written has the width, reading takes the field back whatever
  follows it, and every string of the width is the encoding of what it reads as.\<close>

locale field_codec =
  fixes put :: "'a \<Rightarrow> bytes" and get :: "bytes \<Rightarrow> 'a" and width :: nat
  assumes length_put: "length (put a) = width"
    and get_put_append: "get (put a @ rest) = a"
    and put_get: "width \<le> length b \<Longrightarrow> put (get b) = take width b"
begin

lemma get_put: "get (put a) = a"
  using get_put_append [of a "[]"] by simp

lemma put_inject: "put a = put b \<longleftrightarrow> a = b"
  by (metis get_put)

lemma put_append_inject: "put a @ x = put b @ y \<longleftrightarrow> a = b \<and> x = y"
  by (metis append_eq_append_conv get_put_append length_put)

lemma get_inject: "length x = width \<Longrightarrow> length y = width \<Longrightarrow> get x = get y \<longleftrightarrow> x = y"
  by (metis order_refl put_get take_all)

lemma get_drop: "length h = n \<Longrightarrow> get (drop n (h @ put a @ rest)) = a"
  by (simp add: get_put_append)

end

lemma get_be_take_put: "n = 8 * m \<Longrightarrow> n = LENGTH('a) \<Longrightarrow>
    get_be (take m (put_be m (w :: 'a::len word) @ rest)) = w"
  by (simp add: get_put_be take_bit_word_eq_self)

interpretation u16c: field_codec put_uint16 get_uint16 2
proof
  show "length (put_uint16 a) = 2" for a by (simp add: put_uint_defs)
  show "get_uint16 (put_uint16 a @ rest) = a" for a rest
    unfolding put_uint_defs get_uint_defs by (rule get_be_take_put) auto
  show "put_uint16 (get_uint16 b) = take 2 b" if "2 \<le> length b" for b
    using that put_get_be [of "take 2 b", where ?'a = 16]
    by (simp add: put_uint_defs get_uint_defs min_absorb2)
qed

interpretation u32c: field_codec put_uint32 get_uint32 4
proof
  show "length (put_uint32 a) = 4" for a by (simp add: put_uint_defs)
  show "get_uint32 (put_uint32 a @ rest) = a" for a rest
    unfolding put_uint_defs get_uint_defs by (rule get_be_take_put) auto
  show "put_uint32 (get_uint32 b) = take 4 b" if "4 \<le> length b" for b
    using that put_get_be [of "take 4 b", where ?'a = 32]
    by (simp add: put_uint_defs get_uint_defs min_absorb2)
qed

interpretation u64c: field_codec put_uint64 get_uint64 8
proof
  show "length (put_uint64 a) = 8" for a by (simp add: put_uint_defs)
  show "get_uint64 (put_uint64 a @ rest) = a" for a rest
    unfolding put_uint_defs get_uint_defs by (rule get_be_take_put) auto
  show "put_uint64 (get_uint64 b) = take 8 b" if "8 \<le> length b" for b
    using that put_get_be [of "take 8 b", where ?'a = 64]
    by (simp add: put_uint_defs get_uint_defs min_absorb2)
qed

lemmas codec_lengths [simp, wire_len] = u16c.length_put u32c.length_put u64c.length_put
lemmas codec_reads [simp] =
  u16c.get_put u32c.get_put u64c.get_put u16c.get_put_append u32c.get_put_append u64c.get_put_append
lemmas codec_inject [simp] = u16c.put_inject u32c.put_inject u64c.put_inject

end
