(* ===== verification/Go_Text.thy ===== *)
theory Go_Text
  imports Prelude
begin

text \<open>
  The text functions of Go's standard library that decide what the program accepts as a key or a
  client identifier: \<open>strings.TrimSpace\<close>, \<open>strings.ReplaceAll(s, "-", "")\<close>, \<open>encoding/hex\<close> and the
  padded and unpadded alphabets of \<open>encoding/base64\<close>. A Go string is its bytes.
\<close>

section \<open>White space\<close>

text \<open>The UTF-8 encodings of the Unicode white-space code points that \<open>unicode.IsSpace\<close> accepts.\<close>

definition unicode_spaces :: "string list" where
  "unicode_spaces =
     [[CHR 0x09], [CHR 0x0A], [CHR 0x0B], [CHR 0x0C], [CHR 0x0D], [CHR 0x20],
      [CHR 0xC2, CHR 0x85], [CHR 0xC2, CHR 0xA0], [CHR 0xE1, CHR 0x9A, CHR 0x80]]
     @ map (\<lambda>n. [CHR 0xE2, CHR 0x80, char_of n]) ([0x80::nat..<0x8B] @ [0xA8, 0xA9, 0xAF])
     @ [[CHR 0xE2, CHR 0x81, CHR 0x9F], [CHR 0xE3, CHR 0x80, CHR 0x80]]"

definition leading_space :: "string list \<Rightarrow> string \<Rightarrow> string option" where
  "leading_space sps s = find (\<lambda>w. w \<noteq> [] \<and> take (length w) s = w) sps"

function trim_left_of :: "string list \<Rightarrow> string \<Rightarrow> string" where
  "trim_left_of sps s =
     (case leading_space sps s of None \<Rightarrow> s | Some w \<Rightarrow> trim_left_of sps (drop (length w) s))"
  by pat_completeness auto
termination
proof (relation "measure (\<lambda>(sps, s). length s)")
  fix sps s w
  assume "leading_space sps s = Some w"
  then have "w \<noteq> []" "take (length w) s = w"
    by (auto simp: leading_space_def find_Some_iff)
  then have "s \<noteq> []" by auto
  with \<open>w \<noteq> []\<close> show "((sps, drop (length w) s), (sps, s)) \<in> measure (\<lambda>(sps, s). length s)"
    by (simp add: length_greater_0_conv [symmetric] diff_less del: length_greater_0_conv)
qed simp

declare trim_left_of.simps [simp del]

definition trim_space :: "string \<Rightarrow> string" where
  "trim_space s =
     (let l = trim_left_of unicode_spaces s
      in rev (trim_left_of (map rev unicode_spaces) (rev l)))"

text \<open>Printable ASCII without the space is never trimmed.\<close>

definition plain_char :: "char \<Rightarrow> bool" where
  "plain_char c \<longleftrightarrow> 33 \<le> (of_char c :: nat) \<and> (of_char c :: nat) < 127"

lemma trim_left_of_id: "leading_space sps s = None \<Longrightarrow> trim_left_of sps s = s"
  by (simp add: trim_left_of.simps)

lemma spaces_not_plain:
  "w \<in> set unicode_spaces \<Longrightarrow> \<not> plain_char (hd w) \<and> \<not> plain_char (last w)"
proof -
  have "list_all (\<lambda>w. \<not> plain_char (hd w) \<and> \<not> plain_char (last w)) unicode_spaces"
    by code_simp
  then show "w \<in> set unicode_spaces \<Longrightarrow> ?thesis" by (simp add: list_all_iff)
qed

lemma leading_space_plain:
  assumes "list_all plain_char s" and "\<And>w. w \<in> set sps \<Longrightarrow> w \<noteq> [] \<Longrightarrow> \<not> plain_char (hd w)"
  shows "leading_space sps s = None"
proof -
  have "\<not> (w \<noteq> [] \<and> take (length w) s = w)" if "w \<in> set sps" for w
  proof
    assume h: "w \<noteq> [] \<and> take (length w) s = w"
    then obtain c cs where "w = c # cs" by (cases w) auto
    with h have "c \<in> set s" by (cases s) auto
    with assms(1) have "plain_char (hd w)" by (simp add: \<open>w = c # cs\<close> list_all_iff)
    with assms(2) [OF that] h show False by blast
  qed
  then show ?thesis by (auto simp: leading_space_def find_None_iff)
qed

lemma trim_space_plain: "list_all plain_char s \<Longrightarrow> trim_space s = s"
proof -
  assume p: "list_all plain_char s"
  have "leading_space unicode_spaces s = None"
    by (rule leading_space_plain [OF p]) (use spaces_not_plain in blast)
  moreover have "leading_space (map rev unicode_spaces) (rev s) = None"
  proof (rule leading_space_plain)
    show "list_all plain_char (rev s)" using p by (simp add: list_all_iff)
    show "\<not> plain_char (hd w)" if "w \<in> set (map rev unicode_spaces)" "w \<noteq> []" for w
      using that spaces_not_plain by (auto simp: hd_rev)
  qed
  ultimately show ?thesis by (simp add: trim_space_def trim_left_of_id Let_def)
qed

section \<open>Hexadecimal\<close>

definition hex_char :: "nat \<Rightarrow> char" where
  "hex_char n = ''0123456789abcdef'' ! n"

definition hex_value :: "char \<Rightarrow> nat option" where
  "hex_value c =
     (let n = of_char c in
      if 48 \<le> n \<and> n \<le> 57 then Some (n - 48)
      else if 97 \<le> n \<and> n \<le> 102 then Some (n - 87)
      else if 65 \<le> n \<and> n \<le> 70 then Some (n - 55)
      else None)"

definition hex_encode :: "bytes \<Rightarrow> string" where
  "hex_encode b = concat (map (\<lambda>w. [hex_char (unat w div 16), hex_char (unat w mod 16)]) b)"

fun hex_decode :: "string \<Rightarrow> bytes option" where
  "hex_decode [] = Some []"
| "hex_decode [_] = None"
| "hex_decode (a # b # r) =
     (case (hex_value a, hex_value b, hex_decode r) of
        (Some x, Some y, Some w) \<Rightarrow> Some (of_nat (16 * x + y) # w)
      | _ \<Rightarrow> None)"

lemma less_16: "n < 16 \<Longrightarrow> n \<in> {0, 1, 2, 3, 4, 5, 6, 7, 8, 9, 10, 11, 12, 13, 14, 15}" for n :: nat
  by (auto simp: numeral_eq_Suc less_Suc_eq)

lemma hex_char_facts: "n < 16 \<Longrightarrow> hex_value (hex_char n) = Some n \<and> plain_char (hex_char n) \<and> hex_char n \<noteq> CHR ''-''"
  by (drule less_16) (auto simp: hex_char_def hex_value_def plain_char_def)

lemma byte_nibbles: "unat w div 16 < 16" "unat w mod 16 < 16" for w :: byte
  using unsigned_less [of w, where ?'a = nat] by auto

lemma hex_decode_encode [simp]: "hex_decode (hex_encode b) = Some b"
proof (induction b)
  case (Cons w b)
  have "hex_decode (hex_encode (w # b))
      = Some ((of_nat (16 * (unat w div 16) + unat w mod 16) :: byte) # b)"
    using Cons.IH by (simp add: hex_encode_def hex_char_facts byte_nibbles)
  then show ?case by (simp only: mult_div_mod_eq of_nat_unat ucast_id)
qed (simp add: hex_encode_def)

lemma length_hex_encode [simp]: "length (hex_encode b) = 2 * length b"
  by (induction b) (auto simp: hex_encode_def)

lemma hex_encode_chars: "c \<in> set (hex_encode b) \<Longrightarrow> plain_char c \<and> c \<noteq> CHR ''-''"
  using hex_char_facts byte_nibbles by (auto simp: hex_encode_def)

lemma hex_encode_inject [simp]: "hex_encode a = hex_encode b \<longleftrightarrow> a = b"
  by (metis hex_decode_encode option.inject)

text \<open>\<open>strings.ReplaceAll(s, "-", "")\<close>.\<close>

definition remove_dashes :: "string \<Rightarrow> string" where
  "remove_dashes s = filter (\<lambda>c. c \<noteq> CHR ''-'') s"

lemma remove_dashes_hex [simp]: "remove_dashes (hex_encode b) = hex_encode b"
  by (simp add: remove_dashes_def filter_id_conv hex_encode_chars)

lemma trim_space_hex [simp]: "trim_space (hex_encode b) = hex_encode b"
  by (rule trim_space_plain) (simp add: list_all_iff hex_encode_chars)

end
