(* ===== verification/Go_Base64.thy ===== *)
theory Go_Base64
  imports Go_Text
begin

text \<open>
  Go's \<open>encoding/base64\<close>: \<open>StdEncoding\<close> (padded, for device keys), \<open>RawStdEncoding\<close> (unpadded, for
  keys encrypted at rest) and \<open>RawURLEncoding\<close> (unpadded, for activation codes). The decoder
  ignores carriage returns and line feeds and, as Go's non-strict mode does, the unused low bits of
  the last digit.
\<close>

definition std_alphabet :: string where
  "std_alphabet = ''ABCDEFGHIJKLMNOPQRSTUVWXYZabcdefghijklmnopqrstuvwxyz0123456789+/''"

definition url_alphabet :: string where
  "url_alphabet = ''ABCDEFGHIJKLMNOPQRSTUVWXYZabcdefghijklmnopqrstuvwxyz0123456789-_''"

definition b64_value :: "string \<Rightarrow> char \<Rightarrow> nat option" where
  "b64_value alph c = find (\<lambda>n. alph ! n = c) [0..<length alph]"

fun b64_encode :: "string \<Rightarrow> bool \<Rightarrow> bytes \<Rightarrow> string" where
  "b64_encode alph pad [] = []"
| "b64_encode alph pad [a] =
     [alph ! (unat a div 4), alph ! (unat a mod 4 * 16)] @ (if pad then ''=='' else [])"
| "b64_encode alph pad [a, b] =
     [alph ! (unat a div 4), alph ! (unat a mod 4 * 16 + unat b div 16), alph ! (unat b mod 16 * 4)]
     @ (if pad then ''='' else [])"
| "b64_encode alph pad (a # b # c # r) =
     [alph ! (unat a div 4), alph ! (unat a mod 4 * 16 + unat b div 16),
      alph ! (unat b mod 16 * 4 + unat c div 64), alph ! (unat c mod 64)]
     @ b64_encode alph pad r"

definition b64_first :: "nat \<Rightarrow> nat \<Rightarrow> byte" where "b64_first w x = of_nat (w * 4 + x div 16)"
definition b64_second :: "nat \<Rightarrow> nat \<Rightarrow> byte" where "b64_second x y = of_nat (x mod 16 * 16 + y div 4)"
definition b64_third :: "nat \<Rightarrow> nat \<Rightarrow> byte" where "b64_third y z = of_nat (y mod 4 * 64 + z)"

definition b64_one :: "string \<Rightarrow> char \<Rightarrow> char \<Rightarrow> bytes option" where
  "b64_one alph w x =
     (case (b64_value alph w, b64_value alph x) of
        (Some i, Some j) \<Rightarrow> Some [b64_first i j] | _ \<Rightarrow> None)"

definition b64_two :: "string \<Rightarrow> char \<Rightarrow> char \<Rightarrow> char \<Rightarrow> bytes option" where
  "b64_two alph w x y =
     (case (b64_value alph w, b64_value alph x, b64_value alph y) of
        (Some i, Some j, Some k) \<Rightarrow> Some [b64_first i j, b64_second j k] | _ \<Rightarrow> None)"

definition b64_three :: "string \<Rightarrow> char \<Rightarrow> char \<Rightarrow> char \<Rightarrow> char \<Rightarrow> bytes option" where
  "b64_three alph w x y z =
     (case (b64_value alph w, b64_value alph x, b64_value alph y, b64_value alph z) of
        (Some i, Some j, Some k, Some l) \<Rightarrow> Some [b64_first i j, b64_second j k, b64_third k l]
      | _ \<Rightarrow> None)"

fun b64_quanta :: "string \<Rightarrow> bool \<Rightarrow> string \<Rightarrow> bytes option" where
  "b64_quanta alph pad [] = Some []"
| "b64_quanta alph pad [w] = None"
| "b64_quanta alph pad [w, x] = (if pad then None else b64_one alph w x)"
| "b64_quanta alph pad [w, x, y] = (if pad then None else b64_two alph w x y)"
| "b64_quanta alph pad (w # x # y # z # r) =
     (if pad \<and> r = [] \<and> y = CHR ''='' \<and> z = CHR ''='' then b64_one alph w x
      else if pad \<and> r = [] \<and> z = CHR ''='' then b64_two alph w x y
      else (case (b64_three alph w x y z, b64_quanta alph pad r) of
              (Some q, Some s) \<Rightarrow> Some (q @ s) | _ \<Rightarrow> None))"

definition b64_decode :: "string \<Rightarrow> bool \<Rightarrow> string \<Rightarrow> bytes option" where
  "b64_decode alph pad s = b64_quanta alph pad (filter (\<lambda>c. c \<noteq> CHR 0x0A \<and> c \<noteq> CHR 0x0D) s)"

section \<open>Decoding an encoding\<close>

text \<open>An alphabet of 64 distinct printable characters without the padding character.\<close>

definition good_alphabet :: "string \<Rightarrow> bool" where
  "good_alphabet alph \<longleftrightarrow> length alph = 64 \<and> distinct alph \<and> CHR ''='' \<notin> set alph \<and> list_all plain_char alph"

lemma good_std_alphabet [simp]: "good_alphabet std_alphabet"
  by (simp add: good_alphabet_def std_alphabet_def plain_char_def)

lemma good_url_alphabet [simp]: "good_alphabet url_alphabet"
  by (simp add: good_alphabet_def url_alphabet_def plain_char_def)

lemma b64_value_nth: "good_alphabet alph \<Longrightarrow> n < 64 \<Longrightarrow> b64_value alph (alph ! n) = Some n"
  by (auto simp: b64_value_def good_alphabet_def find_Some_iff nth_eq_iff_index_eq
      intro!: exI [of _ n])

lemma alphabet_nth: "good_alphabet alph \<Longrightarrow> n < 64 \<Longrightarrow> alph ! n \<noteq> CHR ''='' \<and> plain_char (alph ! n)"
  by (metis good_alphabet_def list_all_length nth_mem)

lemma byte_bound: "unat w < 256" for w :: byte
  using unsigned_less [of w, where ?'a = nat] by simp

lemma b64_digit_bounds:
  "unat a div 4 < 64" "unat a mod 4 * 16 < 64" "unat a mod 4 * 16 + unat b div 16 < 64"
  "unat b mod 16 * 4 < 64" "unat b mod 16 * 4 + unat c div 64 < 64" "unat c mod 64 < 64"
  for a b c :: byte
  using byte_bound [of a] byte_bound [of b] byte_bound [of c] by linarith+

lemma of_nat_unat_byte: "n = unat w \<Longrightarrow> of_nat n = w" for w :: byte
  by simp

lemma nibble_split: "y < 16 \<Longrightarrow> (x * 16 + y) div 16 = x" "y < 16 \<Longrightarrow> (x * 16 + y) mod 16 = y"
  for x y :: nat
  by auto

lemma crumb_split: "y < 4 \<Longrightarrow> (x * 4 + y) div 4 = x" "y < 4 \<Longrightarrow> (x * 4 + y) mod 4 = y"
  for x y :: nat
  by auto

lemma byte_parts: "unat w div 16 < 16" "unat w div 64 < 4" for w :: byte
  using byte_bound [of w] by linarith+

lemma b64_first_inv:
  "b64_first (unat a div 4) (unat a mod 4 * 16) = a"
  "b64_first (unat a div 4) (unat a mod 4 * 16 + unat b div 16) = a"
  for a b :: byte
  unfolding b64_first_def by (rule of_nat_unat_byte, simp add: nibble_split byte_parts)+

lemma b64_second_inv:
  "b64_second (unat a mod 4 * 16 + unat b div 16) (unat b mod 16 * 4) = b"
  "b64_second (unat a mod 4 * 16 + unat b div 16) (unat b mod 16 * 4 + unat c div 64) = b"
  for a b c :: byte
  unfolding b64_second_def by (rule of_nat_unat_byte, simp add: nibble_split crumb_split byte_parts)+

lemma b64_third_inv: "b64_third (unat b mod 16 * 4 + unat c div 64) (unat c mod 64) = c"
  for b c :: byte
  unfolding b64_third_def by (rule of_nat_unat_byte, simp add: crumb_split byte_parts)

lemmas b64_inverses = b64_first_inv b64_second_inv b64_third_inv

lemma b64_encode_plain: "good_alphabet alph \<Longrightarrow> c \<in> set (b64_encode alph pad b) \<Longrightarrow> plain_char c"
proof (induction alph pad b rule: b64_encode.induct)
  case (2 alph pad a)
  then show ?case
    using alphabet_nth b64_digit_bounds by (auto simp: plain_char_def split: if_splits)
next
  case (3 alph pad a b)
  then show ?case
    using alphabet_nth b64_digit_bounds by (auto simp: plain_char_def split: if_splits)
next
  case (4 alph pad a b c r)
  then show ?case
    using alphabet_nth [OF "4.prems"(1)] b64_digit_bounds by auto
qed simp

lemma b64_quanta_encode: "good_alphabet alph \<Longrightarrow> b64_quanta alph pad (b64_encode alph pad b) = Some b"
proof (induction alph pad b rule: b64_encode.induct)
  case (2 alph pad a)
  then show ?case
    by (auto simp: b64_one_def b64_value_nth b64_digit_bounds b64_inverses)
next
  case (3 alph pad a b)
  then show ?case
    by (auto simp: b64_two_def b64_value_nth b64_digit_bounds b64_inverses alphabet_nth)
next
  case (4 alph pad a b c r)
  then show ?case
    by (auto simp: b64_three_def b64_value_nth b64_digit_bounds b64_inverses alphabet_nth)
qed simp

lemma b64_decode_encode [simp]:
  assumes "good_alphabet alph"
  shows "b64_decode alph pad (b64_encode alph pad b) = Some b"
proof -
  have "filter (\<lambda>c. c \<noteq> CHR 0x0A \<and> c \<noteq> CHR 0x0D) (b64_encode alph pad b) = b64_encode alph pad b"
    using b64_encode_plain [OF assms] by (fastforce simp: filter_id_conv plain_char_def)
  then show ?thesis by (simp add: b64_decode_def b64_quanta_encode assms)
qed

lemma trim_space_b64 [simp]: "good_alphabet alph \<Longrightarrow> trim_space (b64_encode alph pad b) = b64_encode alph pad b"
  by (rule trim_space_plain) (auto simp: list_all_iff dest: b64_encode_plain)

lemma b64_encode_Nil_iff [simp]: "b64_encode alph pad b = [] \<longleftrightarrow> b = []"
  by (cases "(alph, pad, b)" rule: b64_encode.cases) auto

end
