(* ===== verification/Go_Float.thy ===== *)
theory Go_Float
  imports Complex_Main "HOL-Library.Log_Nat"
begin

text \<open>
  Go's \<open>float64\<close>: a finite value is a rational number and every operation is the exact result
  rounded to the nearest representable number, ties to even (IEEE 754 binary64, gradual underflow
  included). Infinities and NaN do not arise in the program: its configuration comes from JSON, which
  has neither, and the weights are bounded by the configuration checks, so results far below
  \<open>2 ^ 1024\<close> are all that is rounded.
\<close>

section \<open>Rounding to an integer, ties to even\<close>

definition round_half_even :: "rat \<Rightarrow> int" where
  "round_half_even x =
     (let f = \<lfloor>x\<rfloor>; d = x - of_int f in
      if d < 1 / 2 then f else if 1 / 2 < d then f + 1 else if even f then f else f + 1)"

lemma round_half_even_of_int [simp]: "round_half_even (of_int i) = i"
  by (simp add: round_half_even_def)

lemma round_half_even_near: "\<lfloor>x\<rfloor> \<le> round_half_even x" "round_half_even x \<le> \<lfloor>x\<rfloor> + 1"
  by (auto simp: round_half_even_def Let_def)

lemma round_half_even_mono: "x \<le> y \<Longrightarrow> round_half_even x \<le> round_half_even y"
proof -
  assume xy: "x \<le> y"
  then have "\<lfloor>x\<rfloor> \<le> \<lfloor>y\<rfloor>" by (rule floor_mono)
  show ?thesis
  proof (cases "\<lfloor>x\<rfloor> = \<lfloor>y\<rfloor>")
    case True
    with xy show ?thesis by (auto simp: round_half_even_def Let_def)
  next
    case False
    with \<open>\<lfloor>x\<rfloor> \<le> \<lfloor>y\<rfloor>\<close> have "\<lfloor>x\<rfloor> + 1 \<le> \<lfloor>y\<rfloor>" by simp
    with round_half_even_near [of x] round_half_even_near [of y] show ?thesis by linarith
  qed
qed

lemma round_half_even_le: "x \<le> of_int i \<Longrightarrow> round_half_even x \<le> i"
  using round_half_even_mono [of x "of_int i"] by simp

lemma round_half_even_ge: "of_int i \<le> x \<Longrightarrow> i \<le> round_half_even x"
  using round_half_even_mono [of "of_int i" x] by simp

section \<open>The binary exponent\<close>

definition float_exponent :: "rat \<Rightarrow> int" where
  "float_exponent x =
     (if 1 \<le> x then int (floorlog 2 (nat \<lfloor>x\<rfloor>)) - 1
      else - int (floorlog 2 (nat (\<lceil>1 / x\<rceil> - 1))))"

lemma float_exponent_ge_1:
  assumes "1 \<le> x"
  shows "2 powi float_exponent x \<le> x \<and> x < 2 powi (float_exponent x + 1)"
proof -
  define n where "n = nat \<lfloor>x\<rfloor>"
  have n: "0 < n" "of_nat n \<le> x" "x < of_nat n + 1"
    using assms by (auto simp: n_def) linarith+
  define l where "l = floorlog 2 n"
  have b: "2 ^ (l - 1) \<le> n" "n < 2 ^ l"
    using floorlog_bounds [of n 2] n(1) by (auto simp: l_def)
  then have "l \<noteq> 0" using n(1) by (cases l) auto
  have e: "float_exponent x = int (l - 1)"
    using assms \<open>l \<noteq> 0\<close> by (simp add: float_exponent_def l_def n_def of_nat_diff)
  have "(2 :: rat) ^ (l - 1) = of_nat (2 ^ (l - 1))" by simp
  also have "\<dots> \<le> of_nat n" using b(1) by (simp only: of_nat_le_iff)
  also have "\<dots> \<le> x" by (rule n)
  finally have lo: "(2 :: rat) ^ (l - 1) \<le> x" .
  have "x < of_nat (n + 1)" using n(3) by simp
  also have "\<dots> \<le> of_nat (2 ^ l)" using b(2) by (simp only: of_nat_le_iff)
  finally have hi: "x < 2 ^ l" by simp
  have "float_exponent x + 1 = int l" using e \<open>l \<noteq> 0\<close> by simp
  with lo hi e show ?thesis by (simp only: power_int_of_nat)
qed

lemma float_exponent_lt_1:
  assumes "0 < x" "x < 1"
  shows "2 powi float_exponent x \<le> x \<and> x < 2 powi (float_exponent x + 1)"
proof -
  define c where "c = \<lceil>1 / x\<rceil>"
  have inv: "1 < 1 / x" using assms by simp
  then have c: "1 / x \<le> of_int c" "of_int c < 1 / x + 1" "2 \<le> c"
    unfolding c_def by linarith+
  define l where "l = floorlog 2 (nat (c - 1))"
  have b: "2 ^ (l - 1) \<le> nat (c - 1)" "nat (c - 1) < 2 ^ l"
    using floorlog_bounds [of "nat (c - 1)" 2] c(3) by (auto simp: l_def)
  then have "l \<noteq> 0" using c(3) by (cases l) auto
  have e: "float_exponent x = - int l"
    using assms by (simp add: float_exponent_def l_def c_def)
  have "c - 1 < 2 ^ l" using b(2) c(3) by (simp add: nat_less_iff)
  then have "c \<le> 2 ^ l" by simp
  then have "(of_int c :: rat) \<le> of_int (2 ^ l)" by (simp only: of_int_le_iff)
  also have "(of_int (2 ^ l) :: rat) = 2 ^ l" by simp
  finally have "1 / x \<le> 2 ^ l" by (rule order_trans [OF c(1)])
  then have lo: "1 / 2 ^ l \<le> x" using assms by (simp add: field_simps)
  have "2 ^ (l - 1) \<le> c - 1" using b(1) c(3) by (simp add: le_nat_iff)
  then have "(of_int (2 ^ (l - 1)) :: rat) \<le> of_int (c - 1)" by (simp only: of_int_le_iff)
  with c(2) have "2 ^ (l - 1) < 1 / x" by simp
  then have hi: "x < 1 / 2 ^ (l - 1)" using assms by (simp add: field_simps)
  have "float_exponent x + 1 = - int (l - 1)" using e \<open>l \<noteq> 0\<close> by simp
  with lo hi e show ?thesis by (simp only: power_int_minus_divide power_int_of_nat)
qed

lemma float_exponent_bounds:
  "0 < x \<Longrightarrow> 2 powi float_exponent x \<le> x \<and> x < 2 powi (float_exponent x + 1)"
  using float_exponent_ge_1 float_exponent_lt_1 by (cases "1 \<le> x") auto

lemma pow2_le_iff: "(2 :: rat) powi a \<le> 2 powi b \<longleftrightarrow> a \<le> b"
  using power_int_le_imp_le_exp [of "2 :: rat" a b] power_int_increasing [of a b "2 :: rat"]
  by (metis le_cases less_le_not_le one_less_numeral_iff semiring_norm(76)
      power_int_strict_increasing zero_less_numeral numeral_One)

lemma pow2_less_iff: "(2 :: rat) powi a < 2 powi b \<longleftrightarrow> a < b"
  using pow2_le_iff [of b a] by auto

lemma float_exponent_mono: "0 < x \<Longrightarrow> x \<le> y \<Longrightarrow> float_exponent x \<le> float_exponent y"
proof -
  assume "0 < x" "x \<le> y"
  then have "(2 :: rat) powi float_exponent x < 2 powi (float_exponent y + 1)"
    using float_exponent_bounds [of x] float_exponent_bounds [of y] by linarith
  then show ?thesis by (simp add: pow2_less_iff)
qed

section \<open>Rounding to binary64\<close>

text \<open>The exponent of the last of the 53 significant bits, at least the subnormal one.\<close>

definition ulp_exponent :: "rat \<Rightarrow> int" where
  "ulp_exponent x = max (float_exponent x - 52) (- 1074)"

definition round_pos :: "rat \<Rightarrow> rat" where
  "round_pos x =
     (if x \<le> 0 then 0
      else of_int (round_half_even (x / 2 powi ulp_exponent x)) * 2 powi ulp_exponent x)"

definition fl64 :: "rat \<Rightarrow> rat" where
  "fl64 x = (if x < 0 then - round_pos (- x) else round_pos x)"

definition is_float64 :: "rat \<Rightarrow> bool" where
  "is_float64 x \<longleftrightarrow> fl64 x = x"

lemma round_pos_dyadic:
  assumes m: "0 \<le> m" "m < 2 ^ 53" and k: "- 1074 \<le> k"
  shows "round_pos (of_int m * 2 powi k) = of_int m * 2 powi k"
proof (cases "m = 0")
  case False
  define x :: rat where "x = of_int m * 2 powi k"
  have x: "0 < x" using m False by (simp add: x_def)
  have "of_int m < (2 ^ 53 :: rat)" using m(2)
    by (metis of_int_less_iff of_int_numeral of_int_power)
  then have "x < 2 ^ 53 * 2 powi k" by (simp add: x_def)
  also have "\<dots> = 2 powi (53 + k)" by (simp add: power_int_add)
  finally have "(2 :: rat) powi float_exponent x < 2 powi (53 + k)"
    using float_exponent_bounds [OF x] by linarith
  then have q: "ulp_exponent x \<le> k" using k by (simp add: ulp_exponent_def pow2_less_iff)
  define d where "d = nat (k - ulp_exponent x)"
  have kd: "k = ulp_exponent x + int d" using q by (simp add: d_def)
  have "2 powi k = 2 powi ulp_exponent x * (2 :: rat) ^ d"
    by (subst kd) (simp add: power_int_add)
  then have "x = of_int (m * 2 ^ d) * 2 powi ulp_exponent x"
    by (simp add: x_def [symmetric] mult_ac) (simp add: x_def mult_ac)
  then have div: "x / 2 powi ulp_exponent x = of_int (m * 2 ^ d)"
    by (simp add: divide_eq_eq)
  have "round_pos x = of_int (m * 2 ^ d) * 2 powi ulp_exponent x"
    using x by (simp add: round_pos_def div del: of_int_mult)
  also have "\<dots> = x" using div by (simp add: field_simps)
  finally show ?thesis by (simp add: x_def)
qed (simp add: round_pos_def)

lemma round_pos_nonneg [simp]: "0 \<le> round_pos x"
proof (cases "x \<le> 0")
  case False
  then have "0 \<le> round_half_even (x / 2 powi ulp_exponent x)"
    by (intro round_half_even_ge) simp
  with False show ?thesis by (simp add: round_pos_def)
qed (simp add: round_pos_def)

text \<open>Rounding never passes a power of two that is an upper or lower bound of the argument.\<close>

lemma round_pos_le_pow2: "0 < x \<Longrightarrow> x \<le> 2 powi k \<Longrightarrow> ulp_exponent x \<le> k \<Longrightarrow> round_pos x \<le> 2 powi k"
proof -
  assume x: "0 < x" "x \<le> 2 powi k" and q: "ulp_exponent x \<le> k"
  let ?u = "(2 :: rat) powi ulp_exponent x"
  define d where "d = nat (k - ulp_exponent x)"
  have kd: "(2 :: rat) powi k = of_int (2 ^ d) * ?u"
    using q by (simp add: d_def flip: power_int_add power_int_of_nat)
  with x have "x / ?u \<le> of_int (2 ^ d)" by (simp add: field_simps)
  then have "round_half_even (x / ?u) \<le> 2 ^ d" by (rule round_half_even_le)
  then have "of_int (round_half_even (x / ?u)) \<le> (of_int (2 ^ d) :: rat)" by (simp only: of_int_le_iff)
  then show ?thesis using x(1) by (simp add: round_pos_def kd)
qed

lemma round_pos_ge_pow2: "0 < x \<Longrightarrow> 2 powi k \<le> x \<Longrightarrow> ulp_exponent x \<le> k \<Longrightarrow> 2 powi k \<le> round_pos x"
proof -
  assume x: "0 < x" "2 powi k \<le> x" and q: "ulp_exponent x \<le> k"
  let ?u = "(2 :: rat) powi ulp_exponent x"
  define d where "d = nat (k - ulp_exponent x)"
  have kd: "(2 :: rat) powi k = of_int (2 ^ d) * ?u"
    using q by (simp add: d_def flip: power_int_add power_int_of_nat)
  with x have "of_int (2 ^ d) \<le> x / ?u" by (simp add: field_simps)
  then have "2 ^ d \<le> round_half_even (x / ?u)" by (rule round_half_even_ge)
  then have "(of_int (2 ^ d) :: rat) \<le> of_int (round_half_even (x / ?u))" by (simp only: of_int_le_iff)
  then show ?thesis using x(1) by (simp add: round_pos_def kd)
qed

lemma round_pos_mono: "x \<le> y \<Longrightarrow> round_pos x \<le> round_pos y"
proof (cases "x \<le> 0")
  case True
  then show ?thesis by (simp add: round_pos_def [of x])
next
  case False
  assume xy: "x \<le> y"
  from False xy have x: "0 < x" and y: "0 < y" by auto
  have ule: "ulp_exponent x \<le> ulp_exponent y"
    using float_exponent_mono [OF x xy] by (simp add: ulp_exponent_def max_def)
  show ?thesis
  proof (cases "ulp_exponent x = ulp_exponent y")
    case True
    have "x / 2 powi ulp_exponent y \<le> y / 2 powi ulp_exponent y"
      using xy by (simp add: divide_right_mono)
    then have "round_half_even (x / 2 powi ulp_exponent y) \<le> round_half_even (y / 2 powi ulp_exponent y)"
      by (rule round_half_even_mono)
    with x y show ?thesis by (simp add: round_pos_def True)
  next
    case False
    with ule have less: "ulp_exponent x < ulp_exponent y" by simp
    let ?k = "float_exponent y"
    from less have uy: "ulp_exponent y = ?k - 52" unfolding ulp_exponent_def by linarith
    from less have ex: "float_exponent x + 1 \<le> ?k" unfolding ulp_exponent_def by linarith
    have "x \<le> 2 powi ?k"
      using float_exponent_bounds [OF x] ex by (metis less_imp_le order_trans pow2_le_iff)
    then have "round_pos x \<le> 2 powi ?k"
      using x less uy by (intro round_pos_le_pow2) auto
    also have "2 powi ?k \<le> round_pos y"
      using float_exponent_bounds [OF y] y uy by (intro round_pos_ge_pow2) auto
    finally show ?thesis .
  qed
qed

lemma fl64_mono: "x \<le> y \<Longrightarrow> fl64 x \<le> fl64 y"
proof -
  assume xy: "x \<le> y"
  consider "y < 0" | "x < 0" "0 \<le> y" | "0 \<le> x" using xy by linarith
  then show ?thesis
  proof cases
    case 1
    with xy show ?thesis by (simp add: fl64_def round_pos_mono)
  next
    case 2
    have "- round_pos (- x) \<le> round_pos y"
      using round_pos_nonneg [of "- x"] round_pos_nonneg [of y] by linarith
    with 2 show ?thesis by (simp add: fl64_def)
  next
    case 3
    with xy show ?thesis by (simp add: fl64_def round_pos_mono)
  qed
qed

lemma fl64_dyadic:
  assumes "\<bar>m\<bar> < 2 ^ 53" "- 1074 \<le> k"
  shows "fl64 (of_int m * 2 powi k) = of_int m * 2 powi k"
proof (cases "m < 0")
  case True
  then have "(of_int m * 2 powi k :: rat) < 0" by (simp add: mult_less_0_iff)
  moreover have "round_pos (of_int (- m) * 2 powi k) = of_int (- m) * 2 powi k"
    using True assms by (intro round_pos_dyadic) auto
  ultimately show ?thesis by (simp add: fl64_def)
next
  case False
  then have "\<not> (of_int m * 2 powi k :: rat) < 0" by (simp add: not_less)
  then show ?thesis
    using False assms round_pos_dyadic [of m k] by (simp add: fl64_def)
qed

text \<open>A rounded value is representable.\<close>

lemma round_pos_float:
  assumes x: "0 < x"
  shows "round_pos (round_pos x) = round_pos x"
proof -
  let ?u = "ulp_exponent x" and ?m = "round_half_even (x / 2 powi ulp_exponent x)"
  have u: "- 1074 \<le> ?u" "float_exponent x + 1 \<le> ?u + 53" by (auto simp: ulp_exponent_def)
  have "x < 2 powi (?u + 53)"
    using float_exponent_bounds [OF x] u(2) pow2_le_iff [of "float_exponent x + 1" "?u + 53"] by linarith
  then have "x / 2 powi ?u \<le> of_int (2 ^ 53)" by (simp add: power_int_add field_simps)
  then have hi: "?m \<le> 2 ^ 53" by (rule round_half_even_le)
  have lo: "0 \<le> ?m" using x by (intro round_half_even_ge) simp
  have r: "round_pos x = of_int ?m * 2 powi ?u" using x by (simp add: round_pos_def)
  show ?thesis
  proof (cases "?m = 2 ^ 53")
    case True
    have "round_pos x = of_int 1 * 2 powi (?u + 53)" using r True by (simp add: power_int_add)
    moreover have "round_pos (of_int 1 * 2 powi (?u + 53)) = of_int 1 * 2 powi (?u + 53)"
      using u(1) by (intro round_pos_dyadic) auto
    ultimately show ?thesis by simp
  next
    case False
    with hi lo u(1) show ?thesis unfolding r by (intro round_pos_dyadic) auto
  qed
qed

lemma is_float64_fl64 [simp]: "is_float64 (fl64 x)"
proof -
  have p: "fl64 (round_pos y) = round_pos y" if "0 < y" for y
    using round_pos_float [OF that] round_pos_nonneg [of y] by (auto simp: fl64_def simp flip: not_le)
  have n: "fl64 (- y) = - fl64 y" for y by (simp add: fl64_def round_pos_def)
  consider "x < 0" | "x = 0" | "0 < x" by linarith
  then show ?thesis
  proof cases
    case 1
    then show ?thesis using p [of "- x"] n [of "round_pos (- x)"] by (simp add: is_float64_def fl64_def [of x])
  next
    case 2
    then show ?thesis by (simp add: is_float64_def fl64_def round_pos_def)
  next
    case 3
    then show ?thesis using p [of x] by (simp add: is_float64_def fl64_def [of x])
  qed
qed

lemma fl64_of_int: "\<bar>m\<bar> < 2 ^ 53 \<Longrightarrow> fl64 (of_int m) = of_int m"
  using fl64_dyadic [of m 0] by simp

lemma fl64_0 [simp]: "fl64 0 = 0"
  by (simp add: fl64_def round_pos_def)

lemma fl64_nonneg: "0 \<le> x \<Longrightarrow> 0 \<le> fl64 x"
  using fl64_mono [of 0 x] by simp

lemma fl64_minus: "fl64 (- x) = - fl64 x"
  by (simp add: fl64_def round_pos_def)

text \<open>Rounding is bounded by any representable bound of its argument.\<close>

lemma fl64_le_float: "x \<le> c \<Longrightarrow> is_float64 c \<Longrightarrow> fl64 x \<le> c"
  using fl64_mono [of x c] by (simp add: is_float64_def)

lemma fl64_ge_float: "c \<le> x \<Longrightarrow> is_float64 c \<Longrightarrow> c \<le> fl64 x"
  using fl64_mono [of c x] by (simp add: is_float64_def)

lemma is_float64_of_int: "\<bar>m\<bar> < 2 ^ 53 \<Longrightarrow> is_float64 (of_int m)"
  by (simp add: is_float64_def fl64_of_int)

lemma is_float64_dyadic: "\<bar>m\<bar> < 2 ^ 53 \<Longrightarrow> - 1074 \<le> k \<Longrightarrow> is_float64 (of_int m * 2 powi k)"
  by (simp add: is_float64_def fl64_dyadic)

end
