(* ===== verification/Protocol.thy ===== *)
theory Protocol
  imports Go_Time Byte_Order Go_Base64 Go_Float
begin

text \<open>
  \<open>internal/protocol/protocol.go\<close>: the datagram header, the two handshake messages, the DATA
  payload, the AEAD framing, key derivation and the textual forms of keys and client identifiers.
  The primitives of Go's \<open>crypto\<close> packages are the fields of \<open>crypto\<close>; everything the package
  builds from them is modelled.
\<close>

section \<open>Cryptographic primitives\<close>

text \<open>HMAC-SHA256 returns 32 bytes, carried as a 256-bit word. AES-256-GCM is a pair of functions of
  key, nonce, text and additional data; \<open>gcm_laws\<close> states what GCM's documentation promises: the
  ciphertext is the plaintext's length plus the tag, and opening succeeds exactly on the sealing of
  the result under the same key, nonce and additional data.\<close>

record crypto =
  hmac_sha256 :: "bytes \<Rightarrow> bytes \<Rightarrow> 256 word"
  gcm_seal :: "bytes \<Rightarrow> bytes \<Rightarrow> bytes \<Rightarrow> bytes \<Rightarrow> bytes"
  gcm_open :: "bytes \<Rightarrow> bytes \<Rightarrow> bytes \<Rightarrow> bytes \<Rightarrow> bytes option"

definition gcm_laws :: "crypto \<Rightarrow> bool" where
  "gcm_laws C \<longleftrightarrow>
     (\<forall>k n p a. length (gcm_seal C k n p a) = length p + 16) \<and>
     (\<forall>k n c a p. gcm_open C k n c a = Some p \<longleftrightarrow> c = gcm_seal C k n p a)"

lemma gcm_open_iff: "gcm_laws C \<Longrightarrow> gcm_open C k n c a = Some p \<longleftrightarrow> c = gcm_seal C k n p a"
  by (simp add: gcm_laws_def)

lemma length_gcm_seal: "gcm_laws C \<Longrightarrow> length (gcm_seal C k n p a) = length p + 16"
  by (simp add: gcm_laws_def)

lemma gcm_open_seal: "gcm_laws C \<Longrightarrow> gcm_open C k n (gcm_seal C k n p a) a = Some p"
  by (simp add: gcm_open_iff)

text \<open>A concrete pair of primitives that satisfies the laws, for the closed examples.\<close>

definition example_tag :: "bytes \<Rightarrow> bytes \<Rightarrow> bytes \<Rightarrow> bytes" where
  "example_tag k n a = take 16 (k @ n @ a @ replicate 16 0)"

definition example_crypto :: crypto where
  "example_crypto =
     \<lparr> hmac_sha256 = (\<lambda>k m. get_be (take 16 k @ rev (take 16 (rev m)))),
       gcm_seal = (\<lambda>k n p a. p @ example_tag k n a),
       gcm_open = (\<lambda>k n c a.
         if 16 \<le> length c \<and> drop (length c - 16) c = example_tag k n a
         then Some (take (length c - 16) c) else None) \<rparr>"

lemma length_example_tag [simp]: "length (example_tag k n a) = 16"
  by (simp add: example_tag_def)

lemma gcm_laws_example [simp]: "gcm_laws example_crypto"
proof -
  have "(if 16 \<le> length c \<and> drop (length c - 16) c = t then Some (take (length c - 16) c) else None) = Some p
      \<longleftrightarrow> c = p @ t" if "length t = 16" for c p t :: bytes
    using that by (auto simp: append_eq_conv_conj split: if_splits) (metis append_same_eq append_take_drop_id)
  then show ?thesis by (simp add: gcm_laws_def example_crypto_def)
qed

section \<open>Constants\<close>

abbreviation (input) Version :: byte where "Version \<equiv> 1"
abbreviation (input) HeaderSize :: nat where "HeaderSize \<equiv> 28"
abbreviation (input) TagSize :: nat where "TagSize \<equiv> 16"
abbreviation (input) MaxDatagram :: nat where "MaxDatagram \<equiv> 64 * 1024"
abbreviation (input) MaxPayload :: nat where "MaxPayload \<equiv> MaxDatagram - HeaderSize - TagSize"
abbreviation (input) MaxDataPayload :: nat where "MaxDataPayload \<equiv> MaxPayload - 8"
abbreviation (input) helloV1FixedSize :: nat where "helloV1FixedSize \<equiv> 16 + 16 + 8 + 2 + 1 + 32"
abbreviation (input) helloV2FixedSize :: nat where "helloV2FixedSize \<equiv> 16 + 16 + 16 + 8 + 2 + 1 + 32"
abbreviation (input) welcomeSize :: nat where "welcomeSize \<equiv> 16 + 16 + 8 + 32"

definition HandshakeSkew :: duration where
  "HandshakeSkew = 2 * minute"

definition magic :: bytes where
  "magic = [0x4C, 0x46, 0x4D, 0x50]"

datatype proto_error =
    ErrBadPacket | ErrAuth | ErrReplay | ErrClockSkew | ErrVersion | ErrPayloadTooBig
  | ErrPathName | ErrInstanceNonce | ErrRandom | ErrKey | ErrClientID

text \<open>A packet type is any byte; the constants name the ones in use.\<close>

type_synonym packet_type = byte

abbreviation (input) TypeHello :: packet_type where "TypeHello \<equiv> 1"
abbreviation (input) TypeWelcome :: packet_type where "TypeWelcome \<equiv> 2"
abbreviation (input) TypeData :: packet_type where "TypeData \<equiv> 3"
abbreviation (input) TypePing :: packet_type where "TypePing \<equiv> 4"
abbreviation (input) TypePong :: packet_type where "TypePong \<equiv> 5"
abbreviation (input) TypeProbe :: packet_type where "TypeProbe \<equiv> 6"
abbreviation (input) TypeProbeReply :: packet_type where "TypeProbeReply \<equiv> 7"
abbreviation (input) TypeClose :: packet_type where "TypeClose \<equiv> 8"

datatype direction = ClientToServer | ServerToClient

section \<open>The datagram header\<close>

record header =
  h_type :: packet_type
  h_flags :: u16
  h_session :: u64
  h_path :: u32
  h_seq :: u64

definition marshal_header :: "header \<Rightarrow> bytes" where
  "marshal_header h =
     magic @ [Version, h_type h] @ put_uint16 (h_flags h) @ put_uint64 (h_session h)
     @ put_uint32 (h_path h) @ put_uint64 (h_seq h)"

definition parse_header :: "bytes \<Rightarrow> proto_error + header" where
  "parse_header packet =
     (if length packet < HeaderSize \<or> slice 0 4 packet \<noteq> magic then Inl ErrBadPacket
      else if packet ! 4 \<noteq> Version then Inl ErrVersion
      else Inr \<lparr> h_type = packet ! 5, h_flags = get_uint16 (slice 6 8 packet),
                 h_session = get_uint64 (slice 8 16 packet), h_path = get_uint32 (slice 16 20 packet),
                 h_seq = get_uint64 (slice 20 28 packet) \<rparr>)"

definition is_handshake :: "packet_type \<Rightarrow> bool" where
  "is_handshake t \<longleftrightarrow> t = TypeHello \<or> t = TypeWelcome"

definition marshal_plain :: "header \<Rightarrow> bytes \<Rightarrow> proto_error + bytes" where
  "marshal_plain h payload =
     (if MaxPayload < length payload then Inl ErrPayloadTooBig else Inr (marshal_header h @ payload))"

definition plain_payload :: "bytes \<Rightarrow> proto_error + bytes" where
  "plain_payload packet = (if length packet < HeaderSize then Inl ErrBadPacket else Inr (drop HeaderSize packet))"

lemma length_magic [simp]: "length magic = 4"
  by (simp add: magic_def)

lemma length_marshal_header [simp, wire_len]: "length (marshal_header h) = HeaderSize"
  by (simp add: marshal_header_def)

lemmas slice_simps = slice_append_left slice_append_right slice_all

lemma parse_marshal_header [simp]: "parse_header (marshal_header h @ rest) = Inr h"
  by (simp add: parse_header_def marshal_header_def magic_def nth_append slice_def)

lemma marshal_parse_header:
  assumes "parse_header b = Inr h"
  shows "marshal_header h = take HeaderSize b"
proof -
  from assms have len: "HeaderSize \<le> length b" and m: "slice 0 4 b = magic" and v: "b ! 4 = Version"
    by (auto simp: parse_header_def split: if_splits)
  from assms have h: "h = \<lparr> h_type = b ! 5, h_flags = get_uint16 (slice 6 8 b),
      h_session = get_uint64 (slice 8 16 b), h_path = get_uint32 (slice 16 20 b), h_seq = get_uint64 (slice 20 28 b) \<rparr>"
    by (auto simp: parse_header_def split: if_splits)
  have two: "[b ! 4, b ! 5] = slice 4 6 b"
    using slice_two [of 4 b] len by simp
  have "marshal_header h = slice 0 4 b @ slice 4 6 b @ slice 6 8 b @ slice 8 16 b @ slice 16 20 b @ slice 20 28 b"
    using len unfolding two [symmetric]
    by (simp add: marshal_header_def h m [symmetric] v u16c.put_get u32c.put_get u64c.put_get del: codec_lengths)
  also have "\<dots> = slice 0 HeaderSize b"
    by (simp add: slice_adjacent)
  also have "\<dots> = take HeaderSize b"
    by (simp add: slice_def)
  finally show ?thesis .
qed

section \<open>Message authentication\<close>

text \<open>\<open>sign\<close> writes the parts one after the other into one HMAC.\<close>

definition sign :: "crypto \<Rightarrow> bytes \<Rightarrow> bytes list \<Rightarrow> bytes" where
  "sign C key parts = put_be 32 (hmac_sha256 C key (concat parts))"

definition hello_v1_domain :: bytes where "hello_v1_domain = bytes_of_string ''linkforge/hello/v1''"
definition hello_v2_domain :: bytes where "hello_v2_domain = bytes_of_string ''linkforge/hello/v2''"
definition welcome_domain :: bytes where "welcome_domain = bytes_of_string ''linkforge/welcome/v1''"

lemma length_sign [simp, wire_len]: "length (sign C key parts) = 32"
  by (simp add: sign_def)

lemma sign_append: "sign C key [a, b] = put_be 32 (hmac_sha256 C key (a @ b))"
  by (simp add: sign_def)

section \<open>HELLO\<close>

record hello =
  hello_client_id :: bytes
  hello_instance_nonce :: bytes
  hello_nonce :: bytes
  hello_time :: gotime
  hello_path_name :: string
  hello_weight :: u16
  hello_wire_version :: byte

text \<open>A \<open>[16]byte\<close> array is a byte list of length 16; its zero value is sixteen zeros.\<close>

definition zero16 :: bytes where
  "zero16 = replicate 16 0"

definition wf_hello :: "hello \<Rightarrow> bool" where
  "wf_hello h \<longleftrightarrow> length (hello_client_id h) = 16 \<and> length (hello_instance_nonce h) = 16 \<and> length (hello_nonce h) = 16"

text \<open>\<open>uint16(weight*100 + 0.5)\<close>: two rounded float operations, then truncation; outside the range
  of the type the conversion keeps the low bits.\<close>

definition float_trunc :: "rat \<Rightarrow> int" where
  "float_trunc x = (if 0 \<le> x then \<lfloor>x\<rfloor> else \<lceil>x\<rceil>)"

definition wire_weight :: "rat \<Rightarrow> u16" where
  "wire_weight weight = word_of_int (float_trunc (fl64 (fl64 (weight * 100) + 1 / 2)))"

text \<open>\<open>rnd\<close> is what \<open>rand.Read\<close> fills the nonce with, \<open>None\<close> if it fails.\<close>

definition new_hello :: "bytes \<Rightarrow> bytes \<Rightarrow> string \<Rightarrow> rat \<Rightarrow> gotime \<Rightarrow> bytes option \<Rightarrow> proto_error + hello" where
  "new_hello clientID instanceNonce pathName weight now rnd =
     (if 63 < length pathName then Inl ErrPathName
      else if instanceNonce = zero16 then Inl ErrInstanceNonce
      else
        let w = wire_weight weight;
            ww = (if w = 0 then 100 else w)
        in case rnd of
             None \<Rightarrow> Inl ErrRandom
           | Some nonce \<Rightarrow>
               Inr \<lparr> hello_client_id = clientID, hello_instance_nonce = instanceNonce, hello_nonce = nonce,
                     hello_time = now, hello_path_name = pathName, hello_weight = ww,
                     hello_wire_version = 2 \<rparr>)"

definition hello_body :: "hello \<Rightarrow> bytes" where
  "hello_body h =
     hello_client_id h @ hello_instance_nonce h @ hello_nonce h
     @ put_uint64 (time_unix_u64 (hello_time h)) @ put_uint16 (hello_weight h)
     @ [of_nat (length (hello_path_name h))] @ bytes_of_string (hello_path_name h)"

definition marshal_hello :: "crypto \<Rightarrow> hello \<Rightarrow> bytes \<Rightarrow> proto_error + bytes" where
  "marshal_hello C h key =
     (if 63 < length (hello_path_name h) then Inl ErrPathName
      else if hello_instance_nonce h = zero16 then Inl ErrInstanceNonce
      else Inr (hello_body h @ sign C key [hello_v2_domain, hello_body h]))"

definition outside_skew :: "gotime \<Rightarrow> gotime \<Rightarrow> bool" where
  "outside_skew now t \<longleftrightarrow> (let delta = time_sub now t in HandshakeSkew < delta \<or> delta < - HandshakeSkew)"

definition parse_hello_v2 :: "crypto \<Rightarrow> bytes \<Rightarrow> bytes \<Rightarrow> gotime \<Rightarrow> proto_error + hello" where
  "parse_hello_v2 C b key now =
     (let macAt = length b - 32 in
      if sign C key [hello_v2_domain, take macAt b] \<noteq> drop macAt b then Inl ErrAuth
      else
        let h = \<lparr> hello_client_id = slice 0 16 b, hello_instance_nonce = slice 16 32 b,
                  hello_nonce = slice 32 48 b, hello_time = unix_time (get_uint64 (slice 48 56 b)),
                  hello_path_name = string_of_bytes (slice 59 macAt b),
                  hello_weight = get_uint16 (slice 56 58 b), hello_wire_version = 2 \<rparr>
        in if hello_instance_nonce h = zero16 \<or> hello_weight h = 0 then Inl ErrBadPacket
           else if outside_skew now (hello_time h) then Inl ErrClockSkew
           else Inr h)"

text \<open>Version 1 has no instance nonce: the field keeps the array's zero value.\<close>

definition parse_hello_v1 :: "crypto \<Rightarrow> bytes \<Rightarrow> bytes \<Rightarrow> gotime \<Rightarrow> proto_error + hello" where
  "parse_hello_v1 C b key now =
     (let macAt = length b - 32 in
      if sign C key [hello_v1_domain, take macAt b] \<noteq> drop macAt b then Inl ErrAuth
      else
        let h = \<lparr> hello_client_id = slice 0 16 b, hello_instance_nonce = zero16,
                  hello_nonce = slice 16 32 b, hello_time = unix_time (get_uint64 (slice 32 40 b)),
                  hello_path_name = string_of_bytes (slice 43 macAt b),
                  hello_weight = get_uint16 (slice 40 42 b), hello_wire_version = 1 \<rparr>
        in if hello_weight h = 0 then Inl ErrBadPacket
           else if outside_skew now (hello_time h) then Inl ErrClockSkew
           else Inr h)"

definition parse_hello :: "crypto \<Rightarrow> bytes \<Rightarrow> bytes \<Rightarrow> gotime \<Rightarrow> proto_error + hello" where
  "parse_hello C b key now =
     (if helloV2FixedSize \<le> length b \<and> length b = helloV2FixedSize + unat (b ! 58)
      then parse_hello_v2 C b key now
      else if length b < helloV1FixedSize then Inl ErrBadPacket
      else if length b \<noteq> helloV1FixedSize + unat (b ! 42) then Inl ErrBadPacket
      else parse_hello_v1 C b key now)"

section \<open>WELCOME\<close>

record welcome_msg =
  welcome_client_nonce :: bytes
  welcome_server_nonce :: bytes
  welcome_time :: gotime

definition new_welcome :: "bytes \<Rightarrow> gotime \<Rightarrow> bytes option \<Rightarrow> proto_error + welcome_msg" where
  "new_welcome clientNonce now rnd =
     (case rnd of
        None \<Rightarrow> Inl ErrRandom
      | Some nonce \<Rightarrow> Inr \<lparr> welcome_client_nonce = clientNonce, welcome_server_nonce = nonce, welcome_time = now \<rparr>)"

definition welcome_body :: "welcome_msg \<Rightarrow> bytes" where
  "welcome_body w = welcome_client_nonce w @ welcome_server_nonce w @ put_uint64 (time_unix_u64 (welcome_time w))"

definition marshal_welcome :: "crypto \<Rightarrow> welcome_msg \<Rightarrow> bytes \<Rightarrow> header \<Rightarrow> bytes" where
  "marshal_welcome C w key h =
     welcome_body w @ sign C key [welcome_domain, marshal_header h @ welcome_body w]"

definition parse_welcome :: "crypto \<Rightarrow> bytes \<Rightarrow> bytes \<Rightarrow> header \<Rightarrow> bytes \<Rightarrow> gotime \<Rightarrow> proto_error + welcome_msg" where
  "parse_welcome C b key h expectedNonce now =
     (if length b \<noteq> welcomeSize then Inl ErrBadPacket
      else if sign C key [welcome_domain, marshal_header h @ take 40 b] \<noteq> drop 40 b then Inl ErrAuth
      else
        let w = \<lparr> welcome_client_nonce = slice 0 16 b, welcome_server_nonce = slice 16 32 b,
                  welcome_time = unix_time (get_uint64 (slice 32 40 b)) \<rparr>
        in if welcome_client_nonce w \<noteq> expectedNonce then Inl ErrAuth
           else if outside_skew now (welcome_time w) then Inl ErrClockSkew
           else Inr w)"

section \<open>DATA\<close>

definition marshal_data :: "u64 \<Rightarrow> bytes \<Rightarrow> proto_error + bytes" where
  "marshal_data seq ipPacket =
     (if MaxDataPayload < length ipPacket then Inl ErrPayloadTooBig else Inr (put_uint64 seq @ ipPacket))"

definition parse_data :: "bytes \<Rightarrow> proto_error + u64 \<times> bytes" where
  "parse_data payload =
     (if length payload < 9 then Inl ErrBadPacket
      else let seq = get_uint64 (take 8 payload) in
        if seq = 0 then Inl ErrBadPacket else Inr (seq, drop 8 payload))"

section \<open>Path keys and the AEAD framing\<close>

text \<open>RFC 5869: extract, then expand block by block until enough bytes are there. The counter is one
  byte and wraps.\<close>

function hkdf_expand :: "crypto \<Rightarrow> bytes \<Rightarrow> bytes \<Rightarrow> nat \<Rightarrow> byte \<Rightarrow> bytes \<Rightarrow> bytes \<Rightarrow> bytes" where
  "hkdf_expand C prk info len counter previous result =
     (if length result < len then
        let block = put_be 32 (hmac_sha256 C prk (previous @ info @ [counter]))
        in hkdf_expand C prk info len (counter + 1) block (result @ block)
      else result)"
  by pat_completeness auto
termination
  by (relation "measure (\<lambda>(C, prk, info, len, counter, previous, result). len - length result)") auto

declare hkdf_expand.simps [simp del]

definition hkdf_sha256 :: "crypto \<Rightarrow> bytes \<Rightarrow> bytes \<Rightarrow> bytes \<Rightarrow> nat \<Rightarrow> bytes" where
  "hkdf_sha256 C secret salt info len =
     (let prk = put_be 32 (hmac_sha256 C salt secret)
      in take len (hkdf_expand C prk info len 1 [] []))"

text \<open>The AEAD of a path is its AES-256 key: \<open>aes.NewCipher\<close> and \<open>cipher.NewGCM\<close> accept every
  32-byte key, and 32 bytes are what is derived.\<close>

definition path_key_salt :: "bytes \<Rightarrow> bytes \<Rightarrow> bytes" where
  "path_key_salt clientNonce serverNonce = clientNonce @ serverNonce"

definition path_key_info :: "u64 \<Rightarrow> u32 \<Rightarrow> bytes" where
  "path_key_info sessionID pathID =
     take 24 (bytes_of_string ''linkforge/path-key/v1'' @ replicate 24 0) @ put_uint64 sessionID @ put_uint32 pathID"

definition new_aead :: "crypto \<Rightarrow> bytes \<Rightarrow> bytes \<Rightarrow> bytes \<Rightarrow> u64 \<Rightarrow> u32 \<Rightarrow> bytes" where
  "new_aead C psk clientNonce serverNonce sessionID pathID =
     hkdf_sha256 C psk (path_key_salt clientNonce serverNonce) (path_key_info sessionID pathID) 32"

text \<open>Bit 31 of the path identifier in a nonce is the direction.\<close>

definition direction_bit :: u32 where
  "direction_bit = push_bit 31 1"

definition packet_nonce :: "u32 \<Rightarrow> u64 \<Rightarrow> direction \<Rightarrow> bytes" where
  "packet_nonce pathID seq dir =
     put_uint32 (if dir = ServerToClient then pathID OR direction_bit else pathID AND NOT direction_bit)
     @ put_uint64 seq"

definition seal :: "crypto \<Rightarrow> bytes \<Rightarrow> header \<Rightarrow> direction \<Rightarrow> bytes \<Rightarrow> proto_error + bytes" where
  "seal C key h dir plaintext =
     (if MaxPayload < length plaintext then Inl ErrPayloadTooBig
      else let aad = marshal_header h; nonce = packet_nonce (h_path h) (h_seq h) dir
           in Inr (aad @ gcm_seal C key nonce plaintext aad))"

definition open_packet :: "crypto \<Rightarrow> bytes \<Rightarrow> header \<Rightarrow> direction \<Rightarrow> bytes \<Rightarrow> proto_error + bytes" where
  "open_packet C key h dir packet =
     (if length packet < HeaderSize + TagSize then Inl ErrBadPacket
      else case gcm_open C key (packet_nonce (h_path h) (h_seq h) dir) (drop HeaderSize packet) (take HeaderSize packet) of
             None \<Rightarrow> Inl ErrAuth
           | Some plaintext \<Rightarrow> Inr plaintext)"

section \<open>Keys and identifiers as text\<close>

definition parse_key :: "string \<Rightarrow> proto_error + bytes" where
  "parse_key value =
     (let v = trim_space value in
      if v = [] then Inl ErrKey
      else case b64_decode std_alphabet True v of
             Some b \<Rightarrow> if length b = 32 then Inr b
                       else (case hex_decode v of Some b' \<Rightarrow> if length b' = 32 then Inr b' else Inl ErrKey | None \<Rightarrow> Inl ErrKey)
           | None \<Rightarrow> (case hex_decode v of Some b' \<Rightarrow> if length b' = 32 then Inr b' else Inl ErrKey | None \<Rightarrow> Inl ErrKey))"

definition generate_key :: "bytes option \<Rightarrow> proto_error + string" where
  "generate_key rnd = (case rnd of None \<Rightarrow> Inl ErrRandom | Some b \<Rightarrow> Inr (b64_encode std_alphabet True b))"

definition generate_client_id :: "bytes option \<Rightarrow> proto_error + string" where
  "generate_client_id rnd =
     (case rnd of
        None \<Rightarrow> Inl ErrRandom
      | Some b \<Rightarrow>
          let b1 = b[6 := (b ! 6 AND 0x0F) OR 0x40];
              b2 = b1[8 := (b1 ! 8 AND 0x3F) OR 0x80]
          in Inr (hex_encode b2))"

definition parse_client_id :: "string \<Rightarrow> proto_error + bytes" where
  "parse_client_id value =
     (case hex_decode (remove_dashes (trim_space value)) of
        Some b \<Rightarrow> if length b = 16 then Inr b else Inl ErrClientID
      | None \<Rightarrow> Inl ErrClientID)"

definition client_id_string :: "bytes \<Rightarrow> string" where
  "client_id_string cid = hex_encode cid"

end
