(* ===== verification/Protocol_Facts.thy ===== *)
theory Protocol_Facts
  imports Protocol
begin

text \<open>
  What the wire protocol of \<open>Protocol\<close> guarantees: the messages survive the wire, an accepted
  handshake message is fresh and authenticated under its own domain, an opened packet is exactly a
  sealed one, and no two packets of a path share an AEAD nonce.
\<close>

section \<open>Framing\<close>

text \<open>A datagram is a fixed-size authenticated prefix and a payload. The prefix parses back whatever
  follows it, and whatever parses is the prefix's encoding.\<close>

locale framing =
  fixes marshal :: "'h \<Rightarrow> bytes" and parse :: "bytes \<Rightarrow> 'e + 'h" and size :: nat
  assumes length_marshal: "length (marshal h) = size"
    and parse_marshal: "parse (marshal h @ rest) = Inr h"
    and marshal_parse: "parse b = Inr h \<Longrightarrow> marshal h = take size b"
begin

lemma payload: "drop size (marshal h @ p) = p"
  by (simp add: length_marshal)

lemma prefix_of: "take size (marshal h @ p) = marshal h"
  by (simp add: length_marshal)

lemma parsed_split: "parse b = Inr h \<Longrightarrow> b = marshal h @ drop size b"
  by (simp add: marshal_parse)

lemma marshal_inject: "marshal h = marshal k \<Longrightarrow> h = k"
  by (metis append_Nil2 parse_marshal sum.inject(2))

lemma frame_inject: "marshal h @ p = marshal k @ q \<longleftrightarrow> h = k \<and> p = q"
  by (metis append_eq_append_conv length_marshal marshal_inject)

end

interpretation hdr: framing marshal_header parse_header HeaderSize
  by unfold_locales (auto dest: marshal_parse_header)

lemma parse_header_length: "parse_header b = Inr h \<Longrightarrow> HeaderSize \<le> length b"
  by (auto simp: parse_header_def split: if_splits)

section \<open>Freshness of the handshake\<close>

lemma outside_skew_iff: "outside_skew now t \<longleftrightarrow> 2 * minute < \<bar>now - t\<bar>"
proof -
  have d: "\<bar>HandshakeSkew\<bar> < 2 ^ 62" "\<bar>- HandshakeSkew\<bar> < 2 ^ 62"
    by (simp_all add: HandshakeSkew_def minute_def)
  show ?thesis
    using time_sub_gr_iff [OF d(1), of now t] time_sub_less_iff [OF d(2), of now t]
    by (auto simp: outside_skew_def Let_def HandshakeSkew_def)
qed

lemmas parse_hello_defs = parse_hello_def parse_hello_v2_def parse_hello_v1_def

lemma parse_hello_fresh: "parse_hello C b key now = Inr h \<Longrightarrow> \<not> outside_skew now (hello_time h)"
  by (auto simp: parse_hello_defs Let_def split: if_splits)

lemma parse_hello_mac:
  assumes "parse_hello C b key now = Inr h"
  defines "d \<equiv> if hello_wire_version h = 2 then hello_v2_domain else hello_v1_domain"
  shows "hello_wire_version h \<in> {1, 2}" and "32 \<le> length b"
    and "drop (length b - 32) b = sign C key [d, take (length b - 32) b]"
  using assms by (auto simp: parse_hello_defs Let_def split: if_splits)

section \<open>Round trips\<close>

lemma length_hello_body: "wf_hello h \<Longrightarrow> length (hello_body h) = 59 + length (hello_path_name h)"
  by (simp add: wf_hello_def hello_body_def)

lemma hello_body_fields:
  fixes h :: hello and tag :: bytes
  assumes wf: "wf_hello h" and n: "length (hello_path_name h) \<le> 63"
  defines "b \<equiv> hello_body h @ tag"
  shows "slice 0 16 b = hello_client_id h" "slice 16 32 b = hello_instance_nonce h" "slice 32 48 b = hello_nonce h"
    "slice 48 56 b = put_uint64 (time_unix_u64 (hello_time h))" "slice 56 58 b = put_uint16 (hello_weight h)"
    "b ! 58 = of_nat (length (hello_path_name h))"
    "slice 59 (59 + length (hello_path_name h)) b = bytes_of_string (hello_path_name h)"
  using wf n by (auto simp: b_def hello_body_def wf_hello_def slice_simps nth_append)

lemma parse_marshal_hello:
  assumes wf: "wf_hello h" and v: "hello_wire_version h = 2" and w: "hello_weight h \<noteq> 0"
    and t: "wire_time (hello_time h)" and fresh: "\<bar>now - truncate_second (hello_time h)\<bar> \<le> 2 * minute"
    and m: "marshal_hello C h key = Inr b"
  shows "parse_hello C b key now = Inr (h\<lparr>hello_time := truncate_second (hello_time h)\<rparr>)"
proof -
  define body where "body = hello_body h"
  define tag where "tag = sign C key [hello_v2_domain, body]"
  from m have n: "length (hello_path_name h) \<le> 63" and inz: "hello_instance_nonce h \<noteq> zero16" and b: "b = body @ tag"
    by (auto simp: marshal_hello_def body_def tag_def split: if_splits)
  note f = hello_body_fields [OF wf n, of tag, folded body_def, folded b]
  have len: "length body = 59 + length (hello_path_name h)" "length tag = 32"
    using length_hello_body [OF wf] by (simp_all add: body_def tag_def)
  have "unat (of_nat (length (hello_path_name h)) :: byte) = length (hello_path_name h)"
    using n by (simp add: unat_of_nat)
  then have "helloV2FixedSize \<le> length b \<and> length b = helloV2FixedSize + unat (b ! 58)"
    using len f(6) by (simp add: b)
  then have "parse_hello C b key now = parse_hello_v2 C b key now" by (simp add: parse_hello_def)
  also have "\<dots> = Inr (h\<lparr>hello_time := truncate_second (hello_time h)\<rparr>)"
  proof -
    have "take (length b - 32) b = body" "drop (length b - 32) b = tag" using len by (simp_all add: b)
    moreover have "length b - 32 = 59 + length (hello_path_name h)" using len by (simp add: b)
    ultimately show ?thesis
      using f inz w fresh v
      by (simp add: parse_hello_v2_def tag_def unix_time_roundtrip [OF t] outside_skew_iff)
  qed
  finally show ?thesis .
qed

text \<open>C39: A version 2 HELLO that the client marshals is what the relay parses under the same key: every field
  comes back (the time cut to whole seconds), as long as the clocks differ by at most two minutes.\<close>

theorem hello_roundtrip:
  assumes wf: "wf_hello h" and v: "hello_wire_version h = 2" and w: "hello_weight h \<noteq> 0"
    and t: "wire_time (hello_time h)" and fresh: "\<bar>now - truncate_second (hello_time h)\<bar> \<le> 2 * minute"
    and m: "marshal_hello C h key = Inr b"
  shows "parse_hello C b key now = Inr (h\<lparr>hello_time := truncate_second (hello_time h)\<rparr>)"
  using assms by (rule parse_marshal_hello)

lemma parse_marshal_welcome:
  assumes "length (welcome_client_nonce w) = 16" "length (welcome_server_nonce w) = 16"
    and t: "wire_time (welcome_time w)" and fresh: "\<bar>now - truncate_second (welcome_time w)\<bar> \<le> 2 * minute"
  shows "parse_welcome C (marshal_welcome C w key h) key h (welcome_client_nonce w) now
    = Inr (w\<lparr>welcome_time := truncate_second (welcome_time w)\<rparr>)"
  using assms
  by (simp add: parse_welcome_def marshal_welcome_def welcome_body_def slice_simps outside_skew_iff
      unix_time_roundtrip [OF t])

text \<open>A WELCOME that the relay marshals parses, within the allowed clock skew, to the same message with
  its time cut to whole seconds.\<close>

theorem welcome_roundtrip:
  assumes "length (welcome_client_nonce w) = 16" "length (welcome_server_nonce w) = 16"
    and "wire_time (welcome_time w)" and "\<bar>now - truncate_second (welcome_time w)\<bar> \<le> 2 * minute"
  shows "parse_welcome C (marshal_welcome C w key h) key h (welcome_client_nonce w) now
    = Inr (w\<lparr>welcome_time := truncate_second (welcome_time w)\<rparr>)"
  using assms by (rule parse_marshal_welcome)

lemma data_roundtrip:
  "seq \<noteq> 0 \<Longrightarrow> p \<noteq> [] \<Longrightarrow> marshal_data seq p = Inr b \<Longrightarrow> parse_data b = Inr (seq, p)"
  by (cases p) (auto simp: marshal_data_def parse_data_def split: if_splits)

section \<open>The AEAD framing\<close>

lemma open_seal:
  assumes C: "gcm_laws C" and s: "seal C key h d p = Inr b"
  shows "parse_header b = Inr h \<and> open_packet C key h d b = Inr p"
  using s length_gcm_seal [OF C] gcm_open_seal [OF C]
  by (auto simp: seal_def open_packet_def Let_def split: if_splits)

lemma open_packet_sealed:
  assumes C: "gcm_laws C" and h: "parse_header b = Inr h" and o: "open_packet C key h d b = Inr p"
  shows "b = marshal_header h @ gcm_seal C key (packet_nonce (h_path h) (h_seq h) d) p (marshal_header h)"
proof -
  have "drop HeaderSize b = gcm_seal C key (packet_nonce (h_path h) (h_seq h) d) p (take HeaderSize b)"
    using o by (auto simp: open_packet_def gcm_open_iff [OF C] split: if_splits option.splits)
  then show ?thesis
    using hdr.marshal_parse [OF h] by (metis append_take_drop_id)
qed

text \<open>Opening a datagram under a header and a direction succeeds with a payload exactly when the datagram
  is the sealing of that payload under the same key, header and direction; so no header field of an accepted packet
  can have been altered.\<close>

theorem open_iff_sealed:
  assumes C: "gcm_laws C" and len: "length b \<le> MaxDatagram"
  shows "parse_header b = Inr h \<and> open_packet C key h d b = Inr p \<longleftrightarrow> seal C key h d p = Inr b"
proof
  assume a: "parse_header b = Inr h \<and> open_packet C key h d b = Inr p"
  then have b: "b = marshal_header h @ gcm_seal C key (packet_nonce (h_path h) (h_seq h) d) p (marshal_header h)"
    using open_packet_sealed [OF C] by blast
  then have "length b = HeaderSize + (length p + 16)" by (simp add: length_gcm_seal [OF C])
  then have "length p \<le> MaxPayload" using len by simp
  with b show "seal C key h d p = Inr b" by (simp add: seal_def Let_def)
next
  assume "seal C key h d p = Inr b"
  then show "parse_header b = Inr h \<and> open_packet C key h d b = Inr p" by (rule open_seal [OF C])
qed

section \<open>Nonces\<close>

lemma high_bit_clear: "p < 2 ^ 31 \<Longrightarrow> \<not> bit p 31" for p :: u32
  by (simp add: bit_iff_odd div_word_less)

lemma bit_direction_bit [simp]: "bit direction_bit n \<longleftrightarrow> n = 31"
  unfolding direction_bit_def bit_push_bit_iff bit_1_iff possible_bit_word by auto

lemma path_bits:
  fixes p q :: u32
  assumes p: "p < 2 ^ 31" and q: "q < 2 ^ 31"
  shows path_bits_clear: "p AND NOT direction_bit = p"
    and path_bits_set: "p OR direction_bit = q OR direction_bit \<longleftrightarrow> p = q"
    and path_bits_differ: "p OR direction_bit \<noteq> q AND NOT direction_bit"
proof -
  show "p AND NOT direction_bit = p"
    by (rule bit_word_eqI) (use high_bit_clear [OF p] in \<open>auto simp: bit_simps\<close>)
  show "p OR direction_bit = q OR direction_bit \<longleftrightarrow> p = q"
  proof
    assume e: "p OR direction_bit = q OR direction_bit"
    show "p = q"
    proof (rule bit_word_eqI)
      fix n assume "n < LENGTH(32)"
      have "bit (p OR direction_bit) n = bit (q OR direction_bit) n" by (simp only: e)
      then show "bit p n = bit q n"
        using high_bit_clear [OF p] high_bit_clear [OF q] \<open>n < LENGTH(32)\<close>
        by (cases "n = 31") (auto simp: bit_simps)
    qed
  qed simp
  show "p OR direction_bit \<noteq> q AND NOT direction_bit"
  proof
    assume "p OR direction_bit = q AND NOT direction_bit"
    then have "bit (p OR direction_bit) 31 = bit (q AND NOT direction_bit) 31" by simp
    then show False by (simp add: bit_simps)
  qed
qed

text \<open>Two packets under one path key use the same AEAD nonce only if path, packet number and direction are
  all the same (path numbers stay below 2^31, the top bit marks the direction).\<close>

theorem packet_nonce_unique:
  assumes "p < 2 ^ 31" "q < 2 ^ 31"
  shows "packet_nonce p s d = packet_nonce q t e \<longleftrightarrow> p = q \<and> s = t \<and> d = e"
  using path_bits [OF assms] path_bits [OF assms(2,1)]
  by (cases d; cases e) (auto simp: packet_nonce_def u32c.put_append_inject path_bits_clear assms)

section \<open>Authentication of the handshake\<close>

text \<open>The three MAC inputs of the protocol never coincide, so a tag made for one kind of message says
  nothing about another.\<close>

lemma domains_distinct:
  "hello_v1_domain @ x \<noteq> hello_v2_domain @ y" "hello_v1_domain @ x \<noteq> welcome_domain @ y"
  "hello_v2_domain @ x \<noteq> welcome_domain @ y"
  by (auto simp: hello_v1_domain_def hello_v2_domain_def welcome_domain_def bytes_of_string_def)

text \<open>An accepted HELLO is authentic and fresh: its MAC verifies under the client's key and the domain of its
  version, its time is within two minutes of the clock, its weight is not zero and its identifiers have their size.\<close>

theorem hello_accepted:
  assumes "parse_hello C b key now = Inr h"
  shows "\<bar>now - hello_time h\<bar> \<le> 2 * minute \<and> hello_weight h \<noteq> 0 \<and> wf_hello h
    \<and> (hello_wire_version h = 2 \<and> hello_instance_nonce h \<noteq> zero16
         \<and> drop (length b - 32) b = sign C key [hello_v2_domain, take (length b - 32) b]
       \<or> hello_wire_version h = 1
         \<and> drop (length b - 32) b = sign C key [hello_v1_domain, take (length b - 32) b])"
proof -
  have "wf_hello h \<and> hello_weight h \<noteq> 0 \<and> (hello_wire_version h = 2 \<longrightarrow> hello_instance_nonce h \<noteq> zero16)"
    using assms by (auto simp: parse_hello_defs Let_def wf_hello_def zero16_def split: if_splits)
  moreover have "\<bar>now - hello_time h\<bar> \<le> 2 * minute"
    using parse_hello_fresh [OF assms] by (simp add: outside_skew_iff)
  ultimately show ?thesis
    using parse_hello_mac [OF assms] by auto
qed

text \<open>A client accepts only a WELCOME that answers its own nonce, carries a valid MAC over the header and the
  body, and is at most two minutes away from its clock.\<close>

theorem welcome_accepted:
  assumes "parse_welcome C b key h nonce now = Inr w"
  shows "welcome_client_nonce w = nonce \<and> \<bar>now - welcome_time w\<bar> \<le> 2 * minute
    \<and> length (welcome_server_nonce w) = 16
    \<and> drop 40 b = sign C key [welcome_domain, marshal_header h @ take 40 b]"
  using assms by (auto simp: parse_welcome_def Let_def outside_skew_iff split: if_splits)

section \<open>Key derivation\<close>

text \<open>RFC 5869's output key material: the blocks \<open>T(1), T(2), \<dots>\<close> with \<open>T(0)\<close> empty.\<close>

fun hkdf_T :: "crypto \<Rightarrow> bytes \<Rightarrow> bytes \<Rightarrow> nat \<Rightarrow> bytes" where
  "hkdf_T C prk info 0 = []"
| "hkdf_T C prk info (Suc n) =
     put_be 32 (hmac_sha256 C prk (hkdf_T C prk info n @ info @ [of_nat (Suc n)]))"

definition hkdf_blocks :: "crypto \<Rightarrow> bytes \<Rightarrow> bytes \<Rightarrow> nat \<Rightarrow> bytes" where
  "hkdf_blocks C prk info n = concat (map (\<lambda>i. hkdf_T C prk info (Suc i)) [0..<n])"

lemma hkdf_blocks_Suc: "hkdf_blocks C prk info (Suc n) = hkdf_blocks C prk info n @ hkdf_T C prk info (Suc n)"
  by (simp add: hkdf_blocks_def)

lemma length_hkdf_blocks [simp]: "length (hkdf_blocks C prk info n) = 32 * n"
  by (induction n) (simp_all add: hkdf_blocks_Suc, simp add: hkdf_blocks_def)

lemma hkdf_expand_blocks:
  assumes "32 * n < len + 32" "len \<le> 32 * n" "i \<le> n"
  shows "hkdf_expand C prk info len (of_nat (Suc i)) (hkdf_T C prk info i) (hkdf_blocks C prk info i)
    = hkdf_blocks C prk info n"
  using assms(3)
proof (induction "n - i" arbitrary: i)
  case 0
  with assms show ?case by (simp add: hkdf_expand.simps)
next
  case (Suc d)
  then have i: "Suc i \<le> n" "d = n - Suc i" by auto
  with assms have "length (hkdf_blocks C prk info i) < len" by simp
  then have "hkdf_expand C prk info len (of_nat (Suc i)) (hkdf_T C prk info i) (hkdf_blocks C prk info i)
    = hkdf_expand C prk info len (of_nat (Suc (Suc i))) (hkdf_T C prk info (Suc i)) (hkdf_blocks C prk info (Suc i))"
    by (subst hkdf_expand.simps) (simp add: hkdf_blocks_Suc add_ac Let_def)
  also have "\<dots> = hkdf_blocks C prk info n" by (rule Suc.hyps(1) [OF i(2) i(1)])
  finally show ?case .
qed

text \<open>The hand-written key derivation is HKDF-SHA256 of RFC 5869: extract with the salt, then the first
  \<open>len\<close> bytes of the blocks \<open>T(1), T(2), \<dots>\<close>.\<close>

theorem hkdf_rfc5869:
  "hkdf_sha256 C secret salt info len =
     take len (hkdf_blocks C (put_be 32 (hmac_sha256 C salt secret)) info ((len + 31) div 32))"
proof -
  have "32 * ((len + 31) div 32) < len + 32" "len \<le> 32 * ((len + 31) div 32)" by presburger+
  from hkdf_expand_blocks [OF this, of 0]
  show ?thesis by (simp add: hkdf_sha256_def hkdf_blocks_def Let_def)
qed

lemma length_hkdf: "length (hkdf_sha256 C secret salt info len) = len"
proof -
  have "len \<le> 32 * ((len + 31) div 32)" by presburger
  then show ?thesis by (simp add: hkdf_rfc5869)
qed

lemma length_new_aead [simp]: "length (new_aead C psk cn sn sid pid) = 32"
  by (simp add: new_aead_def length_hkdf)

text \<open>Different sessions or paths derive their keys from different HKDF inputs.\<close>

lemma length_path_label: "length (take 24 (bytes_of_string ''linkforge/path-key/v1'' @ replicate 24 0)) = 24"
  by simp

text \<open>Two paths feed the same salt and info into the key derivation only if client nonce, relay nonce,
  session and path number are all the same.\<close>

theorem path_key_inputs_unique:
  assumes "length cn = 16" "length cn' = 16"
  shows "path_key_salt cn sn = path_key_salt cn' sn' \<and> path_key_info sid pid = path_key_info sid' pid'
    \<longleftrightarrow> cn = cn' \<and> sn = sn' \<and> sid = sid' \<and> pid = pid'"
  using assms by (auto simp: path_key_salt_def path_key_info_def u64c.put_append_inject)

text \<open>The info string of the key derivation is the label padded with three zero bytes to 24 bytes, then the
  session and the path number; the protocol document leaves the padding out.\<close>

theorem path_key_info_padded:
  "path_key_info sid pid
     = bytes_of_string ''linkforge/path-key/v1'' @ [0, 0, 0] @ put_uint64 sid @ put_uint32 pid"
  by (simp add: path_key_info_def numeral_eq_Suc)

section \<open>Keys and identifiers\<close>

text \<open>A freshly generated key, as it is printed for the configuration file, parses back to its 32 bytes.\<close>

theorem generated_key_parses:
  assumes "length b = 32" "generate_key (Some b) = Inr s"
  shows "parse_key s = Inr b"
proof -
  have s: "s = b64_encode std_alphabet True b" using assms by (simp add: generate_key_def)
  have "b \<noteq> []" using assms by auto
  then show ?thesis using assms(1) by (simp add: parse_key_def s Let_def)
qed

lemma parse_client_id_length: "parse_client_id v = Inr i \<Longrightarrow> length i = 16"
  by (auto simp: parse_client_id_def split: option.splits if_splits)

lemma parse_client_id_string [simp]: "length i = 16 \<Longrightarrow> parse_client_id (client_id_string i) = Inr i"
  by (simp add: parse_client_id_def client_id_string_def)

lemma client_id_string_inject [simp]: "client_id_string a = client_id_string b \<longleftrightarrow> a = b"
  by (simp add: client_id_string_def)

text \<open>Whatever spelling of a client identifier is accepted (dashes, upper case, spaces around it), its
  canonical form has 32 characters and parses to the same 16 bytes.\<close>

theorem client_id_canonical:
  "parse_client_id v = Inr i \<Longrightarrow> parse_client_id (client_id_string i) = Inr i \<and> length (client_id_string i) = 32"
  using parse_client_id_length [of v i] by simp (simp add: client_id_string_def)

end
