(* ===== verification/Replay.thy ===== *)
theory Replay
  imports Prelude
begin

text \<open>
  \<open>ReplayWindow\<close> of \<open>internal/protocol/protocol.go\<close>: the 64-packet sliding window that rejects
  duplicated packets of one path and direction. \<open>Accept\<close> is one atomic step (the code holds the
  window's mutex throughout).
\<close>

unbundle bit_operations_syntax

section \<open>The window\<close>

record replay_window =
  rw_highest :: u64
  rw_bitmap :: u64
  rw_started :: bool

definition new_replay_window :: replay_window where
  "new_replay_window = \<lparr> rw_highest = 0, rw_bitmap = 0, rw_started = False \<rparr>"

definition accept :: "replay_window \<Rightarrow> u64 \<Rightarrow> bool \<times> replay_window" where
  "accept w seq =
     (if \<not> rw_started w then
        (True, w\<lparr>rw_started := True, rw_highest := seq, rw_bitmap := 1\<rparr>)
      else if rw_highest w < seq then
        let shift = seq - rw_highest w;
            shifted = (if 64 \<le> shift then 0 else push_bit (unat shift) (rw_bitmap w))
        in (True, w\<lparr>rw_highest := seq, rw_bitmap := shifted OR 1\<rparr>)
      else
        let delta = rw_highest w - seq in
        if 64 \<le> delta \<or> rw_bitmap w AND push_bit (unat delta) 1 \<noteq> 0 then (False, w)
        else (True, w\<lparr>rw_bitmap := rw_bitmap w OR push_bit (unat delta) 1\<rparr>))"

fun accept_all :: "replay_window \<Rightarrow> u64 list \<Rightarrow> bool list \<times> replay_window" where
  "accept_all w [] = ([], w)"
| "accept_all w (s # ss) =
     (let (ok, w') = accept w s; (oks, w'') = accept_all w' ss in (ok # oks, w''))"

section \<open>What the window promises\<close>

text \<open>The specification remembers every sequence number ever accepted. A number is taken when it is
  above all of them, or less than 64 below the highest and not among them.\<close>

definition spec_accept :: "nat set \<Rightarrow> nat \<Rightarrow> bool" where
  "spec_accept S n \<longleftrightarrow> S = {} \<or> Max S < n \<or> (Max S - n < 64 \<and> n \<notin> S)"

fun spec_accept_all :: "nat set \<Rightarrow> nat list \<Rightarrow> bool list" where
  "spec_accept_all S [] = []"
| "spec_accept_all S (n # ns) =
     spec_accept S n # spec_accept_all (if spec_accept S n then insert n S else S) ns"

text \<open>The window represents a history when its highest number and its 64 bits agree with it.\<close>

definition represents :: "replay_window \<Rightarrow> nat set \<Rightarrow> bool" where
  "represents w S \<longleftrightarrow>
     finite S \<and> (rw_started w \<longleftrightarrow> S \<noteq> {}) \<and>
     (S \<noteq> {} \<longrightarrow> unat (rw_highest w) = Max S \<and>
        (\<forall>i < 64. bit (rw_bitmap w) i \<longleftrightarrow> i \<le> Max S \<and> Max S - i \<in> S))"

lemma represents_new: "represents new_replay_window {}"
  by (simp add: represents_def new_replay_window_def)

lemma and_single_bit: "x AND push_bit n 1 \<noteq> 0 \<longleftrightarrow> n < 64 \<and> bit x n" for x :: u64
  by (subst bit_eq_iff) (auto simp: bit_and_iff bit_exp_iff possible_bit_word dest: bit_imp_le_length)

lemma bit_or_single: "n < 64 \<Longrightarrow> i < 64 \<Longrightarrow> bit (x OR push_bit n 1) i \<longleftrightarrow> bit x i \<or> i = n" for x :: u64
  by (auto simp: bit_or_iff bit_exp_iff possible_bit_word)

lemma Max_insert_above: "finite S \<Longrightarrow> S \<noteq> {} \<Longrightarrow> Max S < n \<Longrightarrow> Max (insert n S) = n" for n :: nat
  by (subst Max_insert) (auto simp: max_absorb1 less_imp_le simp del: Max_less_iff)

lemma Max_insert_below: "finite S \<Longrightarrow> S \<noteq> {} \<Longrightarrow> n \<le> Max S \<Longrightarrow> Max (insert n S) = Max S" for n :: nat
  by (subst Max_insert) (auto simp: max_absorb2 simp del: Max_ge_iff)

lemma accept_first:
  "represents w {} \<Longrightarrow> fst (accept w s) \<and> represents (snd (accept w s)) {unat s}"
  by (auto simp: represents_def accept_def bit_1_iff)

lemma accept_above:
  assumes r: "represents w S" and ne: "S \<noteq> {}" and hi: "Max S < unat s"
  shows "fst (accept w s) \<and> represents (snd (accept w s)) (insert (unat s) S)"
proof -
  from r ne have fin: "finite S" and st: "rw_started w" and h: "unat (rw_highest w) = Max S"
    and bits: "\<And>i. i < 64 \<Longrightarrow> bit (rw_bitmap w) i \<longleftrightarrow> i \<le> Max S \<and> Max S - i \<in> S"
    by (auto simp: represents_def)
  have less: "rw_highest w < s" using hi h by (simp add: word_less_nat_alt)
  define k where "k = unat (s - rw_highest w)"
  have k: "k = unat s - Max S" using less h by (simp add: k_def unat_sub less_imp_le)
  define shifted where "shifted = (if 64 \<le> s - rw_highest w then 0 else push_bit k (rw_bitmap w))"
  have acc: "accept w s = (True, w\<lparr>rw_highest := s, rw_bitmap := shifted OR 1\<rparr>)"
    using st less by (simp add: accept_def shifted_def k_def Let_def)
  have "bit (shifted OR 1) i \<longleftrightarrow> i \<le> unat s \<and> unat s - i \<in> insert (unat s) S" if i: "i < 64" for i
  proof -
    have "64 \<le> s - rw_highest w \<longleftrightarrow> 64 \<le> k" by (simp add: word_le_nat_alt k_def)
    then have "bit (shifted OR 1) i \<longleftrightarrow> i = 0 \<or> (k < 64 \<and> k \<le> i \<and> bit (rw_bitmap w) (i - k))"
      using i by (auto simp: shifted_def bit_or_iff bit_push_bit_iff bit_1_iff)
    also have "\<dots> \<longleftrightarrow> i = 0 \<or> (k \<le> i \<and> i - k \<le> Max S \<and> Max S - (i - k) \<in> S)"
      using i bits [of "i - k"] by auto
    also have "\<dots> \<longleftrightarrow> i \<le> unat s \<and> unat s - i \<in> insert (unat s) S"
    proof -
      have sk: "unat s = Max S + k" "0 < k" using k hi by simp_all
      have low: "k \<le> i" if "unat s - i \<in> S" "i \<le> unat s"
        using Max_ge [OF fin that(1)] that(2) sk by simp
      have idx: "Max S - (i - k) = unat s - i" if "k \<le> i"
        using that sk(1) by simp
      show ?thesis
        using low idx sk by (cases "k \<le> i") auto
    qed
    finally show ?thesis .
  qed
  then show ?thesis
    using fin ne hi st by (auto simp: acc represents_def Max_insert_above)
qed

lemma accept_below:
  assumes r: "represents w S" and ne: "S \<noteq> {}" and lo: "unat s \<le> Max S"
  shows "fst (accept w s) \<longleftrightarrow> spec_accept S (unat s)"
    and "represents (snd (accept w s)) (if spec_accept S (unat s) then insert (unat s) S else S)"
proof -
  from r ne have fin: "finite S" and st: "rw_started w" and h: "unat (rw_highest w) = Max S"
    and bits: "\<And>i. i < 64 \<Longrightarrow> bit (rw_bitmap w) i \<longleftrightarrow> i \<le> Max S \<and> Max S - i \<in> S"
    by (auto simp: represents_def)
  have le: "s \<le> rw_highest w" using lo h by (simp add: word_le_nat_alt)
  define d where "d = unat (rw_highest w - s)"
  have d: "d = Max S - unat s" using le h by (simp add: d_def unat_sub)
  have big: "64 \<le> rw_highest w - s \<longleftrightarrow> 64 \<le> d" by (simp add: word_le_nat_alt d_def)
  have top: "Max S - d = unat s" "d \<le> Max S" using d lo by auto
  have spec: "spec_accept S (unat s) \<longleftrightarrow> d < 64 \<and> unat s \<notin> S"
    using ne lo d by (auto simp: spec_accept_def)
  have reject: "64 \<le> d \<or> rw_bitmap w AND push_bit d 1 \<noteq> 0 \<longleftrightarrow> \<not> spec_accept S (unat s)"
    unfolding and_single_bit using bits [of d] top spec by auto
  have acc: "accept w s = (if \<not> spec_accept S (unat s) then (False, w)
      else (True, w\<lparr>rw_bitmap := rw_bitmap w OR push_bit d 1\<rparr>))"
    using st leD [OF le] by (simp add: accept_def big reject [symmetric] Let_def d_def [symmetric])
  then show "fst (accept w s) \<longleftrightarrow> spec_accept S (unat s)" by simp
  show "represents (snd (accept w s)) (if spec_accept S (unat s) then insert (unat s) S else S)"
  proof (cases "spec_accept S (unat s)")
    case True
    then have "d < 64" using spec by simp
    have "bit (rw_bitmap w OR push_bit d 1) i \<longleftrightarrow> i \<le> Max S \<and> Max S - i \<in> insert (unat s) S" if "i < 64" for i
    proof -
      have "i = d \<longleftrightarrow> i \<le> Max S \<and> Max S - i = unat s" using top by linarith
      then show ?thesis
        unfolding bit_or_single [OF \<open>d < 64\<close> that] bits [OF that] by blast
    qed
    moreover have "snd (accept w s) = w\<lparr>rw_bitmap := rw_bitmap w OR push_bit d 1\<rparr>"
      using True by (simp add: acc)
    ultimately show ?thesis
      using True fin st h Max_insert_below [OF fin ne lo] unfolding represents_def by simp
  next
    case False
    with r show ?thesis by (simp add: acc)
  qed
qed

lemma accept_represents:
  assumes "represents w S"
  shows "fst (accept w s) \<longleftrightarrow> spec_accept S (unat s)"
    and "represents (snd (accept w s)) (if spec_accept S (unat s) then insert (unat s) S else S)"
proof -
  consider "S = {}" | "S \<noteq> {}" "Max S < unat s" | "S \<noteq> {}" "unat s \<le> Max S" by linarith
  then have "(fst (accept w s) \<longleftrightarrow> spec_accept S (unat s)) \<and>
    represents (snd (accept w s)) (if spec_accept S (unat s) then insert (unat s) S else S)"
  proof cases
    case 1
    with assms accept_first [of w s] show ?thesis by (simp add: spec_accept_def)
  next
    case 2
    with accept_above [OF assms, of s] show ?thesis by (simp add: spec_accept_def)
  next
    case 3
    with accept_below [OF assms] show ?thesis by blast
  qed
  then show "fst (accept w s) \<longleftrightarrow> spec_accept S (unat s)"
    and "represents (snd (accept w s)) (if spec_accept S (unat s) then insert (unat s) S else S)" by auto
qed

section \<open>The interface of an anti-replay filter\<close>

text \<open>What the receiving ends of the engine rely on: the filter's answers are those of the complete
  history of accepted numbers. \<open>taken\<close> lists the numbers a run accepts.\<close>

fun taken :: "('w \<Rightarrow> u64 \<Rightarrow> bool \<times> 'w) \<Rightarrow> 'w \<Rightarrow> u64 list \<Rightarrow> u64 list" where
  "taken acc w [] = []"
| "taken acc w (s # ss) =
     (if fst (acc w s) then s # taken acc (snd (acc w s)) ss else taken acc (snd (acc w s)) ss)"

lemma taken_simp: "taken acc w (s # ss) = (if fst (acc w s) then [s] else []) @ taken acc (snd (acc w s)) ss"
  by simp

locale anti_replay =
  fixes acc :: "'w \<Rightarrow> u64 \<Rightarrow> bool \<times> 'w" and fresh :: 'w and history :: "'w \<Rightarrow> nat set \<Rightarrow> bool"
  assumes history_fresh: "history fresh {}"
    and answer: "history w S \<Longrightarrow> fst (acc w s) \<longleftrightarrow> spec_accept S (unat s)"
    and history_step: "history w S \<Longrightarrow> history (snd (acc w s)) (if spec_accept S (unat s) then insert (unat s) S else S)"
    and history_finite: "history w S \<Longrightarrow> finite S"
begin

lemma rejects_seen: "history w S \<Longrightarrow> unat s \<in> S \<Longrightarrow> \<not> fst (acc w s)"
  using history_finite [of w S] by (auto simp: answer spec_accept_def not_less)

lemma taken_distinct: "history w S \<Longrightarrow> distinct (taken acc w ss) \<and> (\<forall>s \<in> set (taken acc w ss). unat s \<notin> S)"
proof (induction ss arbitrary: w S)
  case (Cons s ss)
  show ?case
  proof (cases "fst (acc w s)")
    case True
    with answer [OF Cons.prems] have "spec_accept S (unat s)" by simp
    with history_step [OF Cons.prems, of s] have h: "history (snd (acc w s)) (insert (unat s) S)" by simp
    have "unat s \<notin> S" using rejects_seen [OF Cons.prems] True by blast
    with Cons.IH [OF h] True show ?thesis by auto
  next
    case False
    with answer [OF Cons.prems] have "\<not> spec_accept S (unat s)" by simp
    with history_step [OF Cons.prems, of s] have "history (snd (acc w s)) S" by simp
    with Cons.IH False show ?thesis by simp
  qed
qed simp

lemma taken_once: "distinct (taken acc fresh ss)"
  using taken_distinct [OF history_fresh] by blast

lemma takes_new_in_window:
  assumes "history w S" "S \<noteq> {}" "unat s \<notin> S" "Max S < unat s + 64"
  shows "fst (acc w s)"
  using assms by (auto simp: answer spec_accept_def)

end

interpretation rw: anti_replay accept new_replay_window represents
proof
  show "represents new_replay_window {}" by (rule represents_new)
  show "fst (accept w s) \<longleftrightarrow> spec_accept S (unat s)" if "represents w S" for w S s
    using accept_represents(1) [OF that] .
  show "represents (snd (accept w s)) (if spec_accept S (unat s) then insert (unat s) S else S)"
    if "represents w S" for w S s
    using accept_represents(2) [OF that] .
  show "finite S" if "represents w S" for w S using that by (simp add: represents_def)
qed

section \<open>Correctness of the window\<close>

lemma accept_all_refines:
  "represents w S \<Longrightarrow> fst (accept_all w ss) = spec_accept_all S (map unat ss)"
proof (induction ss arbitrary: w S)
  case (Cons s ss)
  from accept_represents [OF Cons.prems, of s] Cons.IH [OF accept_represents(2) [OF Cons.prems, of s]]
  show ?case by (simp add: case_prod_beta Let_def)
qed simp

text \<open>C34: The 64-bit sliding window answers every sequence of packet numbers exactly as a filter that remembers
  the complete history: a number is taken when it is above all earlier ones, or new and less than 64 below the
  highest. This holds for all 64-bit numbers, the wrap-around of the shift included.\<close>

theorem replay_refines_history:
  "fst (accept_all new_replay_window ss) = spec_accept_all {} (map unat ss)"
  by (rule accept_all_refines [OF represents_new])

end
