(* ===== verification/Reorder.thy ===== *)
theory Reorder
  imports Go_Time
begin

text \<open>
  \<open>internal/reorder/reorder.go\<close>: the bounded buffer that restores the global packet order. Each
  method holds the mutex throughout, so it is one step from buffer to buffer. \<open>clock\<close> is the
  \<open>time.Now()\<close> that \<open>drain\<close> reads. Packets are of any type \<^typ>\<open>'p\<close>; the engine uses byte strings.
\<close>

section \<open>The buffer\<close>

record 'p buffer =
  rb_expected :: u64
  rb_pending :: "(u64 \<times> 'p) list"
  rb_gap_since :: gotime
  rb_max_packets :: int
  rb_max_delay :: duration

record 'p result =
  res_packets :: "'p list"
  res_skipped :: u64

definition no_result :: "'p result" where
  "no_result = \<lparr> res_packets = [], res_skipped = 0 \<rparr>"

definition new_buffer :: "int \<Rightarrow> duration \<Rightarrow> 'p buffer" where
  "new_buffer maxPackets maxDelay =
     \<lparr> rb_expected = 1, rb_pending = [], rb_gap_since = zero_time,
       rb_max_packets = (if maxPackets < 16 then 16 else maxPackets),
       rb_max_delay = (if maxDelay \<le> 0 then 80 * millisecond else maxDelay) \<rparr>"

definition reset :: "'p buffer \<Rightarrow> 'p buffer" where
  "reset b = b\<lparr>rb_expected := 1, rb_pending := [], rb_gap_since := zero_time\<rparr>"

lemma length_map_del_less: "map_get m k = Some v \<Longrightarrow> length (map_del m k) < length m"
  by (induction m) (auto split: if_splits intro: le_less_trans [OF length_delete_le])

text \<open>The loop of \<open>drain\<close>: take consecutive packets out of the map.\<close>

function drain_loop :: "u64 \<Rightarrow> (u64 \<times> 'p) list \<Rightarrow> 'p list \<Rightarrow> u64 \<times> (u64 \<times> 'p) list \<times> 'p list" where
  "drain_loop expected pending packets =
     (case map_get pending expected of
        None \<Rightarrow> (expected, pending, packets)
      | Some p \<Rightarrow> drain_loop (expected + 1) (map_del pending expected) (packets @ [p]))"
  by pat_completeness auto
termination
  by (relation "measure (\<lambda>(expected, pending, packets). length pending)") (auto intro: length_map_del_less)

declare drain_loop.simps [simp del]

definition drain :: "'p buffer \<Rightarrow> 'p result \<Rightarrow> gotime \<Rightarrow> 'p result \<times> 'p buffer" where
  "drain b r clock =
     (let (expected, pending, packets) = drain_loop (rb_expected b) (rb_pending b) (res_packets r)
      in (r\<lparr>res_packets := packets\<rparr>,
          b\<lparr>rb_expected := expected, rb_pending := pending,
            rb_gap_since := (if pending = [] then zero_time else clock)\<rparr>))"

definition lowest :: "(u64 \<times> 'p) list \<Rightarrow> u64" where
  "lowest pending = foldl (\<lambda>low e. if fst e < low then fst e else low) (- 1) pending"

definition force_drain :: "'p buffer \<Rightarrow> gotime \<Rightarrow> 'p result \<times> 'p buffer" where
  "force_drain b clock =
     (if rb_pending b = [] then (no_result, b)
      else let low = lowest (rb_pending b)
           in drain (b\<lparr>rb_expected := low\<rparr>) \<lparr> res_packets = [], res_skipped = low - rb_expected b \<rparr> clock)"

definition push :: "'p buffer \<Rightarrow> u64 \<Rightarrow> 'p \<Rightarrow> gotime \<Rightarrow> gotime \<Rightarrow> 'p result \<times> 'p buffer" where
  "push b seq packet now clock =
     (if seq < rb_expected b then (no_result, b)
      else if seq = rb_expected b then
        drain (b\<lparr>rb_expected := rb_expected b + 1\<rparr>) \<lparr> res_packets = [packet], res_skipped = 0 \<rparr> clock
      else if map_get (rb_pending b) seq \<noteq> None then (no_result, b)
      else
        let b1 = b\<lparr>rb_pending := map_put (rb_pending b) seq packet\<rparr>;
            b2 = (if is_zero (rb_gap_since b1) then b1\<lparr>rb_gap_since := now\<rparr> else b1)
        in if rb_max_packets b2 \<le> int (length (rb_pending b2))
              \<or> rb_max_delay b2 \<le> time_sub now (rb_gap_since b2)
           then force_drain b2 clock else (no_result, b2))"

definition flush_expired :: "'p buffer \<Rightarrow> gotime \<Rightarrow> gotime \<Rightarrow> 'p result \<times> 'p buffer" where
  "flush_expired b now clock =
     (if rb_pending b = [] \<or> is_zero (rb_gap_since b) \<or> time_sub now (rb_gap_since b) < rb_max_delay b
      then (no_result, b) else force_drain b clock)"

section \<open>The draining loop\<close>

text \<open>What one drain achieves, for a map whose keys are at or above the expected number: it delivers
  the run of consecutive packets that starts there and stops at the first gap.\<close>

definition keys_from :: "u64 \<Rightarrow> (u64 \<times> 'p) list \<Rightarrow> bool" where
  "keys_from e pending \<longleftrightarrow> keys_unique pending \<and> (\<forall>s \<in> fst ` set pending. e \<le> s)"

definition keys_above :: "u64 \<Rightarrow> (u64 \<times> 'p) list \<Rightarrow> bool" where
  "keys_above e pending \<longleftrightarrow> keys_unique pending \<and> (\<forall>s \<in> fst ` set pending. e < s)"

lemma keys_above_from: "keys_above e m \<Longrightarrow> keys_from e m"
  by (auto simp: keys_above_def keys_from_def less_imp_le)

lemma keys_above_Nil [simp]: "keys_above e []"
  by (simp add: keys_above_def)

lemma above_Suc: "e < s \<Longrightarrow> e + 1 \<le> s" for e s :: u64
  by (simp add: inc_le)

lemma keys_above_next: "keys_above e m \<Longrightarrow> keys_from (e + 1) m"
  by (auto simp: keys_above_def keys_from_def above_Suc)

lemma keys_from_del: "keys_from e m \<Longrightarrow> keys_above e (map_del m e)"
  unfolding keys_from_def keys_above_def
proof (intro conjI ballI)
  assume m: "keys_unique m \<and> (\<forall>s \<in> fst ` set m. e \<le> s)"
  then show "keys_unique (map_del m e)" by simp
  fix s assume s: "s \<in> fst ` set (map_del m e)"
  then have "s \<in> fst ` set m" "s \<noteq> e"
    using delete_notin_dom [of e m] dom_delete_subset [of e m] by blast+
  with m show "e < s" by auto
qed

lemma keys_from_absent: "keys_from e m \<Longrightarrow> map_get m e = None \<Longrightarrow> keys_above e m"
  unfolding keys_from_def keys_above_def map_get_None_iff by (metis order_le_less)

text \<open>\<open>numbered e ps\<close>: the packets \<open>ps\<close> with the numbers \<open>e, e+1, \<dots>\<close>.\<close>

fun numbered :: "u64 \<Rightarrow> 'p list \<Rightarrow> (u64 \<times> 'p) list" where
  "numbered e [] = []"
| "numbered e (p # ps) = (e, p) # numbered (e + 1) ps"

lemma set_map_del:
  fixes m :: "(u64 \<times> 'p) list"
  shows "map_get m e = Some p \<Longrightarrow> keys_unique m \<Longrightarrow> set m = insert (e, p) (set (map_del m e))"
proof (rule set_eqI)
  fix x :: "u64 \<times> 'p" assume e: "map_get m e = Some p" and u: "keys_unique m"
  obtain k v where x: "x = (k, v)" by (cases x)
  show "x \<in> set m \<longleftrightarrow> x \<in> insert (e, p) (set (map_del m e))"
    using e by (simp add: x map_get_mem [OF u] map_get_mem [OF keys_unique_del [OF u]] map_get_del) auto
qed

lemma drain_loop_spec:
  assumes "keys_from e pending"
  shows "\<exists>ps rest. drain_loop e pending acc = (e + of_nat (length ps), rest, acc @ ps)
    \<and> keys_above (e + of_nat (length ps)) rest \<and> set pending = set rest \<union> set (numbered e ps)
    \<and> length pending = length rest + length ps"
  using assms
proof (induction e pending acc rule: drain_loop.induct)
  case (1 e pending acc)
  show ?case
  proof (cases "map_get pending e")
    case None
    with keys_from_absent [OF "1.prems"] show ?thesis
      by (intro exI [of _ "[]"] exI [of _ pending]) (simp add: drain_loop.simps [of e])
  next
    case (Some p)
    have u: "keys_unique pending" using "1.prems" by (simp add: keys_from_def)
    have e: "e \<in> fst ` set pending" using Some by (metis map_get_None_iff option.distinct(1))
    then have l: "length pending = Suc (length (map_del pending e))"
      using length_map_del [OF u, of e] by (cases pending) auto
    obtain ps rest where d: "drain_loop (e + 1) (map_del pending e) (acc @ [p])
        = (e + 1 + of_nat (length ps), rest, (acc @ [p]) @ ps)"
      "keys_above (e + 1 + of_nat (length ps)) rest"
      "set (map_del pending e) = set rest \<union> set (numbered (e + 1) ps)"
      "length (map_del pending e) = length rest + length ps"
      using "1.IH" [OF Some keys_above_next [OF keys_from_del [OF "1.prems"]]] by blast
    have step: "drain_loop e pending acc = drain_loop (e + 1) (map_del pending e) (acc @ [p])"
      by (subst drain_loop.simps) (simp add: Some)
    have n: "e + of_nat (length (p # ps)) = e + 1 + of_nat (length ps)"
      by (simp add: algebra_simps)
    have s: "set pending = set rest \<union> set (numbered e (p # ps))"
      unfolding set_map_del [OF Some u] d(3) by simp
    show ?thesis
      using d s l by (intro exI [of _ "p # ps"] exI [of _ rest]) (simp only: step n, simp)
  qed
qed

section \<open>What one call does\<close>

lemma numbered_no_wrap:
  "- 1 \<notin> fst ` set (numbered e ps) \<Longrightarrow> unat (e + of_nat (length ps)) = unat e + length ps"
proof (induction ps arbitrary: e)
  case Nil
  then show ?case by simp
next
  case (Cons p ps)
  from Cons.prems have "e \<noteq> - 1" by auto
  then have e: "e < - 1" by (metis word_order.not_eq_extremum)
  have "unat (e + 1 + of_nat (length ps)) = unat (e + 1) + length ps"
    using Cons by simp
  moreover have "e + of_nat (length (p # ps)) = e + 1 + of_nat (length ps)"
    by (simp add: algebra_simps)
  ultimately show ?case
    using unat_Suc_no_wrap [OF e] by (simp only:) simp
qed

lemma numbered_append: "numbered e (ps @ qs) = numbered e ps @ numbered (e + of_nat (length ps)) qs"
  by (induction ps arbitrary: e) (simp_all add: algebra_simps)

lemma snd_numbered [simp]: "map snd (numbered e ps) = ps"
  by (induction ps arbitrary: e) simp_all

lemma snd_set_numbered: "snd ` set (numbered e ps) = set ps"
  by (metis snd_numbered set_map)

lemma length_numbered [simp]: "length (numbered e ps) = length ps"
  by (metis snd_numbered length_map)

text \<open>The numbers of a run of packets that does not wrap lie between its start and its end.\<close>

lemma numbered_range:
  "- 1 \<notin> fst ` set (numbered e ps) \<Longrightarrow> x \<in> fst ` set (numbered e ps)
    \<longleftrightarrow> unat e \<le> unat x \<and> unat x < unat e + length ps"
proof (induction ps arbitrary: e)
  case Nil
  then show ?case by simp
next
  case (Cons p ps)
  from Cons.prems have "e \<noteq> - 1" by auto
  then have "e < - 1" by (metis word_order.not_eq_extremum)
  then have e1: "unat (e + 1) = Suc (unat e)" by (rule unat_Suc_no_wrap)
  have "x \<in> fst ` set (numbered (e + 1) ps) \<longleftrightarrow> Suc (unat e) \<le> unat x \<and> unat x < Suc (unat e) + length ps"
    using Cons e1 by simp
  moreover have "x = e \<longleftrightarrow> unat x = unat e" by (simp add: word_unat_eq_iff)
  ultimately show ?case by auto
qed

lemma lowest_spec:
  assumes "pending \<noteq> []"
  shows "lowest pending \<in> fst ` set pending" and "s \<in> fst ` set pending \<Longrightarrow> lowest pending \<le> s"
proof -
  have gen: "foldl (\<lambda>low e. if fst e < low then fst e else low) (i :: u64) m \<in> insert i (fst ` set m)
      \<and> (\<forall>s \<in> insert i (fst ` set m). foldl (\<lambda>low e. if fst e < low then fst e else low) i m \<le> s)"
    for i :: u64 and m :: "(u64 \<times> 'a) list"
  proof (induction m arbitrary: i)
    case (Cons a m)
    show ?case using Cons [of i] Cons [of "fst a"] by (auto intro: order.trans less_imp_le)
  qed simp
  have l: "lowest pending \<in> insert (- 1) (fst ` set pending)" "\<forall>s \<in> fst ` set pending. lowest pending \<le> s"
    using gen [of "- 1" pending] unfolding lowest_def by blast+
  then show "s \<in> fst ` set pending \<Longrightarrow> lowest pending \<le> s" by blast
  obtain s where "s \<in> fst ` set pending" using assms by (cases pending) auto
  with l show "lowest pending \<in> fst ` set pending"
    by (metis insertE word_order.extremum_unique)
qed

text \<open>The invariant of the buffer: everything pending lies above the number the reader expects, the
  memory bound holds, and the timer runs exactly while there is a gap. Sequence number \<open>2^64 - 1\<close>
  is left out, since the code's \<open>expected++\<close> would wrap there.\<close>

definition wf_buffer :: "'p buffer \<Rightarrow> bool" where
  "wf_buffer b \<longleftrightarrow> keys_above (rb_expected b) (rb_pending b) \<and> - 1 \<notin> fst ` set (rb_pending b)
     \<and> int (length (rb_pending b)) < rb_max_packets b \<and> 16 \<le> rb_max_packets b \<and> 0 < rb_max_delay b
     \<and> (is_zero (rb_gap_since b) \<longleftrightarrow> rb_pending b = [])"

text \<open>\<open>advance b offered r b'\<close>: of the packets on \<open>offer\<close>, the result \<open>r\<close> holds a consecutive run that
  starts \<open>skipped\<close> numbers after the expected one, and \<open>b'\<close> keeps the rest.\<close>

definition advance :: "'p buffer \<Rightarrow> (u64 \<times> 'p) set \<Rightarrow> 'p result \<Rightarrow> 'p buffer \<Rightarrow> bool" where
  "advance b offered r b' \<longleftrightarrow>
     unat (rb_expected b') = unat (rb_expected b) + unat (res_skipped r) + length (res_packets r)
     \<and> offered = set (rb_pending b') \<union> set (numbered (rb_expected b + res_skipped r) (res_packets r))
     \<and> - 1 \<notin> fst ` set (numbered (rb_expected b + res_skipped r) (res_packets r))
     \<and> unat (rb_expected b + res_skipped r) = unat (rb_expected b) + unat (res_skipped r)
     \<and> rb_max_packets b' = rb_max_packets b \<and> rb_max_delay b' = rb_max_delay b"

lemma drain_spec:
  assumes k: "keys_from (rb_expected b) (rb_pending b)" and m: "- 1 \<notin> fst ` set (rb_pending b)"
    and c: "clock \<noteq> 0" and d: "drain b r clock = (r', b')"
  shows "\<exists>ps. r' = r\<lparr>res_packets := res_packets r @ ps\<rparr>
    \<and> rb_expected b' = rb_expected b + of_nat (length ps)
    \<and> keys_above (rb_expected b') (rb_pending b')
    \<and> set (rb_pending b) = set (rb_pending b') \<union> set (numbered (rb_expected b) ps)
    \<and> length (rb_pending b) = length (rb_pending b') + length ps
    \<and> (is_zero (rb_gap_since b') \<longleftrightarrow> rb_pending b' = [])
    \<and> rb_max_packets b' = rb_max_packets b \<and> rb_max_delay b' = rb_max_delay b"
proof -
  obtain ps rest where ps: "drain_loop (rb_expected b) (rb_pending b) (res_packets r)
      = (rb_expected b + of_nat (length ps), rest, res_packets r @ ps)"
    "keys_above (rb_expected b + of_nat (length ps)) rest"
    "set (rb_pending b) = set rest \<union> set (numbered (rb_expected b) ps)"
    "length (rb_pending b) = length rest + length ps"
    using drain_loop_spec [OF k, of "res_packets r"] by blast
  have "r' = r\<lparr>res_packets := res_packets r @ ps\<rparr>"
    and b': "b' = b\<lparr>rb_expected := rb_expected b + of_nat (length ps), rb_pending := rest,
      rb_gap_since := (if rest = [] then zero_time else clock)\<rparr>"
    using d ps(1) by (simp_all add: drain_def)
  moreover have "is_zero (rb_gap_since b') \<longleftrightarrow> rb_pending b' = []"
    using c by (simp add: b' is_zero_def zero_time_def)
  ultimately show ?thesis
    using ps(2-4) by (intro exI [of _ ps]) simp
qed

lemma force_drain_spec:
  assumes k: "keys_above (rb_expected b) (rb_pending b)" and m: "- 1 \<notin> fst ` set (rb_pending b)"
    and lim: "int (length (rb_pending b)) \<le> rb_max_packets b" "16 \<le> rb_max_packets b" "0 < rb_max_delay b"
    and ne: "rb_pending b \<noteq> []" and c: "clock \<noteq> 0" and d: "force_drain b clock = (r, b')"
  shows "wf_buffer b' \<and> advance b (set (rb_pending b)) r b' \<and> res_packets r \<noteq> []
    \<and> rb_expected b + res_skipped r = lowest (rb_pending b)"
proof -
  let ?low = "lowest (rb_pending b)" let ?b = "b\<lparr>rb_expected := lowest (rb_pending b)\<rparr>"
  have low: "?low \<in> fst ` set (rb_pending b)" "\<And>s. s \<in> fst ` set (rb_pending b) \<Longrightarrow> ?low \<le> s"
    using lowest_spec [OF ne] by blast+
  have k': "keys_from (rb_expected ?b) (rb_pending ?b)"
    using k low(2) by (auto simp: keys_from_def keys_above_def)
  have dr: "drain ?b \<lparr> res_packets = [], res_skipped = ?low - rb_expected b \<rparr> clock = (r, b')"
    using d ne by (simp add: force_drain_def Let_def)
  obtain ps where ps: "res_packets r = ps" "res_skipped r = ?low - rb_expected b"
    "rb_expected b' = ?low + of_nat (length ps)" "keys_above (rb_expected b') (rb_pending b')"
    "set (rb_pending b) = set (rb_pending b') \<union> set (numbered ?low ps)"
    "length (rb_pending b) = length (rb_pending b') + length ps"
    "is_zero (rb_gap_since b') \<longleftrightarrow> rb_pending b' = []"
    "rb_max_packets b' = rb_max_packets b" "rb_max_delay b' = rb_max_delay b"
    using drain_spec [OF k' _ c dr] m by auto
  have "rb_expected b \<le> ?low" using k low(1) by (auto simp: keys_above_def)
  then have sk: "unat (?low - rb_expected b) = unat ?low - unat (rb_expected b)" "unat (rb_expected b) \<le> unat ?low"
    by (auto simp: unat_diff_le word_le_nat_alt)
  have "?low \<notin> fst ` set (rb_pending b')" if "ps = []"
    using that ps(3,4) by (auto simp: keys_above_def)
  with low(1) ps(5) have "ps \<noteq> []" by (cases ps) auto
  moreover have w: "- 1 \<notin> fst ` set (numbered ?low ps)" using m ps(5) by auto
  moreover from calculation(1) have "int (length (rb_pending b')) < rb_max_packets b"
    using ps(6) lim(1) by (cases ps) auto
  ultimately show ?thesis
    using ps sk m lim numbered_no_wrap [OF w] unfolding wf_buffer_def advance_def
    by (auto simp: image_Un)
qed

lemma push_spec:
  assumes wf: "wf_buffer b" and s: "seq \<noteq> - 1" and n: "now \<noteq> 0" and c: "clock \<noteq> 0"
    and p: "push b seq packet now clock = (r, b')"
  shows "wf_buffer b' \<and> advance b (if seq < rb_expected b \<or> map_get (rb_pending b) seq \<noteq> None
      then set (rb_pending b) else insert (seq, packet) (set (rb_pending b))) r b'"
proof -
  have k: "keys_above (rb_expected b) (rb_pending b)" and m: "- 1 \<notin> fst ` set (rb_pending b)"
    and lim: "int (length (rb_pending b)) < rb_max_packets b" "16 \<le> rb_max_packets b" "0 < rb_max_delay b"
    and gap: "is_zero (rb_gap_since b) \<longleftrightarrow> rb_pending b = []"
    using wf by (auto simp: wf_buffer_def)
  consider (old) "seq < rb_expected b" | (front) "seq = rb_expected b"
    | (dup) "rb_expected b < seq" "map_get (rb_pending b) seq \<noteq> None"
    | (ahead) "rb_expected b < seq" "map_get (rb_pending b) seq = None"
    by (metis linorder_less_linear)
  then show ?thesis
  proof cases
    case front
    let ?b = "b\<lparr>rb_expected := rb_expected b + 1\<rparr>"
    from front s have lt: "rb_expected b < - 1" by (metis word_order.not_eq_extremum)
    have nd: "map_get (rb_pending b) seq = None"
      using k front by (auto simp: map_get_None_iff keys_above_def)
    have dr: "drain ?b \<lparr> res_packets = [packet], res_skipped = 0 \<rparr> clock = (r, b')"
      using p front by (simp add: push_def)
    have k': "keys_from (rb_expected ?b) (rb_pending ?b)" using keys_above_next [OF k] by simp
    obtain ps where ps: "r = \<lparr> res_packets = packet # ps, res_skipped = 0 \<rparr>"
      "rb_expected b' = rb_expected b + 1 + of_nat (length ps)" "keys_above (rb_expected b') (rb_pending b')"
      "set (rb_pending b) = set (rb_pending b') \<union> set (numbered (rb_expected b + 1) ps)"
      "length (rb_pending b) = length (rb_pending b') + length ps"
      "is_zero (rb_gap_since b') \<longleftrightarrow> rb_pending b' = []"
      "rb_max_packets b' = rb_max_packets b" "rb_max_delay b' = rb_max_delay b"
      using drain_spec [OF k' _ c dr] m by auto
    have w: "- 1 \<notin> fst ` set (numbered (rb_expected b + 1) ps)" using m ps(4) by auto
    show ?thesis
      using ps m lim front nd lt w numbered_no_wrap [OF w] unat_Suc_no_wrap [OF lt]
      unfolding wf_buffer_def advance_def by (auto simp: image_Un)
  next
    case ahead
    define b2 where "b2 = b\<lparr>rb_pending := map_put (rb_pending b) seq packet,
      rb_gap_since := (if is_zero (rb_gap_since b) then now else rb_gap_since b)\<rparr>"
    have nin: "seq \<notin> fst ` set (rb_pending b)" using ahead(2) by (simp add: map_get_None_iff)
    have upd: "map_put (rb_pending b) seq packet = rb_pending b @ [(seq, packet)]"
      using nin by (rule map_put_new)
    have b2: "(if is_zero (rb_gap_since (b\<lparr>rb_pending := map_put (rb_pending b) seq packet\<rparr>))
        then b\<lparr>rb_pending := map_put (rb_pending b) seq packet\<rparr>\<lparr>rb_gap_since := now\<rparr>
        else b\<lparr>rb_pending := map_put (rb_pending b) seq packet\<rparr>) = b2"
      by (simp add: b2_def)
    have "\<not> seq < rb_expected b" "seq \<noteq> rb_expected b" using ahead(1) by auto
    then have p2: "(if rb_max_packets b2 \<le> int (length (rb_pending b2))
              \<or> rb_max_delay b2 \<le> time_sub now (rb_gap_since b2)
           then force_drain b2 clock else (no_result, b2)) = (r, b')"
      using p ahead(2) unfolding push_def Let_def b2 by simp
    have k2: "keys_above (rb_expected b2) (rb_pending b2)" "- 1 \<notin> fst ` set (rb_pending b2)"
      "rb_pending b2 \<noteq> []" "int (length (rb_pending b2)) \<le> rb_max_packets b2" "16 \<le> rb_max_packets b2"
      "0 < rb_max_delay b2" "\<not> is_zero (rb_gap_since b2)"
      using k m lim ahead s nin n by (auto simp: b2_def keys_above_def upd keys_unique_def is_zero_def zero_time_def)
    have off: "set (rb_pending b2) = insert (seq, packet) (set (rb_pending b))" by (simp add: b2_def upd)
    have same: "rb_expected b2 = rb_expected b" "rb_max_packets b2 = rb_max_packets b"
      "rb_max_delay b2 = rb_max_delay b" by (simp_all add: b2_def)
    show ?thesis
    proof (cases "rb_max_packets b2 \<le> int (length (rb_pending b2)) \<or> rb_max_delay b2 \<le> time_sub now (rb_gap_since b2)")
      case True
      then have "force_drain b2 clock = (r, b')" using p2 by simp
      then have "wf_buffer b' \<and> advance b2 (set (rb_pending b2)) r b'"
        using force_drain_spec [OF k2(1,2,4,5,6,3) c] by blast
      then show ?thesis
        using ahead(2) not_less_iff_gr_or_eq [of seq "rb_expected b"] ahead(1)
        by (simp add: off advance_def same)
    next
      case False
      then show ?thesis
        using p2 k2 ahead off same by (auto simp: wf_buffer_def advance_def no_result_def)
    qed
  next
    case old
    with p have "r = no_result" "b' = b" by (simp_all add: push_def)
    with old wf show ?thesis by (simp add: advance_def no_result_def)
  next
    case dup
    then have "\<not> seq < rb_expected b" "seq \<noteq> rb_expected b" by auto
    with dup(2) p have "r = no_result" "b' = b" by (auto simp: push_def)
    with dup wf show ?thesis by (simp add: advance_def no_result_def)
  qed
qed

lemma flush_spec:
  assumes wf: "wf_buffer b" and c: "clock \<noteq> 0" and p: "flush_expired b now clock = (r, b')"
  shows "wf_buffer b' \<and> advance b (set (rb_pending b)) r b'"
proof (cases "rb_pending b = [] \<or> is_zero (rb_gap_since b) \<or> time_sub now (rb_gap_since b) < rb_max_delay b")
  case True
  then show ?thesis using p wf by (auto simp: flush_expired_def advance_def no_result_def)
next
  case False
  then have f: "force_drain b clock = (r, b')" and ne: "rb_pending b \<noteq> []"
    using p by (auto simp: flush_expired_def)
  have k: "keys_above (rb_expected b) (rb_pending b)" "- 1 \<notin> fst ` set (rb_pending b)"
    "int (length (rb_pending b)) \<le> rb_max_packets b" "16 \<le> rb_max_packets b" "0 < rb_max_delay b"
    using wf by (auto simp: wf_buffer_def)
  show ?thesis using force_drain_spec [OF k ne c f] by blast
qed

lemma wf_new_buffer [preserves]: "wf_buffer (new_buffer n d)"
  by (auto simp: wf_buffer_def new_buffer_def keys_above_def is_zero_def zero_time_def millisecond_def)

lemma wf_reset [preserves]: "wf_buffer b \<Longrightarrow> wf_buffer (reset b)"
  by (auto simp: wf_buffer_def reset_def keys_above_def is_zero_def zero_time_def)

end
