(* ===== verification/Reorder_Facts.thy ===== *)
theory Reorder_Facts
  imports Reorder
begin

text \<open>
  Runs of the reorder buffer: what the engine's reader sees over any interleaving of \<open>Push\<close> and
  \<open>FlushExpired\<close> calls, and the contract the server and the client rely on.
\<close>

section \<open>Runs\<close>

text \<open>One call with the time it is given and the time \<open>drain\<close> reads.\<close>

datatype 'p event = Push u64 'p gotime gotime | Flush gotime gotime

fun buffer_step :: "'p buffer \<Rightarrow> 'p event \<Rightarrow> 'p result \<times> 'p buffer" where
  "buffer_step b (Push s p now clock) = push b s p now clock"
| "buffer_step b (Flush now clock) = flush_expired b now clock"

fun buffer_run :: "'p buffer \<Rightarrow> 'p event list \<Rightarrow> 'p result list \<times> 'p buffer" where
  "buffer_run b [] = ([], b)"
| "buffer_run b (e # es) =
     (let (r, b1) = buffer_step b e; (rs, b2) = buffer_run b1 es in (r # rs, b2))"

definition delivered :: "'p result list \<Rightarrow> 'p list" where
  "delivered rs = concat (map res_packets rs)"

definition skipped_total :: "'p result list \<Rightarrow> nat" where
  "skipped_total rs = (\<Sum>r \<leftarrow> rs. unat (res_skipped r))"

text \<open>Events the engine produces: clocks after year 1, sequence numbers below \<open>2^64 - 1\<close>. \<open>tag\<close> reads
  the number a packet was sent with.\<close>

fun good_event :: "('p \<Rightarrow> u64) \<Rightarrow> 'p event \<Rightarrow> bool" where
  "good_event tag (Push s p now clock) \<longleftrightarrow> tag p = s \<and> s \<noteq> - 1 \<and> now \<noteq> 0 \<and> clock \<noteq> 0"
| "good_event tag (Flush now clock) \<longleftrightarrow> clock \<noteq> 0"

fun event_packets :: "'p event \<Rightarrow> 'p list" where
  "event_packets (Push s p now clock) = [p]"
| "event_packets (Flush now clock) = []"

definition tagged :: "('p \<Rightarrow> u64) \<Rightarrow> 'p buffer \<Rightarrow> bool" where
  "tagged tag b \<longleftrightarrow> (\<forall>(s, p) \<in> set (rb_pending b). tag p = s)"

definition held :: "'p buffer \<Rightarrow> 'p set" where
  "held b = snd ` set (rb_pending b)"

lemma buffer_step_spec:
  assumes "wf_buffer b" "good_event tag e" "buffer_step b e = (r, b')"
  shows "wf_buffer b' \<and> (\<exists>offered. advance b offered r b' \<and> set (rb_pending b) \<subseteq> offered
    \<and> offered \<subseteq> set (rb_pending b) \<union> {(tag p, p) |p. p \<in> set (event_packets e)})"
proof (cases e)
  case (Push s p now clock)
  with assms have s: "s \<noteq> - 1" "now \<noteq> 0" "clock \<noteq> 0" "tag p = s" "push b s p now clock = (r, b')" by auto
  show ?thesis using push_spec [OF assms(1) s(1-3,5)] s(4)
    by (auto simp: Push split: if_splits)
next
  case (Flush now clock)
  with assms have "clock \<noteq> 0" "flush_expired b now clock = (r, b')" by auto
  from flush_spec [OF assms(1) this] show ?thesis by (auto simp: Flush)
qed

lemma numbered_tags:
  assumes "\<forall>(s, p) \<in> set (numbered e ps). tag p = s"
  shows "map tag ps = map fst (numbered e ps)"
  using assms by (induction ps arbitrary: e) auto

lemma numbered_sorted:
  "- 1 \<notin> fst ` set (numbered e ps) \<Longrightarrow> sorted_wrt (<) (map fst (numbered e ps))"
proof (induction ps arbitrary: e)
  case (Cons p ps)
  then have "e < - 1" by (auto simp: word_order.not_eq_extremum [symmetric])
  then have e1: "unat (e + 1) = Suc (unat e)" by (rule unat_Suc_no_wrap)
  have w: "- 1 \<notin> fst ` set (numbered (e + 1) ps)" using Cons.prems by simp
  have "e < x" if "x \<in> fst ` set (numbered (e + 1) ps)" for x
    using that numbered_range [OF w, of x] e1 by (simp add: word_less_unat)
  with Cons.IH [OF w] show ?case by auto
qed simp

text \<open>One call delivers strictly increasing numbers between the old and the new expected number.\<close>

lemma step_order:
  assumes wf: "wf_buffer b" and g: "good_event tag e" and t: "tagged tag b"
    and st: "buffer_step b e = (r, b')"
  shows "wf_buffer b' \<and> tagged tag b' \<and> sorted_wrt (<) (map tag (res_packets r))
    \<and> (\<forall>p \<in> set (res_packets r). rb_expected b \<le> tag p \<and> tag p < rb_expected b')
    \<and> rb_expected b \<le> rb_expected b'
    \<and> unat (rb_expected b') = unat (rb_expected b) + unat (res_skipped r) + length (res_packets r)
    \<and> held b' \<union> set (res_packets r) \<subseteq> held b \<union> set (event_packets e)"
proof -
  let ?s = "rb_expected b + res_skipped r"
  obtain off where o: "wf_buffer b'" "advance b off r b'" "set (rb_pending b) \<subseteq> off"
    "off \<subseteq> set (rb_pending b) \<union> {(tag p, p) |p. p \<in> set (event_packets e)}"
    using buffer_step_spec [OF wf g st] by blast
  have a: "unat (rb_expected b') = unat (rb_expected b) + unat (res_skipped r) + length (res_packets r)"
    "off = set (rb_pending b') \<union> set (numbered ?s (res_packets r))"
    "- 1 \<notin> fst ` set (numbered ?s (res_packets r))" "unat ?s = unat (rb_expected b) + unat (res_skipped r)"
    using o(2) by (auto simp: advance_def)
  have tg: "\<forall>(s, p) \<in> off. tag p = s" using o(4) t by (auto simp: tagged_def)
  then have tm: "map tag (res_packets r) = map fst (numbered ?s (res_packets r))"
    using a(2) by (intro numbered_tags) blast
  have rng: "unat ?s \<le> unat x \<and> unat x < unat ?s + length (res_packets r)"
    if "x \<in> tag ` set (res_packets r)" for x
    using numbered_range [OF a(3), of x] that by (metis tm set_map)
  have rng': "\<forall>p \<in> set (res_packets r). rb_expected b \<le> tag p \<and> tag p < rb_expected b'"
    using rng a(1,4) by (force simp: word_le_nat_alt word_less_unat)
  have h: "snd ` off = held b' \<union> set (res_packets r)"
    unfolding a(2) image_Un held_def snd_set_numbered ..
  have "snd ` off \<subseteq> held b \<union> set (event_packets e)" using o(4) by (auto simp: held_def)
  then show ?thesis
    using o(1) a numbered_sorted [OF a(3)] tg rng' h
    by (auto simp: tm tagged_def word_le_nat_alt)
qed

lemma run_order:
  assumes "wf_buffer b" "\<forall>e \<in> set es. good_event tag e" "tagged tag b" "buffer_run b es = (rs, b')"
  shows "wf_buffer b' \<and> tagged tag b' \<and> sorted_wrt (<) (map tag (delivered rs))
    \<and> (\<forall>p \<in> set (delivered rs). rb_expected b \<le> tag p \<and> tag p < rb_expected b')
    \<and> rb_expected b \<le> rb_expected b'
    \<and> unat (rb_expected b') = unat (rb_expected b) + skipped_total rs + length (delivered rs)
    \<and> held b' \<union> set (delivered rs) \<subseteq> held b \<union> \<Union> (set ` event_packets ` set es)"
  using assms
proof (induction es arbitrary: b rs)
  case Nil
  then show ?case by (auto simp: delivered_def skipped_total_def)
next
  case (Cons e es)
  obtain r b1 where st: "buffer_step b e = (r, b1)" by (cases "buffer_step b e")
  obtain rs' where rs: "buffer_run b1 es = (rs', b')" "rs = r # rs'"
    using Cons.prems(4) st by (auto split: prod.splits)
  have g: "good_event tag e" "\<forall>e \<in> set es. good_event tag e" using Cons.prems(2) by auto
  note s = step_order [OF Cons.prems(1) g(1) Cons.prems(3) st]
  have i: "wf_buffer b' \<and> tagged tag b' \<and> sorted_wrt (<) (map tag (delivered rs'))
    \<and> (\<forall>p \<in> set (delivered rs'). rb_expected b1 \<le> tag p \<and> tag p < rb_expected b')
    \<and> rb_expected b1 \<le> rb_expected b'
    \<and> unat (rb_expected b') = unat (rb_expected b1) + skipped_total rs' + length (delivered rs')
    \<and> held b' \<union> set (delivered rs') \<subseteq> held b1 \<union> \<Union> (set ` event_packets ` set es)"
    using s by (intro Cons.IH [OF _ g(2) _ rs(1)]) auto
  have d: "delivered rs = res_packets r @ delivered rs'" "skipped_total rs = unat (res_skipped r) + skipped_total rs'"
    by (simp_all add: rs delivered_def skipped_total_def)
  have "\<forall>p \<in> set (res_packets r). \<forall>q \<in> set (delivered rs'). tag p < tag q"
    using s i by (meson order.strict_trans1 order.strict_trans2 less_le_trans)
  moreover have "held b' \<union> set (delivered rs) \<subseteq> held b \<union> \<Union> (set ` event_packets ` set (e # es))"
    using s i by (auto simp: d)
  moreover have "\<forall>p \<in> set (delivered rs). rb_expected b \<le> tag p \<and> tag p < rb_expected b'"
    using s i unfolding d by (auto intro: order.trans less_le_trans)
  ultimately show ?case
    using s i by (auto simp: d sorted_wrt_append intro: order.trans)
qed

text \<open>C35: Over any interleaving of pushes and timer flushes on a fresh buffer, the packets handed to
  the tunnel carry strictly increasing sequence numbers (so none is delivered twice or out of
  order), each of them was pushed, and the numbers passed over equal the delivered ones plus those
  counted as skipped.\<close>

theorem delivery_in_order:
  assumes "\<forall>e \<in> set es. good_event tag e" and "buffer_run (new_buffer n d) es = (rs, b')"
  shows "sorted_wrt (<) (map tag (delivered rs))
    \<and> set (delivered rs) \<subseteq> \<Union> (set ` event_packets ` set es)
    \<and> unat (rb_expected b') = 1 + skipped_total rs + length (delivered rs)"
proof -
  have "tagged tag (new_buffer n d)" "held (new_buffer n d) = {}"
    by (simp_all add: tagged_def held_def new_buffer_def)
  note r = run_order [OF wf_new_buffer [of n d] assms(1) this(1) assms(2)] this(2)
  then show ?thesis by (auto simp: new_buffer_def)
qed

section \<open>Reordering within the window\<close>

lemma drain_gap: "drain b r clock = (r', b') \<Longrightarrow> rb_gap_since b' \<in> {0, clock} \<and> res_skipped r' = res_skipped r"
  by (auto simp: drain_def zero_time_def split: prod.splits)

lemma push_front:
  "push b (rb_expected b) p now clock = (r, b') \<Longrightarrow> res_skipped r = 0 \<and> rb_gap_since b' \<in> {0, clock}"
  using drain_gap [of "b\<lparr>rb_expected := rb_expected b + 1\<rparr>"] by (force simp: push_def)

lemma push_hold:
  assumes "rb_expected b < s" "map_get (rb_pending b) s = None"
    and "int (length (rb_pending b)) + 1 < rb_max_packets b"
    and "time_sub now (if is_zero (rb_gap_since b) then now else rb_gap_since b) < rb_max_delay b"
  shows "push b s p now clock = (no_result, b\<lparr>rb_pending := rb_pending b @ [(s, p)],
    rb_gap_since := (if is_zero (rb_gap_since b) then now else rb_gap_since b)\<rparr>)"
proof -
  have "s \<notin> fst ` set (rb_pending b)" using assms(2) by (simp add: map_get_None_iff)
  then have "map_put (rb_pending b) s p = rb_pending b @ [(s, p)]" by (rule map_put_new)
  moreover have "\<not> s < rb_expected b" "s \<noteq> rb_expected b" using assms(1) by auto
  ultimately show ?thesis
    using assms by (cases "is_zero (rb_gap_since b)") (simp_all add: push_def Let_def)
qed

text \<open>The state of the buffer in the middle of a burst that started at number 1 and of which the
  numbers in \<open>S\<close> have arrived: the expected number is the first one missing.\<close>

definition burst_inv :: "gotime \<Rightarrow> nat set \<Rightarrow> 'p buffer \<Rightarrow> bool" where
  "burst_inv T S b \<longleftrightarrow> wf_buffer b \<and> finite S \<and> 0 < unat (rb_expected b)
     \<and> {1..<unat (rb_expected b)} \<subseteq> S \<and> unat (rb_expected b) \<notin> S \<and> 0 \<notin> S
     \<and> unat ` fst ` set (rb_pending b) = {s \<in> S. unat (rb_expected b) \<le> s}
     \<and> (rb_gap_since b = 0 \<or> (T \<le> rb_gap_since b \<and> rb_gap_since b < T + rb_max_delay b))"

text \<open>A push of the burst: all its times lie within one \<open>max_delay\<close>, which starts at \<open>T\<close>.\<close>

fun burst_event :: "('p \<Rightarrow> u64) \<Rightarrow> gotime \<Rightarrow> duration \<Rightarrow> 'p event \<Rightarrow> bool" where
  "burst_event tag T delay (Push s p now clock) \<longleftrightarrow> tag p = s \<and> s \<noteq> 0 \<and> s \<noteq> - 1
     \<and> T \<le> now \<and> now < T + delay \<and> T \<le> clock \<and> clock < T + delay"
| "burst_event tag T delay (Flush now clock) \<longleftrightarrow> False"

fun event_number :: "'p event \<Rightarrow> nat" where
  "event_number (Push s p now clock) = unat s"
| "event_number (Flush now clock) = 0"

lemma pending_count:
  assumes i: "burst_inv T S b"
  shows "length (rb_pending b) + unat (rb_expected b) = card S + 1"
proof -
  let ?E = "unat (rb_expected b)"
  have "distinct (map fst (rb_pending b))"
    using i by (simp add: burst_inv_def wf_buffer_def keys_above_def keys_unique_def)
  then have "length (rb_pending b) = card (fst ` set (rb_pending b))"
    by (metis distinct_card length_map set_map)
  also have "\<dots> = card (unat ` fst ` set (rb_pending b))"
    by (rule card_image [symmetric]) (auto simp: inj_on_def word_unat_eq_iff)
  finally have len: "length (rb_pending b) = card {s \<in> S. ?E \<le> s}" using i by (simp add: burst_inv_def)
  have "S = {s \<in> S. ?E \<le> s} \<union> {1..<?E}"
  proof (intro equalityI subsetI)
    fix x assume "x \<in> S"
    moreover from this have "x \<noteq> 0" using i by (metis burst_inv_def)
    ultimately show "x \<in> {s \<in> S. ?E \<le> s} \<union> {1..<?E}" by auto
  qed (use i in \<open>auto simp: burst_inv_def\<close>)
  then have "card S = card ({s \<in> S. ?E \<le> s} \<union> {1..<?E})" by (rule arg_cong)
  also have "\<dots> = card {s \<in> S. ?E \<le> s} + card {1..<?E}"
    using i by (intro card_Un_disjoint) (auto simp: burst_inv_def)
  finally have "card S = card {s \<in> S. ?E \<le> s} + (?E - 1)" by simp
  moreover have "0 < ?E" using i by (simp add: burst_inv_def)
  ultimately show ?thesis using len by simp
qed

lemma burst_step:
  assumes i: "burst_inv T S b" and T: "0 < T" and d: "rb_max_delay b < 2 ^ 62"
    and e: "burst_event tag T (rb_max_delay b) (Push s p now clock)" and new: "unat s \<notin> S"
    and room: "unat (rb_expected b) < unat s \<Longrightarrow> int (length (rb_pending b)) + 1 < rb_max_packets b"
    and st: "push b s p now clock = (r, b')"
  shows "burst_inv T (insert (unat s) S) b' \<and> res_skipped r = 0
    \<and> rb_max_packets b' = rb_max_packets b \<and> rb_max_delay b' = rb_max_delay b"
proof -
  have wf: "wf_buffer b" and nz: "now \<noteq> 0" "clock \<noteq> 0" "s \<noteq> - 1" "s \<noteq> 0"
    and E: "0 < unat (rb_expected b)" "{1..<unat (rb_expected b)} \<subseteq> S" "unat (rb_expected b) \<notin> S"
    and pk: "unat ` fst ` set (rb_pending b) = {s \<in> S. unat (rb_expected b) \<le> s}"
    using i e T by (auto simp: burst_inv_def)
  have nd: "map_get (rb_pending b) s = None" using pk new by (auto simp: map_get_None_iff)
  have ge: "\<not> unat s < unat (rb_expected b)"
  proof
    assume "unat s < unat (rb_expected b)"
    then have "unat s \<in> {1..<unat (rb_expected b)}" using nz(4) by (simp add: unat_gt_0 Suc_le_eq)
    with E(2) new show False by blast
  qed
  show ?thesis
  proof (cases "s = rb_expected b")
    case True
    let ?E = "unat (rb_expected b)" and ?E' = "unat (rb_expected b')"
    have sp: "wf_buffer b'" "advance b (insert (s, p) (set (rb_pending b))) r b'"
      using push_spec [OF wf nz(3,1,2) st] nd True by auto
    have sk: "res_skipped r = 0" "rb_gap_since b' \<in> {0, clock}" using push_front [of b p now clock r b'] st True by auto
    have a: "?E' = ?E + length (res_packets r)"
      "insert (s, p) (set (rb_pending b)) = set (rb_pending b') \<union> set (numbered (rb_expected b) (res_packets r))"
      "- 1 \<notin> fst ` set (numbered (rb_expected b) (res_packets r))"
      "rb_max_packets b' = rb_max_packets b" "rb_max_delay b' = rb_max_delay b"
      using sp(2) sk(1) by (auto simp: advance_def)
    have rng: "unat ` fst ` set (numbered (rb_expected b) (res_packets r)) = {?E..<?E'}"
    proof (intro equalityI subsetI)
      fix x assume x: "x \<in> {?E..<?E'}"
      have "x < 2 ^ 64" using x unsigned_less [of "rb_expected b'", where ?'a = nat] by simp
      then have u: "unat (of_nat x :: u64) = x" by (simp add: unat_of_nat)
      then have "of_nat x \<in> fst ` set (numbered (rb_expected b) (res_packets r))"
        using x a(1) numbered_range [OF a(3), of "of_nat x"] by simp
      then show "x \<in> unat ` fst ` set (numbered (rb_expected b) (res_packets r))"
        by (metis imageI u)
    qed (use a(1) numbered_range [OF a(3)] in auto)
    have pk': "\<And>x. x \<in> unat ` fst ` set (rb_pending b') \<Longrightarrow> ?E' < x"
      using sp(1) by (auto simp: wf_buffer_def keys_above_def word_less_unat)
    have all: "insert ?E {s \<in> S. ?E \<le> s} = unat ` fst ` set (rb_pending b') \<union> {?E..<?E'}"
      using arg_cong [OF a(2), of "\<lambda>X. unat ` fst ` X"] rng pk True by (simp add: image_Un)
    have "{1..<?E'} \<subseteq> insert (unat s) S"
    proof
      fix x assume "x \<in> {1..<?E'}"
      with all E(2) True show "x \<in> insert (unat s) S" by (cases "x < ?E") auto
    qed
    moreover have "?E' \<notin> insert (unat s) S"
    proof
      assume "?E' \<in> insert (unat s) S"
      then have "?E' \<in> insert ?E {s \<in> S. ?E \<le> s}" using a(1) True by auto
      then have "?E' \<in> unat ` fst ` set (rb_pending b')" unfolding all by simp
      then show False using pk' [of ?E'] by simp
    qed
    moreover have "unat ` fst ` set (rb_pending b') = {x \<in> insert (unat s) S. ?E' \<le> x}"
    proof (intro equalityI subsetI)
      fix x assume "x \<in> {x \<in> insert (unat s) S. ?E' \<le> x}"
      then have "x \<in> insert ?E {s \<in> S. ?E \<le> s}" "x \<notin> {?E..<?E'}" using True a(1) by auto
      with all show "x \<in> unat ` fst ` set (rb_pending b')" by blast
    next
      fix x assume x: "x \<in> unat ` fst ` set (rb_pending b')"
      then have "x \<in> insert ?E {s \<in> S. ?E \<le> s}" using all by blast
      then show "x \<in> {x \<in> insert (unat s) S. ?E' \<le> x}" using pk' [OF x] True by auto
    qed
    moreover have "0 < ?E'" using E(1) a(1) by simp
    ultimately show ?thesis
      using sp(1) sk a(4,5) i e nz(4) by (auto simp: burst_inv_def unat_eq_zero)
  next
    case False
    then have lt: "unat (rb_expected b) < unat s" using ge by (simp add: word_unat_eq_iff)
    have g: "time_sub now (if is_zero (rb_gap_since b) then now else rb_gap_since b) < rb_max_delay b"
      using i e wf d by (auto simp: burst_inv_def wf_buffer_def time_sub_iffs is_zero_def zero_time_def)
    have b': "r = no_result" "b' = b\<lparr>rb_pending := rb_pending b @ [(s, p)],
      rb_gap_since := (if is_zero (rb_gap_since b) then now else rb_gap_since b)\<rparr>"
      using push_hold [OF _ nd room [OF lt] g, of p clock] lt st by (auto simp: word_less_unat)
    have "wf_buffer b'" using push_spec [OF wf nz(3,1,2) st] by simp
    moreover have "unat ` fst ` set (rb_pending b') = {x \<in> insert (unat s) S. unat (rb_expected b) \<le> x}"
      using pk lt b'(2) by auto
    ultimately show ?thesis
      using i e lt nz(4) by (auto simp: burst_inv_def b' no_result_def unat_eq_zero)
  qed
qed

text \<open>\<open>late k S es\<close>: a number is overtaken by at most \<open>k\<close> later ones, counted from its place in the
  original order: once \<open>x + k\<close> packets have arrived, \<open>x\<close> is among them.\<close>

definition late :: "nat \<Rightarrow> nat set \<Rightarrow> 'p event list \<Rightarrow> bool" where
  "late k S es \<longleftrightarrow> (\<forall>j < length es. \<forall>x. 1 \<le> x \<and> x + k \<le> card S + Suc j
     \<longrightarrow> x \<in> S \<union> event_number ` set (take (Suc j) es))"

lemma late_Cons:
  assumes l: "late k S (e # es)" and f: "finite S" and n: "event_number e \<notin> S"
  shows "late k (insert (event_number e) S) es"
    and "1 \<le> x \<Longrightarrow> x + k \<le> card S + 1 \<Longrightarrow> x \<in> insert (event_number e) S"
proof -
  show "1 \<le> x \<Longrightarrow> x + k \<le> card S + 1 \<Longrightarrow> x \<in> insert (event_number e) S"
  proof -
    assume x: "1 \<le> x" "x + k \<le> card S + 1"
    have "x \<in> S \<union> event_number ` set (take (Suc 0) (e # es))"
      using l [unfolded late_def, rule_format, of 0 x] x by simp
    then show "x \<in> insert (event_number e) S" by auto
  qed
  have "x \<in> insert (event_number e) S \<union> event_number ` set (take (Suc j) es)"
    if "j < length es" "1 \<le> x" "x + k \<le> card (insert (event_number e) S) + Suc j" for j x
  proof -
    have "x + k \<le> card S + Suc (Suc j)" using that(3) f n by simp
    with that l have "x \<in> S \<union> event_number ` set (take (Suc (Suc j)) (e # es))"
      unfolding late_def by (metis Suc_less_eq length_Cons)
    then show ?thesis by auto
  qed
  then show "late k (insert (event_number e) S) es" unfolding late_def by blast
qed

lemma burst_run:
  assumes "burst_inv T S b" and "0 < T" "rb_max_delay b < 2 ^ 62" "int k < rb_max_packets b"
    and "\<forall>e \<in> set es. burst_event tag T (rb_max_delay b) e"
    and "distinct (map event_number es)" "event_number ` set es \<inter> S = {}"
    and "late k S es" "buffer_run b es = (rs, b')"
  shows "burst_inv T (S \<union> event_number ` set es) b' \<and> skipped_total rs = 0"
  using assms
proof (induction es arbitrary: b S rs)
  case Nil
  then show ?case by (simp add: skipped_total_def)
next
  case (Cons e es)
  obtain s p now clock where e: "e = Push s p now clock" using Cons.prems(5) by (cases e) auto
  obtain r b1 where st: "push b s p now clock = (r, b1)" by (cases "push b s p now clock")
  obtain rs' where rs: "buffer_run b1 es = (rs', b')" "rs = r # rs'"
    using Cons.prems(9) st by (auto simp: e split: prod.splits)
  have new: "unat s \<notin> S" using Cons.prems(7) by (auto simp: e)
  have f: "finite S" using Cons.prems(1) by (simp add: burst_inv_def)
  have ne: "event_number e \<notin> S" using new by (simp add: e)
  have l: "late k (insert (unat s) S) es"
    "\<And>x. 1 \<le> x \<Longrightarrow> x + k \<le> card S + 1 \<Longrightarrow> x \<in> insert (unat s) S"
    using late_Cons [OF Cons.prems(8) f ne] by (simp_all add: e)
  have room: "int (length (rb_pending b)) + 1 < rb_max_packets b" if "unat (rb_expected b) < unat s"
  proof -
    have "unat (rb_expected b) \<notin> insert (unat s) S" "1 \<le> unat (rb_expected b)"
      using Cons.prems(1) that by (auto simp: burst_inv_def)
    then have "\<not> unat (rb_expected b) + k \<le> card S + 1" by (metis l(2))
    then show ?thesis using pending_count [OF Cons.prems(1)] Cons.prems(4) by linarith
  qed
  have ev: "burst_event tag T (rb_max_delay b) (Push s p now clock)" using Cons.prems(5) by (simp add: e)
  note b1 = burst_step [OF Cons.prems(1,2,3) ev new room st]
  have inv: "burst_inv T (insert (unat s) S) b1" "rb_max_packets b1 = rb_max_packets b"
    "rb_max_delay b1 = rb_max_delay b" using b1 by blast+
  have d: "distinct (map event_number es)" "event_number ` set es \<inter> insert (unat s) S = {}"
    using Cons.prems(6,7) by (auto simp: e)
  have "burst_inv T (insert (unat s) S \<union> event_number ` set es) b' \<and> skipped_total rs' = 0"
    using Cons.prems(3,4,5) by (intro Cons.IH [OF inv(1) Cons.prems(2) _ _ _ d l(1) rs(1)]) (simp_all add: inv(2,3))
  then show ?case using b1 by (simp add: e rs skipped_total_def)
qed

text \<open>C36: A burst numbered \<open>1..n\<close> in which every packet arrives, all within one \<open>max_delay\<close> and none
  overtaken by \<open>max_packets\<close> or more others, is delivered whole, in its original order and with
  nothing skipped or left behind, whatever the order of arrival.\<close>

theorem burst_restored:
  fixes b :: "'p buffer"
  assumes "\<forall>e \<in> set es. burst_event tag T (rb_max_delay b) e" "0 < T"
    and "rb_max_delay b < 2 ^ 62" "int k < rb_max_packets b"
    and "distinct (map event_number es)" "event_number ` set es = {1..n}" "late k {} es"
    and "b = new_buffer m d" "buffer_run b es = (rs, b')"
  shows "map (\<lambda>p. unat (tag p)) (delivered rs) = [1..<Suc n] \<and> skipped_total rs = 0 \<and> rb_pending b' = []"
proof -
  have "burst_inv T {} b"
    using wf_new_buffer [of m d] by (auto simp: assms(8) burst_inv_def new_buffer_def zero_time_def)
  then have bi: "burst_inv T {1..n} b'" and sk: "skipped_total rs = 0"
    using burst_run [OF _ assms(2,3,4,1,5) _ assms(7,9)] by (simp_all add: assms(6))
  have E: "unat (rb_expected b') = Suc n"
  proof (rule ccontr)
    assume ne: "unat (rb_expected b') \<noteq> Suc n"
    have "{1..<unat (rb_expected b')} \<subseteq> {1..n}" "unat (rb_expected b') \<notin> {1..n}" "0 < unat (rb_expected b')"
      using bi by (auto simp: burst_inv_def)
    with ne have "n + 1 \<in> {1..<unat (rb_expected b')}" "n + 1 \<notin> {1..n}" by auto
    with \<open>{1..<unat (rb_expected b')} \<subseteq> {1..n}\<close> show False by blast
  qed
  have "unat ` fst ` set (rb_pending b') = {}" using bi E by (auto simp: burst_inv_def)
  then have pend: "rb_pending b' = []" by simp
  have g: "\<forall>e \<in> set es. good_event tag e"
  proof
    fix e assume "e \<in> set es"
    with assms(1) have "burst_event tag T (rb_max_delay b) e" by blast
    then show "good_event tag e" using assms(2) by (cases e) auto
  qed
  have "wf_buffer b" "tagged tag b" "rb_expected b = 1"
    using wf_new_buffer [of m d] by (auto simp: assms(8) tagged_def new_buffer_def)
  note r = run_order [OF this(1) g this(2) assms(9)] this(3)
  have "sorted_wrt (<) (map unat (map tag (delivered rs)))"
    using r by (auto simp: sorted_wrt_map word_less_unat)
  moreover have "set (map unat (map tag (delivered rs))) \<subseteq> {1..<Suc n}"
    using r E by (auto simp: word_less_unat word_le_nat_alt)
  moreover have "length (delivered rs) = n" using r E sk by simp
  ultimately have xs: "sorted_wrt (<) (map unat (map tag (delivered rs)))"
    "set (map unat (map tag (delivered rs))) \<subseteq> {1..<Suc n}"
    "length (map unat (map tag (delivered rs))) = n" by simp_all
  have "set (map unat (map tag (delivered rs))) = {1..<Suc n}"
    using xs by (intro card_subset_eq) (simp_all only: strict_sorted_iff distinct_card, simp_all)
  with xs(1) have "map unat (map tag (delivered rs)) = [1..<Suc n]"
    by (intro sorted_distinct_set_unique) (simp_all add: strict_sorted_iff del: upt_Suc)
  then show ?thesis using sk pend by (simp add: o_def)
qed

section \<open>The bounded wait\<close>

text \<open>C37: When the gap at the head has been open for \<open>max_delay\<close>, the next timer tick gives it up: the
  pending packet with the lowest number is delivered, the numbers before it are reported skipped.\<close>

theorem flush_releases:
  assumes "wf_buffer b" "rb_pending b \<noteq> []" "clock \<noteq> 0" "rb_max_delay b \<le> time_sub now (rb_gap_since b)"
  shows "\<exists>p ps. res_packets (fst (flush_expired b now clock)) = p # ps
    \<and> (lowest (rb_pending b), p) \<in> set (rb_pending b)
    \<and> unat (lowest (rb_pending b)) = unat (rb_expected b) + unat (res_skipped (fst (flush_expired b now clock)))"
proof -
  obtain r b' where f: "force_drain b clock = (r, b')" by (cases "force_drain b clock")
  have k: "keys_above (rb_expected b) (rb_pending b)" "- 1 \<notin> fst ` set (rb_pending b)"
    "int (length (rb_pending b)) \<le> rb_max_packets b" "16 \<le> rb_max_packets b" "0 < rb_max_delay b"
    using assms(1) by (auto simp: wf_buffer_def)
  note fd = force_drain_spec [OF k assms(2,3) f]
  have "flush_expired b now clock = (r, b')"
    using assms f by (auto simp: flush_expired_def wf_buffer_def)
  moreover obtain p ps where ps: "res_packets r = p # ps" using fd by (cases "res_packets r") auto
  have adv: "set (rb_pending b) = set (rb_pending b') \<union> set (numbered (lowest (rb_pending b)) (res_packets r))"
    "unat (lowest (rb_pending b)) = unat (rb_expected b) + unat (res_skipped r)"
    using fd by (auto simp: advance_def)
  have "(lowest (rb_pending b), p) \<in> set (rb_pending b)" unfolding adv(1) ps by simp
  ultimately show ?thesis using ps adv(2) by simp
qed

section \<open>The contract the engine relies on\<close>

text \<open>The engine checks every packet before it pushes it, and delivers whatever comes out. What makes
  that sound is that a buffer invents nothing: every packet it releases or keeps was in it or has
  just been pushed.\<close>

locale holding_buffer =
  fixes put :: "'b \<Rightarrow> u64 \<Rightarrow> 'p \<Rightarrow> gotime \<Rightarrow> gotime \<Rightarrow> 'p result \<times> 'b"
    and flush :: "'b \<Rightarrow> gotime \<Rightarrow> gotime \<Rightarrow> 'p result \<times> 'b"
    and clear :: "'b \<Rightarrow> 'b"
    and content :: "'b \<Rightarrow> 'p set"
  assumes put_law: "put b s p now clock = (r, b') \<Longrightarrow> set (res_packets r) \<union> content b' \<subseteq> insert p (content b)"
    and flush_law: "flush b now clock = (r, b') \<Longrightarrow> set (res_packets r) \<union> content b' \<subseteq> content b"
    and clear_law: "content (clear b) = {}"
begin

text \<open>\<open>guarded P b\<close>: everything in the buffer passed the check \<open>P\<close>.\<close>

definition guarded :: "('p \<Rightarrow> bool) \<Rightarrow> 'b \<Rightarrow> bool" where
  "guarded P b \<longleftrightarrow> (\<forall>p \<in> content b. P p)"

lemma guarded_clear: "guarded P (clear b)"
  by (simp add: guarded_def clear_law)

lemma guarded_put:
  "guarded P b \<Longrightarrow> P p \<Longrightarrow> put b s p now clock = (r, b') \<Longrightarrow> guarded P b' \<and> (\<forall>q \<in> set (res_packets r). P q)"
  using put_law [of b s p now clock r b'] by (auto simp: guarded_def)

lemma guarded_flush:
  "guarded P b \<Longrightarrow> flush b now clock = (r, b') \<Longrightarrow> guarded P b' \<and> (\<forall>q \<in> set (res_packets r). P q)"
  using flush_law [of b now clock r b'] by (auto simp: guarded_def)

end

lemma drain_loop_holds:
  "drain_loop e m acc = (e', m', out) \<Longrightarrow> snd ` set m' \<union> set out \<subseteq> snd ` set m \<union> set acc"
proof (induction e m acc arbitrary: e' m' out rule: drain_loop.induct)
  case (1 e m acc)
  show ?case
  proof (cases "map_get m e")
    case None
    then show ?thesis using "1.prems" by (simp add: drain_loop.simps [of e m])
  next
    case (Some p)
    then have "drain_loop (e + 1) (map_del m e) (acc @ [p]) = (e', m', out)"
      using "1.prems" by (simp add: drain_loop.simps [of e m])
    from "1.IH" [OF Some this] have i: "snd ` set m' \<union> set out \<subseteq> snd ` set (map_del m e) \<union> set (acc @ [p])" .
    have "snd ` set (map_del m e) \<subseteq> snd ` set m" by (intro image_mono set_map_del_subset)
    moreover have "p \<in> snd ` set m" using Some by (metis map_of_SomeD image_eqI snd_conv)
    ultimately show ?thesis using i by (simp, blast)
  qed
qed

lemma drain_holds:
  "drain b r clock = (r', b') \<Longrightarrow> set (res_packets r') \<union> held b' \<subseteq> set (res_packets r) \<union> held b"
proof -
  assume d: "drain b r clock = (r', b')"
  obtain e' m' out where l: "drain_loop (rb_expected b) (rb_pending b) (res_packets r) = (e', m', out)"
    by (cases "drain_loop (rb_expected b) (rb_pending b) (res_packets r)")
  have "res_packets r' = out" "held b' = snd ` set m'"
    using d by (auto simp: drain_def l held_def)
  then show ?thesis using drain_loop_holds [OF l] by (simp only: held_def) blast
qed

lemma force_drain_holds:
  "force_drain b clock = (r, b') \<Longrightarrow> set (res_packets r) \<union> held b' \<subseteq> held b"
  using drain_holds [of "b\<lparr>rb_expected := lowest (rb_pending b)\<rparr>"]
  by (force simp: force_drain_def Let_def no_result_def held_def split: if_splits)

lemma push_holds:
  assumes "push b s p now clock = (r, b')"
  shows "set (res_packets r) \<union> held b' \<subseteq> insert p (held b)"
proof -
  let ?b1 = "b\<lparr>rb_pending := map_put (rb_pending b) s p\<rparr>"
  have "snd ` set (map_put (rb_pending b) s p) \<subseteq> insert p (snd ` set (rb_pending b))"
    using image_mono [OF set_map_put_subset [of s p "rb_pending b"], of snd] by simp
  then have h: "held ?b1 \<subseteq> insert p (held b)" by (simp add: held_def)
  have old: "set (res_packets no_result) \<union> held b \<subseteq> insert p (held b)"
    by (auto simp: no_result_def)
  show ?thesis
  proof (cases "s < rb_expected b \<or> s \<noteq> rb_expected b \<and> map_get (rb_pending b) s \<noteq> None")
    case True
    then have "r = no_result" "b' = b" using assms by (auto simp: push_def split: if_splits)
    with old show ?thesis by simp
  next
    case False
    show ?thesis
    proof (cases "s = rb_expected b")
      case True
      then have "drain (b\<lparr>rb_expected := rb_expected b + 1\<rparr>) \<lparr> res_packets = [p], res_skipped = 0 \<rparr> clock = (r, b')"
        using assms False by (simp add: push_def)
      from drain_holds [OF this] show ?thesis by (simp add: held_def)
    next
      case F: False
      define b2 where "b2 = (if is_zero (rb_gap_since ?b1) then ?b1\<lparr>rb_gap_since := now\<rparr> else ?b1)"
      have h2: "held b2 \<subseteq> insert p (held b)" using h by (simp add: b2_def held_def)
      have "force_drain b2 clock = (r, b') \<or> (r, b') = (no_result, b2)"
        using assms False F unfolding push_def Let_def b2_def by (auto split: if_splits)
      then show ?thesis
        using h2 force_drain_holds [of b2 clock r b'] by (auto simp: no_result_def)
    qed
  qed
qed

interpretation rb: holding_buffer push flush_expired reset held
proof
  show "set (res_packets r) \<union> held b' \<subseteq> insert p (held b)"
    if "push b s p now clock = (r, b')" for b :: "'a buffer" and s p now clock r b'
    using that by (rule push_holds)
  show "set (res_packets r) \<union> held b' \<subseteq> held b"
    if "flush_expired b now clock = (r, b')" for b :: "'a buffer" and now clock r b'
    using that force_drain_holds [of b clock r b'] by (auto simp: flush_expired_def no_result_def split: if_splits)
  show "held (reset b) = {}" for b :: "'a buffer"
    by (simp add: held_def reset_def)
qed

end
