(* ===== verification/Scheduler.thy ===== *)
theory Scheduler
  imports Prelude Go_Time Go_Float
begin

text \<open>
  \<open>internal/scheduler/scheduler.go\<close>: smooth weighted round-robin over the live paths. A candidate is
  what the interface \<open>Candidate\<close> answers at the time of the call, together with the transport path
  itself (of any type \<^typ>\<open>'p\<close>); \<open>s.current\<close> is the association list from names to float64 values.
  Every float64 operation of the code is one \<^const>\<open>fl64\<close>; none is fused with another.
\<close>

section \<open>The scheduler\<close>

record 'p candidate =
  pc_path :: 'p
  pc_name :: string
  pc_weight :: rat
  pc_healthy :: bool
  pc_rtt :: duration

type_synonym credits = "(string \<times> rat) list"

definition effective_weight :: "'p candidate \<Rightarrow> rat" where
  "effective_weight p =
     (let weight = (if pc_weight p \<le> 0 then 1 else pc_weight p) in
      if 0 < pc_rtt p then
        let penalty = min (fl64 (fl64 (of_int (pc_rtt p)) / fl64 (of_int (500 * millisecond)))) 1
        in fl64 (weight * fl64 (1 - fl64 (fl64 (1 / 5) * penalty)))
      else weight)"

text \<open>An absent key of a Go map of floats reads as 0.\<close>

definition credit :: "credits \<Rightarrow> string \<Rightarrow> rat" where
  "credit m n = (case map_get m n of Some x \<Rightarrow> x | None \<Rightarrow> 0)"

record 'p scan =
  sc_current :: credits
  sc_total :: rat
  sc_active :: "string list"
  sc_selected :: "('p candidate \<times> rat) option"

text \<open>One turn of the first loop of \<open>Next\<close>; \<open>sc_selected\<close> holds \<open>selected\<close> with \<open>selectedCurrent\<close>.\<close>

definition visit :: "'p scan \<Rightarrow> 'p candidate \<Rightarrow> 'p scan" where
  "visit s p =
     (if \<not> pc_healthy p then s
      else let weight = effective_weight p in
        if weight \<le> 0 then s
        else let c = fl64 (credit (sc_current s) (pc_name p) + weight)
          in \<lparr> sc_current = map_put (sc_current s) (pc_name p) c,
               sc_total = fl64 (sc_total s + weight),
               sc_active = pc_name p # sc_active s,
               sc_selected = (case sc_selected s of
                   None \<Rightarrow> Some (p, c)
                 | Some (q, d) \<Rightarrow> if d < c then Some (p, c) else Some (q, d)) \<rparr>)"

definition scan_paths :: "credits \<Rightarrow> 'p candidate list \<Rightarrow> 'p scan" where
  "scan_paths current paths =
     foldl visit \<lparr> sc_current = current, sc_total = 0, sc_active = [], sc_selected = None \<rparr> paths"

definition next_candidate :: "credits \<Rightarrow> 'p candidate list \<Rightarrow> 'p candidate option \<times> credits" where
  "next_candidate current paths =
     (let s = scan_paths current paths;
          kept = filter (\<lambda>(name, _). name \<in> set (sc_active s)) (sc_current s)
      in case sc_selected s of
           None \<Rightarrow> (None, kept)
         | Some (p, _) \<Rightarrow> (Some p, map_put kept (pc_name p) (fl64 (credit kept (pc_name p) - sc_total s))))"

section \<open>The effective weight\<close>

text \<open>Weights as the program configures them: at most 655.35, and not absurdly small.\<close>

definition sane_weight :: "'p candidate \<Rightarrow> bool" where
  "sane_weight p \<longleftrightarrow> is_float64 (pc_weight p) \<and> (0 < pc_weight p \<longrightarrow> 1 / 2 ^ 1000 \<le> pc_weight p)"

lemma is_float64_1 [simp]: "is_float64 1"
  using is_float64_of_int [of 1] by simp

lemma is_float64_fl: "is_float64 (1 / 2 ^ k)" if "k \<le> 1074"
  using is_float64_dyadic [of 1 "- int k"] that by (simp add: power_int_minus_divide)

text \<open>The constant 0.2 and the smallest factor, as the code computes them.\<close>

lemma fl64_fifth: "fl64 (1 / 5) = 3602879701896397 / 2 ^ 54"
proof -
  have e: "float_exponent (1 / 5) = - 3"
    by (simp add: float_exponent_def compute_floorlog)
  have f: "\<lfloor>36028797018963968 / 5 :: rat\<rfloor> = 7205759403792793"
    by (simp add: floor_eq_iff)
  show ?thesis
    by (simp add: f fl64_def round_pos_def ulp_exponent_def e round_half_even_def Let_def power_int_minus_divide)
qed

lemma fifth_bounds: "is_float64 (fl64 (1 / 5))" "0 < fl64 (1 / 5)" "fl64 (1 / 5) \<le> 13 / 64"
  using fl64_dyadic [of 3602879701896397 "- 54"]
  by (simp_all add: fl64_fifth is_float64_def power_int_minus_divide)

text \<open>With the sanity of the weight, the round-trip time takes at most about a fifth of it: the factor
  is at least 51/64, just below 0.8.\<close>

lemma penalty_bounds:
  fixes rtt :: int
  assumes "0 < rtt"
  shows "0 \<le> min (fl64 (fl64 (of_int rtt) / fl64 (of_int (500 * millisecond)))) 1"
    and "min (fl64 (fl64 (of_int rtt) / fl64 (of_int (500 * millisecond)))) 1 \<le> 1"
proof -
  have "0 \<le> fl64 (of_int rtt)" using assms by (intro fl64_nonneg) simp
  moreover have "fl64 (of_int (500 * millisecond)) = 500000000"
    using fl64_of_int [of 500000000] by (simp add: millisecond_def)
  ultimately have "0 \<le> fl64 (fl64 (of_int rtt) / fl64 (of_int (500 * millisecond)))"
    by (intro fl64_nonneg) simp
  then show "0 \<le> min (fl64 (fl64 (of_int rtt) / fl64 (of_int (500 * millisecond)))) 1" by simp
qed simp

lemma factor_bounds:
  assumes "0 \<le> pen" "pen \<le> 1"
  shows "51 / 64 \<le> fl64 (1 - fl64 (fl64 (1 / 5) * pen))" "fl64 (1 - fl64 (fl64 (1 / 5) * pen)) \<le> 1"
proof -
  let ?f = "fl64 (1 / 5)"
  have "?f * pen \<le> ?f" using assms fifth_bounds(2) by (simp add: mult_left_le)
  then have "fl64 (?f * pen) \<le> 13 / 64" using fl64_le_float [OF _ fifth_bounds(1)] fifth_bounds(3) by force
  moreover have "is_float64 (51 / 64)"
    using is_float64_dyadic [of 51 "- 6"] by (simp add: power_int_minus_divide)
  ultimately show "51 / 64 \<le> fl64 (1 - fl64 (?f * pen))" by (intro fl64_ge_float) auto
  have "0 \<le> fl64 (?f * pen)" using assms fifth_bounds(2) by (intro fl64_nonneg) simp
  then show "fl64 (1 - fl64 (?f * pen)) \<le> 1" by (intro fl64_le_float) auto
qed

definition base_weight :: "'p candidate \<Rightarrow> rat" where
  "base_weight p = (if pc_weight p \<le> 0 then 1 else pc_weight p)"

lemma effective_weight_factor:
  assumes "is_float64 (base_weight p)"
  shows "\<exists>k. 51 / 64 \<le> k \<and> k \<le> 1 \<and> effective_weight p = fl64 (base_weight p * k)"
proof (cases "0 < pc_rtt p")
  case True
  let ?pen = "min (fl64 (fl64 (of_int (pc_rtt p)) / fl64 (of_int (500 * millisecond)))) 1"
  show ?thesis
    using True factor_bounds [OF penalty_bounds [OF True]]
    by (intro exI [of _ "fl64 (1 - fl64 (fl64 (1 / 5) * ?pen))"])
      (simp add: effective_weight_def base_weight_def Let_def)
next
  case False
  then show ?thesis
    using assms by (intro exI [of _ 1]) (simp add: effective_weight_def base_weight_def is_float64_def)
qed

lemma sane_base_weight:
  "sane_weight p \<Longrightarrow> is_float64 (base_weight p) \<and> 1 / 2 ^ 1000 \<le> base_weight p \<and> 0 < base_weight p"
  by (auto simp: base_weight_def sane_weight_def)

lemma half_pow: "1 / 2 ^ 1000 \<le> w \<Longrightarrow> 51 / 64 \<le> k \<Longrightarrow> 0 < fl64 (w * k)"
proof -
  assume w: "1 / 2 ^ 1000 \<le> w" and k: "51 / 64 \<le> k"
  have "(1 :: rat) / 2 ^ 1001 = 1 / 2 ^ 1000 * (1 / 2)" by simp
  also have "\<dots> \<le> w * k" using w k by (intro mult_mono order_trans [OF _ w]) auto
  finally have "1 / 2 ^ 1001 \<le> fl64 (w * k)"
    by (rule fl64_ge_float) (rule is_float64_fl, simp)
  moreover have "(0 :: rat) < 1 / 2 ^ 1001" by simp
  ultimately show ?thesis by (rule less_le_trans [rotated])
qed

lemma effective_weight_pos: "sane_weight p \<Longrightarrow> 0 < effective_weight p"
  using effective_weight_factor [of p] sane_base_weight [of p] half_pow by metis

text \<open>A high round-trip time lowers a path's share but never below about four fifths of its
  configured weight, and never raises it; so every path keeps a positive weight and no slow path
  becomes a standby.\<close>

theorem effective_weight_bounds:
  assumes "sane_weight p"
  shows "0 < effective_weight p \<and> fl64 (51 / 64 * base_weight p) \<le> effective_weight p
    \<and> effective_weight p \<le> base_weight p"
proof -
  let ?w = "base_weight p"
  have w: "is_float64 ?w" "0 < ?w" using sane_base_weight [OF assms] by auto
  obtain k where k: "51 / 64 \<le> k" "k \<le> 1" "effective_weight p = fl64 (?w * k)"
    using effective_weight_factor [OF w(1)] by blast
  have "51 / 64 * ?w \<le> ?w * k" using k(1) w(2) by (simp add: mult.commute [of "?w"] mult_right_mono)
  then have "fl64 (51 / 64 * ?w) \<le> effective_weight p" unfolding k(3) by (rule fl64_mono)
  moreover have "?w * k \<le> ?w" using k(2) w(2) by (simp add: mult_left_le)
  then have "effective_weight p \<le> ?w" unfolding k(3) using w(1) by (rule fl64_le_float)
  ultimately show ?thesis using effective_weight_pos [OF assms] by blast
qed

end
