(* ===== verification/Scheduler_Facts.thy ===== *)
theory Scheduler_Facts
  imports Scheduler
begin

text \<open>
  What \<open>Scheduler.Next\<close> promises its callers (a healthy path whenever there is one), stated as an
  interface and proved of the model, and the fairness of the smooth weighted round-robin.
\<close>

section \<open>One call\<close>

definition healthy_paths :: "'p candidate list \<Rightarrow> 'p candidate list" where
  "healthy_paths paths = filter pc_healthy paths"

text \<open>The value a healthy path competes with.\<close>

definition bid :: "credits \<Rightarrow> 'p candidate \<Rightarrow> rat" where
  "bid m p = fl64 (credit m (pc_name p) + effective_weight p)"

lemma credit_put: "credit (map_put m k v) n = (if n = k then v else credit m n)"
  by (simp add: credit_def map_get_put)

lemma scan_selected:
  assumes "\<forall>p \<in> set ps. sane_weight p"
  shows "sc_active (scan_paths m ps) = rev (map pc_name (healthy_paths ps))
    \<and> sc_total (scan_paths m ps) = foldl (\<lambda>t p. fl64 (t + effective_weight p)) 0 (healthy_paths ps)
    \<and> (case sc_selected (scan_paths m ps) of None \<Rightarrow> healthy_paths ps = []
       | Some (p, c) \<Rightarrow> p \<in> set (healthy_paths ps))"
  using assms
proof (induction ps rule: rev_induct)
  case (snoc p ps)
  have "scan_paths m (ps @ [p]) = visit (scan_paths m ps) p" by (simp add: scan_paths_def)
  moreover have "\<not> effective_weight p \<le> 0" using snoc.prems effective_weight_pos [of p] by auto
  ultimately show ?case
    using snoc by (auto simp: visit_def Let_def healthy_paths_def split: option.splits if_splits)
qed (simp add: scan_paths_def healthy_paths_def)

lemma scan_bids:
  assumes "\<forall>p \<in> set ps. sane_weight p" and "distinct (map pc_name (healthy_paths ps))"
  shows "(\<forall>p \<in> set (healthy_paths ps). credit (sc_current (scan_paths m ps)) (pc_name p) = bid m p)
    \<and> (\<forall>n. n \<notin> pc_name ` set (healthy_paths ps) \<longrightarrow> credit (sc_current (scan_paths m ps)) n = credit m n)
    \<and> (case sc_selected (scan_paths m ps) of None \<Rightarrow> True
       | Some (p, c) \<Rightarrow> c = bid m p \<and> (\<forall>q \<in> set (healthy_paths ps). bid m q \<le> c))"
  using assms
proof (induction ps rule: rev_induct)
  case (snoc p ps)
  let ?s = "scan_paths m ps"
  have v: "scan_paths m (ps @ [p]) = visit ?s p" by (simp add: scan_paths_def)
  show ?case
  proof (cases "pc_healthy p")
    case False
    then have "healthy_paths (ps @ [p]) = healthy_paths ps" "visit ?s p = ?s"
      by (simp_all add: healthy_paths_def visit_def)
    then have e: "healthy_paths (ps @ [p]) = healthy_paths ps" "scan_paths m (ps @ [p]) = ?s"
      using v by simp_all
    show ?thesis
      unfolding e using snoc.prems by (intro snoc.IH) (simp_all add: e(1) [symmetric])
  next
    case True
    then have h: "healthy_paths (ps @ [p]) = healthy_paths ps @ [p]" by (simp add: healthy_paths_def)
    have sane: "\<forall>p \<in> set ps. sane_weight p" and pos: "\<not> effective_weight p \<le> 0"
      using snoc.prems effective_weight_pos [of p] by auto
    have d: "distinct (map pc_name (healthy_paths ps))" "pc_name p \<notin> pc_name ` set (healthy_paths ps)"
      using snoc.prems(2) by (auto simp: h)
    note IH = snoc.IH [OF sane d(1)]
    have c: "credit (sc_current ?s) (pc_name p) = credit m (pc_name p)"
      using IH d(2) by blast
    have d': "\<forall>q \<in> set (healthy_paths ps). pc_name q \<noteq> pc_name p" using d(2) by (metis imageI)
    have none: "sc_selected ?s = None \<Longrightarrow> healthy_paths ps = []"
      using scan_selected [OF sane, of m] by simp
    show ?thesis
      unfolding v h using True pos IH none d'
      by (auto simp: visit_def Let_def c credit_put bid_def split: option.splits)
  qed
qed (simp add: scan_paths_def healthy_paths_def)

text \<open>The interface of a path chooser: it answers with a usable path, and with one whenever there is
  one.\<close>

locale path_chooser =
  fixes pick :: "'s \<Rightarrow> 'c list \<Rightarrow> 'c option \<times> 's"
    and usable :: "'c \<Rightarrow> bool" and acceptable :: "'c \<Rightarrow> bool"
  assumes chosen: "\<forall>c \<in> set cs. acceptable c \<Longrightarrow> fst (pick s cs) = Some c \<Longrightarrow> c \<in> set cs \<and> usable c"
    and none: "\<forall>c \<in> set cs. acceptable c \<Longrightarrow> fst (pick s cs) = None \<Longrightarrow> c \<in> set cs \<Longrightarrow> \<not> usable c"
begin

lemma finds: "\<forall>c \<in> set cs. acceptable c \<Longrightarrow> c \<in> set cs \<Longrightarrow> usable c \<Longrightarrow>
    \<exists>d \<in> set cs. fst (pick s cs) = Some d \<and> usable d"
proof (cases "fst (pick s cs)")
  case None
  then show "\<forall>c \<in> set cs. acceptable c \<Longrightarrow> c \<in> set cs \<Longrightarrow> usable c \<Longrightarrow> ?thesis" by (blast dest: none)
next
  case (Some d)
  then show "\<forall>c \<in> set cs. acceptable c \<Longrightarrow> ?thesis" by (blast dest: chosen)
qed

lemma only:
  assumes "\<forall>c \<in> set cs. acceptable c" "{c \<in> set cs. usable c} = {c}"
  shows "fst (pick s cs) = Some c"
proof -
  have "c \<in> set cs" "usable c" using assms(2) by blast+
  then obtain d where d: "fst (pick s cs) = Some d" "d \<in> set cs" "usable d"
    using finds [OF assms(1)] by blast
  then have "d \<in> {c \<in> set cs. usable c}" by blast
  then have "d = c" unfolding assms(2) by blast
  with d(1) show ?thesis by blast
qed

end

lemma next_candidate_selected:
  "fst (next_candidate m ps) = map_option fst (sc_selected (scan_paths m ps))"
  by (auto simp: next_candidate_def Let_def split: option.splits)

interpretation wrr: path_chooser next_candidate pc_healthy sane_weight
proof
  fix m :: credits and ps :: "'a candidate list" and c
  assume s: "\<forall>p \<in> set ps. sane_weight p"
  show "c \<in> set ps \<and> pc_healthy c" if "fst (next_candidate m ps) = Some c"
    using scan_selected [OF s, of m] that
    by (auto simp: next_candidate_selected healthy_paths_def)
  show "\<not> pc_healthy c" if "fst (next_candidate m ps) = None" "c \<in> set ps"
    using scan_selected [OF s, of m] that
    by (auto simp: next_candidate_selected healthy_paths_def filter_empty_conv)
qed

text \<open>\<open>Next\<close> returns a path exactly when some path is healthy, and the path it returns is a healthy
  one of those offered; a path that is no longer healthy loses its accumulated credit.\<close>

theorem next_selects_healthy:
  assumes "\<forall>p \<in> set ps. sane_weight p"
  shows "(fst (next_candidate m ps) = None \<longleftrightarrow> (\<forall>p \<in> set ps. \<not> pc_healthy p))
    \<and> (\<forall>p. fst (next_candidate m ps) = Some p \<longrightarrow> p \<in> set ps \<and> pc_healthy p)
    \<and> fst ` set (snd (next_candidate m ps)) \<subseteq> pc_name ` {p \<in> set ps. pc_healthy p}"
proof (intro conjI)
  show "fst (next_candidate m ps) = None \<longleftrightarrow> (\<forall>p \<in> set ps. \<not> pc_healthy p)"
  proof
    assume "\<forall>p \<in> set ps. \<not> pc_healthy p"
    then show "fst (next_candidate m ps) = None"
      by (cases "fst (next_candidate m ps)") (blast dest: wrr.chosen [OF assms])+
  qed (use wrr.none [OF assms, of m] in blast)
  show "\<forall>p. fst (next_candidate m ps) = Some p \<longrightarrow> p \<in> set ps \<and> pc_healthy p"
    using wrr.chosen [OF assms] by blast
  let ?names = "pc_name ` {p \<in> set ps. pc_healthy p}"
  define kept where "kept = filter (\<lambda>(name, _). name \<in> set (sc_active (scan_paths m ps))) (sc_current (scan_paths m ps))"
  have act: "set (sc_active (scan_paths m ps)) = ?names"
    using scan_selected [OF assms, of m] by (simp add: healthy_paths_def)
  have k: "fst ` set kept \<subseteq> ?names" by (auto simp: kept_def act)
  show "fst ` set (snd (next_candidate m ps)) \<subseteq> ?names"
  proof (cases "sc_selected (scan_paths m ps)")
    case None
    with k show ?thesis by (simp add: next_candidate_def Let_def flip: kept_def)
  next
    case (Some pc)
    obtain p c where pc: "pc = (p, c)" by (cases pc)
    have "p \<in> set (healthy_paths ps)" using scan_selected [OF assms, of m] Some pc by simp
    then have "pc_name p \<in> ?names" by (auto simp: healthy_paths_def)
    moreover have "fst ` set (map_put kept (pc_name p) v) \<subseteq> insert (pc_name p) (fst ` set kept)" for v
      using image_mono [OF set_map_put_subset [of "pc_name p" v kept], of fst] by simp
    ultimately have "fst ` set (map_put kept (pc_name p) v) \<subseteq> ?names" for v
      using k by (meson insert_subset order_trans)
    then show ?thesis by (simp add: next_candidate_def Let_def Some pc flip: kept_def)
  qed
qed

section \<open>Fairness\<close>

text \<open>\<open>rounds k m ps\<close>: the paths chosen by \<open>k\<close> consecutive calls, and the credits left.\<close>

fun rounds :: "nat \<Rightarrow> credits \<Rightarrow> 'p candidate list \<Rightarrow> 'p candidate option list \<times> credits" where
  "rounds 0 m ps = ([], m)"
| "rounds (Suc k) m ps =
     (let (sel, m1) = rounds k m ps; (p, m2) = next_candidate m1 ps in (sel @ [p], m2))"

text \<open>Healthy paths of integer weights, no round-trip time measured yet, few enough for exact
  floating-point sums.\<close>

definition integer_paths :: "('p candidate \<Rightarrow> int) \<Rightarrow> 'p candidate list \<Rightarrow> bool" where
  "integer_paths w ps \<longleftrightarrow> ps \<noteq> [] \<and> distinct (map pc_name ps)
     \<and> (\<forall>p \<in> set ps. pc_healthy p \<and> pc_rtt p = 0 \<and> pc_weight p = of_int (w p) \<and> 0 < w p)
     \<and> int (length ps) * sum_list (map w ps) < 2 ^ 53"

abbreviation total_weight :: "('p candidate \<Rightarrow> int) \<Rightarrow> 'p candidate list \<Rightarrow> int" where
  "total_weight w ps \<equiv> sum_list (map w ps)"

definition lead :: "('p candidate \<Rightarrow> int) \<Rightarrow> 'p candidate list \<Rightarrow> 'p candidate option list \<Rightarrow> 'p candidate \<Rightarrow> int" where
  "lead w ps sel p = int (length sel) * w p - total_weight w ps * int (count_list sel (Some p))"

lemma integer_paths_facts:
  assumes "integer_paths w ps"
  shows "p \<in> set ps \<Longrightarrow> effective_weight p = of_int (w p)"
    and "p \<in> set ps \<Longrightarrow> sane_weight p" and "healthy_paths ps = ps"
    and "p \<in> set ps \<Longrightarrow> 0 < w p \<and> w p \<le> total_weight w ps" and "total_weight w ps < 2 ^ 53"
    and "0 < total_weight w ps"
proof -
  have w: "\<And>q. q \<in> set ps \<Longrightarrow> 0 < w q" using assms by (simp add: integer_paths_def)
  show le: "p \<in> set ps \<Longrightarrow> 0 < w p \<and> w p \<le> total_weight w ps" for p
    using w member_le_sum_list [of "w p" "map w ps"] by (force simp: less_imp_le)
  obtain q where q: "q \<in> set ps" using assms by (cases ps) (auto simp: integer_paths_def)
  show pos: "0 < total_weight w ps" using le [OF q] by simp
  have "1 \<le> int (length ps)" using q by (cases ps) auto
  then have "1 * total_weight w ps \<le> int (length ps) * total_weight w ps"
    using pos by (intro mult_right_mono) auto
  then show T: "total_weight w ps < 2 ^ 53" using assms unfolding integer_paths_def by linarith
  show "p \<in> set ps \<Longrightarrow> effective_weight p = of_int (w p)"
    using assms le [of p] by (simp add: integer_paths_def effective_weight_def Let_def not_le)
  show "healthy_paths ps = ps" using assms by (simp add: healthy_paths_def integer_paths_def)
  assume p: "p \<in> set ps"
  have "is_float64 (of_int (w p))" using le [OF p] T by (intro is_float64_of_int) simp
  moreover have "(1 :: rat) / 2 ^ 1000 \<le> 1" by simp
  then have "(1 :: rat) / 2 ^ 1000 \<le> of_int (w p)"
    using le [OF p] by (meson int_one_le_iff_zero_less of_int_1_le_iff order_trans)
  ultimately show "sane_weight p" using assms p by (simp add: sane_weight_def integer_paths_def)
qed

lemma exact_total:
  assumes "integer_paths w ps"
  shows "foldl (\<lambda>t p. fl64 (t + effective_weight p)) 0 ps = of_int (total_weight w ps)"
proof -
  have "foldl (\<lambda>t p. fl64 (t + effective_weight p)) 0 qs = of_int (sum_list (map w qs))"
    if "\<exists>rs. ps = qs @ rs" for qs
    using that
  proof (induction qs rule: rev_induct)
    case (snoc q qs)
    then obtain rs where rs: "ps = (qs @ [q]) @ rs" by blast
    then have q: "q \<in> set ps" by simp
    have nn: "0 \<le> sum_list (map w xs)" if "set xs \<subseteq> set ps" for xs
      using that integer_paths_facts(4) [OF assms] by (intro sum_list_nonneg) force
    have "0 \<le> sum_list (map w (qs @ [q]))" "0 \<le> sum_list (map w rs)" by (rule nn, use rs in auto)+
    moreover have "total_weight w ps = sum_list (map w (qs @ [q])) + sum_list (map w rs)" by (simp add: rs)
    ultimately have "fl64 (of_int (sum_list (map w (qs @ [q])))) = of_int (sum_list (map w (qs @ [q])))"
      using integer_paths_facts(5) [OF assms] by (intro fl64_of_int) linarith
    moreover have "\<exists>rs. ps = qs @ rs" using rs by (metis append.assoc)
    ultimately show ?case using snoc.IH by (simp add: integer_paths_facts(1) [OF assms q])
  qed simp
  then show ?thesis by blast
qed

lemma sum_count_list:
  fixes xs :: "'a list"
  assumes "set sel \<subseteq> set xs" "distinct xs"
  shows "(\<Sum>x \<leftarrow> xs. int (count_list sel x)) = int (length sel)"
proof -
  have "(\<Sum>x \<leftarrow> xs. count_list sel x) = (\<Sum>x \<in> set xs. count_list sel x)"
    using assms(2) by (simp add: sum_list_distinct_conv_sum_set)
  also have "\<dots> = length sel"
    using assms(1) by (metis List.finite_set sum_count_set)
  finally have "int (\<Sum>x \<leftarrow> xs. count_list sel x) = int (length sel)" by simp
  then show ?thesis by (simp add: o_def sum_list_of_nat [symmetric])
qed

text \<open>The invariant between calls: every credit is exactly the path's lead over its fair share, and
  no path is ahead of its share by a whole turn.\<close>

definition fair_state :: "('p candidate \<Rightarrow> int) \<Rightarrow> 'p candidate list \<Rightarrow> 'p candidate option list \<Rightarrow> credits \<Rightarrow> bool" where
  "fair_state w ps sel m \<longleftrightarrow> set sel \<subseteq> Some ` set ps
     \<and> (\<forall>p \<in> set ps. credit m (pc_name p) = of_int (lead w ps sel p) \<and> - total_weight w ps < lead w ps sel p)"

lemma sum_lead:
  assumes "set sel \<subseteq> Some ` set ps" "distinct ps"
  shows "(\<Sum>p \<leftarrow> ps. lead w ps sel p) = 0"
proof -
  have "set sel \<subseteq> set (map Some ps)" "distinct (map Some ps)" using assms by (auto simp: distinct_map)
  note c = sum_count_list [OF this]
  have "(\<Sum>p \<leftarrow> ps. lead w ps sel p)
      = int (length sel) * total_weight w ps - total_weight w ps * (\<Sum>p \<leftarrow> ps. int (count_list sel (Some p)))"
    by (simp add: lead_def sum_list_subtractf sum_list_const_mult)
  with c show ?thesis by (simp add: o_def)
qed

text \<open>What a path lacks is what the others are ahead.\<close>

lemma lead_upper:
  assumes ip: "integer_paths w ps" and f: "fair_state w ps sel m" and p: "p \<in> set ps"
  shows "lead w ps sel p \<le> (int (length ps) - 1) * (total_weight w ps - 1)"
proof -
  let ?T = "total_weight w ps" and ?x = "lead w ps sel"
  have d: "distinct ps" using ip by (auto simp: integer_paths_def distinct_map)
  have s0: "(\<Sum>q \<leftarrow> ps. ?x q) = 0" using f d by (intro sum_lead) (auto simp: fair_state_def)
  have x: "\<And>q. q \<in> set ps \<Longrightarrow> 1 - ?T \<le> ?x q" using f by (force simp: fair_state_def)
  have "(\<Sum>q \<leftarrow> ps. ?x q) = ?x p + (\<Sum>q \<leftarrow> remove1 p ps. ?x q)"
    using p by (simp add: sum_list_map_remove1)
  moreover have "(\<Sum>q \<leftarrow> remove1 p ps. 1 - ?T) \<le> (\<Sum>q \<leftarrow> remove1 p ps. ?x q)"
    using x by (intro sum_list_mono) (metis notin_set_remove1)
  moreover have "int (length (remove1 p ps)) = int (length ps) - 1"
    using length_pos_if_in_set [OF p] p by (simp only: length_remove1 if_True)
  then have "(\<Sum>q \<leftarrow> remove1 p ps. 1 - ?T) = (int (length ps) - 1) * (1 - ?T)" by (simp only: sum_list_triv)
  then have "(\<Sum>q \<leftarrow> remove1 p ps. 1 - ?T) = - ((int (length ps) - 1) * (?T - 1))" by (simp add: algebra_simps)
  ultimately show ?thesis using s0 by linarith
qed

lemma lead_bounds:
  assumes ip: "integer_paths w ps" and f: "fair_state w ps sel m" and p: "p \<in> set ps"
  shows "\<bar>lead w ps sel p + w p\<bar> < 2 ^ 53"
proof -
  let ?T = "total_weight w ps" and ?x = "lead w ps sel"
  have big: "int (length ps) * ?T < 2 ^ 53" using ip by (auto simp: integer_paths_def)
  have "(int (length ps) - 1) * (?T - 1) \<le> (int (length ps) - 1) * ?T"
    using p by (intro mult_left_mono) (auto simp: Suc_le_eq length_pos_if_in_set)
  then have "?x p + w p \<le> int (length ps) * ?T"
    using lead_upper [OF assms] integer_paths_facts(4) [OF ip p] by (simp add: algebra_simps)
  moreover have "- ?T < ?x p" using f p by (simp add: fair_state_def)
  then have "- (2 ^ 53) < ?x p + w p"
    using integer_paths_facts(4,5) [OF ip] p by (smt (verit))
  ultimately show ?thesis using big by linarith
qed

lemma fair_step:
  assumes ip: "integer_paths w ps" and f: "fair_state w ps sel m" and n: "next_candidate m ps = (r, m')"
  shows "fair_state w ps (sel @ [r]) m'"
proof -
  let ?T = "total_weight w ps" and ?x = "lead w ps sel" and ?s = "scan_paths m ps"
  have d: "distinct (map pc_name (healthy_paths ps))" and hp: "healthy_paths ps = ps"
    and sane: "\<forall>p \<in> set ps. sane_weight p"
    using ip integer_paths_facts(2,3) [OF ip] by (auto simp: integer_paths_def)
  have dp: "distinct ps" using ip by (auto simp: integer_paths_def distinct_map)
  have b: "bid m p = of_int (?x p + w p)" if "p \<in> set ps" for p
    using that f lead_bounds [OF ip f that] integer_paths_facts(1) [OF ip that]
    by (simp add: bid_def fair_state_def fl64_of_int flip: of_int_add)
  note sb = scan_bids [OF sane d, of m, unfolded hp] and ss = scan_selected [OF sane, of m, unfolded hp]
  have "ps \<noteq> []" using ip by (simp add: integer_paths_def)
  then obtain p c where p: "sc_selected ?s = Some (p, c)" using ss by (cases "sc_selected ?s") auto
  then have pin: "p \<in> set ps" and c: "c = bid m p" and mx: "\<forall>q \<in> set ps. bid m q \<le> bid m p"
    using sb ss by auto
  have mx': "?x q + w q \<le> ?x p + w p" if "q \<in> set ps" for q
    using mx that b pin by (metis of_int_le_iff)
  have "0 < ?x p + w p"
  proof (rule ccontr)
    assume "\<not> 0 < ?x p + w p"
    then have "(\<Sum>q \<leftarrow> ps. ?x q + w q) \<le> (\<Sum>q \<leftarrow> ps. 0)"
      using mx' by (intro sum_list_mono) force
    moreover have "(\<Sum>q \<leftarrow> ps. ?x q) = 0" using f dp by (intro sum_lead) (auto simp: fair_state_def)
    ultimately show False using integer_paths_facts(6) [OF ip] by (simp add: sum_list_addf)
  qed
  then have ahead: "- ?T < ?x p + w p - ?T" by simp
  define kept where "kept = filter (\<lambda>(name, _). name \<in> set (sc_active ?s)) (sc_current ?s)"
  have act: "set (sc_active ?s) = pc_name ` set ps" using ss by simp
  have ck: "credit kept (pc_name q) = of_int (?x q + w q)" if "q \<in> set ps" for q
    using that sb b [OF that] map_get_filter_key [of "\<lambda>n. n \<in> set (sc_active ?s)" "pc_name q" "sc_current ?s"]
    by (simp add: kept_def credit_def act)
  have tot: "sc_total ?s = of_int ?T" using ss exact_total [OF ip] by simp
  have small: "\<bar>?x p + w p - ?T\<bar> < 2 ^ 53"
    using ahead lead_bounds [OF ip f pin] integer_paths_facts(5,6) [OF ip] by linarith
  have r: "r = Some p" and m': "m' = map_put kept (pc_name p) (of_int (?x p + w p - ?T))"
    using n ck [OF pin] fl64_of_int [OF small]
    by (simp_all add: next_candidate_def Let_def p tot flip: kept_def)
  have ld: "lead w ps (sel @ [r]) q = ?x q + w q - (if q = p then ?T else 0)" for q
    by (simp add: lead_def r algebra_simps)
  have nm: "pc_name q = pc_name p \<longleftrightarrow> q = p" if "q \<in> set ps" for q
    using d that pin unfolding hp by (auto simp: distinct_map inj_on_def)
  have "credit m' (pc_name q) = of_int (lead w ps (sel @ [r]) q) \<and> - ?T < lead w ps (sel @ [r]) q"
    if q: "q \<in> set ps" for q
  proof (cases "q = p")
    case True
    with ahead show ?thesis by (simp add: ld m' credit_put)
  next
    case False
    have "- ?T < ?x q + w q" using f q integer_paths_facts(4) [OF ip q] by (auto simp: fair_state_def)
    with False show ?thesis using ck [OF q] nm [OF q] by (simp add: ld m' credit_put)
  qed
  moreover have "set (sel @ [r]) \<subseteq> Some ` set ps" using f pin r by (auto simp: fair_state_def)
  ultimately show ?thesis by (simp add: fair_state_def)
qed

lemma fair_rounds:
  assumes ip: "integer_paths w ps" and r: "rounds k [] ps = (sel, m)"
  shows "fair_state w ps sel m \<and> length sel = k"
  using r
proof (induction k arbitrary: sel m)
  case 0
  then show ?case using integer_paths_facts(6) [OF ip] by (simp add: fair_state_def lead_def credit_def)
next
  case (Suc k)
  obtain sel1 m1 where k: "rounds k [] ps = (sel1, m1)" by (cases "rounds k [] ps")
  obtain p m2 where n: "next_candidate m1 ps = (p, m2)" by (cases "next_candidate m1 ps")
  have "sel = sel1 @ [p]" "m = m2" using Suc.prems by (simp_all add: k n)
  then show ?case using Suc.IH [OF k] fair_step [OF ip _ n] by simp
qed

text \<open>C38: With stable healthy paths of integer weights, no path is ever as much as one turn ahead of its exact
  share of the calls made so far, nor as much as one turn for each of the other paths behind it, and after as many
  calls as the weights add up to, every path has been chosen exactly as often as its weight and all credits are
  back at zero. (More than one turn behind is possible: among the weights 1, 16, 1, 16, 5 it happens.)\<close>

theorem weighted_fair:
  assumes "integer_paths w ps" and "p \<in> set ps"
  shows "total_weight w ps * (int (count_list (fst (rounds k [] ps)) (Some p)) - 1) < int k * w p
    \<and> int k * w p - total_weight w ps * int (count_list (fst (rounds k [] ps)) (Some p))
        \<le> (int (length ps) - 1) * (total_weight w ps - 1)
    \<and> (int k = total_weight w ps \<longrightarrow>
        int (count_list (fst (rounds k [] ps)) (Some p)) = w p
        \<and> credit (snd (rounds k [] ps)) (pc_name p) = 0)"
proof -
  obtain sel m where r: "rounds k [] ps = (sel, m)" by (cases "rounds k [] ps")
  let ?T = "total_weight w ps" and ?c = "\<lambda>q. int (count_list sel (Some q))"
  have f: "fair_state w ps sel m" and l: "length sel = k"
    using fair_rounds [OF assms(1) r] by auto
  have lb: "- ?T < int k * w q - ?T * ?c q" if "q \<in> set ps" for q
    using f that l by (simp add: fair_state_def lead_def)
  have behind: "int k * w p - ?T * ?c p \<le> (int (length ps) - 1) * (?T - 1)"
    using lead_upper [OF assms(1) f assms(2)] l by (simp add: lead_def)
  have turn: "?T * (?c p - 1) < int k * w p" using lb [OF assms(2)] by (simp add: algebra_simps)
  have "?c p = w p \<and> credit m (pc_name p) = 0" if k: "int k = ?T"
  proof -
  have le: "?c q \<le> w q" if "q \<in> set ps" for q
  proof -
    have "?T * (?c q - w q) < ?T * 1" using lb [OF that] by (simp add: k algebra_simps)
    then have "?c q - w q < 1"
      using integer_paths_facts(6) [OF assms(1)] mult_less_cancel_left_pos by blast
    then show ?thesis by simp
  qed
  have "distinct ps" using assms(1) by (auto simp: integer_paths_def distinct_map)
  then have "(\<Sum>q \<leftarrow> ps. lead w ps sel q) = 0" using f by (intro sum_lead) (auto simp: fair_state_def)
  moreover have "lead w ps sel q = ?T * (w q - ?c q)" for q by (simp add: lead_def l k algebra_simps)
  ultimately have "?T * (\<Sum>q \<leftarrow> ps. w q - ?c q) = 0" by (simp add: sum_list_const_mult)
  then have "(\<Sum>q \<leftarrow> ps. w q - ?c q) = 0" using integer_paths_facts(6) [OF assms(1)] by simp
  then have "w p - ?c p = 0"
    using assms(2) le sum_list_nonneg_eq_0_iff [of "map (\<lambda>q. w q - ?c q) ps"] by fastforce
  moreover have "credit m (pc_name p) = of_int (lead w ps sel p)" using f assms(2) by (simp add: fair_state_def)
  ultimately show ?thesis by (simp add: lead_def l k)
  qed
  with turn behind show ?thesis by (simp add: r)
qed

section \<open>Witnesses\<close>

definition sample_paths :: "nat candidate list" where
  "sample_paths =
     [\<lparr> pc_path = 0, pc_name = ''a'', pc_weight = 3, pc_healthy = True, pc_rtt = 0 \<rparr>,
      \<lparr> pc_path = 1, pc_name = ''b'', pc_weight = 1, pc_healthy = True, pc_rtt = 0 \<rparr>]"

lemma sample_paths_integer: "integer_paths (\<lambda>p. \<lfloor>pc_weight p\<rfloor>) sample_paths"
  by (simp add: integer_paths_def sample_paths_def)

theorem weighted_fair_witness:
  "int (count_list (fst (rounds 4 [] sample_paths)) (Some (hd sample_paths))) = 3"
  using weighted_fair [OF sample_paths_integer, of "hd sample_paths" 4] by (simp add: sample_paths_def)

lemma sample_sane: "\<forall>p \<in> set sample_paths. sane_weight p"
  using integer_paths_facts(2) [OF sample_paths_integer] by blast

theorem effective_weight_bounds_witness:
  "0 < effective_weight (hd sample_paths) \<and> effective_weight (hd sample_paths) \<le> 3"
  using effective_weight_bounds [of "hd sample_paths"] sample_sane
  by (simp add: sample_paths_def base_weight_def)

theorem next_selects_healthy_witness:
  "\<exists>p \<in> set sample_paths. fst (next_candidate [] sample_paths) = Some p \<and> pc_healthy p"
  using next_selects_healthy [OF sample_sane, of "[]"] by (auto simp: sample_paths_def)

end
