(* ===== verification/Go_Netip.thy ===== *)
theory Go_Netip
  imports Byte_Order
begin

text \<open>
  Go's \<open>net/netip\<close>, as far as the program uses it. An \<open>Addr\<close> is the zero value, an IPv4 or an IPv6
  address. A tunnel prefix must be IPv4 everywhere in the program, so \<open>parse_prefix4\<close> is
  \<open>netip.ParsePrefix\<close> followed by the test \<open>Addr().Is4()\<close>: it fails on a malformed prefix and on a
  well-formed IPv6 one. Decimal numbers, as \<open>strconv\<close> and \<open>%d\<close> print them, are here too.
\<close>

datatype addr = AddrNone | Addr4 u32 | Addr6 "128 word"

section \<open>Decimal numbers\<close>

definition digit_char :: "nat \<Rightarrow> char" where
  "digit_char d = char_of (48 + d)"

definition is_digit :: "char \<Rightarrow> bool" where
  "is_digit c \<longleftrightarrow> 48 \<le> (of_char c :: nat) \<and> (of_char c :: nat) \<le> 57"

definition digit_value :: "char \<Rightarrow> nat" where
  "digit_value c = of_char c - 48"

fun decimal :: "nat \<Rightarrow> string" where
  "decimal n = (if n < 10 then [digit_char n] else decimal (n div 10) @ [digit_char (n mod 10)])"

declare decimal.simps [simp del]

definition decimal_value :: "string \<Rightarrow> nat" where
  "decimal_value s = foldl (\<lambda>n c. 10 * n + digit_value c) 0 s"

lemma of_char_digit: "d < 10 \<Longrightarrow> of_char (digit_char d) = (48 + d :: nat)"
  by (simp add: digit_char_def)

lemma digit_char_facts [simp]:
  "d < 10 \<Longrightarrow> is_digit (digit_char d)" "d < 10 \<Longrightarrow> digit_value (digit_char d) = d"
  by (simp_all add: is_digit_def digit_value_def of_char_digit)

lemma digit_char_zero: "d < 10 \<Longrightarrow> digit_char d = CHR ''0'' \<longleftrightarrow> d = 0"
proof
  assume d: "d < 10" and e: "digit_char d = CHR ''0''"
  from e have "of_char (digit_char d) = (of_char CHR ''0'' :: nat)" by simp
  with d show "d = 0" by (simp add: of_char_digit)
qed (simp add: digit_char_def char_of_eq_iff)

lemma decimal_digits: "\<forall>c \<in> set (decimal n). is_digit c"
  by (induction n rule: decimal.induct) (subst decimal.simps, auto)

lemma decimal_nonempty [simp]: "decimal n \<noteq> []"
  by (subst decimal.simps) simp

lemma decimal_value_decimal [simp]: "decimal_value (decimal n) = n"
proof (induction n rule: decimal.induct)
  case (1 n)
  then show ?case
    by (subst decimal.simps) (auto simp: decimal_value_def)
qed

lemma decimal_inject [simp]: "decimal m = decimal n \<longleftrightarrow> m = n"
  by (metis decimal_value_decimal)

lemma decimal_leading: "10 \<le> n \<Longrightarrow> hd (decimal n) \<noteq> CHR ''0''"
proof (induction n rule: decimal.induct)
  case (1 n)
  show ?case
  proof (cases "n div 10 < 10")
    case True
    then have "decimal (n div 10) = [digit_char (n div 10)]" by (subst decimal.simps) simp
    moreover have "n div 10 \<noteq> 0" using "1.prems" by simp
    ultimately show ?thesis
      using "1.prems" True digit_char_zero [OF True] by (subst decimal.simps) simp
  next
    case False
    with 1 have "hd (decimal (n div 10)) \<noteq> CHR ''0''" by simp
    with "1.prems" show ?thesis by (subst decimal.simps) simp
  qed
qed

lemma decimal_length_1: "length (decimal n) = 1 \<longleftrightarrow> n < 10"
proof -
  have "length (decimal n) = (if n < 10 then 1 else Suc (length (decimal (n div 10))))"
    by (subst decimal.simps) simp
  moreover have "0 < length (decimal (n div 10))" by simp
  ultimately show ?thesis by auto
qed

section \<open>IPv4 addresses and prefixes as text\<close>

fun split_on :: "char \<Rightarrow> string \<Rightarrow> string list" where
  "split_on c [] = [[]]"
| "split_on c (x # s) =
     (if x = c then [] # split_on c s
      else case split_on c s of p # ps \<Rightarrow> (x # p) # ps | [] \<Rightarrow> [[x]])"

text \<open>One octet as \<open>netip.ParseAddr\<close> reads it: decimal digits, no leading zero, at most 255.\<close>

definition parse_octet :: "string \<Rightarrow> byte option" where
  "parse_octet s =
     (if s = [] \<or> \<not> list_all is_digit s \<or> (1 < length s \<and> hd s = CHR ''0'') \<or> 255 < decimal_value s
      then None else Some (of_nat (decimal_value s)))"

definition parse_addr4 :: "string \<Rightarrow> u32 option" where
  "parse_addr4 s =
     (case map parse_octet (split_on CHR ''.'' s) of
        [Some a, Some b, Some c, Some d] \<Rightarrow> Some (get_uint32 [a, b, c, d])
      | _ \<Rightarrow> None)"

definition addr4_string :: "u32 \<Rightarrow> string" where
  "addr4_string a =
     (let octets = map (\<lambda>b. decimal (unat b)) (put_uint32 a)
      in octets ! 0 @ ''.'' @ octets ! 1 @ ''.'' @ octets ! 2 @ ''.'' @ octets ! 3)"

type_synonym prefix4 = "u32 \<times> nat"

text \<open>The prefix length: digits, no sign, and no leading zero unless it is a single digit.\<close>

definition parse_bits :: "string \<Rightarrow> nat option" where
  "parse_bits s =
     (if s = [] \<or> \<not> list_all is_digit s \<or> (1 < length s \<and> hd s = CHR ''0'') \<or> 32 < decimal_value s
      then None else Some (decimal_value s))"

text \<open>The text is cut at its last slash.\<close>

definition parse_prefix4 :: "string \<Rightarrow> prefix4 option" where
  "parse_prefix4 s =
     (let r = rev s in
      if CHR ''/'' \<notin> set s then None
      else case (parse_addr4 (rev (tl (dropWhile (\<lambda>c. c \<noteq> CHR ''/'') r))),
                 parse_bits (rev (takeWhile (\<lambda>c. c \<noteq> CHR ''/'') r))) of
        (Some a, Some n) \<Rightarrow> Some (a, n) | _ \<Rightarrow> None)"

definition prefix4_string :: "prefix4 \<Rightarrow> string" where
  "prefix4_string p = addr4_string (fst p) @ ''/'' @ decimal (snd p)"

text \<open>\<open>Prefix.Contains\<close>, \<open>Prefix.Masked\<close> and \<open>Addr.Next\<close> (which has no successor for the last
  address).\<close>

definition prefix4_contains :: "prefix4 \<Rightarrow> u32 \<Rightarrow> bool" where
  "prefix4_contains p a \<longleftrightarrow> drop_bit (32 - snd p) (fst p XOR a) = 0"

definition prefix4_masked :: "prefix4 \<Rightarrow> prefix4" where
  "prefix4_masked p = (push_bit (32 - snd p) (drop_bit (32 - snd p) (fst p)), snd p)"

definition addr4_next :: "u32 \<Rightarrow> addr" where
  "addr4_next a = (if a = - 1 then AddrNone else Addr4 (a + 1))"

section \<open>Printing and parsing\<close>

lemma split_on_nonempty [simp]: "split_on c s \<noteq> []"
  by (induction s) (auto split: list.splits)

lemma split_on_plain: "c \<notin> set s \<Longrightarrow> split_on c s = [s]"
  by (induction s) auto

lemma split_on_join: "c \<notin> set p \<Longrightarrow> split_on c (p @ c # s) = p # split_on c s"
  by (induction p) auto

lemma digit_not_punct: "is_digit c \<Longrightarrow> c \<noteq> CHR ''.'' \<and> c \<noteq> CHR ''/''"
  by (auto simp: is_digit_def)

lemma decimal_no_punct [simp]: "CHR ''.'' \<notin> set (decimal n)" "CHR ''/'' \<notin> set (decimal n)"
  using decimal_digits digit_not_punct by blast+

lemma decimal_plain: "list_all is_digit (decimal n)" "1 < length (decimal n) \<Longrightarrow> hd (decimal n) \<noteq> CHR ''0''"
proof -
  show "list_all is_digit (decimal n)" using decimal_digits by (simp add: list_all_iff)
  assume "1 < length (decimal n)"
  then have "\<not> n < 10" using decimal_length_1 [of n] by auto
  then show "hd (decimal n) \<noteq> CHR ''0''" by (intro decimal_leading) simp
qed

lemma parse_octet_decimal: "parse_octet (decimal (unat b)) = Some b"
proof -
  have "unat b \<le> 255" using unsigned_less [of b, where ?'a = nat] by simp
  then show ?thesis using decimal_plain [of "unat b"] by (auto simp: parse_octet_def)
qed

lemma put_uint32_four: "\<exists>a b c d. put_uint32 w = [a, b, c, d]"
  by (simp add: put_uint_defs eval_nat_numeral)

lemma get_put_uint32: "get_uint32 (put_uint32 w) = w"
  by (simp add: u32c.get_put)

lemma parse_addr4_string [simp]: "parse_addr4 (addr4_string a) = Some a"
proof -
  obtain w x y z where o: "put_uint32 a = [w, x, y, z]" using put_uint32_four by blast
  have "split_on CHR ''.'' (addr4_string a)
      = [decimal (unat w), decimal (unat x), decimal (unat y), decimal (unat z)]"
    by (simp add: addr4_string_def o split_on_join split_on_plain)
  then show ?thesis
    using get_put_uint32 [of a] by (simp add: parse_addr4_def parse_octet_decimal o)
qed

lemma parse_bits_decimal: "n \<le> 32 \<Longrightarrow> parse_bits (decimal n) = Some n"
  using decimal_plain [of n] by (auto simp: parse_bits_def)

lemma addr4_string_inject [simp]: "addr4_string a = addr4_string b \<longleftrightarrow> a = b"
  by (metis parse_addr4_string option.inject)

lemma parse_prefix4_string [simp]: "n \<le> 32 \<Longrightarrow> parse_prefix4 (prefix4_string (a, n)) = Some (a, n)"
proof -
  assume n: "n \<le> 32"
  have r: "rev (prefix4_string (a, n)) = rev (decimal n) @ CHR ''/'' # rev (addr4_string a)"
    by (simp add: prefix4_string_def)
  have "takeWhile (\<lambda>c. c \<noteq> CHR ''/'') (rev (prefix4_string (a, n))) = rev (decimal n)"
    "dropWhile (\<lambda>c. c \<noteq> CHR ''/'') (rev (prefix4_string (a, n))) = CHR ''/'' # rev (addr4_string a)"
    unfolding r by (subst takeWhile_append2 dropWhile_append2, auto)+
  moreover have "CHR ''/'' \<in> set (prefix4_string (a, n))" by (simp add: prefix4_string_def)
  ultimately show ?thesis
    using n by (simp add: parse_prefix4_def parse_bits_decimal)
qed

lemma prefix4_contains_masked:
  "snd p \<le> 32 \<Longrightarrow> prefix4_contains (prefix4_masked p) a \<longleftrightarrow> prefix4_contains p a"
  unfolding prefix4_contains_def prefix4_masked_def fst_conv snd_conv
  by (rule arg_cong [of _ _ "\<lambda>w. w = 0"]) (rule bit_word_eqI, auto simp: bit_simps dest: bit_imp_le_length)

lemma prefix4_contains_refl: "prefix4_contains p (fst p)"
  by (simp add: prefix4_contains_def)

end
