(* ===== verification/Metrics.thy ===== *)
theory Metrics
  imports Go_Netip Go_Float Go_Time
begin

text \<open>
  \<open>internal/metrics/metrics.go\<close>: the counters of a client or relay, the registry of per-path counters,
  the snapshot behind the status API, the control endpoint and the text exposition. Atomic counters
  wrap at 64 bits. A \<open>*Path\<close> is never replaced once created, so holding the pointer is holding the
  name; an update through the pointer is an update under the name.
\<close>

section \<open>Counters\<close>

record path_metric =
  pm_sent_packets :: u64
  pm_sent_bytes :: u64
  pm_received_packets :: u64
  pm_received_bytes :: u64
  pm_auth_failures :: u64
  pm_replay_drops :: u64
  pm_write_errors :: u64
  pm_rtt_nanos :: int
  pm_healthy :: bool

definition new_path_metric :: path_metric where
  "new_path_metric =
     \<lparr> pm_sent_packets = 0, pm_sent_bytes = 0, pm_received_packets = 0, pm_received_bytes = 0,
       pm_auth_failures = 0, pm_replay_drops = 0, pm_write_errors = 0, pm_rtt_nanos = 0, pm_healthy = False \<rparr>"

datatype control_state = ControlStatus string string

text \<open>The control callbacks: what \<open>Start\<close> and \<open>Stop\<close> answer (an error text or success) and the state;
  a callback can be absent.\<close>

record control =
  ctl_start :: "string option option"
  ctl_stop :: "string option option"
  ctl_state :: "control_state option"

record registry =
  mt_role :: string
  mt_started :: gotime
  mt_sent_packets :: u64
  mt_sent_bytes :: u64
  mt_received_packets :: u64
  mt_received_bytes :: u64
  mt_invalid_packets :: u64
  mt_auth_failures :: u64
  mt_no_path_drops :: u64
  mt_reorder_skips :: u64
  mt_tun_read_errors :: u64
  mt_tun_write_errors :: u64
  mt_active_sessions :: int
  mt_ready :: bool
  mt_paths :: "(string \<times> path_metric) list"
  mt_control :: "control option"
  mt_control_token :: string

definition new_registry :: "string \<Rightarrow> gotime \<Rightarrow> registry" where
  "new_registry role now =
     \<lparr> mt_role = role, mt_started = now, mt_sent_packets = 0, mt_sent_bytes = 0, mt_received_packets = 0,
       mt_received_bytes = 0, mt_invalid_packets = 0, mt_auth_failures = 0, mt_no_path_drops = 0,
       mt_reorder_skips = 0, mt_tun_read_errors = 0, mt_tun_write_errors = 0, mt_active_sessions = 0,
       mt_ready = False, mt_paths = [], mt_control = None, mt_control_token = [] \<rparr>"

definition set_ready :: "bool \<Rightarrow> registry \<Rightarrow> registry" where
  "set_ready b m = m\<lparr>mt_ready := b\<rparr>"

text \<open>\<open>Registry.Path\<close>: get or create; the result is the registry that surely has the name.\<close>

definition registry_path :: "registry \<Rightarrow> string \<Rightarrow> path_metric \<times> registry" where
  "registry_path m name =
     (case map_get (mt_paths m) name of
        Some p \<Rightarrow> (p, m)
      | None \<Rightarrow> (new_path_metric, m\<lparr>mt_paths := map_put (mt_paths m) name new_path_metric\<rparr>))"

definition update_path_metric :: "string \<Rightarrow> (path_metric \<Rightarrow> path_metric) \<Rightarrow> registry \<Rightarrow> registry" where
  "update_path_metric name f m =
     (let (p, m1) = registry_path m name in m1\<lparr>mt_paths := map_put (mt_paths m1) name (f p)\<rparr>)"

text \<open>The single counter updates the engine makes.\<close>

definition count_invalid :: "registry \<Rightarrow> registry" where
  "count_invalid m = m\<lparr>mt_invalid_packets := mt_invalid_packets m + 1\<rparr>"

definition count_auth_failure :: "registry \<Rightarrow> registry" where
  "count_auth_failure m = m\<lparr>mt_auth_failures := mt_auth_failures m + 1\<rparr>"

definition count_no_path :: "registry \<Rightarrow> registry" where
  "count_no_path m = m\<lparr>mt_no_path_drops := mt_no_path_drops m + 1\<rparr>"

definition count_skips :: "u64 \<Rightarrow> registry \<Rightarrow> registry" where
  "count_skips n m = m\<lparr>mt_reorder_skips := mt_reorder_skips m + n\<rparr>"

definition count_tun_read_error :: "registry \<Rightarrow> registry" where
  "count_tun_read_error m = m\<lparr>mt_tun_read_errors := mt_tun_read_errors m + 1\<rparr>"

definition count_tun_write_error :: "registry \<Rightarrow> registry" where
  "count_tun_write_error m = m\<lparr>mt_tun_write_errors := mt_tun_write_errors m + 1\<rparr>"

definition count_sent :: "nat \<Rightarrow> registry \<Rightarrow> registry" where
  "count_sent n m = m\<lparr>mt_sent_packets := mt_sent_packets m + 1, mt_sent_bytes := mt_sent_bytes m + of_nat n\<rparr>"

definition count_received :: "nat \<Rightarrow> registry \<Rightarrow> registry" where
  "count_received n m =
     m\<lparr>mt_received_packets := mt_received_packets m + 1, mt_received_bytes := mt_received_bytes m + of_nat n\<rparr>"

definition add_sessions :: "int \<Rightarrow> registry \<Rightarrow> registry" where
  "add_sessions d m = m\<lparr>mt_active_sessions := signed_take_bit 63 (mt_active_sessions m + d)\<rparr>"

definition path_sent :: "nat \<Rightarrow> path_metric \<Rightarrow> path_metric" where
  "path_sent n p = p\<lparr>pm_sent_packets := pm_sent_packets p + 1, pm_sent_bytes := pm_sent_bytes p + of_nat n\<rparr>"

definition path_received :: "nat \<Rightarrow> path_metric \<Rightarrow> path_metric" where
  "path_received n p =
     p\<lparr>pm_received_packets := pm_received_packets p + 1, pm_received_bytes := pm_received_bytes p + of_nat n\<rparr>"

definition path_auth_failure :: "path_metric \<Rightarrow> path_metric" where
  "path_auth_failure p = p\<lparr>pm_auth_failures := pm_auth_failures p + 1\<rparr>"

definition path_replay_drop :: "path_metric \<Rightarrow> path_metric" where
  "path_replay_drop p = p\<lparr>pm_replay_drops := pm_replay_drops p + 1\<rparr>"

definition path_write_error :: "path_metric \<Rightarrow> path_metric" where
  "path_write_error p = p\<lparr>pm_write_errors := pm_write_errors p + 1, pm_healthy := False\<rparr>"

definition path_health :: "bool \<Rightarrow> path_metric \<Rightarrow> path_metric" where
  "path_health b p = p\<lparr>pm_healthy := b\<rparr>"

lemmas metric_defs = set_ready_def count_invalid_def count_auth_failure_def count_no_path_def
  count_skips_def count_tun_read_error_def count_tun_write_error_def count_sent_def count_received_def

section \<open>Status snapshot\<close>

record path_status =
  ps_name :: string
  ps_metric :: path_metric
  ps_rtt_ms :: rat

record status =
  st_registry :: registry
  st_uptime :: duration
  st_paths :: "path_status list"
  st_control :: "control_state option"

text \<open>Go strings compare byte by byte.\<close>

fun string_le :: "string \<Rightarrow> string \<Rightarrow> bool" where
  "string_le [] t = True"
| "string_le (c # s) [] = False"
| "string_le (c # s) (d # t) =
     ((of_char c :: nat) < of_char d \<or> c = d \<and> string_le s t)"

fun insert_string :: "string \<Rightarrow> string list \<Rightarrow> string list" where
  "insert_string s [] = [s]"
| "insert_string s (t # ts) = (if string_le s t then s # t # ts else t # insert_string s ts)"

definition sort_strings :: "string list \<Rightarrow> string list" where
  "sort_strings ss = foldr insert_string ss []"

definition path_status_of :: "registry \<Rightarrow> string \<Rightarrow> path_status" where
  "path_status_of m name =
     (let p = fst (registry_path m name) in
      \<lparr> ps_name = name, ps_metric = p,
        ps_rtt_ms = fl64 (fl64 (of_int (pm_rtt_nanos p)) / fl64 (of_int millisecond)) \<rparr>)"

text \<open>The scalar fields of \<open>Status\<close> are those of the registry, read one by one; the uptime is the
  duration that \<open>Seconds()\<close> then turns into a float.\<close>

definition snapshot :: "registry \<Rightarrow> gotime \<Rightarrow> status" where
  "snapshot m now =
     \<lparr> st_registry = m, st_uptime = time_sub now (mt_started m),
       st_paths = map (path_status_of m) (sort_strings (map fst (mt_paths m))),
       st_control = (case mt_control m of None \<Rightarrow> None | Some c \<Rightarrow> ctl_state c) \<rparr>"

section \<open>The control endpoint\<close>

datatype http_method = GET | POST | OtherMethod

datatype control_response = Forbidden | Conflict string | ControlOk

definition has_suffix :: "string \<Rightarrow> string \<Rightarrow> bool" where
  "has_suffix s suf \<longleftrightarrow> length suf \<le> length s \<and> drop (length s - length suf) s = suf"

text \<open>\<open>EnableControl\<close>: the token is 32 random bytes in URL-safe base64 without padding; \<open>token\<close> is that
  text, \<open>None\<close> if the random source fails. The result of \<open>serveControl\<close> says which callback ran.\<close>

datatype control_action = RunStart | RunStop | NoAction

definition enable_control :: "control \<Rightarrow> string option \<Rightarrow> registry \<Rightarrow> (string option) \<times> registry" where
  "enable_control c token m =
     (case token of
        None \<Rightarrow> (None, m)
      | Some t \<Rightarrow> (Some t, m\<lparr>mt_control := Some c, mt_control_token := t\<rparr>))"

definition control_error :: "string option \<Rightarrow> control_response" where
  "control_error e = (case e of None \<Rightarrow> ControlOk | Some msg \<Rightarrow> Conflict msg)"

definition serve_control :: "registry \<Rightarrow> http_method \<Rightarrow> string \<Rightarrow> string \<Rightarrow> control_action \<times> control_response" where
  "serve_control m meth path token =
     (case mt_control m of
        None \<Rightarrow> (NoAction, Forbidden)
      | Some c \<Rightarrow>
          if meth \<noteq> POST \<or> token \<noteq> mt_control_token m then (NoAction, Forbidden)
          else case (has_suffix path ''/start'', ctl_start c) of
            (True, Some e) \<Rightarrow> (RunStart, control_error e)
          | _ \<Rightarrow> (case (has_suffix path ''/stop'', ctl_stop c) of
              (True, Some e) \<Rightarrow> (RunStop, control_error e)
            | _ \<Rightarrow> (NoAction, Conflict ''control action is unavailable'')))"

section \<open>Text exposition\<close>

text \<open>\<open>quote\<close> escapes the characters that the exposition format reserves in a label value.\<close>

definition quote_char :: "char \<Rightarrow> string" where
  "quote_char c =
     (if c = CHR 0x5C then [CHR 0x5C, CHR 0x5C]
      else if c = CHR 0x22 then [CHR 0x5C, CHR 0x22]
      else if c = CHR 0x0A then [CHR 0x5C, CHR ''n'']
      else [c])"

definition quote :: "string \<Rightarrow> string" where
  "quote s = concat (map quote_char s)"

text \<open>\<open>metric\<close> writes one sample: its help and type lines, the labels in the order of their names
  (\<open>labels\<close> is the list of pairs of the map), and the formatted value.\<close>

definition render_labels :: "(string \<times> string) list \<Rightarrow> string" where
  "render_labels labels =
     (if labels = [] then []
      else ''{'' @ concat (map2 (\<lambda>i key. (if 0 < i then '','' else [])
              @ key @ ''='' @ [CHR 0x22] @ (case map_get labels key of Some v \<Rightarrow> v | None \<Rightarrow> []) @ [CHR 0x22])
            [0 ..< length labels] (sort_strings (map fst labels))) @ ''}'')"

definition render_metric :: "string \<Rightarrow> string \<Rightarrow> (string \<times> string) list \<Rightarrow> string \<Rightarrow> string" where
  "render_metric name help labels v =
     (if help \<noteq> [] then ''# HELP '' @ name @ '' '' @ help @ [CHR 0x0A] @ ''# TYPE '' @ name @ '' gauge'' @ [CHR 0x0A] else [])
     @ name @ render_labels labels @ '' '' @ v @ [CHR 0x0A]"

end
