(* ===== verification/Config.thy ===== *)
theory Config
  imports Protocol Go_Text Go_Netip
begin

text \<open>
  \<open>internal/config/config.go\<close>: the client and server configurations, their defaults and the checks
  that every start of the program makes. Decoding the JSON file is left out; a duration is the
  nanosecond count that the decoder leaves. What the checks ask of the operating system (environment
  variables, name resolution) is the argument \<open>net_lib\<close>.
\<close>

section \<open>Data\<close>

record net_lib =
  nl_getenv :: "string \<Rightarrow> string"
  nl_resolve_udp :: "string \<Rightarrow> bool"
  nl_parse_ip :: "string \<Rightarrow> bool option"
  nl_split_host :: "string \<Rightarrow> string option"

text \<open>\<open>nl_resolve_udp\<close>: \<open>net.ResolveUDPAddr\<close> succeeds. \<open>nl_parse_ip\<close>: \<open>net.ParseIP\<close>, \<open>None\<close> for nil, else
  whether the address is a loopback one. \<open>nl_split_host\<close>: the host of \<open>net.SplitHostPort\<close>.\<close>

record logging_config =
  lc_level :: string
  lc_format :: string

record path_config =
  pt_name :: string
  pt_local_address :: string
  pt_interface :: string
  pt_weight :: rat
  pt_enabled :: "bool option"

record client_config =
  cc_server :: string
  cc_client_id :: string
  cc_psk :: string
  cc_psk_env :: string
  cc_tunnel_name :: string
  cc_tunnel_address :: string
  cc_mtu :: int
  cc_paths :: "path_config list"
  cc_auto_discover :: bool
  cc_routes :: "string list"
  cc_traffic_mode :: string
  cc_configure_interface :: bool
  cc_health_interval :: duration
  cc_stats_interval :: duration
  cc_handshake_timeout :: duration
  cc_reorder_delay :: duration
  cc_reorder_window :: int
  cc_logging :: logging_config
  cc_metrics_listen :: string

record client_credential =
  cl_name :: string
  cl_client_id :: string
  cl_psk :: string
  cl_psk_env :: string
  cl_tunnel_address :: string

record management_config =
  mg_listen :: string
  mg_database_path :: string
  mg_public_relay :: string
  mg_tunnel_pool :: string
  mg_admin_token_env :: string
  mg_master_key_env :: string
  mg_activation_ttl :: duration

record server_config =
  sc_listen :: string
  sc_tunnel_name :: string
  sc_tunnel_address :: string
  sc_mtu :: int
  sc_clients :: "client_credential list"
  sc_configure_interface :: bool
  sc_session_timeout :: duration
  sc_reorder_delay :: duration
  sc_reorder_window :: int
  sc_stats_interval :: duration
  sc_logging :: logging_config
  sc_metrics_listen :: string
  sc_management :: "management_config option"

text \<open>An error is named by the check that fails; the text the code formats around it is left out.\<close>

datatype config_error = ConfigError string

text \<open>A check returns the error or \<^const>\<open>None\<close>; a sequence of checks returns the first error.\<close>

fun first_error :: "config_error option list \<Rightarrow> config_error option" where
  "first_error [] = None"
| "first_error (None # es) = first_error es"
| "first_error (Some e # es) = Some e"

lemma first_error_None [simp]: "first_error es = None \<longleftrightarrow> (\<forall>e \<in> set es. e = None)"
  by (induction es rule: first_error.induct) auto

definition check :: "bool \<Rightarrow> config_error \<Rightarrow> config_error option" where
  "check bad e = (if bad then Some e else None)"

lemma check_None [simp]: "check bad e = None \<longleftrightarrow> \<not> bad"
  by (simp add: check_def)

section \<open>Durations and keys\<close>

text \<open>\<open>Duration.Value\<close>\<close>

definition duration_value :: "duration \<Rightarrow> duration \<Rightarrow> duration" where
  "duration_value d fallback = (if d \<le> 0 then fallback else d)"

definition validate_duration :: "string \<Rightarrow> duration \<Rightarrow> duration \<Rightarrow> duration \<Rightarrow> config_error option" where
  "validate_duration name v minimum maximum =
     (if v = 0 then None else check (v < minimum \<or> maximum < v) (ConfigError name))"

definition resolve_key :: "net_lib \<Rightarrow> string \<Rightarrow> string \<Rightarrow> config_error + bytes" where
  "resolve_key L v envName =
     (if v \<noteq> [] \<and> envName \<noteq> [] then Inl (ConfigError ''set either psk or psk_env, not both'')
      else if envName \<noteq> [] \<and> nl_getenv L envName = [] then Inl (ConfigError ''environment variable is empty'')
      else case parse_key (if envName \<noteq> [] then nl_getenv L envName else v) of
             Inl e \<Rightarrow> Inl (ConfigError ''key'')
           | Inr k \<Rightarrow> Inr k)"

definition client_key :: "net_lib \<Rightarrow> client_config \<Rightarrow> config_error + bytes" where
  "client_key L c = resolve_key L (cc_psk c) (cc_psk_env c)"

definition credential_key :: "net_lib \<Rightarrow> client_credential \<Rightarrow> config_error + bytes" where
  "credential_key L c = resolve_key L (cl_psk c) (cl_psk_env c)"

text \<open>\<open>strings.ToLower\<close> as far as a comparison with an ASCII word can see it: ASCII letters, and the two
  other code points whose lower case is an ASCII letter (dotted capital I and the Kelvin sign).\<close>

definition lower_char :: "char \<Rightarrow> char" where
  "lower_char c = (if 65 \<le> (of_char c :: nat) \<and> (of_char c :: nat) \<le> 90 then char_of ((of_char c :: nat) + 32) else c)"

fun to_lower :: "string \<Rightarrow> string" where
  "to_lower [] = []"
| "to_lower (c # s) =
     (if c = CHR 0xC4 \<and> take 1 s = [CHR 0xB0] then CHR ''i'' # to_lower (drop 1 s)
      else if c = CHR 0xE2 \<and> take 2 s = [CHR 0x84, CHR 0xAA] then CHR ''k'' # to_lower (drop 2 s)
      else lower_char c # to_lower s)"

definition validate_logging :: "logging_config \<Rightarrow> config_error option" where
  "validate_logging l =
     first_error
       [check (to_lower (lc_level l) \<notin> {''debug'', ''info'', ''warn'', ''error''}) (ConfigError ''logging.level''),
        check (to_lower (lc_format l) \<notin> {''json'', ''text''}) (ConfigError ''logging.format'')]"

definition validate_tunnel :: "string \<Rightarrow> int \<Rightarrow> config_error option" where
  "validate_tunnel address mtu =
     (case parse_prefix4 address of
        None \<Rightarrow> Some (ConfigError ''tunnel_address'')
      | Some _ \<Rightarrow> check (mtu < 576 \<or> 9000 < mtu \<or> int MaxDataPayload < mtu) (ConfigError ''mtu must be between 576 and 9000''))"

section \<open>Paths\<close>

definition path_enabled :: "path_config \<Rightarrow> bool" where
  "path_enabled p \<longleftrightarrow> pt_enabled p = None \<or> pt_enabled p = Some True"

definition validate_path :: "net_lib \<Rightarrow> path_config \<Rightarrow> config_error option" where
  "validate_path L p =
     first_error
       [check (trim_space (pt_name p) = []) (ConfigError ''path name is required''),
        check (63 < length (pt_name p)) (ConfigError ''path name cannot exceed 63 bytes''),
        check (pt_weight p < 0) (ConfigError ''path weight cannot be negative''),
        check (fl64 (65535 / 100) < pt_weight p) (ConfigError ''path weight cannot exceed 655.35''),
        check (pt_local_address p \<noteq> [] \<and> nl_parse_ip L (pt_local_address p) = None) (ConfigError ''invalid local_address'')]"

text \<open>The loop over the paths, with the names seen so far.\<close>

fun validate_paths :: "net_lib \<Rightarrow> string list \<Rightarrow> path_config list \<Rightarrow> config_error option" where
  "validate_paths L seen [] = None"
| "validate_paths L seen (p # ps) =
     (case validate_path L p of
        Some e \<Rightarrow> Some e
      | None \<Rightarrow> if pt_name p \<in> set seen then Some (ConfigError ''duplicate path name'')
               else validate_paths L (pt_name p # seen) ps)"

definition enabled_paths :: "path_config list \<Rightarrow> path_config list" where
  "enabled_paths paths = filter path_enabled paths"

section \<open>The client configuration\<close>

definition default_string :: "string \<Rightarrow> string \<Rightarrow> string" where
  "default_string d s = (if s = [] then d else s)"

definition default_int :: "int \<Rightarrow> int \<Rightarrow> int" where
  "default_int d n = (if n = 0 then d else n)"

definition client_defaults :: "client_config \<Rightarrow> client_config" where
  "client_defaults c =
     c\<lparr>cc_tunnel_name := default_string ''linkforge0'' (cc_tunnel_name c),
       cc_mtu := default_int 1280 (cc_mtu c),
       cc_logging := \<lparr> lc_level = default_string ''info'' (lc_level (cc_logging c)),
                       lc_format = default_string ''json'' (lc_format (cc_logging c)) \<rparr>,
       cc_traffic_mode := default_string ''manual'' (cc_traffic_mode c),
       cc_reorder_window := default_int 512 (cc_reorder_window c),
       cc_paths := map (\<lambda>p. if pt_weight p = 0 then p\<lparr>pt_weight := 1\<rparr> else p) (cc_paths c)\<rparr>"

definition validate_client :: "net_lib \<Rightarrow> client_config \<Rightarrow> config_error option" where
  "validate_client L c =
     first_error
       [check (\<not> nl_resolve_udp L (cc_server c)) (ConfigError ''server''),
        (case parse_client_id (cc_client_id c) of Inl e \<Rightarrow> Some (ConfigError ''client_id'') | Inr _ \<Rightarrow> None),
        (case client_key L c of Inl e \<Rightarrow> Some (ConfigError ''client key'') | Inr _ \<Rightarrow> None),
        validate_tunnel (cc_tunnel_address c) (cc_mtu c),
        check (\<not> cc_auto_discover c \<and> cc_paths c = []) (ConfigError ''at least one path is required''),
        check (cc_traffic_mode c \<noteq> ''manual'' \<and> cc_traffic_mode c \<noteq> ''all'') (ConfigError ''traffic_mode must be manual or all''),
        validate_paths L [] (cc_paths c),
        first_error (map (\<lambda>r. check (parse_prefix4 r = None) (ConfigError ''route'')) (cc_routes c)),
        check (cc_reorder_window c < 16 \<or> 65536 < cc_reorder_window c) (ConfigError ''reorder_window must be between 16 and 65536''),
        validate_duration ''health_interval'' (cc_health_interval c) (250 * millisecond) (5 * second),
        validate_duration ''handshake_timeout'' (cc_handshake_timeout c) second (2 * minute),
        validate_duration ''reorder_delay'' (cc_reorder_delay c) millisecond (2 * second),
        validate_duration ''stats_interval'' (cc_stats_interval c) second (24 * hour),
        validate_logging (cc_logging c)]"

definition effective_routes :: "client_config \<Rightarrow> string list" where
  "effective_routes c =
     (if cc_traffic_mode c = ''all'' then [''0.0.0.0/1'', ''128.0.0.0/1''] else cc_routes c)"

section \<open>The server configuration\<close>

definition management_defaults :: "string \<Rightarrow> management_config \<Rightarrow> management_config" where
  "management_defaults tunnelAddress m =
     m\<lparr>mg_listen := default_string ''127.0.0.1:8443'' (mg_listen m),
       mg_database_path := default_string ''/var/lib/linkforge/control.db'' (mg_database_path m),
       mg_tunnel_pool := (if mg_tunnel_pool m = [] then
           (case parse_prefix4 tunnelAddress of Some p \<Rightarrow> prefix4_string (prefix4_masked p) | None \<Rightarrow> [])
         else mg_tunnel_pool m),
       mg_admin_token_env := default_string ''LINKFORGE_ADMIN_TOKEN'' (mg_admin_token_env m),
       mg_master_key_env := default_string ''LINKFORGE_CONTROL_MASTER_KEY'' (mg_master_key_env m),
       mg_activation_ttl := default_int (15 * minute) (mg_activation_ttl m)\<rparr>"

definition server_defaults :: "server_config \<Rightarrow> server_config" where
  "server_defaults s =
     s\<lparr>sc_listen := default_string '':4430'' (sc_listen s),
       sc_tunnel_name := default_string ''linkforge0'' (sc_tunnel_name s),
       sc_mtu := default_int 1280 (sc_mtu s),
       sc_logging := \<lparr> lc_level = default_string ''info'' (lc_level (sc_logging s)),
                       lc_format = default_string ''json'' (lc_format (sc_logging s)) \<rparr>,
       sc_reorder_window := default_int 512 (sc_reorder_window s),
       sc_management := map_option (management_defaults (sc_tunnel_address s)) (sc_management s)\<rparr>"

text \<open>The loop over the configured clients: the identifiers, keys and addresses seen so far.\<close>

fun validate_clients ::
  "net_lib \<Rightarrow> prefix4 \<Rightarrow> string list \<Rightarrow> bytes list \<Rightarrow> u32 list \<Rightarrow> client_credential list \<Rightarrow> config_error option" where
  "validate_clients L serverPrefix ids keys ips [] = None"
| "validate_clients L serverPrefix ids keys ips (c # cs) =
     (case parse_client_id (cl_client_id c) of
        Inl e \<Rightarrow> Some (ConfigError ''client_id'')
      | Inr i \<Rightarrow>
          if client_id_string i \<in> set ids then Some (ConfigError ''duplicate client_id'')
          else case credential_key L c of
            Inl e \<Rightarrow> Some (ConfigError ''client key'')
          | Inr key \<Rightarrow>
              if key \<in> set keys then Some (ConfigError ''reuses another client key'')
              else case parse_prefix4 (cl_tunnel_address c) of
                None \<Rightarrow> Some (ConfigError ''client tunnel_address'')
              | Some p \<Rightarrow>
                  if \<not> prefix4_contains serverPrefix (fst p) \<or> fst p = fst serverPrefix
                  then Some (ConfigError ''not a usable address'')
                  else if fst p \<in> set ips then Some (ConfigError ''duplicate client tunnel IP'')
                  else validate_clients L serverPrefix (client_id_string i # ids) (key # keys) (fst p # ips) cs)"

definition validate_management :: "net_lib \<Rightarrow> prefix4 \<Rightarrow> management_config \<Rightarrow> config_error option" where
  "validate_management L serverPrefix m =
     first_error
       [(case nl_split_host L (mg_listen m) of
           None \<Rightarrow> Some (ConfigError ''management listen'')
         | Some host \<Rightarrow> check (host \<noteq> ''localhost'' \<and> nl_parse_ip L host \<noteq> Some True) (ConfigError ''listen must use a loopback address'')),
        check (trim_space (mg_database_path m) = []) (ConfigError ''database_path is required''),
        check (trim_space (mg_public_relay m) = []) (ConfigError ''public_relay''),
        check (\<not> nl_resolve_udp L (mg_public_relay m)) (ConfigError ''public_relay''),
        (case parse_prefix4 (mg_tunnel_pool m) of
           None \<Rightarrow> Some (ConfigError ''tunnel_pool must be an IPv4 prefix'')
         | Some pool \<Rightarrow>
             first_error [check (prefix4_masked pool \<noteq> prefix4_masked serverPrefix) (ConfigError ''tunnel_pool must match server tunnel subnet''),
                          check (30 < snd pool \<or> snd pool < 16) (ConfigError ''tunnel_pool prefix length'')]),
        check (trim_space (mg_admin_token_env m) = [] \<or> trim_space (mg_master_key_env m) = []) (ConfigError ''admin_token_env and master_key_env are required''),
        validate_duration ''activation_ttl'' (mg_activation_ttl m) minute (24 * hour)]"

text \<open>\<open>validateTunnel\<close> has made sure that the address parses; the code ignores the error of its second
  parse, so the value used for an unparsable address does not matter.\<close>

definition server_prefix :: "server_config \<Rightarrow> prefix4" where
  "server_prefix s = (case parse_prefix4 (sc_tunnel_address s) of Some p \<Rightarrow> p | None \<Rightarrow> (0, 0))"

definition validate_server :: "net_lib \<Rightarrow> server_config \<Rightarrow> config_error option" where
  "validate_server L s =
     first_error
       [check (\<not> nl_resolve_udp L (sc_listen s)) (ConfigError ''listen''),
        validate_tunnel (sc_tunnel_address s) (sc_mtu s),
        check (sc_clients s = [] \<and> sc_management s = None) (ConfigError ''at least one server client credential is required''),
        check (sc_reorder_window s < 16 \<or> 65536 < sc_reorder_window s) (ConfigError ''reorder_window must be between 16 and 65536''),
        validate_duration ''reorder_delay'' (sc_reorder_delay s) millisecond (2 * second),
        validate_duration ''session_timeout'' (sc_session_timeout s) (10 * second) (24 * hour),
        validate_duration ''stats_interval'' (sc_stats_interval s) second (24 * hour),
        validate_clients L (server_prefix s) [] [] [] (sc_clients s),
        (case sc_management s of None \<Rightarrow> None | Some m \<Rightarrow> validate_management L (server_prefix s) m),
        validate_logging (sc_logging s)]"

text \<open>\<open>Management.Secrets\<close>\<close>

definition management_secrets :: "net_lib \<Rightarrow> management_config \<Rightarrow> config_error + string \<times> bytes" where
  "management_secrets L m =
     (let adminToken = nl_getenv L (mg_admin_token_env m); masterValue = nl_getenv L (mg_master_key_env m) in
      if length adminToken < 32 then Inl (ConfigError ''admin token too short'')
      else if masterValue = [] then Inl (ConfigError ''master key'')
      else case parse_key masterValue of
             Inl e \<Rightarrow> Inl (ConfigError ''master key'')
           | Inr k \<Rightarrow> Inr (adminToken, k))"

section \<open>Path discovery\<close>

text \<open>An interface as \<open>net.Interfaces\<close> reports it. Of the addresses, \<open>if_addrs\<close> holds those of
  \<open>iface.Addrs()\<close> that parse as a prefix: an IPv4 address, or the text of another one (\<open>None\<close> if the
  call fails).\<close>

datatype if_addr = IfAddr4 u32 | IfAddrOther string

record net_interface =
  if_name :: string
  if_up :: bool
  if_loopback :: bool
  if_point_to_point :: bool
  if_addrs :: "if_addr list option"

fun if_addr_text :: "if_addr \<Rightarrow> string" where
  "if_addr_text (IfAddr4 a) = addr4_string a"
| "if_addr_text (IfAddrOther t) = t"

definition has_prefix :: "string \<Rightarrow> string \<Rightarrow> bool" where
  "has_prefix s p \<longleftrightarrow> take (length p) s = p"

definition virtual_prefixes :: "string list" where
  "virtual_prefixes = [''br-'', ''docker'', ''veth'', ''virbr'', ''vmnet'', ''vboxnet'', ''zt'', ''tailscale'',
     ''tun'', ''tap'', ''wg'', ''linkforge'', ''vethernet'']"

definition looks_virtual_interface :: "string \<Rightarrow> bool \<Rightarrow> bool" where
  "looks_virtual_interface name pointToPoint \<longleftrightarrow>
     pointToPoint \<or> list_ex (has_prefix (to_lower name)) virtual_prefixes"

text \<open>\<open>Addr.IsLoopback\<close> is 127/8, \<open>IsLinkLocalUnicast\<close> is 169.254/16.\<close>

definition usable_addr4 :: "u32 \<Rightarrow> bool" where
  "usable_addr4 a \<longleftrightarrow> drop_bit 24 a \<noteq> 127 \<and> drop_bit 16 a \<noteq> 0xA9FE"

definition replace_dots :: "string \<Rightarrow> string" where
  "replace_dots s = map (\<lambda>c. if c = CHR ''.'' then CHR ''_'' else c) s"

definition discover_address ::
  "client_config \<Rightarrow> string \<Rightarrow> path_config list \<times> string list \<Rightarrow> if_addr \<Rightarrow> path_config list \<times> string list" where
  "discover_address c ifname acc a =
     (case a of
        IfAddrOther t \<Rightarrow> acc
      | IfAddr4 ip \<Rightarrow>
          let (paths, existing) = acc; text = addr4_string ip in
          if \<not> usable_addr4 ip
             \<or> (case parse_prefix4 (cc_tunnel_address c) of Some p \<Rightarrow> ip = fst p | None \<Rightarrow> False)
             \<or> text \<in> set existing
          then acc
          else (paths @ [\<lparr> pt_name = ifname @ ''-'' @ replace_dots text, pt_local_address = text,
                           pt_interface = ifname, pt_weight = 1, pt_enabled = None \<rparr>],
                text # existing))"

text \<open>\<open>defaults\<close> is the list of keys of \<open>defaultPathInterfaces\<close>.\<close>

definition discover_interface ::
  "client_config \<Rightarrow> string list \<Rightarrow> path_config list \<times> string list \<Rightarrow> net_interface \<Rightarrow> path_config list \<times> string list" where
  "discover_interface c defaults acc i =
     (let addrs = (case if_addrs i of Some as \<Rightarrow> as | None \<Rightarrow> []) in
      if \<not> if_up i \<or> if_loopback i \<or> if_name i = cc_tunnel_name c
         \<or> looks_virtual_interface (if_name i) (if_point_to_point i)
         \<or> (defaults \<noteq> [] \<and> if_name i \<notin> set defaults
             \<and> \<not> list_ex (\<lambda>a. ''ip:'' @ if_addr_text a \<in> set defaults) addrs)
      then acc
      else foldl (discover_address c (if_name i)) acc addrs)"

definition discover_paths ::
  "client_config \<Rightarrow> net_interface list option \<Rightarrow> string list \<Rightarrow> path_config list option" where
  "discover_paths c interfaces defaults =
     (if \<not> cc_auto_discover c then Some (enabled_paths (cc_paths c))
      else case interfaces of
        None \<Rightarrow> None
      | Some is \<Rightarrow> Some (enabled_paths (fst (foldl (discover_interface c defaults)
                      (cc_paths c, map pt_local_address (cc_paths c)) is))))"

end
