(* ===== verification/Config_Facts.thy ===== *)
theory Config_Facts
  imports Config Protocol_Facts
begin

text \<open>
  What a configuration that passed the checks guarantees to the rest of the program: distinct
  credentials with usable tunnel addresses, durations and windows in range, a management pool that is
  the tunnel's subnet, routes that cover what they claim, and discovered paths that never use the
  tunnel itself.
\<close>

section \<open>Keys\<close>

lemma parse_key_length: "parse_key v = Inr k \<Longrightarrow> length k = 32"
  by (auto simp: parse_key_def Let_def split: if_splits option.splits)

lemma resolve_key_length: "resolve_key L v e = Inr k \<Longrightarrow> length k = 32"
  by (auto simp: resolve_key_def parse_key_length split: if_splits sum.splits)

section \<open>Server clients\<close>

text \<open>What the checks read off one configured client.\<close>

definition cred_id :: "client_credential \<Rightarrow> proto_error + bytes" where
  "cred_id c = parse_client_id (cl_client_id c)"

definition cred_addr :: "client_credential \<Rightarrow> u32 option" where
  "cred_addr c = map_option fst (parse_prefix4 (cl_tunnel_address c))"

text \<open>A list of clients whose identifiers, keys and tunnel addresses are well formed, pairwise
  different and inside the tunnel's subnet.\<close>

fun distinct_clients ::
  "net_lib \<Rightarrow> prefix4 \<Rightarrow> bytes set \<Rightarrow> bytes set \<Rightarrow> u32 set \<Rightarrow> client_credential list \<Rightarrow> bool" where
  "distinct_clients L p ids keys ips [] \<longleftrightarrow> True"
| "distinct_clients L p ids keys ips (c # cs) \<longleftrightarrow>
     (\<exists>i k a. cred_id c = Inr i \<and> credential_key L c = Inr k \<and> cred_addr c = Some a
        \<and> i \<notin> ids \<and> k \<notin> keys \<and> a \<notin> ips \<and> prefix4_contains p a \<and> a \<noteq> fst p
        \<and> distinct_clients L p (insert i ids) (insert k keys) (insert a ips) cs)"

lemma validate_clients_distinct:
  "validate_clients L p (map client_id_string is) keys ips cs = None
    \<longleftrightarrow> distinct_clients L p (set is) (set keys) (set ips) cs"
proof (induction cs arbitrary: "is" keys ips)
  case (Cons c cs)
  have mem: "client_id_string i \<in> client_id_string ` set is \<longleftrightarrow> i \<in> set is" for i
    by auto
  have step: "validate_clients L p (client_id_string i # map client_id_string is) (k # keys) (a # ips) cs = None
      \<longleftrightarrow> distinct_clients L p (insert i (set is)) (insert k (set keys)) (insert a (set ips)) cs" for i k a
    using Cons.IH [of "i # is" "k # keys" "a # ips"] by simp
  show ?case
    by (cases "parse_client_id (cl_client_id c)"; cases "credential_key L c"; cases "parse_prefix4 (cl_tunnel_address c)")
      (auto simp: cred_id_def cred_addr_def mem step)
qed simp

text \<open>The pairwise reading: the derived lists have no repetition.\<close>

lemma distinct_clients_lists:
  assumes "distinct_clients L p ids keys ips cs"
  shows "\<exists>is ks as. map cred_id cs = map Inr is \<and> map (credential_key L) cs = map Inr ks
    \<and> map cred_addr cs = map Some as \<and> distinct is \<and> distinct ks \<and> distinct as
    \<and> set is \<inter> ids = {} \<and> set ks \<inter> keys = {} \<and> set as \<inter> ips = {}
    \<and> (\<forall>a \<in> set as. prefix4_contains p a \<and> a \<noteq> fst p)"
  using assms
proof (induction cs arbitrary: ids keys ips)
  case (Cons c cs)
  from Cons.prems obtain i k a where c: "cred_id c = Inr i" "credential_key L c = Inr k" "cred_addr c = Some a"
    "i \<notin> ids" "k \<notin> keys" "a \<notin> ips" "prefix4_contains p a" "a \<noteq> fst p"
    "distinct_clients L p (insert i ids) (insert k keys) (insert a ips) cs" by auto
  from Cons.IH [OF c(9)] obtain "is" ks as where r:
    "map cred_id cs = map Inr is" "map (credential_key L) cs = map Inr ks" "map cred_addr cs = map Some as"
    "distinct is" "distinct ks" "distinct as"
    "set is \<inter> insert i ids = {}" "set ks \<inter> insert k keys = {}" "set as \<inter> insert a ips = {}"
    "\<forall>a \<in> set as. prefix4_contains p a \<and> a \<noteq> fst p" by blast
  show ?case
    by (intro exI [of _ "i # is"] exI [of _ "k # ks"] exI [of _ "a # as"]) (use c r in auto)
qed simp

text \<open>C40: A server configuration that passes validation gives its clients pairwise different
  identifiers, keys and tunnel addresses, every address inside the tunnel subnet and none of them the
  relay's own.\<close>

theorem validated_clients_distinct:
  assumes "validate_server L s = None"
  shows "\<exists>is ks as. map cred_id (sc_clients s) = map Inr is
    \<and> map (credential_key L) (sc_clients s) = map Inr ks \<and> map cred_addr (sc_clients s) = map Some as
    \<and> distinct is \<and> distinct ks \<and> distinct as
    \<and> (\<forall>a \<in> set as. prefix4_contains (server_prefix s) a \<and> a \<noteq> fst (server_prefix s))"
proof -
  have "validate_clients L (server_prefix s) (map client_id_string []) [] [] (sc_clients s) = None"
    using assms by (simp add: validate_server_def)
  then have "distinct_clients L (server_prefix s) {} {} {} (sc_clients s)"
    unfolding validate_clients_distinct by simp
  from distinct_clients_lists [OF this] show ?thesis by simp
qed

section \<open>Defaults\<close>

lemma default_idem [simp]:
  "default_string d (default_string d s) = default_string d s" "default_int n (default_int n i) = default_int n i"
  by (simp_all add: default_string_def default_int_def)

text \<open>Loading a client configuration twice changes nothing: the defaults are a fixed point, and an
  explicit setting is never overwritten.\<close>

theorem client_defaults_idempotent:
  "client_defaults (client_defaults c) = client_defaults c
   \<and> (cc_mtu c \<noteq> 0 \<longrightarrow> cc_mtu (client_defaults c) = cc_mtu c)
   \<and> (cc_reorder_window c \<noteq> 0 \<longrightarrow> cc_reorder_window (client_defaults c) = cc_reorder_window c)
   \<and> (\<forall>p \<in> set (cc_paths c). pt_weight p \<noteq> 0 \<longrightarrow> p \<in> set (cc_paths (client_defaults c)))"
  by (auto simp: client_defaults_def default_int_def o_def intro!: map_idI image_eqI)

lemma masked_masked [simp]:
  "snd p \<le> 32 \<Longrightarrow> prefix4_masked (prefix4_masked p) = prefix4_masked p"
  unfolding prefix4_masked_def by (rule prod_eqI) (auto intro!: bit_word_eqI simp: bit_simps)

lemma parse_prefix4_bits: "parse_prefix4 s = Some (a, n) \<Longrightarrow> n \<le> 32"
  by (auto simp: parse_prefix4_def parse_bits_def Let_def split: if_splits option.splits)

text \<open>When the management section names no pool, the default is the tunnel's own subnet, so the
  check that compares the two always succeeds on a default.\<close>

theorem default_pool_is_subnet:
  assumes "parse_prefix4 addr = Some p" "mg_tunnel_pool m = []"
  shows "\<exists>q. parse_prefix4 (mg_tunnel_pool (management_defaults addr m)) = Some q
    \<and> prefix4_masked q = prefix4_masked p \<and> snd q = snd p"
proof -
  obtain a n where p: "p = (a, n)" by (cases p)
  have n: "n \<le> 32" using parse_prefix4_bits assms(1) p by blast
  obtain b where m: "prefix4_masked p = (b, n)" by (simp add: prefix4_masked_def p)
  have "mg_tunnel_pool (management_defaults addr m) = prefix4_string (b, n)"
    using assms m by (simp add: management_defaults_def)
  moreover have "prefix4_masked (b, n) = (b, n)" using masked_masked [of p] n unfolding m by (simp add: p)
  ultimately show ?thesis using n m p by simp
qed

section \<open>Routes\<close>

lemma half_routes:
  "parse_prefix4 ''0.0.0.0/1'' = Some (0, 1)" "parse_prefix4 ''128.0.0.0/1'' = Some (0x80000000, 1)"
  by code_simp+

text \<open>In traffic mode "all" the two routes are valid IPv4 prefixes that together contain every
  address, neither of them being the default route that a \<open>/0\<close> would replace.\<close>

theorem all_traffic_covered:
  assumes "cc_traffic_mode c = ''all''"
  shows "\<exists>p q. map parse_prefix4 (effective_routes c) = [Some p, Some q]
    \<and> (\<forall>a. prefix4_contains p a \<noteq> prefix4_contains q a) \<and> snd p = 1 \<and> snd q = 1"
proof -
  have top: "drop_bit 31 w = 0 \<longleftrightarrow> \<not> bit w 31" for w :: u32
  proof -
    have "n = 0" if "bit w (31 + n)" for n
      using bit_imp_le_length [OF that] by simp
    then have "(\<forall>n. \<not> bit w (31 + n)) \<longleftrightarrow> \<not> bit w 31" by (metis add_0_right)
    then show ?thesis by (auto simp: bit_eq_iff bit_simps) (metis add_0_right zero_less_numeral)
  qed
  have e: "32 - 1 = (31 :: nat)" by simp
  have "prefix4_contains (0, 1) a \<noteq> prefix4_contains (0x80000000, 1) a" for a
    unfolding prefix4_contains_def fst_conv snd_conv e top by (simp add: bit_simps)
  then show ?thesis
    using assms by (simp add: effective_routes_def half_routes)
qed

section \<open>Discovered paths\<close>

text \<open>What an automatically discovered path is: a usable IPv4 address, not the tunnel's own and not one
  the user configured, of an interface that is up and neither loopback, virtual nor the tunnel.\<close>

definition discovered :: "client_config \<Rightarrow> net_interface list \<Rightarrow> path_config \<Rightarrow> bool" where
  "discovered c is p \<longleftrightarrow>
     (\<exists>a. pt_local_address p = addr4_string a \<and> usable_addr4 a
        \<and> (\<forall>q. parse_prefix4 (cc_tunnel_address c) = Some q \<longrightarrow> fst q \<noteq> a))
     \<and> pt_local_address p \<notin> pt_local_address ` set (cc_paths c) \<and> path_enabled p
     \<and> (\<exists>i \<in> set is. pt_interface p = if_name i \<and> if_up i \<and> \<not> if_loopback i
          \<and> if_name i \<noteq> cc_tunnel_name c \<and> \<not> looks_virtual_interface (if_name i) (if_point_to_point i))"

definition discovery_inv :: "client_config \<Rightarrow> net_interface list \<Rightarrow> path_config list \<times> string list \<Rightarrow> bool" where
  "discovery_inv c is acc \<longleftrightarrow>
     (\<exists>new. fst acc = cc_paths c @ new \<and> distinct (map pt_local_address new) \<and> (\<forall>p \<in> set new. discovered c is p)
        \<and> set (snd acc) = pt_local_address ` set (cc_paths c) \<union> pt_local_address ` set new)"

lemma discover_address_inv:
  assumes inv: "discovery_inv c is acc" and i: "i \<in> set is" "if_up i" "\<not> if_loopback i"
    "if_name i \<noteq> cc_tunnel_name c" "\<not> looks_virtual_interface (if_name i) (if_point_to_point i)"
  shows "discovery_inv c is (discover_address c (if_name i) acc a)"
proof (cases "discover_address c (if_name i) acc a = acc")
  case False
  obtain paths existing where acc: "acc = (paths, existing)" by (cases acc)
  from False obtain ip where a: "a = IfAddr4 ip" by (cases a) (auto simp: discover_address_def)
  let ?p = "\<lparr> pt_name = if_name i @ ''-'' @ replace_dots (addr4_string ip), pt_local_address = addr4_string ip,
              pt_interface = if_name i, pt_weight = 1, pt_enabled = None \<rparr>"
  from False have ok: "usable_addr4 ip" "\<And>q. parse_prefix4 (cc_tunnel_address c) = Some q \<Longrightarrow> ip \<noteq> fst q"
    "addr4_string ip \<notin> set existing"
    and new: "discover_address c (if_name i) acc a = (paths @ [?p], addr4_string ip # existing)"
    by (auto simp: discover_address_def Let_def acc a split: if_splits)
  obtain ps where ps: "paths = cc_paths c @ ps" "distinct (map pt_local_address ps)"
    "\<forall>p \<in> set ps. discovered c is p"
    "set existing = pt_local_address ` set (cc_paths c) \<union> pt_local_address ` set ps"
    using inv by (auto simp: discovery_inv_def acc)
  have "discovered c is ?p"
    using ok i ps(4) by (auto simp: discovered_def path_enabled_def)
  then show ?thesis
    unfolding discovery_inv_def new using ps ok(3) by (intro exI [of _ "ps @ [?p]"]) auto
qed (use inv in simp)

lemma discover_interface_inv:
  assumes "discovery_inv c is acc" and "i \<in> set is"
  shows "discovery_inv c is (discover_interface c defaults acc i)"
proof (cases "discover_interface c defaults acc i = acc")
  case False
  then have i: "if_up i" "\<not> if_loopback i" "if_name i \<noteq> cc_tunnel_name c"
    "\<not> looks_virtual_interface (if_name i) (if_point_to_point i)"
    and e: "discover_interface c defaults acc i
      = foldl (discover_address c (if_name i)) acc (case if_addrs i of Some as \<Rightarrow> as | None \<Rightarrow> [])"
    by (auto simp: discover_interface_def Let_def split: if_splits)
  have "discovery_inv c is (foldl (discover_address c (if_name i)) acc as)" for as
    using assms by (induction as rule: rev_induct) (auto intro: discover_address_inv [OF _ assms(2) i])
  then show ?thesis unfolding e .
qed (use assms in simp)

text \<open>Automatic discovery keeps the configured paths that are enabled and adds only discovered ones,
  no local address twice: nothing is ever sent through the tunnel, a virtual or a loopback interface,
  or a second time through an address the user listed, even a disabled one.\<close>

theorem discovery_sound:
  assumes "cc_auto_discover c" and "discover_paths c (Some is) defaults = Some ps"
  shows "\<exists>new. ps = enabled_paths (cc_paths c) @ new \<and> distinct (map pt_local_address new)
    \<and> (\<forall>p \<in> set new. discovered c is p)"
proof -
  let ?start = "(cc_paths c, map pt_local_address (cc_paths c))"
  have "discovery_inv c is (foldl (discover_interface c defaults) ?start js)" if "set js \<subseteq> set is" for js
    using that
  proof (induction js rule: rev_induct)
    case Nil
    show ?case by (auto simp: discovery_inv_def)
  qed (auto intro: discover_interface_inv)
  then obtain new where n: "fst (foldl (discover_interface c defaults) ?start is) = cc_paths c @ new"
    "distinct (map pt_local_address new)" "\<forall>p \<in> set new. discovered c is p"
    unfolding discovery_inv_def by blast
  have "enabled_paths new = new" using n(3) by (auto simp: enabled_paths_def discovered_def filter_id_conv)
  then show ?thesis
    using assms n by (auto simp: discover_paths_def enabled_paths_def)
qed

end
