(* ===== verification/Ip_Packet.thy ===== *)
theory Ip_Packet
  imports Go_Netip
begin

text \<open>
  \<open>internal/protocol/ip.go\<close>: the inner packet's addresses, which the relay uses to route and to
  reject spoofed packets. \<open>ErrUnsupportedIP\<close> is \<^const>\<open>None\<close>.
\<close>

definition ip_version :: "bytes \<Rightarrow> nat" where
  "ip_version packet = (if packet = [] then 0 else unat (drop_bit 4 (packet ! 0)))"

definition source_ip :: "bytes \<Rightarrow> addr option" where
  "source_ip packet =
     (if ip_version packet = 4 then
        (if length packet < 20 \<or> length packet < unat (get_uint16 (slice 2 4 packet)) then None
         else Some (Addr4 (get_uint32 (slice 12 16 packet))))
      else if ip_version packet = 6 then
        (if length packet < 40 then None else Some (Addr6 (get_be (slice 8 24 packet))))
      else None)"

definition destination_ip :: "bytes \<Rightarrow> addr option" where
  "destination_ip packet =
     (if ip_version packet = 4 then
        (if length packet < 20 \<or> length packet < unat (get_uint16 (slice 2 4 packet)) then None
         else Some (Addr4 (get_uint32 (slice 16 20 packet))))
      else if ip_version packet = 6 then
        (if length packet < 40 then None else Some (Addr6 (get_be (slice 24 40 packet))))
      else None)"

text \<open>An IPv4 packet with the given total length, addresses and payload; the fields the relay does
  not read are arguments.\<close>

definition ipv4_packet :: "byte \<Rightarrow> byte \<Rightarrow> bytes \<Rightarrow> u32 \<Rightarrow> u32 \<Rightarrow> bytes \<Rightarrow> bytes" where
  "ipv4_packet ihl tos rest src dst body =
     [0x40 OR take_bit 4 ihl, tos] @ put_uint16 (of_nat (20 + length body)) @ rest
       @ put_uint32 src @ put_uint32 dst @ body"

lemma high_nibble: "drop_bit 4 (take_bit 4 b) = (0 :: byte)"
  by (simp add: drop_bit_take_bit)

lemma ipv4_packet_fields:
  assumes "length rest = 8"
  shows "ip_version (ipv4_packet ihl tos rest src dst body) = 4"
    and "slice 2 4 (ipv4_packet ihl tos rest src dst body) = put_uint16 (of_nat (20 + length body))"
    and "slice 12 16 (ipv4_packet ihl tos rest src dst body) = put_uint32 src"
    and "slice 16 20 (ipv4_packet ihl tos rest src dst body) = put_uint32 dst"
    and "length (ipv4_packet ihl tos rest src dst body) = 20 + length body"
  using assms
  by (simp_all add: ipv4_packet_def ip_version_def high_nibble drop_bit_or slice_append_right slice_append_left
      slice_all wire_len put_uint_defs slice_def)

lemma ipv4_addresses:
  assumes "length rest = 8" and "20 + length body < 2 ^ 16"
  shows "source_ip (ipv4_packet ihl tos rest src dst body) = Some (Addr4 src)"
    and "destination_ip (ipv4_packet ihl tos rest src dst body) = Some (Addr4 dst)"
proof -
  have "unat (get_uint16 (put_uint16 (of_nat (20 + length body)))) = 20 + length body"
    unfolding u16c.get_put unat_of_nat using assms(2) by simp
  note f = ipv4_packet_fields [OF assms(1)] this
  show "source_ip (ipv4_packet ihl tos rest src dst body) = Some (Addr4 src)"
    unfolding source_ip_def f by (simp add: u32c.get_put)
  show "destination_ip (ipv4_packet ihl tos rest src dst body) = Some (Addr4 dst)"
    unfolding destination_ip_def f by (simp add: u32c.get_put)
qed

end
