(* ===== verification/Server.thy ===== *)
theory Server
  imports Protocol Replay Reorder Scheduler Ip_Packet Metrics Config
begin

text \<open>
  \<open>internal/engine/server.go\<close>: the relay. Its state is the credential table, the three session indexes,
  a heap of session objects (the indexes hold references into it, so that the code's pointer
  comparisons are comparisons of references) and the counters. Each handler is one step: what it reads
  of the clock, of the random source, of the order of a map and of the success of a write is the
  argument \<open>env\<close>. What a step writes to the network and to the tunnel device is its list of outputs.
\<close>

section \<open>State\<close>

record udp_addr =
  ua_ip :: bytes
  ua_port :: int
  ua_zone :: string

record server_credential =
  cr_name :: string
  cr_client_id :: bytes
  cr_key :: bytes
  cr_tunnel_ip :: addr

record server_path =
  sp_id :: u32
  sp_session_id :: u64
  sp_name :: string
  sp_client_nonce :: bytes
  sp_server_nonce :: bytes
  sp_welcome_packet :: bytes
  sp_aead :: bytes
  sp_sequence :: u64
  sp_replay :: replay_window
  sp_last_seen :: int
  sp_rtt :: int
  sp_healthy :: bool
  sp_metric :: string
  sp_health_timeout :: duration
  sp_weight :: rat
  sp_remote :: "udp_addr option"

record server_session =
  ss_id :: u64
  ss_credential :: server_credential
  ss_instance_nonce :: bytes
  ss_legacy :: bool
  ss_credits :: credits
  ss_created_at :: gotime
  ss_last_seen :: int
  ss_next_path_id :: u32
  ss_data_seq :: u64
  ss_reorder :: "bytes buffer"
  ss_closing :: bool
  ss_paths :: "(u32 \<times> server_path) list"

type_synonym sref = nat

record server =
  sv_config :: server_config
  sv_credentials :: "(string \<times> server_credential) list"
  sv_sessions :: "(u64 \<times> sref) list"
  sv_by_client :: "(string \<times> sref) list"
  sv_by_ip :: "(addr \<times> sref) list"
  sv_heap :: "server_session list"
  sv_metrics :: registry
  sv_hook :: bool

text \<open>\<open>ClientSeen\<close> is the start of the hook's goroutine.\<close>

datatype server_output = SendTo udp_addr bytes | WriteTun bytes | ClientSeen string

record env =
  ev_clock :: "nat \<Rightarrow> gotime"
  ev_ids :: "u64 list"
  ev_nonce :: "bytes option"
  ev_udp_ok :: bool
  ev_tun_ok :: "sref \<Rightarrow> nat \<Rightarrow> bool"
  ev_order :: "u32 list"

text \<open>\<open>ev_clock i\<close> is the \<open>i\<close>-th reading of the clock in the step, \<open>ev_ids\<close> the successful draws of a
  random session number (the source fails when they are used up), \<open>ev_nonce\<close> what the server nonce is
  filled with, \<open>ev_udp_ok\<close> and \<open>ev_tun_ok r i\<close> whether the datagram and the \<open>i\<close>-th tunnel packet
  that session \<open>r\<close> releases in the step can be written, \<open>ev_order\<close> the order in which the path map is visited.\<close>

section \<open>Objects\<close>

definition session_at :: "server \<Rightarrow> sref \<Rightarrow> server_session" where
  "session_at s r = sv_heap s ! r"

definition update_session :: "sref \<Rightarrow> (server_session \<Rightarrow> server_session) \<Rightarrow> server \<Rightarrow> server" where
  "update_session r f s = s\<lparr>sv_heap := (sv_heap s)[r := f (sv_heap s ! r)]\<rparr>"

definition update_metrics :: "(registry \<Rightarrow> registry) \<Rightarrow> server \<Rightarrow> server" where
  "update_metrics f s = s\<lparr>sv_metrics := f (sv_metrics s)\<rparr>"

definition put_path :: "server_path \<Rightarrow> server_session \<Rightarrow> server_session" where
  "put_path p ss = ss\<lparr>ss_paths := map_put (ss_paths ss) (sp_id p) p\<rparr>"

definition path_name :: "server_path \<Rightarrow> string" where
  "path_name p = sp_name p @ ''/'' @ decimal (unat (sp_id p))"

definition path_is_healthy :: "gotime \<Rightarrow> server_path \<Rightarrow> bool" where
  "path_is_healthy now p \<longleftrightarrow>
     sp_healthy p \<and> time_sub now (time_unix_nano (sp_last_seen p)) \<le> sp_health_timeout p"

text \<open>\<open>net.IP.Equal\<close> identifies an IPv4 address with its IPv6-mapped form.\<close>

definition v4_in_v6 :: bytes where
  "v4_in_v6 = replicate 10 0 @ [0xFF, 0xFF]"

definition ip_equal :: "bytes \<Rightarrow> bytes \<Rightarrow> bool" where
  "ip_equal a b \<longleftrightarrow>
     (if length a = length b then a = b
      else if length a = 4 \<and> length b = 16 then take 12 b = v4_in_v6 \<and> a = drop 12 b
      else if length a = 16 \<and> length b = 4 then take 12 a = v4_in_v6 \<and> drop 12 a = b
      else False)"

definition same_udp_addr :: "udp_addr option \<Rightarrow> udp_addr option \<Rightarrow> bool" where
  "same_udp_addr a b \<longleftrightarrow>
     (case (a, b) of
        (Some x, Some y) \<Rightarrow> ua_port x = ua_port y \<and> ua_zone x = ua_zone y \<and> ip_equal (ua_ip x) (ua_ip y)
      | _ \<Rightarrow> False)"

definition session_accepts :: "server_session \<Rightarrow> hello \<Rightarrow> bool" where
  "session_accepts ss h \<longleftrightarrow>
     (if ss_closing ss then False
      else if ss_legacy ss \<or> hello_wire_version h < 2 then ss_legacy ss \<and> hello_wire_version h < 2
      else ss_instance_nonce ss = hello_instance_nonce h)"

definition path_for_nonce :: "server_session \<Rightarrow> bytes \<Rightarrow> server_path option" where
  "path_for_nonce ss nonce = map_option snd (find (\<lambda>(_, p). sp_client_nonce p = nonce) (ss_paths ss))"

text \<open>The paths in the order of one \<open>range\<close> loop: those named first, then the others.\<close>

definition visit_order :: "'k list \<Rightarrow> ('k \<times> 'v) list \<Rightarrow> ('k \<times> 'v) list" where
  "visit_order ks m =
     concat (map (\<lambda>k. case map_get m k of Some v \<Rightarrow> [(k, v)] | None \<Rightarrow> []) (remdups ks))
     @ filter (\<lambda>(k, _). k \<notin> set ks) m"

definition path_candidate :: "gotime \<Rightarrow> server_path \<Rightarrow> server_path candidate" where
  "path_candidate now p =
     \<lparr> pc_path = p, pc_name = path_name p, pc_weight = sp_weight p,
       pc_healthy = path_is_healthy now p, pc_rtt = sp_rtt p \<rparr>"

definition next_path :: "u32 list \<Rightarrow> gotime \<Rightarrow> server_session \<Rightarrow> server_path option \<times> server_session" where
  "next_path order now ss =
     (let (selected, credits) =
        next_candidate (ss_credits ss) (map (\<lambda>(_, p). path_candidate now p) (visit_order order (ss_paths ss)))
      in (map_option pc_path selected, ss\<lparr>ss_credits := credits\<rparr>))"

section \<open>Ending sessions\<close>

definition mark_closing :: "sref \<Rightarrow> server \<Rightarrow> server" where
  "mark_closing r s = update_session r (\<lambda>ss. ss\<lparr>ss_closing := True\<rparr>) s"

definition detach_session :: "sref \<Rightarrow> server \<Rightarrow> server" where
  "detach_session r s =
     (let ss = session_at s r; idText = client_id_string (cr_client_id (ss_credential ss));
          ip = cr_tunnel_ip (ss_credential ss) in
      if map_get (sv_sessions s) (ss_id ss) \<noteq> Some r then s
      else
        update_metrics (add_sessions (- 1))
          (s\<lparr>sv_sessions := map_del (sv_sessions s) (ss_id ss),
             sv_by_client := (if map_get (sv_by_client s) idText = Some r
                              then map_del (sv_by_client s) idText else sv_by_client s),
             sv_by_ip := (if map_get (sv_by_ip s) ip = Some r then map_del (sv_by_ip s) ip else sv_by_ip s)\<rparr>))"

definition unhealthy_metrics :: "(u32 \<times> server_path) list \<Rightarrow> registry \<Rightarrow> registry" where
  "unhealthy_metrics paths m = foldl (\<lambda>m (_, p). update_path_metric (sp_metric p) (path_health False) m) m paths"

text \<open>The loop after a session was detached: every path it had becomes unhealthy.\<close>

definition retire_paths :: "sref \<Rightarrow> server \<Rightarrow> server" where
  "retire_paths r s =
     update_metrics (unhealthy_metrics (ss_paths (session_at s r)))
       (update_session r (\<lambda>ss. ss\<lparr>ss_paths := map (\<lambda>(i, p). (i, p\<lparr>sp_healthy := False\<rparr>)) (ss_paths ss)\<rparr>) s)"

definition terminate_client_session :: "string \<Rightarrow> server \<Rightarrow> server" where
  "terminate_client_session idText s =
     (case map_get (sv_by_client s) idText of
        None \<Rightarrow> s
      | Some r \<Rightarrow> retire_paths r (detach_session r (mark_closing r s)))"

definition terminate_if_current :: "sref \<Rightarrow> server \<Rightarrow> server" where
  "terminate_if_current r s =
     (if map_get (sv_sessions s) (ss_id (session_at s r)) \<noteq> Some r then s
      else retire_paths r (detach_session r (mark_closing r s)))"

section \<open>Credentials\<close>

definition authorize_client :: "net_lib \<Rightarrow> client_credential \<Rightarrow> server \<Rightarrow> bool \<times> server" where
  "authorize_client L configured s =
     (case (parse_client_id (cl_client_id configured), credential_key L configured,
            parse_prefix4 (cl_tunnel_address configured), parse_prefix4 (sc_tunnel_address (sv_config s))) of
        (Inr i, Inr key, Some p, Some sp) \<Rightarrow>
          if \<not> prefix4_contains sp (fst p) \<or> fst p = fst sp then (False, s)
          else
            let idText = client_id_string i;
                cred = \<lparr> cr_name = cl_name configured, cr_client_id = i, cr_key = key, cr_tunnel_ip = Addr4 (fst p) \<rparr>
            in if list_ex (\<lambda>(other, c). other \<noteq> idText \<and> (cr_tunnel_ip c = Addr4 (fst p) \<or> cr_key c = key))
                    (sv_credentials s)
               then (False, s)
               else
                 let s1 = s\<lparr>sv_credentials := map_put (sv_credentials s) idText cred\<rparr> in
                 (True,
                  case map_get (sv_credentials s) idText of
                    None \<Rightarrow> s1
                  | Some previous \<Rightarrow>
                      if cr_key previous \<noteq> key \<or> cr_tunnel_ip previous \<noteq> Addr4 (fst p)
                      then terminate_client_session idText s1 else s1)
      | _ \<Rightarrow> (False, s))"

definition revoke_client :: "string \<Rightarrow> server \<Rightarrow> server" where
  "revoke_client clientID s =
     (case parse_client_id clientID of
        Inl _ \<Rightarrow> s
      | Inr i \<Rightarrow>
          let idText = client_id_string i in
          terminate_client_session idText (s\<lparr>sv_credentials := map_del (sv_credentials s) idText\<rparr>))"

definition empty_server :: "server_config \<Rightarrow> registry \<Rightarrow> server" where
  "empty_server c m =
     \<lparr> sv_config = c, sv_credentials = [], sv_sessions = [], sv_by_client = [], sv_by_ip = [],
       sv_heap = [], sv_metrics = m, sv_hook = False \<rparr>"

text \<open>\<open>NewServer\<close>: authorize the configured clients one by one, the first failure is returned.\<close>

fun authorize_all :: "net_lib \<Rightarrow> client_credential list \<Rightarrow> server \<Rightarrow> server option" where
  "authorize_all L [] s = Some s"
| "authorize_all L (c # cs) s =
     (let (ok, s1) = authorize_client L c s in if ok then authorize_all L cs s1 else None)"

definition new_server :: "net_lib \<Rightarrow> server_config \<Rightarrow> registry \<Rightarrow> server option" where
  "new_server L c m = authorize_all L (sc_clients c) (empty_server c m)"

definition set_client_seen_hook :: "bool \<Rightarrow> server \<Rightarrow> server" where
  "set_client_seen_hook present s = s\<lparr>sv_hook := present\<rparr>"

section \<open>HELLO\<close>

text \<open>\<open>randomUint64\<close> until the number is not zero and not in use.\<close>

fun pick_session_id :: "(u64 \<times> sref) list \<Rightarrow> u64 list \<Rightarrow> u64 option" where
  "pick_session_id m [] = None"
| "pick_session_id m (i # is) = (if i = 0 \<or> map_get m i \<noteq> None then pick_session_id m is else Some i)"

definition new_session :: "server_config \<Rightarrow> server_credential \<Rightarrow> hello \<Rightarrow> u64 \<Rightarrow> gotime \<Rightarrow> server_session" where
  "new_session c cred h sid now =
     \<lparr> ss_id = sid, ss_credential = cred, ss_instance_nonce = hello_instance_nonce h,
       ss_legacy = hello_wire_version h < 2, ss_credits = [], ss_created_at = now, ss_last_seen = unix_nano now,
       ss_next_path_id = 0, ss_data_seq = 0,
       ss_reorder = new_buffer (sc_reorder_window c) (duration_value (sc_reorder_delay c) (80 * millisecond)),
       ss_closing = False, ss_paths = [] \<rparr>"

definition get_or_create_session ::
  "env \<Rightarrow> server_credential \<Rightarrow> hello \<Rightarrow> server \<Rightarrow> sref option \<times> server_output list \<times> server" where
  "get_or_create_session e cred h s =
     (let idText = client_id_string (cr_client_id cred) in
      case map_get (sv_credentials s) idText of
        None \<Rightarrow> (None, [], s)
      | Some current \<Rightarrow>
          if cr_key current \<noteq> cr_key cred \<or> cr_tunnel_ip current \<noteq> cr_tunnel_ip cred then (None, [], s)
          else
            let existing = map_get (sv_by_client s) idText in
            if (case existing of Some r \<Rightarrow> session_accepts (session_at s r) h | None \<Rightarrow> False)
            then (existing, [], s)
            else case pick_session_id (sv_sessions s) (ev_ids e) of
              None \<Rightarrow> (None, [], s)
            | Some sid \<Rightarrow>
                let s1 = (case existing of Some r \<Rightarrow> detach_session r (mark_closing r s) | None \<Rightarrow> s);
                    r = length (sv_heap s1);
                    s2 = update_metrics (add_sessions 1)
                      (s1\<lparr>sv_heap := sv_heap s1 @ [new_session (sv_config s) cred h sid (ev_clock e 1)],
                          sv_sessions := map_put (sv_sessions s1) sid r,
                          sv_by_client := map_put (sv_by_client s1) idText r,
                          sv_by_ip := map_put (sv_by_ip s1) (cr_tunnel_ip cred) r\<rparr>);
                    s3 = (case existing of Some old \<Rightarrow> retire_paths old s2 | None \<Rightarrow> s2)
                in (Some r, if sv_hook s3 then [ClientSeen idText] else [], s3))"

definition record_write_error :: "sref \<Rightarrow> server_path \<Rightarrow> server \<Rightarrow> server" where
  "record_write_error r p s =
     update_metrics (update_path_metric (sp_metric p) path_write_error)
       (update_session r (put_path (p\<lparr>sp_healthy := False\<rparr>)) s)"

text \<open>\<open>removePath\<close>: whether the session has no path left.\<close>

definition remove_path :: "sref \<Rightarrow> server_path \<Rightarrow> server \<Rightarrow> bool \<times> server" where
  "remove_path r p s =
     (let paths = map_del (ss_paths (session_at s r)) (sp_id p); empty = (paths = []) in
      (empty,
       update_metrics (update_path_metric (sp_metric p) (path_health False))
         (update_session r (\<lambda>ss. ss\<lparr>ss_paths := paths, ss_closing := ss_closing ss \<or> empty\<rparr>) s)))"

text \<open>The new path of \<open>handleHello\<close>.\<close>

definition welcome_header :: "u64 \<Rightarrow> u32 \<Rightarrow> header" where
  "welcome_header sid pid = \<lparr> h_type = TypeWelcome, h_flags = 0, h_session = sid, h_path = pid, h_seq = 0 \<rparr>"

definition new_path ::
  "crypto \<Rightarrow> server_credential \<Rightarrow> hello \<Rightarrow> welcome_msg \<Rightarrow> u64 \<Rightarrow> u32 \<Rightarrow> udp_addr \<Rightarrow> gotime \<Rightarrow> server_path" where
  "new_path C cred h w sid pid remote now =
     \<lparr> sp_id = pid, sp_session_id = sid, sp_name = hello_path_name h, sp_client_nonce = hello_nonce h,
       sp_server_nonce = welcome_server_nonce w,
       sp_welcome_packet = (case marshal_plain (welcome_header sid pid)
           (marshal_welcome C w (cr_key cred) (welcome_header sid pid)) of Inr b \<Rightarrow> b | Inl _ \<Rightarrow> []),
       sp_aead = new_aead C (cr_key cred) (hello_nonce h) (welcome_server_nonce w) sid pid,
       sp_sequence = 0, sp_replay = new_replay_window, sp_last_seen = unix_nano now, sp_rtt = 0,
       sp_healthy = True, sp_metric = cr_name cred @ ''/'' @ hello_path_name h,
       sp_health_timeout = 10 * second, sp_weight = fl64 (of_nat (unat (hello_weight h)) / 100),
       sp_remote = Some remote \<rparr>"

definition touch_session :: "gotime \<Rightarrow> server_session \<Rightarrow> server_session" where
  "touch_session now ss = ss\<lparr>ss_last_seen := unix_nano now\<rparr>"

text \<open>A HELLO whose nonce is known: the same WELCOME again, but only to the same address.\<close>

definition repeat_welcome :: "env \<Rightarrow> udp_addr \<Rightarrow> sref \<Rightarrow> server_path \<Rightarrow> server \<Rightarrow> server_output list \<times> server" where
  "repeat_welcome e remote r p s =
     (if \<not> same_udp_addr (sp_remote p) (Some remote) then ([], s)
      else if \<not> ev_udp_ok e then ([], record_write_error r p s)
      else ([SendTo remote (sp_welcome_packet p)],
            update_metrics (update_path_metric (sp_metric p) (path_health True))
              (update_session r (put_path (p\<lparr>sp_healthy := True\<rparr>)) s)))"

definition register_path ::
  "crypto \<Rightarrow> env \<Rightarrow> udp_addr \<Rightarrow> server_credential \<Rightarrow> hello \<Rightarrow> sref \<Rightarrow> server \<Rightarrow> server_output list \<times> server" where
  "register_path C e remote cred h r s0 =
     (let pid = ss_next_path_id (session_at s0 r) + 1;
          s = update_session r (\<lambda>ss. ss\<lparr>ss_next_path_id := pid\<rparr>) s0 in
      if pid = 0 \<or> 2 ^ 31 \<le> pid then ([], s)
      else case new_welcome (hello_nonce h) (ev_clock e 2) (ev_nonce e) of
        Inl _ \<Rightarrow> ([], s)
      | Inr w \<Rightarrow>
          let p = new_path C cred h w (ss_id (session_at s r)) pid remote (ev_clock e 3);
              s1 = update_metrics (update_path_metric (sp_metric p) (path_health True)) s in
          if ss_closing (session_at s1 r)
          then ([], update_metrics (update_path_metric (sp_metric p) (path_health False)) s1)
          else
            let s2 = update_session r (touch_session (ev_clock e 4)) (update_session r (put_path p) s1) in
            if ev_udp_ok e then ([SendTo remote (sp_welcome_packet p)], s2)
            else
              let (empty, s3) = remove_path r p (record_write_error r p s2)
              in ([], if empty then terminate_if_current r s3 else s3))"

definition handle_hello :: "crypto \<Rightarrow> env \<Rightarrow> udp_addr \<Rightarrow> bytes \<Rightarrow> server \<Rightarrow> server_output list \<times> server" where
  "handle_hello C e remote packet s =
     (case plain_payload packet of
        Inl _ \<Rightarrow> ([], update_metrics count_invalid s)
      | Inr payload \<Rightarrow>
          if length payload < 16 then ([], update_metrics count_invalid s)
          else case map_get (sv_credentials s) (client_id_string (take 16 payload)) of
            None \<Rightarrow> ([], update_metrics count_auth_failure s)
          | Some cred \<Rightarrow>
              (case parse_hello C payload (cr_key cred) (ev_clock e 0) of
                 Inl _ \<Rightarrow> ([], update_metrics count_auth_failure s)
               | Inr h \<Rightarrow>
                   (case get_or_create_session e cred h s of
                      (None, outs, s1) \<Rightarrow> (outs, s1)
                    | (Some r, outs, s1) \<Rightarrow>
                        let (outs', s2) = (case path_for_nonce (session_at s1 r) (hello_nonce h) of
                              Some p \<Rightarrow> repeat_welcome e remote r p s1
                            | None \<Rightarrow> register_path C e remote cred h r s1)
                        in (outs @ outs', s2))))"

section \<open>Encrypted packets\<close>

text \<open>\<open>serverPath.send\<close>: whether it succeeded, what was sent, and the state; the sequence number is
  used up in any case.\<close>

definition send_header :: "server_path \<Rightarrow> packet_type \<Rightarrow> header" where
  "send_header p t =
     \<lparr> h_type = t, h_flags = 0, h_session = sp_session_id p, h_path = sp_id p, h_seq = sp_sequence p + 1 \<rparr>"

definition send_path ::
  "crypto \<Rightarrow> env \<Rightarrow> sref \<Rightarrow> server_path \<Rightarrow> packet_type \<Rightarrow> bytes \<Rightarrow> server \<Rightarrow> bool \<times> server_output list \<times> server" where
  "send_path C e r p0 t payload s0 =
     (let p = p0\<lparr>sp_sequence := sp_sequence p0 + 1\<rparr>; s = update_session r (put_path p) s0 in
      case seal C (sp_aead p) (send_header p0 t) ServerToClient payload of
        Inl _ \<Rightarrow> (False, [], s)
      | Inr packet \<Rightarrow>
          (case sp_remote p of
             None \<Rightarrow> (False, [], s)
           | Some remote \<Rightarrow>
               if \<not> ev_udp_ok e then (False, [], s)
               else (True, [SendTo remote packet],
                     update_metrics (update_path_metric (sp_metric p) (path_sent (length payload))) s)))"

text \<open>\<open>send\<close> followed by the handler's treatment of its error.\<close>

definition send_or_record ::
  "crypto \<Rightarrow> env \<Rightarrow> sref \<Rightarrow> server_path \<Rightarrow> packet_type \<Rightarrow> bytes \<Rightarrow> server \<Rightarrow> bool \<times> server_output list \<times> server" where
  "send_or_record C e r p t payload s =
     (let (ok, outs, s1) = send_path C e r p t payload s in
      if ok then (True, outs, s1)
      else (False, outs, record_write_error r (p\<lparr>sp_sequence := sp_sequence p + 1\<rparr>) s1))"

text \<open>\<open>deliver\<close>: write the released packets to the tunnel; a failed write loses that packet only.\<close>

fun write_packets :: "(nat \<Rightarrow> bool) \<Rightarrow> nat \<Rightarrow> bytes list \<Rightarrow> server \<Rightarrow> server_output list \<times> server" where
  "write_packets ok i [] s = ([], s)"
| "write_packets ok i (p # ps) s =
     (if ok i then
        let (outs, s1) = write_packets ok (Suc i) ps (update_metrics (count_received (length p)) s)
        in (WriteTun p # outs, s1)
      else write_packets ok (Suc i) ps (update_metrics count_tun_write_error s))"

definition deliver :: "env \<Rightarrow> sref \<Rightarrow> bytes result \<Rightarrow> server \<Rightarrow> server_output list \<times> server" where
  "deliver e r res s =
     write_packets (ev_tun_ok e r) 0 (res_packets res)
       (if 0 < res_skipped res then update_metrics (count_skips (res_skipped res)) s else s)"

text \<open>What the packet is for, once it has been authenticated and is new.\<close>

definition handle_payload ::
  "crypto \<Rightarrow> env \<Rightarrow> sref \<Rightarrow> server_path \<Rightarrow> packet_type \<Rightarrow> bytes \<Rightarrow> server \<Rightarrow> server_output list \<times> server" where
  "handle_payload C e r p t payload s =
     (if t = TypeData then
        (case parse_data payload of
           Inl _ \<Rightarrow> ([], update_metrics count_invalid s)
         | Inr (sequence, ipPacket) \<Rightarrow>
             if source_ip ipPacket \<noteq> Some (cr_tunnel_ip (ss_credential (session_at s r)))
             then ([], update_metrics count_invalid s)
             else
               let (res, b) = push (ss_reorder (session_at s r)) sequence ipPacket (ev_clock e 2) (ev_clock e 3)
               in deliver e r res (update_session r (\<lambda>ss. ss\<lparr>ss_reorder := b\<rparr>) s))
      else if t = TypePing then
        (if length payload \<noteq> 8 then ([], update_metrics count_invalid s)
         else snd (send_or_record C e r p TypePong payload s))
      else if t = TypeProbe then snd (send_or_record C e r p TypeProbeReply payload s)
      else if t = TypeClose then
        (let (empty, s1) = remove_path r p s in ([], if empty then terminate_if_current r s1 else s1))
      else ([], update_metrics count_invalid s))"

text \<open>The path after an authenticated new packet: its address follows the sender.\<close>

definition seen_path :: "udp_addr \<Rightarrow> gotime \<Rightarrow> replay_window \<Rightarrow> server_path \<Rightarrow> server_path" where
  "seen_path remote now w p =
     p\<lparr>sp_replay := w, sp_remote := Some remote, sp_last_seen := unix_nano now, sp_healthy := True\<rparr>"

definition handle_encrypted ::
  "crypto \<Rightarrow> env \<Rightarrow> udp_addr \<Rightarrow> header \<Rightarrow> bytes \<Rightarrow> server \<Rightarrow> server_output list \<times> server" where
  "handle_encrypted C e remote h packet s =
     (case map_get (sv_sessions s) (h_session h) of
        None \<Rightarrow> ([], update_metrics count_invalid s)
      | Some r \<Rightarrow>
          (case map_get (ss_paths (session_at s r)) (h_path h) of
             None \<Rightarrow> ([], update_metrics count_invalid s)
           | Some p \<Rightarrow>
               (case open_packet C (sp_aead p) h ClientToServer packet of
                  Inl _ \<Rightarrow> ([], update_metrics (\<lambda>m. update_path_metric (sp_metric p) path_auth_failure
                                                  (count_auth_failure m)) s)
                | Inr payload \<Rightarrow>
                    let (new, w) = accept (sp_replay p) (h_seq h) in
                    if \<not> new then
                      ([], update_metrics (update_path_metric (sp_metric p) path_replay_drop) s)
                    else
                      let p1 = seen_path remote (ev_clock e 0) w p;
                          s1 = update_session r (touch_session (ev_clock e 1)) (update_session r (put_path p1) s);
                          s2 = update_metrics
                            (update_path_metric (sp_metric p)
                               (\<lambda>m. path_received (length payload) (path_health True m))) s1
                      in handle_payload C e r p1 (h_type h) payload s2)))"

text \<open>One turn of \<open>receiveLoop\<close>.\<close>

definition receive_datagram ::
  "crypto \<Rightarrow> env \<Rightarrow> udp_addr \<Rightarrow> bytes \<Rightarrow> server \<Rightarrow> server_output list \<times> server" where
  "receive_datagram C e remote packet s =
     (case parse_header packet of
        Inl _ \<Rightarrow> ([], update_metrics count_invalid s)
      | Inr h \<Rightarrow> if h_type h = TypeHello then handle_hello C e remote packet s
               else handle_encrypted C e remote h packet s)"

section \<open>The tunnel and the timers\<close>

text \<open>One turn of \<open>tunLoop\<close> for a packet that was read.\<close>

definition tun_packet :: "crypto \<Rightarrow> env \<Rightarrow> bytes \<Rightarrow> server \<Rightarrow> server_output list \<times> server" where
  "tun_packet C e packet s =
     (case destination_ip packet of
        None \<Rightarrow> ([], update_metrics count_invalid s)
      | Some ip \<Rightarrow>
          (case map_get (sv_by_ip s) ip of
             None \<Rightarrow> ([], update_metrics count_invalid s)
           | Some r \<Rightarrow>
               let (selected, ss) = next_path (ev_order e) (ev_clock e 0) (session_at s r);
                   s1 = update_session r (\<lambda>_. ss) s in
               (case selected of
                  None \<Rightarrow> ([], update_metrics count_no_path s1)
                | Some p \<Rightarrow>
                    let seq = ss_data_seq (session_at s1 r) + 1;
                        s2 = update_session r (\<lambda>ss. ss\<lparr>ss_data_seq := seq\<rparr>) s1 in
                    (case marshal_data seq packet of
                       Inl _ \<Rightarrow> ([], update_metrics count_invalid s2)
                     | Inr payload \<Rightarrow>
                         let (ok, outs, s3) = send_or_record C e r p TypeData payload s2
                         in (outs, if ok then update_metrics (count_sent (length packet)) s3 else s3)))))"

text \<open>One tick of \<open>reorderLoop\<close>: \<open>now\<close> is the ticker's time, \<open>ev_clock\<close> what \<open>drain\<close> reads.\<close>

fun flush_sessions :: "env \<Rightarrow> gotime \<Rightarrow> sref list \<Rightarrow> server \<Rightarrow> server_output list \<times> server" where
  "flush_sessions e now [] s = ([], s)"
| "flush_sessions e now (r # rs) s =
     (let (res, b) = flush_expired (ss_reorder (session_at s r)) now (ev_clock e r);
          (outs, s1) = deliver e r res (update_session r (\<lambda>ss. ss\<lparr>ss_reorder := b\<rparr>) s);
          (outs', s2) = flush_sessions e now rs s1
      in (outs @ outs', s2))"

definition reorder_tick :: "env \<Rightarrow> gotime \<Rightarrow> server \<Rightarrow> server_output list \<times> server" where
  "reorder_tick e now s = flush_sessions e now (map snd (sv_sessions s)) s"

text \<open>One tick of \<open>janitorLoop\<close>.\<close>

definition janitor_interval :: "server_config \<Rightarrow> duration" where
  "janitor_interval c =
     (let interval = duration_value (sc_session_timeout c) (2 * minute) div 4;
          i1 = (if 30 * second < interval then 30 * second else interval)
      in if i1 < second then second else i1)"

definition path_stale :: "gotime \<Rightarrow> duration \<Rightarrow> server_path \<Rightarrow> bool" where
  "path_stale now d p \<longleftrightarrow> d < time_sub now (time_unix_nano (sp_last_seen p))"

definition expire_paths :: "gotime \<Rightarrow> sref \<Rightarrow> server \<Rightarrow> server" where
  "expire_paths now r s =
     (let paths = ss_paths (session_at s r);
          sick = filter (\<lambda>(_, p). path_stale now (sp_health_timeout p) p) paths;
          marked = map (\<lambda>(i, p). (i, if path_stale now (sp_health_timeout p) p then p\<lparr>sp_healthy := False\<rparr> else p)) paths
      in update_metrics (unhealthy_metrics sick)
           (update_session r (\<lambda>ss. ss\<lparr>ss_paths := filter (\<lambda>(_, p). \<not> path_stale now minute p) marked\<rparr>) s))"

definition expire_session :: "gotime \<Rightarrow> server \<Rightarrow> u64 \<times> sref \<Rightarrow> server" where
  "expire_session now s0 entry =
     (let (sid, r) = entry; s = expire_paths now r s0; ss = session_at s r in
      if time_sub now (time_unix_nano (ss_last_seen ss))
         \<le> duration_value (sc_session_timeout (sv_config s)) (2 * minute) then s
      else
        update_metrics (add_sessions (- 1))
          (s\<lparr>sv_sessions := map_del (sv_sessions s) sid,
             sv_by_client := map_del (sv_by_client s) (client_id_string (cr_client_id (ss_credential ss))),
             sv_by_ip := map_del (sv_by_ip s) (cr_tunnel_ip (ss_credential ss))\<rparr>))"

definition janitor_tick :: "gotime \<Rightarrow> server \<Rightarrow> server" where
  "janitor_tick now s = foldl (expire_session now) s (sv_sessions s)"

section \<open>Steps\<close>

datatype server_event =
    Authorize client_credential
  | Revoke string
  | SetHook bool
  | Datagram udp_addr bytes
  | TunPacket bytes
  | ReorderTick gotime
  | JanitorTick gotime

fun server_step :: "crypto \<Rightarrow> net_lib \<Rightarrow> env \<Rightarrow> server \<Rightarrow> server_event \<Rightarrow> server_output list \<times> server" where
  "server_step C L e s (Authorize c) = ([], snd (authorize_client L c s))"
| "server_step C L e s (Revoke i) = ([], revoke_client i s)"
| "server_step C L e s (SetHook b) = ([], set_client_seen_hook b s)"
| "server_step C L e s (Datagram remote packet) = receive_datagram C e remote packet s"
| "server_step C L e s (TunPacket packet) = tun_packet C e packet s"
| "server_step C L e s (ReorderTick now) = reorder_tick e now s"
| "server_step C L e s (JanitorTick now) = ([], janitor_tick now s)"

text \<open>The states of a relay that was started with configuration \<open>c\<close>.\<close>

inductive reachable :: "crypto \<Rightarrow> net_lib \<Rightarrow> server_config \<Rightarrow> server \<Rightarrow> bool"
  for C :: crypto and L :: net_lib and c :: server_config where
  start: "mt_active_sessions m = 0 \<Longrightarrow> reachable C L c (empty_server c m)"
| step: "reachable C L c s \<Longrightarrow> server_step C L e s ev = (outs, s') \<Longrightarrow> reachable C L c s'"

end
