(* ===== verification/Server_Inv.thy ===== *)
theory Server_Inv
  imports Server Protocol_Facts Reorder_Facts Scheduler_Facts Config_Facts
begin

text \<open>
  The invariant of the relay and its preservation by every step: the three indexes describe the same
  set of live sessions, each of them belongs to a client that is still authorized under the same key
  and tunnel address, and every path and every queued packet of a session is what the session's
  credential says.
\<close>

section \<open>The invariant\<close>

abbreviation client_of :: "server_session \<Rightarrow> string" where
  "client_of ss \<equiv> client_id_string (cr_client_id (ss_credential ss))"

abbreviation ip_of :: "server_session \<Rightarrow> addr" where
  "ip_of ss \<equiv> cr_tunnel_ip (ss_credential ss)"

definition path_ok :: "crypto \<Rightarrow> server_session \<Rightarrow> u32 \<Rightarrow> server_path \<Rightarrow> bool" where
  "path_ok C ss pid p \<longleftrightarrow>
     sp_id p = pid \<and> pid \<noteq> 0 \<and> pid < 2 ^ 31 \<and> sp_session_id p = ss_id ss \<and> sp_remote p \<noteq> None
     \<and> sp_aead p = new_aead C (cr_key (ss_credential ss)) (sp_client_nonce p) (sp_server_nonce p) (ss_id ss) pid
     \<and> is_float64 (sp_weight p) \<and> 1 / 128 \<le> sp_weight p"

text \<open>A queued packet comes from the session's own tunnel address.\<close>

definition own_packet :: "server_session \<Rightarrow> bytes \<Rightarrow> bool" where
  "own_packet ss packet \<longleftrightarrow> source_ip packet = Some (ip_of ss)"

definition session_wf :: "crypto \<Rightarrow> server_session \<Rightarrow> bool" where
  "session_wf C ss \<longleftrightarrow>
     keys_unique (ss_paths ss) \<and> (\<forall>(pid, p) \<in> set (ss_paths ss). path_ok C ss pid p)
     \<and> rb.guarded (own_packet ss) (ss_reorder ss)"

definition cred_table_ok :: "(string \<times> server_credential) list \<Rightarrow> bool" where
  "cred_table_ok m \<longleftrightarrow>
     keys_unique m \<and> (\<forall>n c. map_get m n = Some c \<longrightarrow> n = client_id_string (cr_client_id c) \<and> length (cr_client_id c) = 16)
     \<and> (\<forall>n c k d. map_get m n = Some c \<longrightarrow> map_get m k = Some d \<longrightarrow> n \<noteq> k \<longrightarrow>
          cr_tunnel_ip c \<noteq> cr_tunnel_ip d \<and> cr_key c \<noteq> cr_key d)"

definition authorized :: "(string \<times> server_credential) list \<Rightarrow> server_credential \<Rightarrow> bool" where
  "authorized m c \<longleftrightarrow>
     (\<exists>d. map_get m (client_id_string (cr_client_id c)) = Some d \<and> cr_key d = cr_key c \<and> cr_tunnel_ip d = cr_tunnel_ip c)"

definition live :: "server \<Rightarrow> sref \<Rightarrow> bool" where
  "live s r \<longleftrightarrow> (\<exists>sid. map_get (sv_sessions s) sid = Some r)"

text \<open>The indexes agree; the counter of active sessions is their number (as an \<open>int64\<close>).\<close>

definition indexes_ok :: "server \<Rightarrow> bool" where
  "indexes_ok s \<longleftrightarrow>
     keys_unique (sv_sessions s) \<and> keys_unique (sv_by_client s) \<and> keys_unique (sv_by_ip s)
     \<and> (\<forall>sid r. map_get (sv_sessions s) sid = Some r \<longrightarrow>
          r < length (sv_heap s) \<and> ss_id (session_at s r) = sid \<and> sid \<noteq> 0 \<and> \<not> ss_closing (session_at s r)
          \<and> map_get (sv_by_client s) (client_of (session_at s r)) = Some r
          \<and> map_get (sv_by_ip s) (ip_of (session_at s r)) = Some r)
     \<and> (\<forall>n r. map_get (sv_by_client s) n = Some r \<longrightarrow> live s r \<and> n = client_of (session_at s r))
     \<and> (\<forall>ip r. map_get (sv_by_ip s) ip = Some r \<longrightarrow> live s r \<and> ip = ip_of (session_at s r))
     \<and> mt_active_sessions (sv_metrics s) = signed_take_bit 63 (int (length (sv_sessions s)))"

definition sessions_ok :: "crypto \<Rightarrow> server \<Rightarrow> bool" where
  "sessions_ok C s \<longleftrightarrow>
     (\<forall>r. live s r \<longrightarrow> authorized (sv_credentials s) (ss_credential (session_at s r)) \<and> session_wf C (session_at s r))"

definition server_inv :: "crypto \<Rightarrow> server \<Rightarrow> bool" where
  "server_inv C s \<longleftrightarrow> cred_table_ok (sv_credentials s) \<and> indexes_ok s \<and> sessions_ok C s"

section \<open>Updates that touch one object\<close>

lemma active_simps [simp]:
  "mt_active_sessions (count_invalid m) = mt_active_sessions m"
  "mt_active_sessions (count_auth_failure m) = mt_active_sessions m"
  "mt_active_sessions (count_no_path m) = mt_active_sessions m"
  "mt_active_sessions (count_skips n m) = mt_active_sessions m"
  "mt_active_sessions (count_tun_write_error m) = mt_active_sessions m"
  "mt_active_sessions (count_sent k m) = mt_active_sessions m"
  "mt_active_sessions (count_received k m) = mt_active_sessions m"
  by (simp_all add: metric_defs)

lemma active_path_metric [simp]: "mt_active_sessions (update_path_metric n f m) = mt_active_sessions m"
  by (auto simp: update_path_metric_def registry_path_def split: option.splits)

lemma active_unhealthy [simp]: "mt_active_sessions (unhealthy_metrics ps m) = mt_active_sessions m"
  unfolding unhealthy_metrics_def by (induction ps arbitrary: m) (auto split: prod.splits)

text \<open>What a server state is apart from the counters.\<close>

lemma update_metrics_fields [simp]:
  "sv_config (update_metrics f s) = sv_config s" "sv_credentials (update_metrics f s) = sv_credentials s"
  "sv_sessions (update_metrics f s) = sv_sessions s" "sv_by_client (update_metrics f s) = sv_by_client s"
  "sv_by_ip (update_metrics f s) = sv_by_ip s" "sv_heap (update_metrics f s) = sv_heap s"
  "sv_hook (update_metrics f s) = sv_hook s" "session_at (update_metrics f s) r = session_at s r"
  "live (update_metrics f s) r = live s r"
  by (simp_all add: update_metrics_def session_at_def live_def)

lemma update_session_fields [simp]:
  "sv_config (update_session r f s) = sv_config s" "sv_credentials (update_session r f s) = sv_credentials s"
  "sv_sessions (update_session r f s) = sv_sessions s" "sv_by_client (update_session r f s) = sv_by_client s"
  "sv_by_ip (update_session r f s) = sv_by_ip s" "sv_metrics (update_session r f s) = sv_metrics s"
  "sv_hook (update_session r f s) = sv_hook s" "length (sv_heap (update_session r f s)) = length (sv_heap s)"
  "live (update_session r f s) q = live s q"
  by (simp_all add: update_session_def live_def)

lemma session_at_update:
  "session_at (update_session r f s) q =
     (if q = r \<and> r < length (sv_heap s) then f (session_at s r) else session_at s q)"
  by (auto simp: update_session_def session_at_def nth_list_update list_update_beyond not_less)

lemma live_bound: "indexes_ok s \<Longrightarrow> live s r \<Longrightarrow> r < length (sv_heap s)"
  by (auto simp: indexes_ok_def live_def)

lemma live_iff: "indexes_ok s \<Longrightarrow> live s r \<longleftrightarrow> map_get (sv_sessions s) (ss_id (session_at s r)) = Some r"
  by (auto simp: indexes_ok_def live_def)

lemma indexes_client: "indexes_ok s \<Longrightarrow> map_get (sv_by_client s) n = Some r \<Longrightarrow> live s r \<and> n = client_of (session_at s r)"
  unfolding indexes_ok_def by blast

lemma indexes_ip: "indexes_ok s \<Longrightarrow> map_get (sv_by_ip s) ip = Some r \<Longrightarrow> live s r \<and> ip = ip_of (session_at s r)"
  unfolding indexes_ok_def by blast

lemma indexes_session:
  "indexes_ok s \<Longrightarrow> map_get (sv_sessions s) sid = Some r \<Longrightarrow>
   r < length (sv_heap s) \<and> ss_id (session_at s r) = sid \<and> sid \<noteq> 0 \<and> \<not> ss_closing (session_at s r)
   \<and> map_get (sv_by_client s) (client_of (session_at s r)) = Some r
   \<and> map_get (sv_by_ip s) (ip_of (session_at s r)) = Some r"
  unfolding indexes_ok_def by blast

lemma indexes_live:
  "indexes_ok s \<Longrightarrow> live s r \<Longrightarrow>
   r < length (sv_heap s) \<and> map_get (sv_sessions s) (ss_id (session_at s r)) = Some r
   \<and> ss_id (session_at s r) \<noteq> 0 \<and> \<not> ss_closing (session_at s r)
   \<and> map_get (sv_by_client s) (client_of (session_at s r)) = Some r
   \<and> map_get (sv_by_ip s) (ip_of (session_at s r)) = Some r"
  unfolding live_def using indexes_session by blast

lemma indexes_unique:
  "indexes_ok s \<Longrightarrow> keys_unique (sv_sessions s) \<and> keys_unique (sv_by_client s) \<and> keys_unique (sv_by_ip s)
   \<and> mt_active_sessions (sv_metrics s) = signed_take_bit 63 (int (length (sv_sessions s)))"
  unfolding indexes_ok_def by blast

lemma inv_update_metrics [preserves]:
  assumes "server_inv C s" "mt_active_sessions (f (sv_metrics s)) = mt_active_sessions (sv_metrics s)"
  shows "server_inv C (update_metrics f s)"
proof -
  have "sv_metrics (update_metrics f s) = f (sv_metrics s)" by (simp add: update_metrics_def)
  with assms show ?thesis by (simp add: server_inv_def indexes_ok_def sessions_ok_def)
qed

text \<open>An update of a session that leaves its identity alone.\<close>

definition same_identity :: "server_session \<Rightarrow> server_session \<Rightarrow> bool" where
  "same_identity a b \<longleftrightarrow> ss_id a = ss_id b \<and> ss_credential a = ss_credential b \<and> ss_closing a = ss_closing b"

lemma inv_update_session [preserves]:
  assumes inv: "server_inv C s"
    and f: "live s r \<Longrightarrow> same_identity (f (session_at s r)) (session_at s r) \<and> session_wf C (f (session_at s r))"
  shows "server_inv C (update_session r f s)"
proof (cases "live s r")
  case True
  then have "same_identity (session_at (update_session r f s) q) (session_at s q)" for q
    using f by (auto simp: session_at_update same_identity_def)
  then have i: "ss_id (session_at (update_session r f s) q) = ss_id (session_at s q)"
    "ss_credential (session_at (update_session r f s) q) = ss_credential (session_at s q)"
    "ss_closing (session_at (update_session r f s) q) = ss_closing (session_at s q)" for q
    by (auto simp: same_identity_def)
  have "indexes_ok (update_session r f s)" using inv by (simp add: server_inv_def indexes_ok_def i)
  moreover have "sessions_ok C (update_session r f s)"
    using inv f by (simp add: server_inv_def sessions_ok_def i) (simp add: session_at_update)
  ultimately show ?thesis using inv by (simp add: server_inv_def)
next
  case False
  have e: "session_at (update_session r f s) q = session_at s q" if "live s q" for q
    using that False by (auto simp: session_at_update)
  have l: "live s q" if "map_get (sv_sessions s) sid = Some q" for q sid using that by (auto simp: live_def)
  have "indexes_ok (update_session r f s)"
    using inv unfolding server_inv_def indexes_ok_def by (simp add: e l cong: conj_cong)
  moreover have "sessions_ok C (update_session r f s)"
    using inv by (simp add: server_inv_def sessions_ok_def e)
  ultimately show ?thesis using inv by (simp add: server_inv_def)
qed

section \<open>Removing a session\<close>

text \<open>The janitor removes a session from all three indexes without a test; \<open>detachSessionLocked\<close> tests
  every entry first. On a consistent state both are the same.\<close>

definition drop_session :: "sref \<Rightarrow> server \<Rightarrow> server" where
  "drop_session r s =
     update_metrics (add_sessions (- 1))
       (s\<lparr>sv_sessions := map_del (sv_sessions s) (ss_id (session_at s r)),
          sv_by_client := map_del (sv_by_client s) (client_of (session_at s r)),
          sv_by_ip := map_del (sv_by_ip s) (ip_of (session_at s r))\<rparr>)"

lemma drop_session_fields [simp]:
  "sv_config (drop_session r s) = sv_config s" "sv_credentials (drop_session r s) = sv_credentials s"
  "sv_heap (drop_session r s) = sv_heap s" "sv_hook (drop_session r s) = sv_hook s"
  "session_at (drop_session r s) q = session_at s q"
  "sv_sessions (drop_session r s) = map_del (sv_sessions s) (ss_id (session_at s r))"
  "sv_by_client (drop_session r s) = map_del (sv_by_client s) (client_of (session_at s r))"
  "sv_by_ip (drop_session r s) = map_del (sv_by_ip s) (ip_of (session_at s r))"
  by (simp_all add: drop_session_def update_metrics_def session_at_def)

lemma live_drop: "indexes_ok s \<Longrightarrow> live s r \<Longrightarrow> live (drop_session r s) q \<longleftrightarrow> live s q \<and> q \<noteq> r"
proof -
  assume i: "indexes_ok s" and r: "live s r"
  have m: "map_get (sv_sessions s) sid = Some x \<Longrightarrow> sid = ss_id (session_at s x)" for sid x
    using i by (auto simp: indexes_ok_def)
  have hr: "map_get (sv_sessions s) (ss_id (session_at s r)) = Some r" using r live_iff [OF i] by blast
  have e: "sid \<noteq> ss_id (session_at s r) \<longleftrightarrow> q \<noteq> r" if "map_get (sv_sessions s) sid = Some q" for sid
  proof
    show "sid \<noteq> ss_id (session_at s r) \<Longrightarrow> q \<noteq> r" using m [OF that] by blast
    show "q \<noteq> r \<Longrightarrow> sid \<noteq> ss_id (session_at s r)" using that hr by auto
  qed
  have "live (drop_session r s) q
      \<longleftrightarrow> (\<exists>sid. sid \<noteq> ss_id (session_at s r) \<and> map_get (sv_sessions s) sid = Some q)"
    by (auto simp: live_def map_get_del)
  then show ?thesis using e unfolding live_def by blast
qed

lemma active_add: "mt_active_sessions (add_sessions d m) = signed_take_bit 63 (mt_active_sessions m + d)"
  by (simp add: add_sessions_def)

lemma signed_wrap_add: "signed_take_bit 63 (signed_take_bit 63 a + d) = signed_take_bit 63 (a + d)" for a d :: int
  using signed_take_bit_add [of 63 "signed_take_bit 63 a" d] signed_take_bit_add [of 63 a d] by simp

lemma live_unique:
  assumes "indexes_ok s" "live s q" "live s r"
  shows "ss_id (session_at s q) = ss_id (session_at s r) \<longleftrightarrow> q = r"
    and "client_of (session_at s q) = client_of (session_at s r) \<longleftrightarrow> q = r"
    and "ip_of (session_at s q) = ip_of (session_at s r) \<longleftrightarrow> q = r"
proof -
  have "map_get (sv_sessions s) (ss_id (session_at s x)) = Some x
      \<and> map_get (sv_by_client s) (client_of (session_at s x)) = Some x
      \<and> map_get (sv_by_ip s) (ip_of (session_at s x)) = Some x" if "live s x" for x
    using that assms(1) unfolding live_def indexes_ok_def by blast
  from this [OF assms(2)] this [OF assms(3)]
  show "ss_id (session_at s q) = ss_id (session_at s r) \<longleftrightarrow> q = r"
    "client_of (session_at s q) = client_of (session_at s r) \<longleftrightarrow> q = r"
    "ip_of (session_at s q) = ip_of (session_at s r) \<longleftrightarrow> q = r"
    by (metis option.inject)+
qed

lemma indexes_ok_drop:
  assumes i: "indexes_ok s" and r: "live s r"
  shows "indexes_ok (drop_session r s)"
proof -
  let ?d = "drop_session r s"
  have len: "int (length (sv_sessions ?d)) = int (length (sv_sessions s)) - 1"
  proof -
    have "ss_id (session_at s r) \<in> fst ` set (sv_sessions s)"
      using i r by (metis live_iff map_get_None_iff option.distinct(1))
    then have "length (sv_sessions ?d) = length (sv_sessions s) - 1" "0 < length (sv_sessions s)"
      using i by (auto simp: indexes_ok_def length_map_del)
    then show ?thesis by linarith
  qed
  have act: "mt_active_sessions (sv_metrics ?d) = signed_take_bit 63 (int (length (sv_sessions ?d)))"
  proof -
    have "mt_active_sessions (sv_metrics ?d) = signed_take_bit 63 (mt_active_sessions (sv_metrics s) + - 1)"
      by (simp add: drop_session_def update_metrics_def active_add)
    then show ?thesis using i by (simp only: indexes_ok_def signed_wrap_add len) simp
  qed
  have other: "q \<noteq> r \<and> live s q" if "map_get (sv_sessions ?d) sid = Some q" for sid q
  proof -
    have "live ?d q" using that unfolding live_def by blast
    then show ?thesis using live_drop [OF i r] by blast
  qed
  have sess: "q < length (sv_heap ?d) \<and> ss_id (session_at ?d q) = sid \<and> sid \<noteq> 0 \<and> \<not> ss_closing (session_at ?d q)
      \<and> map_get (sv_by_client ?d) (client_of (session_at ?d q)) = Some q
      \<and> map_get (sv_by_ip ?d) (ip_of (session_at ?d q)) = Some q"
    if q: "map_get (sv_sessions ?d) sid = Some q" for sid q
  proof -
    have s: "map_get (sv_sessions s) sid = Some q" using q by (auto simp: map_get_del split: if_splits)
    have "client_of (session_at s q) \<noteq> client_of (session_at s r)" "ip_of (session_at s q) \<noteq> ip_of (session_at s r)"
      using live_unique [OF i _ r] other [OF q] by auto
    then show ?thesis using indexes_session [OF i s] by (simp add: map_get_del)
  qed
  have cl: "live ?d q \<and> n = client_of (session_at ?d q)" if "map_get (sv_by_client ?d) n = Some q" for n q
  proof -
    have "map_get (sv_by_client s) n = Some q" "n \<noteq> client_of (session_at s r)"
      using that by (auto simp: map_get_del split: if_splits)
    then show ?thesis using indexes_client [OF i, of n q] by (auto simp: live_drop [OF i r])
  qed
  have ipd: "live ?d q \<and> ip = ip_of (session_at ?d q)" if "map_get (sv_by_ip ?d) ip = Some q" for ip q
  proof -
    have "map_get (sv_by_ip s) ip = Some q" "ip \<noteq> ip_of (session_at s r)"
      using that by (auto simp: map_get_del split: if_splits)
    then show ?thesis using indexes_ip [OF i, of ip q] by (auto simp: live_drop [OF i r])
  qed
  have "keys_unique (sv_sessions ?d)" "keys_unique (sv_by_client ?d)" "keys_unique (sv_by_ip ?d)"
    using indexes_unique [OF i] by simp_all
  then show ?thesis
    unfolding indexes_ok_def [of ?d] using sess cl ipd act by blast
qed

lemma inv_drop [preserves]: "server_inv C s \<Longrightarrow> live s r \<Longrightarrow> server_inv C (drop_session r s)"
  by (auto simp: server_inv_def indexes_ok_drop sessions_ok_def live_drop)

text \<open>Detaching a session right after an update that keeps its identity.\<close>

definition keeps_identity :: "(server_session \<Rightarrow> server_session) \<Rightarrow> bool" where
  "keeps_identity g \<longleftrightarrow> (\<forall>ss. ss_id (g ss) = ss_id ss \<and> ss_credential (g ss) = ss_credential ss)"

lemma detach_update_drop:
  assumes i: "indexes_ok s" and r: "live s r" and g: "keeps_identity g"
  shows "detach_session r (update_session r g s) = update_session r g (drop_session r s)"
proof -
  have f: "r < length (sv_heap s)" "map_get (sv_sessions s) (ss_id (session_at s r)) = Some r"
    "map_get (sv_by_client s) (client_of (session_at s r)) = Some r"
    "map_get (sv_by_ip s) (ip_of (session_at s r)) = Some r"
    using indexes_live [OF i r] by auto
  have k: "ss_id (g x) = ss_id x" "ss_credential (g x) = ss_credential x" for x
    using g by (auto simp: keeps_identity_def)
  show ?thesis
    using f unfolding detach_session_def drop_session_def
    by (simp add: session_at_update Let_def k) (simp add: update_session_def update_metrics_def)
qed

lemma keeps_closing [simp]: "keeps_identity (\<lambda>ss. ss\<lparr>ss_closing := True\<rparr>)"
  by (simp add: keeps_identity_def)

lemma detach_mark_drop:
  "indexes_ok s \<Longrightarrow> live s r \<Longrightarrow> detach_session r (mark_closing r s) = mark_closing r (drop_session r s)"
  unfolding mark_closing_def by (rule detach_update_drop) simp_all

lemma retire_paths_inv:
  assumes "server_inv C s" "\<not> live s r"
  shows "server_inv C (retire_paths r s)"
  unfolding retire_paths_def
  by (rule inv_update_metrics, rule inv_update_session) (use assms in auto)

definition terminate_session :: "sref \<Rightarrow> server \<Rightarrow> server" where
  "terminate_session r s = retire_paths r (mark_closing r (drop_session r s))"

lemma terminate_session_inv:
  assumes inv: "server_inv C s" and r: "live s r"
  shows "server_inv C (terminate_session r s)"
proof -
  have i: "indexes_ok s" using inv by (simp add: server_inv_def)
  have n: "\<not> live (drop_session r s) r" using live_drop [OF i r] by simp
  have "server_inv C (mark_closing r (drop_session r s))"
    unfolding mark_closing_def using n inv_drop [OF inv r] by (intro inv_update_session) auto
  then show ?thesis
    unfolding terminate_session_def using n by (intro retire_paths_inv) (simp_all add: mark_closing_def)
qed

lemma terminate_eqs:
  assumes i: "indexes_ok s"
  shows "terminate_client_session n s =
      (case map_get (sv_by_client s) n of None \<Rightarrow> s | Some r \<Rightarrow> terminate_session r s)"
    and "terminate_if_current r s = (if live s r then terminate_session r s else s)"
proof -
  have "live s r" if "map_get (sv_by_client s) n = Some r" for r
    using i that by (auto simp: indexes_ok_def)
  then show "terminate_client_session n s =
      (case map_get (sv_by_client s) n of None \<Rightarrow> s | Some r \<Rightarrow> terminate_session r s)"
    by (auto simp: terminate_client_session_def terminate_session_def detach_mark_drop [OF i] split: option.splits)
  show "terminate_if_current r s = (if live s r then terminate_session r s else s)"
    using live_iff [OF i, of r]
    by (auto simp: terminate_if_current_def terminate_session_def detach_mark_drop [OF i])
qed

lemma terminate_inv [preserves]:
  assumes "server_inv C s"
  shows "server_inv C (terminate_client_session n s)" and "server_inv C (terminate_if_current r s)"
proof -
  have i: "indexes_ok s" using assms by (simp add: server_inv_def)
  have "live s r" if "map_get (sv_by_client s) n = Some r" for r
    using i that by (auto simp: indexes_ok_def)
  then show "server_inv C (terminate_client_session n s)"
    using assms terminate_session_inv by (auto simp: terminate_eqs [OF i] split: option.splits)
  show "server_inv C (terminate_if_current r s)"
    using assms terminate_session_inv by (auto simp: terminate_eqs [OF i])
qed

section \<open>Paths\<close>

lemma session_wf_cong:
  "ss_id a = ss_id b \<Longrightarrow> ss_credential a = ss_credential b \<Longrightarrow> ss_paths a = ss_paths b \<Longrightarrow> ss_reorder a = ss_reorder b
   \<Longrightarrow> session_wf C a = session_wf C b"
  by (simp add: session_wf_def path_ok_def own_packet_def [abs_def])

lemma path_ok_cong: "ss_id a = ss_id b \<Longrightarrow> ss_credential a = ss_credential b \<Longrightarrow> path_ok C a pid p = path_ok C b pid p"
  by (simp add: path_ok_def)

lemma put_path_ok:
  assumes "session_wf C ss" "path_ok C ss (sp_id p) p"
  shows "same_identity (put_path p ss) ss \<and> session_wf C (put_path p ss)"
proof -
  have "set (map_put (ss_paths ss) (sp_id p) p) \<subseteq> insert (sp_id p, p) (set (ss_paths ss))"
    by (rule set_map_put_subset)
  then show ?thesis
    using assms by (auto simp: put_path_def same_identity_def session_wf_def path_ok_def own_packet_def [abs_def])
qed

text \<open>\<open>good_path C s r p\<close>: \<open>p\<close> may be stored in session \<open>r\<close>.\<close>

definition good_path :: "crypto \<Rightarrow> server \<Rightarrow> sref \<Rightarrow> server_path \<Rightarrow> bool" where
  "good_path C s r p \<longleftrightarrow> path_ok C (session_at s r) (sp_id p) p"

lemma good_path_simps [simp]:
  "good_path C s r (p\<lparr>sp_healthy := b\<rparr>) = good_path C s r p"
  "good_path C s r (p\<lparr>sp_sequence := q\<rparr>) = good_path C s r p"
  "good_path C (update_metrics f s) r p = good_path C s r p"
  by (simp_all add: good_path_def path_ok_def)

lemma good_path_update:
  "keeps_identity g \<Longrightarrow> good_path C (update_session q g s) r p = good_path C s r p"
  by (simp add: good_path_def session_at_update keeps_identity_def path_ok_def)

lemma keeps_identity_simps [simp]:
  "keeps_identity (put_path p)" "keeps_identity (touch_session t)"
  "keeps_identity (\<lambda>ss. ss\<lparr>ss_reorder := b\<rparr>)" "keeps_identity (\<lambda>ss. ss\<lparr>ss_data_seq := n\<rparr>)"
  "keeps_identity (\<lambda>ss. ss\<lparr>ss_next_path_id := i\<rparr>)" "keeps_identity (\<lambda>ss. ss\<lparr>ss_paths := ps, ss_closing := c ss\<rparr>)"
  by (simp_all add: keeps_identity_def put_path_def touch_session_def)

lemma session_wf_live: "server_inv C s \<Longrightarrow> live s r \<Longrightarrow> session_wf C (session_at s r)"
  by (simp add: server_inv_def sessions_ok_def)

lemma good_path_in:
  assumes "server_inv C s" "live s r" "(pid, p) \<in> set (ss_paths (session_at s r))"
  shows "good_path C s r p \<and> sp_id p = pid"
proof -
  have "path_ok C (session_at s r) pid p"
    using session_wf_live [OF assms(1,2)] assms(3) unfolding session_wf_def by blast
  moreover from this have "sp_id p = pid" by (simp add: path_ok_def)
  ultimately show ?thesis by (simp add: good_path_def)
qed

lemma good_path_member:
  "server_inv C s \<Longrightarrow> live s r \<Longrightarrow> map_get (ss_paths (session_at s r)) pid = Some p \<Longrightarrow> good_path C s r p \<and> sp_id p = pid"
  using session_wf_live [of C s r] by (auto simp: session_wf_def good_path_def path_ok_def dest!: map_of_SomeD)

lemma inv_put_path [preserves]:
  "server_inv C s \<Longrightarrow> good_path C s r p \<Longrightarrow> server_inv C (update_session r (put_path p) s)"
  using put_path_ok [of C "session_at s r" p] session_wf_live [of C s r]
  by (intro inv_update_session) (auto simp: good_path_def)

lemma inv_touch [preserves]: "server_inv C s \<Longrightarrow> server_inv C (update_session r (touch_session t) s)"
  using session_wf_live [of C s r]
  by (intro inv_update_session) (auto simp: touch_session_def same_identity_def session_wf_def path_ok_def own_packet_def [abs_def])

lemma record_write_error_inv [preserves]:
  "server_inv C s \<Longrightarrow> good_path C s r p \<Longrightarrow> server_inv C (record_write_error r p s)"
  unfolding record_write_error_def by (intro inv_update_metrics inv_put_path) auto

lemma end_session_inv:
  assumes inv: "server_inv C s" and r: "live s r" and g: "keeps_identity g"
  shows "server_inv C (terminate_if_current r (update_session r g s))"
proof -
  have i: "indexes_ok s" using inv by (simp add: server_inv_def)
  let ?h = "\<lambda>ss. (g ss)\<lparr>ss_closing := True\<rparr>"
  have h: "keeps_identity ?h" using g by (simp add: keeps_identity_def)
  have b: "r < length (sv_heap s)" using live_bound [OF i r] .
  have m: "mark_closing r (update_session r g s) = update_session r ?h s"
    using b by (simp add: mark_closing_def update_session_def)
  have cur: "map_get (sv_sessions s) (ss_id (session_at (update_session r g s) r)) = Some r"
    using indexes_live [OF i r] b g by (simp add: session_at_update keeps_identity_def)
  have n: "\<not> live (drop_session r s) r" using live_drop [OF i r] by simp
  have "server_inv C (update_session r ?h (drop_session r s))"
    using n inv_drop [OF inv r] by (intro inv_update_session) auto
  then have "server_inv C (retire_paths r (update_session r ?h (drop_session r s)))"
    using n by (intro retire_paths_inv) auto
  then show ?thesis
    using cur by (simp add: terminate_if_current_def m detach_update_drop [OF i r h])
qed

lemma update_commute: "update_session r g (update_metrics f s) = update_metrics f (update_session r g s)"
  by (simp add: update_session_def update_metrics_def)

text \<open>Removing a path, and ending the session when it was the last.\<close>

lemma remove_path_inv:
  assumes inv: "server_inv C s" and rm: "remove_path r p s = (gone, s1)"
  shows "server_inv C (if gone then terminate_if_current r s1 else s1)"
proof -
  let ?paths = "map_del (ss_paths (session_at s r)) (sp_id p)"
  let ?f = "update_path_metric (sp_metric p) (path_health False)"
  let ?g = "\<lambda>ss. ss\<lparr>ss_paths := ?paths, ss_closing := ss_closing ss \<or> gone\<rparr>"
  have e: "gone \<longleftrightarrow> ?paths = []" and s1: "s1 = update_session r ?g (update_metrics ?f s)"
    using rm by (auto simp: remove_path_def Let_def update_commute)
  have inv': "server_inv C (update_metrics ?f s)" using inv by (intro inv_update_metrics) auto
  show ?thesis
  proof (cases "live s r")
    case False
    then have "server_inv C s1" unfolding s1 using inv' by (intro inv_update_session) auto
    then show ?thesis using terminate_inv(2) by simp
  next
    case True
    have k: "keeps_identity ?g" by (simp add: keeps_identity_def)
    have wf: "session_wf C (session_at s r)" using session_wf_live [OF inv True] .
    have "session_wf C (?g (session_at s r))"
      using wf set_map_del_subset [of "sp_id p" "ss_paths (session_at s r)"]
      by (auto simp: session_wf_def path_ok_def own_packet_def [abs_def])
    then have "server_inv C s1" if "\<not> gone"
      unfolding s1 using inv' that by (intro inv_update_session) (auto simp: same_identity_def)
    moreover have "server_inv C (terminate_if_current r s1)"
      unfolding s1 using inv' True by (intro end_session_inv k) auto
    ultimately show ?thesis by simp
  qed
qed

section \<open>Delivery\<close>

text \<open>Writing to the tunnel changes only counters.\<close>

lemma write_packets_metrics:
  "\<exists>f. snd (write_packets ok i ps s) = update_metrics f s \<and> (\<forall>m. mt_active_sessions (f m) = mt_active_sessions m)"
proof (induction ps arbitrary: i s)
  case Nil
  show ?case by (intro exI [of _ id]) (simp add: update_metrics_def)
next
  case (Cons p ps)
  let ?g = "if ok i then count_received (length p) else count_tun_write_error"
  obtain f where f: "snd (write_packets ok (Suc i) ps (update_metrics ?g s)) = update_metrics f (update_metrics ?g s)"
    "\<forall>m. mt_active_sessions (f m) = mt_active_sessions m" using Cons.IH by blast
  have "update_metrics f (update_metrics ?g s) = update_metrics (\<lambda>m. f (?g m)) s" by (simp add: update_metrics_def)
  then show ?case
    using f by (intro exI [of _ "\<lambda>m. f (?g m)"]) (auto simp: case_prod_beta)
qed

lemma write_packets_outputs: "set (fst (write_packets ok i ps s)) \<subseteq> WriteTun ` set ps"
proof (induction ps arbitrary: i s)
  case (Cons p ps)
  then show ?case by (auto simp: case_prod_beta dest!: subsetD [OF Cons.IH])
qed simp

lemma deliver_inv [preserves]:
  assumes "server_inv C s" shows "server_inv C (snd (deliver e r res s))"
proof -
  let ?s = "if 0 < res_skipped res then update_metrics (count_skips (res_skipped res)) s else s"
  have "server_inv C ?s" using assms by (auto intro: inv_update_metrics)
  moreover obtain f where "snd (write_packets (ev_tun_ok e r) 0 (res_packets res) ?s) = update_metrics f ?s"
    "\<forall>m. mt_active_sessions (f m) = mt_active_sessions m" using write_packets_metrics by blast
  ultimately show ?thesis unfolding deliver_def by (simp add: inv_update_metrics)
qed

lemma inv_set_reorder:
  assumes "server_inv C s" "live s r \<Longrightarrow> rb.guarded (own_packet (session_at s r)) b"
  shows "server_inv C (update_session r (\<lambda>ss. ss\<lparr>ss_reorder := b\<rparr>) s)"
  using assms session_wf_live [of C s r]
  by (intro inv_update_session) (auto simp: same_identity_def session_wf_def path_ok_def own_packet_def [abs_def])

section \<open>Encrypted packets\<close>

lemma send_or_record_inv [preserves]:
  assumes "server_inv C s" "good_path C s r p"
  shows "server_inv C (snd (snd (send_or_record C e r p t payload s)))"
proof -
  let ?p = "p\<lparr>sp_sequence := sp_sequence p + 1\<rparr>" and ?s = "update_session r (put_path (p\<lparr>sp_sequence := sp_sequence p + 1\<rparr>)) s"
  have "server_inv C ?s" using assms by (intro inv_put_path) auto
  moreover have "good_path C ?s r ?p" using assms by (simp add: good_path_update)
  ultimately show ?thesis
    unfolding send_or_record_def send_path_def Let_def
    by (auto split: sum.splits option.splits intro: inv_update_metrics record_write_error_inv)
qed

lemma handle_payload_inv:
  assumes inv: "server_inv C s" and r: "live s r" and p: "good_path C s r p"
  shows "server_inv C (snd (handle_payload C e r p t payload s))"
proof -
  have data: "server_inv C (snd (deliver e r res (update_session r (\<lambda>ss. ss\<lparr>ss_reorder := b\<rparr>) s)))"
    if "source_ip pkt = Some (ip_of (session_at s r))" "push (ss_reorder (session_at s r)) q pkt t1 t2 = (res, b)"
    for res b q pkt t1 t2
  proof -
    have "rb.guarded (own_packet (session_at s r)) (ss_reorder (session_at s r))"
      using session_wf_live [OF inv r] by (simp add: session_wf_def)
    then have "rb.guarded (own_packet (session_at s r)) b"
      using rb.guarded_put [OF _ _ that(2)] that(1) by (simp add: own_packet_def)
    then show ?thesis by (intro deliver_inv inv_set_reorder inv) auto
  qed
  show ?thesis
    using inv p data remove_path_inv [OF inv]
    unfolding handle_payload_def Let_def
    by (auto split: sum.splits prod.splits if_splits intro: inv_update_metrics send_or_record_inv)
qed

lemma live_update_iff [simp]: "live (update_session r f s) = live s"
  by (rule ext) simp

lemma handle_encrypted_inv:
  assumes inv: "server_inv C s"
  shows "server_inv C (snd (handle_encrypted C e remote h packet s))"
proof (cases "map_get (sv_sessions s) (h_session h)")
  case None
  then show ?thesis using inv by (auto simp: handle_encrypted_def intro: inv_update_metrics)
next
  case r: (Some r)
  then have lv: "live s r" by (auto simp: live_def)
  show ?thesis
  proof (cases "map_get (ss_paths (session_at s r)) (h_path h)")
    case None
    then show ?thesis using inv r by (auto simp: handle_encrypted_def intro: inv_update_metrics)
  next
    case p: (Some p)
    have gp: "good_path C s r p" using good_path_member [OF inv lv p] by blast
    have gs: "good_path C s r (seen_path remote t w p)" for t w
      using gp by (simp add: good_path_def path_ok_def seen_path_def)
    show ?thesis
    proof (cases "open_packet C (sp_aead p) h ClientToServer packet")
      case (Inl a)
      then show ?thesis using inv r p by (auto simp: handle_encrypted_def intro: inv_update_metrics)
    next
      case (Inr payload)
      obtain new w where w: "accept (sp_replay p) (h_seq h) = (new, w)" by (cases "accept (sp_replay p) (h_seq h)")
      let ?p1 = "seen_path remote (ev_clock e 0) w p"
      let ?s1 = "update_session r (touch_session (ev_clock e 1)) (update_session r (put_path ?p1) s)"
      let ?s2 = "update_metrics (update_path_metric (sp_metric p)
        (\<lambda>m. path_received (length payload) (path_health True m))) ?s1"
      have "server_inv C ?s2"
        using inv gs by (intro inv_update_metrics inv_touch inv_put_path) auto
      moreover have "good_path C ?s2 r ?p1" using gs by (simp add: good_path_update)
      ultimately have "server_inv C (snd (handle_payload C e r ?p1 (h_type h) payload ?s2))"
        using lv by (intro handle_payload_inv) auto
      then show ?thesis
        using inv r p Inr w by (auto simp: handle_encrypted_def Let_def intro: inv_update_metrics)
    qed
  qed
qed

section \<open>The tunnel\<close>

lemma set_visit_order: "keys_unique m \<Longrightarrow> set (visit_order ks m) = set m"
proof -
  assume u: "keys_unique m"
  have "(k, v) \<in> set (visit_order ks m) \<longleftrightarrow> (k, v) \<in> set m" for k v
    using map_get_mem [OF u, of k v]
    by (auto simp: visit_order_def map_get_mem [OF u] split: option.splits)
  then show ?thesis by auto
qed

lemma fl_128: "1 / 2 ^ 1000 \<le> (1 / 128 :: rat)"
  by simp

lemma candidates_sane:
  assumes "session_wf C ss"
  shows "\<forall>c \<in> set (map (\<lambda>(_, p). path_candidate now p) (visit_order order (ss_paths ss))). sane_weight c"
proof -
  have "sane_weight (path_candidate now p)" if "(pid, p) \<in> set (ss_paths ss)" for pid p
  proof -
    have "is_float64 (sp_weight p)" "1 / 128 \<le> sp_weight p"
      using assms that by (auto simp: session_wf_def path_ok_def)
    then show ?thesis
      using order.trans [OF fl_128, of "sp_weight p"] by (simp add: sane_weight_def path_candidate_def del: power_divide)
  qed
  moreover have "set (visit_order order (ss_paths ss)) = set (ss_paths ss)"
    using assms by (intro set_visit_order) (simp add: session_wf_def)
  ultimately show ?thesis by auto
qed

lemma next_path_selected:
  assumes wf: "session_wf C ss" and n: "next_path order now ss = (Some p, ss')"
  shows "map_get (ss_paths ss) (sp_id p) = Some p \<and> path_is_healthy now p"
proof -
  let ?cs = "map (\<lambda>(_, p). path_candidate now p) (visit_order order (ss_paths ss))"
  obtain c where c: "fst (next_candidate (ss_credits ss) ?cs) = Some c" "pc_path c = p"
    using n by (auto simp: next_path_def split: prod.splits)
  then have "c \<in> set ?cs" "pc_healthy c" using wrr.chosen [OF candidates_sane [OF wf]] by blast+
  moreover have u: "keys_unique (ss_paths ss)" using wf by (simp add: session_wf_def)
  ultimately obtain pid where "(pid, p) \<in> set (ss_paths ss)" "path_is_healthy now p"
    using c(2) set_visit_order [OF u, of order] by (auto simp: path_candidate_def)
  moreover from this have "sp_id p = pid" using wf by (auto simp: session_wf_def path_ok_def)
  ultimately show ?thesis using map_get_mem [OF u] by auto
qed

lemma next_path_session: "snd (next_path order now ss) = ss\<lparr>ss_credits := ss_credits (snd (next_path order now ss))\<rparr>"
  by (simp add: next_path_def split: prod.splits)

lemma tun_packet_inv:
  assumes inv: "server_inv C s"
  shows "server_inv C (snd (tun_packet C e packet s))"
proof (cases "destination_ip packet")
  case None
  then show ?thesis using inv by (auto simp: tun_packet_def intro: inv_update_metrics)
next
  case ip: (Some ip)
  show ?thesis
  proof (cases "map_get (sv_by_ip s) ip")
    case None
    then show ?thesis using inv ip by (auto simp: tun_packet_def intro: inv_update_metrics)
  next
    case r: (Some r)
    have i: "indexes_ok s" using inv by (simp add: server_inv_def)
    have lv: "live s r" using indexes_ip [OF i r] by blast
    have wf: "session_wf C (session_at s r)" using session_wf_live [OF inv lv] .
    obtain sel ss where n: "next_path (ev_order e) (ev_clock e 0) (session_at s r) = (sel, ss)"
      by (cases "next_path (ev_order e) (ev_clock e 0) (session_at s r)")
    have ss: "ss = (session_at s r)\<lparr>ss_credits := ss_credits ss\<rparr>"
      using next_path_session [of "ev_order e" "ev_clock e 0" "session_at s r"] by (simp add: n)
    have idn: "ss_id ss = ss_id (session_at s r)" "ss_credential ss = ss_credential (session_at s r)"
      "ss_closing ss = ss_closing (session_at s r)" "ss_paths ss = ss_paths (session_at s r)"
      "ss_reorder ss = ss_reorder (session_at s r)" by (subst ss, simp)+
    let ?s1 = "update_session r (\<lambda>_. ss) s"
    have wf': "session_wf C ss" using wf session_wf_cong [of ss "session_at s r"] idn by simp
    have inv1: "server_inv C ?s1"
      using inv wf' idn by (intro inv_update_session) (auto simp: same_identity_def)
    show ?thesis
    proof (cases sel)
      case None
      then show ?thesis using inv1 ip r n by (auto simp: tun_packet_def intro: inv_update_metrics)
    next
      case (Some p)
      let ?s2 = "update_session r (\<lambda>ss. ss\<lparr>ss_data_seq := ss_data_seq (session_at ?s1 r) + 1\<rparr>) ?s1"
      have at1: "session_at ?s1 r = ss" using live_bound [OF i lv] by (simp add: session_at_update)
      have wf2: "session_wf C (ss\<lparr>ss_data_seq := d\<rparr>)" for d
        using wf' session_wf_cong [of "ss\<lparr>ss_data_seq := d\<rparr>" ss] by simp
      have inv2: "server_inv C ?s2"
        by (rule inv_update_session [OF inv1]) (use wf2 at1 in \<open>auto simp: same_identity_def\<close>)
      have "good_path C s r p"
        using next_path_selected [OF wf, of "ev_order e" "ev_clock e 0" p ss] n Some
          good_path_member [OF inv lv, of "sp_id p" p] by simp
      then have gp: "good_path C ?s2 r p"
        using at1 idn by (simp add: good_path_update) (simp add: good_path_def path_ok_def)
      have sr: "server_inv C s3" if "send_or_record C e r p t pl ?s2 = (ok, outs, s3)" for t pl ok outs s3
        using send_or_record_inv [OF inv2 gp, of e t pl] that by simp
      show ?thesis
        using inv2 ip r n Some
        by (auto simp: tun_packet_def Let_def split: sum.splits prod.splits intro: inv_update_metrics sr)
    qed
  qed
qed

section \<open>Timers\<close>

lemma flush_sessions_inv: "server_inv C s \<Longrightarrow> server_inv C (snd (flush_sessions e now rs s))"
proof (induction rs arbitrary: s)
  case (Cons r rs)
  obtain res b where f: "flush_expired (ss_reorder (session_at s r)) now (ev_clock e r) = (res, b)"
    by (cases "flush_expired (ss_reorder (session_at s r)) now (ev_clock e r)")
  have "rb.guarded (own_packet (session_at s r)) b" if "live s r"
    using rb.guarded_flush [OF _ f] session_wf_live [OF Cons.prems that] by (auto simp: session_wf_def)
  then have "server_inv C (snd (deliver e r res (update_session r (\<lambda>ss. ss\<lparr>ss_reorder := b\<rparr>) s)))"
    using Cons.prems by (intro deliver_inv inv_set_reorder)
  from Cons.IH [OF this] show ?case by (simp add: f case_prod_beta)
qed simp

lemma expire_paths_inv:
  assumes inv: "server_inv C s" shows "server_inv C (expire_paths now r s)"
  unfolding expire_paths_def Let_def
proof (rule inv_update_metrics)
  let ?ps = "ss_paths (session_at s r)"
  let ?m = "map (\<lambda>(i, p). (i, if path_stale now (sp_health_timeout p) p then p\<lparr>sp_healthy := False\<rparr> else p)) ?ps"
  let ?f = "filter (\<lambda>(_, p). \<not> path_stale now minute p) ?m"
  show "server_inv C (update_session r (\<lambda>ss. ss\<lparr>ss_paths := ?f\<rparr>) s)"
  proof (rule inv_update_session [OF inv])
    assume "live s r"
    then have wf: "session_wf C (session_at s r)" using session_wf_live [OF inv] by blast
    have "map fst ?m = map fst ?ps" by (auto simp: o_def case_prod_beta)
    then have "keys_unique ?m" using wf by (simp only: session_wf_def keys_unique_def)
    then have "keys_unique ?f" by simp
    moreover have "\<forall>(pid, p) \<in> set ?f. path_ok C (session_at s r) pid p"
      using wf by (auto simp: session_wf_def path_ok_def)
    ultimately show "same_identity ((session_at s r)\<lparr>ss_paths := ?f\<rparr>) (session_at s r)
        \<and> session_wf C ((session_at s r)\<lparr>ss_paths := ?f\<rparr>)"
      using wf by (auto simp: same_identity_def session_wf_def path_ok_def own_packet_def [abs_def])
  qed
qed simp

lemma expire_paths_fields [simp]:
  "sv_sessions (expire_paths now r s) = sv_sessions s" "sv_by_client (expire_paths now r s) = sv_by_client s"
  "sv_by_ip (expire_paths now r s) = sv_by_ip s" "sv_credentials (expire_paths now r s) = sv_credentials s"
  "sv_config (expire_paths now r s) = sv_config s" "live (expire_paths now r s) = live s"
  by (simp_all add: expire_paths_def Let_def fun_eq_iff)

lemma expire_session_eq:
  assumes "indexes_ok s" "map_get (sv_sessions s) sid = Some r"
  shows "expire_session now s (sid, r) =
    (let t = expire_paths now r s in
     if time_sub now (time_unix_nano (ss_last_seen (session_at t r)))
        \<le> duration_value (sc_session_timeout (sv_config t)) (2 * minute)
     then t else drop_session r t)"
proof -
  have "ss_id (session_at (expire_paths now r s) q) = ss_id (session_at s q)" for q
    by (simp add: expire_paths_def Let_def session_at_update)
  then show ?thesis
    using indexes_session [OF assms] by (simp add: expire_session_def drop_session_def Let_def)
qed

lemma expire_session_inv:
  assumes inv: "server_inv C s" and r: "map_get (sv_sessions s) sid = Some r"
  shows "server_inv C (expire_session now s (sid, r))"
    and "sid' \<noteq> sid \<Longrightarrow> map_get (sv_sessions (expire_session now s (sid, r))) sid' = map_get (sv_sessions s) sid'"
proof -
  have i: "indexes_ok s" using inv by (simp add: server_inv_def)
  have lv: "live (expire_paths now r s) r" using r by (auto simp: live_def)
  have sid: "ss_id (session_at (expire_paths now r s) r) = sid"
    using indexes_session [OF i r] by (simp add: expire_paths_def Let_def session_at_update)
  show "server_inv C (expire_session now s (sid, r))"
    using expire_paths_inv [OF inv] inv_drop [OF expire_paths_inv [OF inv] lv]
    by (simp add: expire_session_eq [OF i r] Let_def)
  show "sid' \<noteq> sid \<Longrightarrow> map_get (sv_sessions (expire_session now s (sid, r))) sid' = map_get (sv_sessions s) sid'"
    by (simp add: expire_session_eq [OF i r] Let_def sid map_get_del)
qed

lemma expire_sessions_inv:
  assumes "server_inv C s" "distinct (map fst es)" "\<forall>(sid, r) \<in> set es. map_get (sv_sessions s) sid = Some r"
  shows "server_inv C (foldl (expire_session now) s es)"
  using assms
proof (induction es arbitrary: s)
  case (Cons entry es)
  obtain sid r where e: "entry = (sid, r)" by (cases entry)
  have r: "map_get (sv_sessions s) sid = Some r" using Cons.prems(3) by (simp add: e)
  have "map_get (sv_sessions (expire_session now s (sid, r))) sid' = Some r'" if "(sid', r') \<in> set es" for sid' r'
  proof -
    have "sid' \<noteq> sid" using that Cons.prems(2) by (force simp: e)
    then show ?thesis using expire_session_inv(2) [OF Cons.prems(1) r] Cons.prems(3) that by auto
  qed
  then show ?case
    using Cons.prems(2) expire_session_inv(1) [OF Cons.prems(1) r] by (simp add: e) (intro Cons.IH, auto)
qed simp

lemma janitor_tick_inv:
  assumes inv: "server_inv C s" shows "server_inv C (janitor_tick now s)"
proof -
  have u: "keys_unique (sv_sessions s)" using inv by (simp add: server_inv_def indexes_ok_def)
  then show ?thesis
    unfolding janitor_tick_def using inv map_get_mem [OF u]
    by (intro expire_sessions_inv) (auto simp: keys_unique_def)
qed

section \<open>Handshakes\<close>

lemma pick_session_id_fresh: "pick_session_id m ids = Some i \<Longrightarrow> i \<noteq> 0 \<and> map_get m i = None"
  by (induction ids) (auto split: if_splits)

text \<open>A session added to all three indexes.\<close>

definition add_session :: "server_session \<Rightarrow> server \<Rightarrow> server" where
  "add_session ss s =
     update_metrics (add_sessions 1)
       (s\<lparr>sv_heap := sv_heap s @ [ss],
          sv_sessions := map_put (sv_sessions s) (ss_id ss) (length (sv_heap s)),
          sv_by_client := map_put (sv_by_client s) (client_of ss) (length (sv_heap s)),
          sv_by_ip := map_put (sv_by_ip s) (ip_of ss) (length (sv_heap s))\<rparr>)"

lemma add_session_fields [simp]:
  "sv_config (add_session ss s) = sv_config s" "sv_credentials (add_session ss s) = sv_credentials s"
  "sv_hook (add_session ss s) = sv_hook s" "sv_heap (add_session ss s) = sv_heap s @ [ss]"
  "sv_sessions (add_session ss s) = map_put (sv_sessions s) (ss_id ss) (length (sv_heap s))"
  "sv_by_client (add_session ss s) = map_put (sv_by_client s) (client_of ss) (length (sv_heap s))"
  "sv_by_ip (add_session ss s) = map_put (sv_by_ip s) (ip_of ss) (length (sv_heap s))"
  by (simp_all add: add_session_def)

lemma session_at_add:
  "session_at (add_session ss s) q = (if q = length (sv_heap s) then ss else session_at s q)"
  if "q \<le> length (sv_heap s)"
  using that by (auto simp: session_at_def nth_append)

lemma live_add:
  assumes "map_get (sv_sessions s) (ss_id ss) = None"
  shows "live (add_session ss s) q \<longleftrightarrow> live s q \<or> q = length (sv_heap s)"
  using assms unfolding live_def by (auto simp: map_get_put) (metis option.distinct(1))

lemma authorized_ip_unique:
  assumes t: "cred_table_ok m" and a: "authorized m a" and b: "authorized m b" and e: "cr_tunnel_ip a = cr_tunnel_ip b"
  shows "client_id_string (cr_client_id a) = client_id_string (cr_client_id b)"
proof (rule ccontr)
  assume ne: "client_id_string (cr_client_id a) \<noteq> client_id_string (cr_client_id b)"
  obtain c d where "map_get m (client_id_string (cr_client_id a)) = Some c" "cr_tunnel_ip c = cr_tunnel_ip a"
    "map_get m (client_id_string (cr_client_id b)) = Some d" "cr_tunnel_ip d = cr_tunnel_ip b"
    using a b by (auto simp: authorized_def)
  with t ne e show False unfolding cred_table_ok_def by metis
qed

lemma add_session_inv:
  assumes inv: "server_inv C s" and new: "map_get (sv_sessions s) (ss_id ss) = None" "ss_id ss \<noteq> 0"
    and free: "map_get (sv_by_client s) (client_of ss) = None"
    and a: "authorized (sv_credentials s) (ss_credential ss)" and wf: "session_wf C ss" and o: "\<not> ss_closing ss"
  shows "server_inv C (add_session ss s)"
proof -
  let ?t = "add_session ss s" and ?r = "length (sv_heap s)"
  have i: "indexes_ok s" and tab: "cred_table_ok (sv_credentials s)" and sess: "sessions_ok C s"
    using inv by (auto simp: server_inv_def)
  have bound: "q < ?r" if "live s q" for q using live_bound [OF i that] .
  have at: "session_at ?t q = session_at s q" if "live s q" for q
    using bound [OF that] by (simp add: session_at_add)
  have atn: "session_at ?t ?r = ss" by (simp add: session_at_add)
  have ipfree: "map_get (sv_by_ip s) (ip_of ss) = None"
  proof (rule ccontr)
    assume "map_get (sv_by_ip s) (ip_of ss) \<noteq> None"
    then obtain q where q: "map_get (sv_by_ip s) (ip_of ss) = Some q" by auto
    have lq: "live s q" "ip_of ss = ip_of (session_at s q)" using indexes_ip [OF i q] by auto
    have "client_of ss = client_of (session_at s q)"
      using authorized_ip_unique [OF tab a _ lq(2)] sess lq(1) by (auto simp: sessions_ok_def)
    then show False using free indexes_live [OF i lq(1)] by simp
  qed
  have len: "length (sv_sessions ?t) = Suc (length (sv_sessions s))"
    using new(1) by (simp add: length_map_put map_get_None_iff)
  have act: "mt_active_sessions (sv_metrics ?t) = signed_take_bit 63 (int (length (sv_sessions ?t)))"
  proof -
    have "mt_active_sessions (sv_metrics ?t) = signed_take_bit 63 (mt_active_sessions (sv_metrics s) + 1)"
      by (simp add: add_session_def update_metrics_def active_add)
    then show ?thesis using indexes_unique [OF i] by (simp only: signed_wrap_add len) (simp add: add.commute)
  qed
  have 1: "q < length (sv_heap ?t) \<and> ss_id (session_at ?t q) = sid \<and> sid \<noteq> 0 \<and> \<not> ss_closing (session_at ?t q)
      \<and> map_get (sv_by_client ?t) (client_of (session_at ?t q)) = Some q
      \<and> map_get (sv_by_ip ?t) (ip_of (session_at ?t q)) = Some q"
    if q: "map_get (sv_sessions ?t) sid = Some q" for sid q
  proof (cases "sid = ss_id ss")
    case True
    then have "q = ?r" using q by (simp add: map_get_put)
    then show ?thesis using True atn new o by (simp add: map_get_put)
  next
    case False
    then have s: "map_get (sv_sessions s) sid = Some q" using q by (simp add: map_get_put)
    then have lq: "live s q" by (auto simp: live_def)
    have "client_of (session_at s q) \<noteq> client_of ss" "ip_of (session_at s q) \<noteq> ip_of ss"
      using indexes_session [OF i s] free ipfree by auto
    then show ?thesis using indexes_session [OF i s] by (simp add: at [OF lq] map_get_put)
  qed
  have 2: "live ?t q \<and> n = client_of (session_at ?t q)" if "map_get (sv_by_client ?t) n = Some q" for n q
    using that indexes_client [OF i, of n q] at [of q] atn by (auto simp: map_get_put live_add new split: if_splits)
  have 3: "live ?t q \<and> ip = ip_of (session_at ?t q)" if "map_get (sv_by_ip ?t) ip = Some q" for ip q
    using that indexes_ip [OF i, of ip q] at [of q] atn by (auto simp: map_get_put live_add new split: if_splits)
  have "keys_unique (sv_sessions ?t)" "keys_unique (sv_by_client ?t)" "keys_unique (sv_by_ip ?t)"
    using indexes_unique [OF i] by simp_all
  then have "indexes_ok ?t" unfolding indexes_ok_def [of ?t] using 1 2 3 act by blast
  moreover have "sessions_ok C ?t"
    using sess at atn a wf by (auto simp: sessions_ok_def live_add new)
  ultimately show ?thesis using tab by (simp add: server_inv_def)
qed

lemma new_session_wf: "session_wf C (new_session c cred h sid now)"
  by (simp add: session_wf_def new_session_def rb.guarded_def held_def new_buffer_def)

lemma new_session_fields [simp]:
  "ss_id (new_session c cred h sid now) = sid" "ss_credential (new_session c cred h sid now) = cred"
  "\<not> ss_closing (new_session c cred h sid now)" "ss_paths (new_session c cred h sid now) = []"
  by (simp_all add: new_session_def)

lemma get_or_create_session_inv:
  assumes inv: "server_inv C s" and c: "map_get (sv_credentials s) (client_id_string (cr_client_id cred)) = Some cred"
  shows "case get_or_create_session e cred h s of (r, outs, t) \<Rightarrow>
      server_inv C t \<and> (\<forall>q. r = Some q \<longrightarrow> live t q \<and> cr_key (ss_credential (session_at t q)) = cr_key cred
        \<and> client_of (session_at t q) = client_id_string (cr_client_id cred))"
proof -
  let ?n = "client_id_string (cr_client_id cred)"
  have i: "indexes_ok s" using inv by (simp add: server_inv_def)
  consider (same) r where "map_get (sv_by_client s) ?n = Some r" "session_accepts (session_at s r) h"
    | (fail) "pick_session_id (sv_sessions s) (ev_ids e) = None"
        "\<And>r. map_get (sv_by_client s) ?n = Some r \<Longrightarrow> \<not> session_accepts (session_at s r) h"
    | (new) sid where "pick_session_id (sv_sessions s) (ev_ids e) = Some sid"
        "\<And>r. map_get (sv_by_client s) ?n = Some r \<Longrightarrow> \<not> session_accepts (session_at s r) h"
    by (cases "map_get (sv_by_client s) ?n"; cases "pick_session_id (sv_sessions s) (ev_ids e)") auto
  then show ?thesis
  proof cases
    case same
    have "live s r" "?n = client_of (session_at s r)" using indexes_client [OF i same(1)] by auto
    moreover from this have "cr_key (ss_credential (session_at s r)) = cr_key cred"
      using inv c by (auto simp: server_inv_def sessions_ok_def authorized_def)
    ultimately show ?thesis using same inv c by (simp add: get_or_create_session_def Let_def)
  next
    case fail
    then have "\<not> (case map_get (sv_by_client s) ?n of Some r \<Rightarrow> session_accepts (session_at s r) h | None \<Rightarrow> False)"
      by (auto split: option.splits)
    then show ?thesis using fail inv c by (simp add: get_or_create_session_def Let_def)
  next
    case new
    then have na: "\<not> (case map_get (sv_by_client s) ?n of Some r \<Rightarrow> session_accepts (session_at s r) h | None \<Rightarrow> False)"
      by (auto split: option.splits)
    let ?ss = "new_session (sv_config s) cred h sid (ev_clock e 1)"
    define s1 where "s1 = (case map_get (sv_by_client s) ?n of Some r \<Rightarrow> detach_session r (mark_closing r s) | None \<Rightarrow> s)"
    have sid: "sid \<noteq> 0" "map_get (sv_sessions s) sid = None" using pick_session_id_fresh [OF new(1)] by auto
    have s1: "server_inv C s1 \<and> map_get (sv_by_client s1) ?n = None \<and> map_get (sv_sessions s1) sid = None
        \<and> sv_config s1 = sv_config s \<and> sv_credentials s1 = sv_credentials s
        \<and> (\<forall>r. map_get (sv_by_client s) ?n = Some r \<longrightarrow> \<not> live s1 r \<and> r < length (sv_heap s1))"
    proof (cases "map_get (sv_by_client s) ?n")
      case None
      then show ?thesis using inv sid by (simp add: s1_def)
    next
      case (Some r)
      have lr: "live s r" "?n = client_of (session_at s r)" using indexes_client [OF i Some] by auto
      have n: "\<not> live (drop_session r s) r" using live_drop [OF i lr(1)] by simp
      have e1: "s1 = mark_closing r (drop_session r s)" using Some by (simp add: s1_def detach_mark_drop [OF i lr(1)])
      have "server_inv C s1"
        unfolding e1 mark_closing_def using n inv_drop [OF inv lr(1)] by (intro inv_update_session) auto
      then show ?thesis
        using sid n lr(2) Some live_bound [OF i lr(1)] by (simp add: e1 mark_closing_def map_get_del)
    qed
    let ?s2 = "add_session ?ss s1"
    have inv2: "server_inv C ?s2"
      using s1 sid(1) c by (intro add_session_inv new_session_wf) (auto simp: authorized_def)
    let ?r = "length (sv_heap s1)"
    have new_live: "live ?s2 ?r" "session_at ?s2 ?r = ?ss" using s1 by (auto simp: live_add session_at_add)
    define s3 where "s3 = (case map_get (sv_by_client s) ?n of Some old \<Rightarrow> retire_paths old ?s2 | None \<Rightarrow> ?s2)"
    have g: "get_or_create_session e cred h s = (Some ?r, if sv_hook s3 then [ClientSeen ?n] else [], s3)"
      using c na new(1) s1 unfolding s3_def add_session_def new_session_fields
      by (simp add: get_or_create_session_def Let_def s1_def [symmetric] del: One_nat_def)
    have "server_inv C s3 \<and> live s3 ?r \<and> ss_credential (session_at s3 ?r) = cred"
    proof (cases "map_get (sv_by_client s) ?n")
      case None
      then show ?thesis using inv2 new_live by (simp add: s3_def)
    next
      case (Some old)
      then have old: "\<not> live ?s2 old" "old < ?r" using s1 by (auto simp: live_add)
      then show ?thesis
        using Some retire_paths_inv [OF inv2 old(1)] new_live
        by (simp add: s3_def) (simp add: retire_paths_def session_at_update)
    qed
    then show ?thesis by (simp add: g)
  qed
qed

lemma inv_set_next_path_id:
  assumes "server_inv C s" shows "server_inv C (update_session r (\<lambda>ss. ss\<lparr>ss_next_path_id := i\<rparr>) s)"
  using assms session_wf_live [of C s r]
  by (intro inv_update_session) (auto simp: same_identity_def session_wf_def path_ok_def own_packet_def [abs_def])

lemma path_for_nonce_member:
  "path_for_nonce ss n = Some p \<Longrightarrow> \<exists>pid. (pid, p) \<in> set (ss_paths ss) \<and> sp_client_nonce p = n"
  by (auto simp: path_for_nonce_def find_Some_iff) (metis nth_mem)

lemma repeat_welcome_inv:
  assumes "server_inv C s" "good_path C s r p"
  shows "server_inv C (snd (repeat_welcome e remote r p s))"
  using assms unfolding repeat_welcome_def
  by (auto intro!: inv_update_metrics inv_put_path record_write_error_inv)

lemma wire_weight_ok: "w \<noteq> (0 :: u16) \<Longrightarrow> 1 / 128 \<le> fl64 (of_nat (unat w) / 100)"
proof -
  assume "w \<noteq> 0"
  then have "1 \<le> unat w" by (simp add: unat_gt_0 Suc_le_eq)
  then have "(1 :: rat) \<le> of_nat (unat w)" using of_nat_mono [of 1 "unat w"] by simp
  then have "1 / 128 \<le> (of_nat (unat w) / 100 :: rat)" by simp
  then show ?thesis using is_float64_fl [of 7] by (intro fl64_ge_float) auto
qed

lemma parse_hello_weight: "parse_hello C b key now = Inr h \<Longrightarrow> hello_weight h \<noteq> 0"
  by (auto simp: parse_hello_defs Let_def split: if_splits)

lemma new_path_good:
  assumes "0 < pid" "pid < 2 ^ 31" "hello_weight h \<noteq> 0"
    and "cr_key (ss_credential (session_at s r)) = cr_key cred"
  shows "good_path C s r (new_path C cred h w (ss_id (session_at s r)) pid remote t)"
  using assms wire_weight_ok by (simp add: good_path_def path_ok_def new_path_def)

lemma register_path_inv:
  assumes inv: "server_inv C s" and k: "cr_key (ss_credential (session_at s r)) = cr_key cred"
    and h: "hello_weight h \<noteq> 0"
  shows "server_inv C (snd (register_path C e remote cred h r s))"
proof -
  let ?pid = "ss_next_path_id (session_at s r) + 1"
  let ?s = "update_session r (\<lambda>ss. ss\<lparr>ss_next_path_id := ?pid\<rparr>) s"
  have invs: "server_inv C ?s" using inv by (rule inv_set_next_path_id)
  have ks: "cr_key (ss_credential (session_at ?s r)) = cr_key cred" using k by (simp add: session_at_update)
  show ?thesis
  proof (cases "?pid = 0 \<or> 2 ^ 31 \<le> ?pid")
    case True
    then show ?thesis using invs by (simp add: register_path_def Let_def)
  next
    case pid: False
    show ?thesis
    proof (cases "new_welcome (hello_nonce h) (ev_clock e 2) (ev_nonce e)")
      case (Inl a)
      then show ?thesis using pid invs by (simp add: register_path_def Let_def)
    next
      case (Inr w)
      define p where "p = new_path C cred h w (ss_id (session_at ?s r)) ?pid remote (ev_clock e 3)"
      define s1 where "s1 = update_metrics (update_path_metric (sp_metric p) (path_health True)) ?s"
      define s2 where "s2 = update_session r (touch_session (ev_clock e 4)) (update_session r (put_path p) s1)"
      have gp: "good_path C ?s r p"
        unfolding p_def using pid h ks by (intro new_path_good) (auto simp: word_gt_0 not_le)
      have inv1: "server_inv C s1" unfolding s1_def using invs by (intro inv_update_metrics) auto
      have gp1: "good_path C s1 r p" using gp by (simp add: s1_def)
      have inv2: "server_inv C s2" unfolding s2_def using inv1 gp1 by (intro inv_touch inv_put_path)
      have gp2: "good_path C s2 r p" using gp1 by (simp add: s2_def good_path_update)
      obtain gone s3 where rm: "remove_path r p (record_write_error r p s2) = (gone, s3)"
        by (cases "remove_path r p (record_write_error r p s2)")
      have inv3: "server_inv C (if gone then terminate_if_current r s3 else s3)"
        using remove_path_inv [OF record_write_error_inv [OF inv2 gp2] rm] .
      have "server_inv C (update_metrics (update_path_metric (sp_metric p) (path_health False)) s1)"
        using inv1 by (intro inv_update_metrics) auto
      then show ?thesis
        using pid Inr inv2 inv3
        by (simp add: register_path_def Let_def p_def [symmetric] s1_def [symmetric] s2_def [symmetric] rm)
    qed
  qed
qed

lemma cred_lookup:
  "server_inv C s \<Longrightarrow> map_get (sv_credentials s) n = Some cred \<Longrightarrow> n = client_id_string (cr_client_id cred)"
  by (auto simp: server_inv_def cred_table_ok_def)

lemma handle_hello_inv:
  assumes inv: "server_inv C s"
  shows "server_inv C (snd (handle_hello C e remote packet s))"
proof (cases "plain_payload packet")
  case (Inl a)
  then show ?thesis using inv by (auto simp: handle_hello_def intro: inv_update_metrics)
next
  case pl: (Inr payload)
  let ?n = "client_id_string (take 16 payload)"
  show ?thesis
  proof (cases "length payload < 16 \<or> map_get (sv_credentials s) ?n = None")
    case True
    then show ?thesis using inv pl by (auto simp: handle_hello_def intro!: inv_update_metrics)
  next
    case False
    then obtain cred where cred: "map_get (sv_credentials s) ?n = Some cred" "\<not> length payload < 16" by auto
    have c: "map_get (sv_credentials s) (client_id_string (cr_client_id cred)) = Some cred"
      using cred(1) cred_lookup [OF inv cred(1)] by simp
    show ?thesis
    proof (cases "parse_hello C payload (cr_key cred) (ev_clock e 0)")
      case (Inl a)
      then show ?thesis using inv pl cred by (auto simp: handle_hello_def intro: inv_update_metrics)
    next
      case (Inr h)
      obtain r outs s1 where g: "get_or_create_session e cred h s = (r, outs, s1)"
        by (cases "get_or_create_session e cred h s")
      have s1: "server_inv C s1"
        "\<And>q. r = Some q \<Longrightarrow> live s1 q \<and> cr_key (ss_credential (session_at s1 q)) = cr_key cred"
        using get_or_create_session_inv [OF inv c, of e h] by (auto simp: g)
      show ?thesis
      proof (cases r)
        case None
        then show ?thesis using s1 pl cred Inr g by (simp add: handle_hello_def)
      next
        case (Some q)
        have "server_inv C (snd (repeat_welcome e remote q p s1))"
          if "path_for_nonce (session_at s1 q) (hello_nonce h) = Some p" for p
        proof -
          have "\<exists>pid. (pid, p) \<in> set (ss_paths (session_at s1 q))"
            using path_for_nonce_member [OF that] by blast
          then have "good_path C s1 q p" using good_path_in [OF s1(1)] s1(2) [OF Some] by blast
          then show ?thesis by (intro repeat_welcome_inv s1(1))
        qed
        moreover have "server_inv C (snd (register_path C e remote cred h q s1))"
          using s1(2) [OF Some] parse_hello_weight [OF Inr] by (intro register_path_inv s1(1)) auto
        ultimately show ?thesis
          using pl cred Inr g Some
          by (auto simp: handle_hello_def case_prod_beta split: option.splits)
      qed
    qed
  qed
qed

section \<open>Credentials\<close>

lemma terminate_session_facts:
  assumes i: "indexes_ok s" and r: "live s r"
  shows "indexes_ok (terminate_session r s)" and "live (terminate_session r s) q \<longleftrightarrow> live s q \<and> q \<noteq> r"
    and "q \<noteq> r \<Longrightarrow> session_at (terminate_session r s) q = session_at s q"
    and "sv_credentials (terminate_session r s) = sv_credentials s"
    and "sv_by_client (terminate_session r s) = map_del (sv_by_client s) (client_of (session_at s r))"
proof -
  have idx: "indexes_ok (update_session r f t)" if "indexes_ok t" "\<not> live t r" for f t
  proof -
    have e: "session_at (update_session r f t) q = session_at t q" if "live t q" for q
      using that \<open>\<not> live t r\<close> by (auto simp: session_at_update)
    have l: "live t q" if "map_get (sv_sessions t) sid = Some q" for q sid using that by (auto simp: live_def)
    show ?thesis using that(1) unfolding indexes_ok_def by (simp add: e l cong: conj_cong)
  qed
  have im: "indexes_ok (update_metrics f t)" if "indexes_ok t" "\<And>m. mt_active_sessions (f m) = mt_active_sessions m" for f t
    using that unfolding indexes_ok_def by (simp add: update_metrics_def) (simp add: live_def session_at_def)
  have n: "\<not> live (drop_session r s) r" using live_drop [OF i r] by simp
  show "indexes_ok (terminate_session r s)"
    unfolding terminate_session_def retire_paths_def mark_closing_def
    using indexes_ok_drop [OF i r] n by (intro im idx) auto
  show "live (terminate_session r s) q \<longleftrightarrow> live s q \<and> q \<noteq> r"
    by (simp add: terminate_session_def retire_paths_def mark_closing_def live_drop [OF i r])
  show "q \<noteq> r \<Longrightarrow> session_at (terminate_session r s) q = session_at s q"
    by (simp add: terminate_session_def retire_paths_def mark_closing_def session_at_update)
  show "sv_credentials (terminate_session r s) = sv_credentials s"
    "sv_by_client (terminate_session r s) = map_del (sv_by_client s) (client_of (session_at s r))"
    by (simp_all add: terminate_session_def retire_paths_def mark_closing_def)
qed

text \<open>Changing the credentials of one client and ending its session, if it has one, keeps the
  invariant; so does a change after which the client's session is still authorized.\<close>

lemma change_credentials_inv:
  assumes inv: "server_inv C s" and t: "cred_table_ok m"
    and same: "\<And>k. k \<noteq> n \<Longrightarrow> map_get m k = map_get (sv_credentials s) k"
  shows "server_inv C (terminate_client_session n (s\<lparr>sv_credentials := m\<rparr>))"
    and "(\<And>r. map_get (sv_by_client s) n = Some r \<Longrightarrow> authorized m (ss_credential (session_at s r)))
      \<Longrightarrow> server_inv C (s\<lparr>sv_credentials := m\<rparr>)"
proof -
  let ?s = "s\<lparr>sv_credentials := m\<rparr>"
  have i0: "indexes_ok s" using inv by (simp add: server_inv_def)
  have at: "session_at ?s = session_at s" and lv: "live ?s = live s"
    by (simp_all add: session_at_def live_def fun_eq_iff)
  have i: "indexes_ok ?s" using i0 unfolding indexes_ok_def at lv by simp
  have other: "authorized m (ss_credential (session_at s q)) \<and> session_wf C (session_at s q)"
    if "live s q" "client_of (session_at s q) \<noteq> n" for q
    using inv that same by (auto simp: server_inv_def sessions_ok_def authorized_def)
  have cl: "client_of (session_at s q) = n \<Longrightarrow> live s q \<Longrightarrow> map_get (sv_by_client s) n = Some q" for q
    using indexes_live [OF i0] by blast
  show "server_inv C (terminate_client_session n ?s)"
  proof (cases "map_get (sv_by_client s) n")
    case None
    then have "sessions_ok C ?s"
      using other cl by (auto simp: sessions_ok_def at lv)
    then show ?thesis using None i t by (simp add: terminate_client_session_def server_inv_def)
  next
    case (Some r)
    have r: "live ?s r" using indexes_client [OF i0 Some] by (simp add: lv)
    have e: "terminate_client_session n ?s = terminate_session r ?s"
      using Some by (simp add: terminate_eqs(1) [OF i])
    have "client_of (session_at s q) \<noteq> n" if "q \<noteq> r" "live s q" for q
      using cl [OF _ that(2)] Some that(1) by auto
    then have "sessions_ok C (terminate_session r ?s)"
      using other terminate_session_facts(2-4) [OF i r] by (auto simp: sessions_ok_def at lv)
    then show ?thesis
      using terminate_session_facts(1,4) [OF i r] t by (simp add: e server_inv_def)
  qed
  assume a: "\<And>r. map_get (sv_by_client s) n = Some r \<Longrightarrow> authorized m (ss_credential (session_at s r))"
  have "authorized m (ss_credential (session_at s q)) \<and> session_wf C (session_at s q)" if "live s q" for q
    using other [OF that] a [OF cl [OF _ that]] session_wf_live [OF inv that]
    by (cases "client_of (session_at s q) = n") auto
  then have "sessions_ok C ?s" by (simp add: sessions_ok_def at lv)
  then show "server_inv C ?s" using i t by (simp add: server_inv_def)
qed

lemma cred_table_put:
  assumes "cred_table_ok m" "length (cr_client_id c) = 16"
    and "\<And>k d. map_get m k = Some d \<Longrightarrow> k \<noteq> client_id_string (cr_client_id c) \<Longrightarrow>
      cr_tunnel_ip d \<noteq> cr_tunnel_ip c \<and> cr_key d \<noteq> cr_key c"
  shows "cred_table_ok (map_put m (client_id_string (cr_client_id c)) c)"
  using assms unfolding cred_table_ok_def
  by (simp add: map_get_put) metis

lemma cred_table_del: "cred_table_ok m \<Longrightarrow> cred_table_ok (map_del m n)"
  unfolding cred_table_ok_def by (simp add: map_get_del)

lemma authorize_client_inv:
  assumes inv: "server_inv C s" shows "server_inv C (snd (authorize_client L cfg s))"
proof (cases "fst (authorize_client L cfg s)")
  case False
  then have "snd (authorize_client L cfg s) = s"
    by (auto simp: authorize_client_def Let_def split: sum.splits option.splits if_splits)
  then show ?thesis using inv by simp
next
  case True
  then obtain i key p sp where ok: "parse_client_id (cl_client_id cfg) = Inr i" "credential_key L cfg = Inr key"
    "parse_prefix4 (cl_tunnel_address cfg) = Some p" "parse_prefix4 (sc_tunnel_address (sv_config s)) = Some sp"
    "\<not> (\<not> prefix4_contains sp (fst p) \<or> fst p = fst sp)"
    "\<not> list_ex (\<lambda>(other, c). other \<noteq> client_id_string i \<and> (cr_tunnel_ip c = Addr4 (fst p) \<or> cr_key c = key)) (sv_credentials s)"
    by (auto simp: authorize_client_def Let_def split: sum.splits option.splits if_splits)
  let ?n = "client_id_string i"
  let ?c = "\<lparr> cr_name = cl_name cfg, cr_client_id = i, cr_key = key, cr_tunnel_ip = Addr4 (fst p) \<rparr>"
  let ?m = "map_put (sv_credentials s) ?n ?c"
  have t0: "cred_table_ok (sv_credentials s)" using inv by (simp add: server_inv_def)
  have "cr_tunnel_ip d \<noteq> cr_tunnel_ip ?c \<and> cr_key d \<noteq> cr_key ?c"
    if "map_get (sv_credentials s) k = Some d" "k \<noteq> ?n" for k d
    using ok(6) map_of_SomeD [OF that(1)] that(2) by (auto simp: list_ex_iff)
  then have t: "cred_table_ok ?m"
    using cred_table_put [OF t0, of ?c] parse_client_id_length [OF ok(1)] by simp
  have same: "k \<noteq> ?n \<Longrightarrow> map_get ?m k = map_get (sv_credentials s) k" for k by (simp add: map_get_put)
  note ch = change_credentials_inv [OF inv t same]
  show ?thesis
  proof (cases "map_get (sv_credentials s) ?n")
    case None
    have "map_get (sv_by_client s) ?n = Some r \<Longrightarrow> authorized ?m (ss_credential (session_at s r))" for r
      using inv None indexes_client [of s ?n r] by (auto simp: server_inv_def sessions_ok_def authorized_def)
    then show ?thesis using ok None ch(2) by (simp add: authorize_client_def Let_def)
  next
    case (Some prev)
    show ?thesis
    proof (cases "cr_key prev \<noteq> key \<or> cr_tunnel_ip prev \<noteq> Addr4 (fst p)")
      case True
      then show ?thesis using ok Some ch(1) by (simp add: authorize_client_def Let_def)
    next
      case False
      have "map_get (sv_by_client s) ?n = Some r \<Longrightarrow> authorized ?m (ss_credential (session_at s r))" for r
        using inv Some False indexes_client [of s ?n r]
        by (auto simp: server_inv_def sessions_ok_def authorized_def map_get_put)
      then show ?thesis using ok Some False ch(2) by (simp add: authorize_client_def Let_def)
    qed
  qed
qed

lemma revoke_client_inv:
  assumes inv: "server_inv C s" shows "server_inv C (revoke_client cid s)"
proof (cases "parse_client_id cid")
  case (Inr i)
  have "cred_table_ok (map_del (sv_credentials s) (client_id_string i))"
    using inv by (intro cred_table_del) (simp add: server_inv_def)
  then show ?thesis
    using change_credentials_inv(1) [OF inv] by (simp add: revoke_client_def Inr Let_def map_get_del)
qed (use inv in \<open>simp add: revoke_client_def\<close>)

section \<open>Every step\<close>

lemma server_step_inv: "server_inv C s \<Longrightarrow> server_inv C (snd (server_step C L e s ev))"
proof (cases ev)
  case (Datagram remote packet)
  assume "server_inv C s"
  then show ?thesis
    using handle_hello_inv handle_encrypted_inv
    by (auto simp: Datagram receive_datagram_def intro: inv_update_metrics split: sum.splits)
next
  case (SetHook b)
  assume "server_inv C s"
  moreover have "session_at (s\<lparr>sv_hook := b\<rparr>) = session_at s" "live (s\<lparr>sv_hook := b\<rparr>) = live s"
    by (simp_all add: session_at_def live_def fun_eq_iff)
  ultimately show ?thesis
    by (simp add: SetHook set_client_seen_hook_def server_inv_def indexes_ok_def sessions_ok_def)
qed (simp_all add: authorize_client_inv revoke_client_inv tun_packet_inv reorder_tick_def flush_sessions_inv janitor_tick_inv)

lemma empty_server_inv: "mt_active_sessions m = 0 \<Longrightarrow> server_inv C (empty_server c m)"
  by (simp add: empty_server_def server_inv_def cred_table_ok_def indexes_ok_def sessions_ok_def live_def)

lemma reachable_inv: "reachable C L c s \<Longrightarrow> server_inv C s"
proof (induction rule: reachable.induct)
  case (start m)
  then show ?case by (rule empty_server_inv)
next
  case (step s e ev outs s')
  from server_step_inv [OF step.IH, of L e ev] step.hyps(2) show ?case by simp
qed

end
