(* ===== verification/Server_Path.thy ===== *)
theory Server_Path
  imports Server_Inv
begin

text \<open>
  How one registered path of a relay session changes over time: no step forgets a packet number the
  path has taken, and each step advances the path's own packet number by at most one. From this follow
  that replayed datagrams stay rejected and that no packet number is used twice under a path's key.
\<close>

section \<open>One path of one session object\<close>

definition path_at :: "server \<Rightarrow> sref \<Rightarrow> u32 \<Rightarrow> server_path option" where
  "path_at s r pid = (if r < length (sv_heap s) then map_get (ss_paths (session_at s r)) pid else None)"

text \<open>\<open>path_evolves k p q\<close>: \<open>q\<close> is \<open>p\<close> after taking some packets and sending \<open>k\<close>.\<close>

definition path_evolves :: "nat \<Rightarrow> server_path \<Rightarrow> server_path \<Rightarrow> bool" where
  "path_evolves k p q \<longleftrightarrow>
     sp_id q = sp_id p \<and> sp_session_id q = sp_session_id p \<and> sp_client_nonce q = sp_client_nonce p
     \<and> sp_server_nonce q = sp_server_nonce p \<and> sp_aead q = sp_aead p \<and> sp_welcome_packet q = sp_welcome_packet p
     \<and> sp_sequence q = sp_sequence p + of_nat k
     \<and> (\<exists>taken. sp_replay q = snd (accept_all (sp_replay p) taken))"

lemma accept_all_append: "snd (accept_all w (xs @ ys)) = snd (accept_all (snd (accept_all w xs)) ys)"
  by (induction xs arbitrary: w) (auto simp: case_prod_beta Let_def)

lemma evolves_refl [simp, intro]: "path_evolves 0 p p"
  by (auto simp: path_evolves_def intro: exI [of _ "[]"])

lemma evolves_trans: "path_evolves j p q \<Longrightarrow> path_evolves k q t \<Longrightarrow> path_evolves (j + k) p t"
  unfolding path_evolves_def by (clarsimp simp: accept_all_append [symmetric]) blast

lemma evolves_simps [simp]:
  "path_evolves k p (q\<lparr>sp_healthy := b\<rparr>) = path_evolves k p q" "path_evolves k (p\<lparr>sp_healthy := b\<rparr>) q = path_evolves k p q"
  by (simp_all add: path_evolves_def)

lemma evolves_send: "path_evolves (Suc 0) p (p\<lparr>sp_sequence := sp_sequence p + 1\<rparr>)"
  by (auto simp: path_evolves_def intro: exI [of _ "[]"])

lemma evolves_seen: "accept (sp_replay p) q = (ok, w) \<Longrightarrow> path_evolves 0 p (seen_path remote now w p)"
  by (auto simp: path_evolves_def seen_path_def intro!: exI [of _ "[q]"])

section \<open>Steps that register no path\<close>

definition keeps :: "nat \<Rightarrow> sref \<Rightarrow> server \<Rightarrow> server \<Rightarrow> bool" where
  "keeps k r s t \<longleftrightarrow>
     (\<forall>pid q. path_at t r pid = Some q \<longrightarrow> (\<exists>p j. path_at s r pid = Some p \<and> j \<le> k \<and> path_evolves j p q))"

lemma keeps_trans:
  assumes "keeps j r s t" "keeps k r t u" shows "keeps (j + k) r s u"
  unfolding keeps_def
proof (intro allI impI)
  fix pid q assume "path_at u r pid = Some q"
  then obtain p i where p: "path_at t r pid = Some p" "i \<le> k" "path_evolves i p q"
    using assms(2) unfolding keeps_def by blast
  then obtain p' i' where "path_at s r pid = Some p'" "i' \<le> j" "path_evolves i' p' p"
    using assms(1) unfolding keeps_def by blast
  then show "\<exists>p j'. path_at s r pid = Some p \<and> j' \<le> j + k \<and> path_evolves j' p q"
    using p evolves_trans by (meson add_mono)
qed

lemma keeps_weaken: "keeps j r s t \<Longrightarrow> j \<le> k \<Longrightarrow> keeps k r s t"
  unfolding keeps_def by (meson le_trans)

lemma keeps_0_trans: "keeps 0 r s t \<Longrightarrow> keeps k r t u \<Longrightarrow> keeps k r s u"
  using keeps_trans [of 0 r s t k u] by simp

lemma keeps_then_0: "keeps k r s t \<Longrightarrow> keeps 0 r t u \<Longrightarrow> keeps k r s u"
  using keeps_trans [of k r s t 0 u] by simp

lemma path_at_metrics [simp]: "path_at (update_metrics f s) = path_at s"
  by (simp add: path_at_def fun_eq_iff)

lemma keeps_same: "path_at t r = path_at s r \<Longrightarrow> keeps k r s t"
  unfolding keeps_def by (metis evolves_refl le0)

lemma keeps_refl [simp, intro]: "keeps k r s s"
  by (rule keeps_same) simp

lemma keeps_metrics_iff [simp]:
  "keeps k r s (update_metrics f t) = keeps k r s t" "keeps k r (update_metrics f s) t = keeps k r s t"
  by (simp_all add: keeps_def)

lemma path_at_update:
  "path_at (update_session q f s) r pid =
     (if q = r \<and> r < length (sv_heap s) then map_get (ss_paths (f (session_at s r))) pid else path_at s r pid)"
  by (auto simp: path_at_def session_at_update)

lemma keeps_update:
  assumes "\<And>ss. ss_paths (f ss) = ss_paths ss" shows "keeps k r s (update_session q f s)"
  by (rule keeps_same) (simp add: fun_eq_iff path_at_def session_at_update assms)

lemma keeps_put:
  assumes "path_at s q (sp_id p) = Some p0" "path_evolves j p0 p" "j \<le> k"
  shows "keeps k r s (update_session q (put_path p) s)"
proof -
  have b: "q < length (sv_heap s)" using assms(1) by (auto simp: path_at_def split: if_splits)
  have "\<exists>p1 i. path_at s r pid = Some p1 \<and> i \<le> k \<and> path_evolves i p1 x"
    if x: "path_at (update_session q (put_path p) s) r pid = Some x" for pid x
  proof (cases "q = r \<and> pid = sp_id p")
    case True
    then have "x = p" using x b by (simp add: path_at_update put_path_def map_get_put)
    then show ?thesis using True assms by blast
  next
    case False
    then have "path_at s r pid = Some x"
      using x by (auto simp: session_at_update put_path_def map_get_put path_at_def split: if_splits)
    then show ?thesis using evolves_refl by blast
  qed
  then show ?thesis unfolding keeps_def by blast
qed

lemma path_at_put: "q < length (sv_heap s) \<Longrightarrow> path_at (update_session q (put_path p) s) q (sp_id p) = Some p"
  by (simp add: path_at_update put_path_def map_get_put)

lemma path_at_bound: "path_at s r pid = Some p \<Longrightarrow> r < length (sv_heap s)"
  by (auto simp: path_at_def split: if_splits)

lemma keeps_sublist:
  assumes "\<And>ss pid q. map_get (ss_paths (f ss)) pid = Some q \<Longrightarrow>
      \<exists>p. map_get (ss_paths ss) pid = Some p \<and> path_evolves 0 p q"
  shows "keeps k r s (update_session x f s)"
  unfolding keeps_def
proof (intro allI impI)
  fix pid q assume a: "path_at (update_session x f s) r pid = Some q"
  show "\<exists>p j. path_at s r pid = Some p \<and> j \<le> k \<and> path_evolves j p q"
  proof (cases "x = r \<and> r < length (sv_heap s)")
    case True
    then obtain p where "path_at s r pid = Some p" "path_evolves 0 p q"
      using a assms [of "session_at s r" pid q] by (auto simp: path_at_def session_at_update)
    then show ?thesis by blast
  next
    case False
    then show ?thesis using a by (force simp: path_at_update)
  qed
qed

lemma keeps_record_error:
  "path_at s q (sp_id p) = Some p \<Longrightarrow> keeps k r s (record_write_error q p s)"
  unfolding record_write_error_def by (simp, rule keeps_put [of _ _ _ p 0]) auto

section \<open>The operations\<close>

lemma keeps_mark_detach [simp]: "keeps k r s (mark_closing q s)" "keeps k r s (detach_session q s)"
proof -
  show "keeps k r s (mark_closing q s)" unfolding mark_closing_def by (rule keeps_update) simp
  show "keeps k r s (detach_session q s)"
    by (rule keeps_same) (auto simp: detach_session_def Let_def path_at_def session_at_def fun_eq_iff)
qed

lemma map_get_map: "map_get (map (\<lambda>(i, p). (i, f i p)) m) k = map_option (f k) (map_get m k)"
  by (induction m) auto

lemma keeps_retire [simp]: "keeps k r s (retire_paths q s)"
  unfolding retire_paths_def
  by (simp, rule keeps_sublist) (auto simp: map_get_map)

lemma keeps_terminate_current [simp]: "keeps k r s (terminate_if_current q s)"
proof -
  have "keeps k r s (detach_session q (mark_closing q s))"
    by (rule keeps_then_0 [OF keeps_mark_detach(1) keeps_mark_detach(2)])
  then show ?thesis
    using keeps_then_0 [OF _ keeps_retire] by (auto simp: terminate_if_current_def)
qed

lemma keeps_terminate_client [simp]: "keeps k r s (terminate_client_session n s)"
proof -
  have "keeps k r s (detach_session q (mark_closing q s))" for q
    by (rule keeps_then_0 [OF keeps_mark_detach(1) keeps_mark_detach(2)])
  then show ?thesis
    using keeps_then_0 [OF _ keeps_retire] by (auto simp: terminate_client_session_def split: option.splits)
qed

lemma map_get_del_Some: "map_get (map_del m i) k = Some v \<Longrightarrow> map_get m k = Some v"
  by (simp add: map_get_del split: if_splits)

lemma keeps_remove_path [simp]: "keeps k r s (snd (remove_path q p s))"
proof -
  let ?paths = "map_del (ss_paths (session_at s q)) (sp_id p)"
  have "map_get ?paths pid = Some x \<Longrightarrow> map_get (ss_paths (session_at s q)) pid = Some x" for pid x
    by (rule map_get_del_Some)
  then have "keeps k r s (update_session q (\<lambda>ss. ss\<lparr>ss_paths := ?paths, ss_closing := c ss\<rparr>) s)" for c
    unfolding keeps_def
    by (auto simp: path_at_def session_at_update split: if_splits)
  then show ?thesis by (simp add: remove_path_def Let_def)
qed

lemma keeps_remove_end:
  "remove_path q p s = (gone, t) \<Longrightarrow> keeps k r s (if gone then terminate_if_current q t else t)"
  using keeps_remove_path [of k r s q p] keeps_then_0 [OF _ keeps_terminate_current] by auto

lemma keeps_expire_paths:
  assumes u: "keys_unique (ss_paths (session_at s q))"
  shows "keeps k r s (expire_paths now q s)"
proof -
  let ?ps = "ss_paths (session_at s q)"
  let ?m = "map (\<lambda>(i, p). (i, if path_stale now (sp_health_timeout p) p then p\<lparr>sp_healthy := False\<rparr> else p)) ?ps"
  let ?f = "filter (\<lambda>(_, p). \<not> path_stale now minute p) ?m"
  have "\<exists>p. map_get ?ps pid = Some p \<and> path_evolves 0 p x" if "map_get ?f pid = Some x" for pid x
  proof -
    have "(pid, x) \<in> set ?m" using map_of_SomeD [OF that] by auto
    then obtain p where "(pid, p) \<in> set ?ps" "path_evolves 0 p x" by auto
    then show ?thesis using map_get_mem [OF u] by blast
  qed
  then have "keeps k r s (update_session q (\<lambda>ss. ss\<lparr>ss_paths := ?f\<rparr>) s)"
    unfolding keeps_def by (auto simp: path_at_def session_at_update split: if_splits) (meson evolves_refl le0)+
  then show ?thesis by (simp add: expire_paths_def Let_def)
qed

lemma path_at_drop [simp]: "path_at (drop_session q s) = path_at s"
  by (simp add: path_at_def fun_eq_iff)

lemma keeps_expire_session:
  assumes inv: "server_inv C s" and q: "map_get (sv_sessions s) sid = Some q"
  shows "keeps k r s (expire_session now s (sid, q))"
proof -
  have i: "indexes_ok s" and "live s q" using inv q by (auto simp: server_inv_def live_def)
  then have "keys_unique (ss_paths (session_at s q))" using session_wf_live [OF inv] by (simp add: session_wf_def)
  then have "keeps k r s (expire_paths now q s)" by (rule keeps_expire_paths)
  then show ?thesis by (simp add: expire_session_eq [OF i q] Let_def keeps_def)
qed

lemma keeps_expire_sessions:
  assumes "server_inv C s" "distinct (map fst es)" "\<forall>(sid, q) \<in> set es. map_get (sv_sessions s) sid = Some q"
  shows "keeps 0 r s (foldl (expire_session now) s es)"
  using assms
proof (induction es arbitrary: s)
  case (Cons entry es)
  obtain sid q where e: "entry = (sid, q)" by (cases entry)
  have q: "map_get (sv_sessions s) sid = Some q" using Cons.prems(3) by (simp add: e)
  let ?t = "expire_session now s (sid, q)"
  have "\<forall>(sid', q') \<in> set es. map_get (sv_sessions ?t) sid' = Some q'"
    using Cons.prems(2,3) expire_session_inv(2) [OF Cons.prems(1) q] by (fastforce simp: e)
  then have "keeps 0 r ?t (foldl (expire_session now) ?t es)"
    using Cons.prems(2) expire_session_inv(1) [OF Cons.prems(1) q] by (intro Cons.IH) auto
  then show ?case using keeps_0_trans [OF keeps_expire_session [OF Cons.prems(1) q]] by (simp add: e)
qed simp

lemma path_at_deliver [simp]: "path_at (snd (deliver e q res s)) = path_at s"
proof -
  obtain f where "snd (deliver e q res s) = update_metrics f (if 0 < res_skipped res then update_metrics (count_skips (res_skipped res)) s else s)"
    using write_packets_metrics [of "ev_tun_ok e q" 0 "res_packets res"] unfolding deliver_def by blast
  then show ?thesis by simp
qed

lemma keeps_flush: "keeps 0 r s (snd (flush_sessions e now qs s))"
proof (induction qs arbitrary: s)
  case (Cons q qs)
  obtain res b where f: "flush_expired (ss_reorder (session_at s q)) now (ev_clock e q) = (res, b)"
    by (cases "flush_expired (ss_reorder (session_at s q)) now (ev_clock e q)")
  have "keeps 0 r s (update_session q (\<lambda>ss. ss\<lparr>ss_reorder := b\<rparr>) s)" by (rule keeps_update) simp
  then have "keeps 0 r s (snd (deliver e q res (update_session q (\<lambda>ss. ss\<lparr>ss_reorder := b\<rparr>) s)))"
    by (simp add: keeps_def)
  from keeps_0_trans [OF this Cons.IH] show ?case by (simp add: f case_prod_beta)
qed simp

section \<open>Sending and receiving\<close>

lemma keeps_send_or_record:
  assumes p: "path_at s q (sp_id p) = Some p"
  shows "keeps (Suc 0) r s (snd (snd (send_or_record C e q p t payload s)))"
proof -
  let ?p = "p\<lparr>sp_sequence := sp_sequence p + 1\<rparr>"
  let ?s = "update_session q (put_path ?p) s"
  have put: "keeps (Suc 0) r s ?s" by (rule keeps_put [of _ _ _ p "Suc 0"]) (simp_all add: p evolves_send)
  have "path_at ?s q (sp_id ?p) = Some ?p" by (rule path_at_put) (rule path_at_bound [OF p])
  from keeps_then_0 [OF put keeps_record_error [OF this]]
  have err: "keeps (Suc 0) r s (record_write_error q ?p ?s)" .
  show ?thesis
    using put err unfolding send_or_record_def send_path_def Let_def by (auto split: sum.splits option.splits)
qed

lemma keeps_handle_payload:
  assumes p: "path_at s q (sp_id p) = Some p"
  shows "keeps (Suc 0) r s (snd (handle_payload C e q p t payload s))"
proof -
  have "keeps (Suc 0) r s (snd (deliver e q res (update_session q (\<lambda>ss. ss\<lparr>ss_reorder := b\<rparr>) s)))" for res b
    using keeps_update [of "\<lambda>ss. ss\<lparr>ss_reorder := b\<rparr>" "Suc 0" r s q] by (simp add: keeps_def)
  then show ?thesis
    using keeps_send_or_record [OF p] keeps_remove_end [of q p s]
    unfolding handle_payload_def Let_def by (auto split: sum.splits prod.splits if_splits)
qed

lemma keeps_handle_encrypted:
  assumes inv: "server_inv C s"
  shows "keeps (Suc 0) r s (snd (handle_encrypted C e remote h packet s))"
proof (cases "map_get (sv_sessions s) (h_session h)")
  case q: (Some q)
  then have lv: "live s q" by (auto simp: live_def)
  have b: "q < length (sv_heap s)" using inv lv by (simp add: server_inv_def live_bound)
  show ?thesis
  proof (cases "map_get (ss_paths (session_at s q)) (h_path h)")
    case p: (Some p)
    have pid: "sp_id p = h_path h" using good_path_member [OF inv lv p] by blast
    show ?thesis
    proof (cases "open_packet C (sp_aead p) h ClientToServer packet")
      case (Inr payload)
      obtain new w where w: "accept (sp_replay p) (h_seq h) = (new, w)" by (cases "accept (sp_replay p) (h_seq h)")
      let ?p1 = "seen_path remote (ev_clock e 0) w p"
      let ?s1 = "update_session q (put_path ?p1) s"
      let ?s2 = "update_session q (touch_session (ev_clock e 1)) ?s1"
      have id1: "sp_id ?p1 = sp_id p" by (simp add: seen_path_def)
      have k1: "keeps 0 r s ?s1"
        by (rule keeps_put [of _ _ _ p 0]) (simp_all add: id1 pid path_at_def b p evolves_seen [OF w])
      have k2: "keeps 0 r ?s1 ?s2" by (rule keeps_update) (simp add: touch_session_def)
      let ?s3 = "update_metrics (update_path_metric (sp_metric p) (\<lambda>m. path_received (length payload) (path_health True m))) ?s2"
      have at: "path_at ?s3 q (sp_id ?p1) = Some ?p1"
        using path_at_put [OF b, of ?p1] by (simp add: path_at_def session_at_update touch_session_def b)
      have "keeps 0 r s ?s3" using keeps_0_trans [OF k1 k2] by simp
      from keeps_0_trans [OF this keeps_handle_payload [OF at]]
      show ?thesis using q p Inr w by (auto simp: handle_encrypted_def Let_def)
    qed (simp add: handle_encrypted_def q p)
  qed (simp add: handle_encrypted_def q)
qed (simp add: handle_encrypted_def)

lemma keeps_tun_packet:
  assumes inv: "server_inv C s"
  shows "keeps (Suc 0) r s (snd (tun_packet C e packet s))"
proof (cases "destination_ip packet")
  case ip: (Some ip)
  show ?thesis
  proof (cases "map_get (sv_by_ip s) ip")
    case q: (Some q)
    have i: "indexes_ok s" using inv by (simp add: server_inv_def)
    have lv: "live s q" using indexes_ip [OF i q] by blast
    have b: "q < length (sv_heap s)" using live_bound [OF i lv] .
    obtain sel ss where n: "next_path (ev_order e) (ev_clock e 0) (session_at s q) = (sel, ss)"
      by (cases "next_path (ev_order e) (ev_clock e 0) (session_at s q)")
    have ps: "ss_paths ss = ss_paths (session_at s q)"
      using arg_cong [OF next_path_session [of "ev_order e" "ev_clock e 0" "session_at s q"], of ss_paths] by (simp add: n)
    let ?s1 = "update_session q (\<lambda>_. ss) s"
    have at1: "path_at ?s1 = path_at s"
      by (simp add: fun_eq_iff path_at_def session_at_update ps)
    show ?thesis
    proof (cases sel)
      case None
      then show ?thesis using ip q n keeps_same [of ?s1 r s "Suc 0"] at1 by (simp add: tun_packet_def)
    next
      case (Some p)
      let ?s2 = "update_session q (\<lambda>ss. ss\<lparr>ss_data_seq := ss_data_seq (session_at ?s1 q) + 1\<rparr>) ?s1"
      have at2: "path_at ?s2 = path_at s" unfolding at1 [symmetric] by (simp add: fun_eq_iff path_at_def session_at_update)
      have p: "path_at ?s2 q (sp_id p) = Some p"
        using next_path_selected [OF session_wf_live [OF inv lv], of "ev_order e" "ev_clock e 0" p ss] n Some b
        by (simp add: at2) (simp add: path_at_def)
      have k2: "keeps (Suc 0) r s (update_metrics f ?s2)" for f using keeps_same [of ?s2 r s "Suc 0"] at2 by simp
      have kk: "keeps (Suc 0) r s s3" if "send_or_record C e q p t pl ?s2 = (ok, outs, s3)" for t pl ok outs s3
        using keeps_send_or_record [OF p, of r C e t pl] that keeps_same [of ?s2 r s 0] at2 keeps_0_trans by fastforce
      show ?thesis
        using ip q n Some k2 by (auto simp: tun_packet_def Let_def split: sum.splits prod.splits intro: kk)
    qed
  qed (simp add: tun_packet_def ip)
qed (simp add: tun_packet_def)

section \<open>Registering a path\<close>

text \<open>A HELLO may add a path, with an unused client nonce, nothing sent yet, a window that
  started empty and a recorded WELCOME.\<close>

definition welcome_shape :: "bytes \<Rightarrow> bool" where
  "welcome_shape b \<longleftrightarrow> (\<forall>h. parse_header b = Inr h \<longrightarrow> h_type h = TypeWelcome)"

definition new_on :: "server \<Rightarrow> sref \<Rightarrow> server_path \<Rightarrow> bool" where
  "new_on s r q \<longleftrightarrow>
     (\<forall>pid p. path_at s r pid = Some p \<longrightarrow> sp_client_nonce p \<noteq> sp_client_nonce q)
     \<and> (\<exists>taken. sp_replay q = snd (accept_all new_replay_window taken)) \<and> sp_sequence q = 0
     \<and> welcome_shape (sp_welcome_packet q)"

definition keeps_or_new :: "nat \<Rightarrow> sref \<Rightarrow> server \<Rightarrow> server \<Rightarrow> bool" where
  "keeps_or_new k r s t \<longleftrightarrow>
     (\<forall>pid q. path_at t r pid = Some q \<longrightarrow>
        (\<exists>p j. path_at s r pid = Some p \<and> j \<le> k \<and> path_evolves j p q) \<or> new_on s r q)"

lemma keeps_imp_or_new: "keeps k r s t \<Longrightarrow> keeps_or_new k r s t"
  unfolding keeps_def keeps_or_new_def by blast

lemma keeps_or_new_metrics [simp]: "keeps_or_new k r s (update_metrics f t) = keeps_or_new k r s t"
  by (simp add: keeps_or_new_def)

text \<open>Steps before and after the registration.\<close>

lemma keeps_before_new:
  assumes "keeps 0 r s t" "keeps_or_new k r t u" and same: "\<And>n. (\<exists>pid p. path_at s r pid = Some p \<and> sp_client_nonce p = n)
      \<Longrightarrow> \<exists>pid p. path_at t r pid = Some p \<and> sp_client_nonce p = n"
  shows "keeps_or_new k r s u"
  unfolding keeps_or_new_def
proof (intro allI impI)
  fix pid q assume "path_at u r pid = Some q"
  then consider p j where "path_at t r pid = Some p" "j \<le> k" "path_evolves j p q" | "new_on t r q"
    using assms(2) unfolding keeps_or_new_def by blast
  then show "(\<exists>p j. path_at s r pid = Some p \<and> j \<le> k \<and> path_evolves j p q) \<or> new_on s r q"
  proof cases
    case 1
    then obtain p' where "path_at s r pid = Some p'" "path_evolves 0 p' p" using assms(1) unfolding keeps_def by blast
    then show ?thesis using 1 evolves_trans [of 0 p' p j q] by auto
  next
    case 2
    then show ?thesis using same unfolding new_on_def by metis
  qed
qed

lemma keeps_new_put:
  assumes n: "new_on s q p" and b: "q < length (sv_heap s)"
  shows "keeps_or_new 0 r s (update_session q (put_path p) s)"
  unfolding keeps_or_new_def
proof (intro allI impI)
  fix pid x assume x: "path_at (update_session q (put_path p) s) r pid = Some x"
  show "(\<exists>p j. path_at s r pid = Some p \<and> j \<le> 0 \<and> path_evolves j p x) \<or> new_on s r x"
  proof (cases "q = r \<and> pid = sp_id p")
    case True
    then have "x = p" using x b by (simp add: path_at_update put_path_def map_get_put)
    then show ?thesis using True n by blast
  next
    case False
    then have "path_at s r pid = Some x"
      using x by (auto simp: session_at_update put_path_def map_get_put path_at_def split: if_splits)
    then show ?thesis by blast
  qed
qed

lemma new_then_keeps:
  assumes "keeps_or_new k r s t" "keeps 0 r t u" shows "keeps_or_new k r s u"
  unfolding keeps_or_new_def
proof (intro allI impI)
  fix pid q assume "path_at u r pid = Some q"
  then obtain p where p: "path_at t r pid = Some p" "path_evolves 0 p q" using assms(2) unfolding keeps_def by blast
  have "(\<exists>p' j. path_at s r pid = Some p' \<and> j \<le> k \<and> path_evolves j p' p) \<or> new_on s r p"
    using assms(1) p(1) unfolding keeps_or_new_def by blast
  then show "(\<exists>p j. path_at s r pid = Some p \<and> j \<le> k \<and> path_evolves j p q) \<or> new_on s r q"
  proof
    assume "\<exists>p' j. path_at s r pid = Some p' \<and> j \<le> k \<and> path_evolves j p' p"
    then show ?thesis using evolves_trans [OF _ p(2)] by fastforce
  next
    assume n: "new_on s r p"
    obtain w where "sp_replay p = snd (accept_all new_replay_window w)" using n by (auto simp: new_on_def)
    moreover obtain v where "sp_replay q = snd (accept_all (sp_replay p) v)" using p(2) by (auto simp: path_evolves_def)
    ultimately have "sp_replay q = snd (accept_all new_replay_window (w @ v))" by (simp add: accept_all_append)
    then have "new_on s r q" using n p(2) by (auto simp: new_on_def path_evolves_def)
    then show ?thesis by blast
  qed
qed

text \<open>The client nonces on a session's paths.\<close>

definition nonces_at :: "server \<Rightarrow> sref \<Rightarrow> bytes set" where
  "nonces_at s r = {n. \<exists>pid p. path_at s r pid = Some p \<and> sp_client_nonce p = n}"

lemma new_path_fields [simp]:
  "sp_client_nonce (new_path C cred h w sid pid remote now) = hello_nonce h"
  "sp_replay (new_path C cred h w sid pid remote now) = new_replay_window"
  "sp_sequence (new_path C cred h w sid pid remote now) = 0"
  "sp_id (new_path C cred h w sid pid remote now) = pid"
  by (simp_all add: new_path_def)

lemma welcome_shape_new: "welcome_shape (sp_welcome_packet (new_path C cred h w sid pid remote now))"
  by (auto simp: welcome_shape_def new_path_def marshal_plain_def welcome_header_def parse_header_def [of "[]"]
      split: if_splits)

lemma new_on_new_path:
  assumes "hello_nonce h \<notin> nonces_at s r" shows "new_on s r (new_path C cred h w sid pid remote now)"
  using assms welcome_shape_new by (auto simp: new_on_def nonces_at_def intro: exI [of _ "[]"])

lemma keeps_register_path:
  assumes n: "hello_nonce h \<notin> nonces_at s q" and b: "q < length (sv_heap s)"
  shows "keeps_or_new 0 r s (snd (register_path C e remote cred h q s))"
proof -
  let ?pid = "ss_next_path_id (session_at s q) + 1"
  let ?s = "update_session q (\<lambda>ss. ss\<lparr>ss_next_path_id := ?pid\<rparr>) s"
  have at: "path_at ?s = path_at s" by (simp add: fun_eq_iff path_at_def session_at_update)
  have k0: "keeps_or_new 0 r s ?s" by (rule keeps_imp_or_new, rule keeps_same) (simp add: at)
  show ?thesis
  proof (cases "(?pid = 0 \<or> 2 ^ 31 \<le> ?pid) \<or> (\<exists>x. new_welcome (hello_nonce h) (ev_clock e 2) (ev_nonce e) = Inl x)")
    case True
    then show ?thesis using k0 by (auto simp: register_path_def Let_def)
  next
    case False
    then have pid: "\<not> (?pid = 0 \<or> 2 ^ 31 \<le> ?pid)" by blast
    obtain w where w: "new_welcome (hello_nonce h) (ev_clock e 2) (ev_nonce e) = Inr w"
      using False by (cases "new_welcome (hello_nonce h) (ev_clock e 2) (ev_nonce e)") auto
    define p where "p = new_path C cred h w (ss_id (session_at ?s q)) ?pid remote (ev_clock e 3)"
    define s1 where "s1 = update_metrics (update_path_metric (sp_metric p) (path_health True)) ?s"
    define s2 where "s2 = update_session q (touch_session (ev_clock e 4)) (update_session q (put_path p) s1)"
    have at1: "path_at s1 = path_at s" by (simp add: s1_def at)
    have b1: "q < length (sv_heap s1)" by (simp add: s1_def b)
    have "new_on s1 q p" unfolding p_def using new_on_new_path [OF n] by (simp add: new_on_def at1)
    from keeps_new_put [OF this b1] have "keeps_or_new 0 r s (update_session q (put_path p) s1)"
      by (simp add: keeps_or_new_def new_on_def at1)
    then have k2: "keeps_or_new 0 r s s2"
      unfolding s2_def by (rule new_then_keeps) (rule keeps_update, simp add: touch_session_def)
    have at2: "path_at s2 q (sp_id p) = Some p"
      using path_at_put [OF b1, of p] by (simp add: s2_def path_at_def session_at_update touch_session_def b1)
    obtain gone s3 where rm: "remove_path q p (record_write_error q p s2) = (gone, s3)"
      by (cases "remove_path q p (record_write_error q p s2)")
    have k3: "keeps_or_new 0 r s (if gone then terminate_if_current q s3 else s3)"
      using new_then_keeps [OF new_then_keeps [OF k2 keeps_record_error [OF at2]] keeps_remove_end [OF rm]] .
    have "keeps_or_new 0 r s s1" using k0 by (simp add: s1_def)
    then show ?thesis
      using pid w k2 k3 by (auto simp: register_path_def Let_def p_def [symmetric] s1_def [symmetric] s2_def [symmetric] rm)
  qed
qed

lemma keeps_repeat_welcome:
  assumes "path_at s q (sp_id p) = Some p"
  shows "keeps 0 r s (snd (repeat_welcome e remote q p s))"
  using keeps_record_error [OF assms] keeps_put [of s q "p\<lparr>sp_healthy := True\<rparr>" p 0 0 r] assms
  unfolding repeat_welcome_def by auto

lemma nonces_at_same: "path_at t r = path_at s r \<Longrightarrow> nonces_at t r = nonces_at s r"
  by (simp add: nonces_at_def)

lemma path_at_retire:
  "path_at (retire_paths q s) r pid = map_option (\<lambda>p. if q = r then p\<lparr>sp_healthy := False\<rparr> else p) (path_at s r pid)"
  by (simp add: retire_paths_def path_at_update map_get_map) (simp add: path_at_def option.map_id0 [unfolded id_def])

lemma nonces_retire [simp]: "nonces_at (retire_paths q s) r = nonces_at s r"
proof -
  have "(\<exists>p. path_at (retire_paths q s) r pid = Some p \<and> sp_client_nonce p = n)
      \<longleftrightarrow> (\<exists>p. path_at s r pid = Some p \<and> sp_client_nonce p = n)" for pid n
    by (cases "path_at s r pid") (auto simp: path_at_retire)
  then show ?thesis by (simp add: nonces_at_def)
qed

lemma path_at_mark_detach [simp]: "path_at (mark_closing q s) = path_at s" "path_at (detach_session q s) = path_at s"
proof -
  show "path_at (mark_closing q s) = path_at s"
    by (simp add: mark_closing_def fun_eq_iff path_at_update) (simp add: path_at_def)
  show "path_at (detach_session q s) = path_at s"
    by (simp add: fun_eq_iff path_at_def detach_session_def Let_def session_at_def)
qed

lemma path_at_append:
  "ss_paths x = [] \<Longrightarrow> path_at (t\<lparr>sv_heap := sv_heap t @ [x], sv_sessions := a, sv_by_client := b, sv_by_ip := c\<rparr>) = path_at t"
  by (auto simp: fun_eq_iff path_at_def session_at_def nth_append less_Suc_eq)

lemma get_or_create_paths:
  assumes g: "get_or_create_session e cred h s = (res, outs, t)"
  shows "keeps 0 r s t" and "nonces_at t r = nonces_at s r"
proof -
  let ?n = "client_id_string (cr_client_id cred)" and ?old = "map_get (sv_by_client s) (client_id_string (cr_client_id cred))"
  have "keeps 0 r s t \<and> nonces_at t r = nonces_at s r"
  proof (cases "t = s")
    case False
    then obtain cur sid where c: "map_get (sv_credentials s) ?n = Some cur"
      "cr_key cur = cr_key cred" "cr_tunnel_ip cur = cr_tunnel_ip cred"
      "(case ?old of Some r \<Rightarrow> session_accepts (session_at s r) h | None \<Rightarrow> False) = False"
      "pick_session_id (sv_sessions s) (ev_ids e) = Some sid"
      using g by (auto simp: get_or_create_session_def Let_def split: option.splits if_splits)
    define x where "x = new_session (sv_config s) cred h sid (ev_clock e 1)"
    define s1 where "s1 = (case ?old of Some r \<Rightarrow> detach_session r (mark_closing r s) | None \<Rightarrow> s)"
    define s2 where "s2 = update_metrics (add_sessions 1) (s1\<lparr>sv_heap := sv_heap s1 @ [x],
        sv_sessions := map_put (sv_sessions s1) sid (length (sv_heap s1)),
        sv_by_client := map_put (sv_by_client s1) ?n (length (sv_heap s1)),
        sv_by_ip := map_put (sv_by_ip s1) (cr_tunnel_ip cred) (length (sv_heap s1))\<rparr>)"
    have t: "t = (case ?old of Some old \<Rightarrow> retire_paths old s2 | None \<Rightarrow> s2)"
      using g unfolding s2_def
      by (simp add: get_or_create_session_def Let_def c s1_def [symmetric] x_def [symmetric] del: One_nat_def)
    have "path_at s1 = path_at s" by (simp add: s1_def split: option.split)
    then have at2: "path_at s2 = path_at s" by (simp add: s2_def path_at_append x_def)
    have "keeps 0 r s s2" by (rule keeps_same) (simp add: at2)
    moreover have "nonces_at s2 r = nonces_at s r" by (rule nonces_at_same) (simp add: at2)
    ultimately show ?thesis
      unfolding t using keeps_then_0 [OF _ keeps_retire, of 0 r s s2] by (auto split: option.splits)
  qed simp
  then show "keeps 0 r s t" and "nonces_at t r = nonces_at s r" by auto
qed

lemma path_for_nonce_at:
  assumes inv: "server_inv C s" and lv: "live s q" and f: "path_for_nonce (session_at s q) n = res"
  shows "case res of Some p \<Rightarrow> path_at s q (sp_id p) = Some p | None \<Rightarrow> n \<notin> nonces_at s q"
proof (cases res)
  case None
  then have "\<forall>(pid, p) \<in> set (ss_paths (session_at s q)). sp_client_nonce p \<noteq> n"
    using f by (auto simp: path_for_nonce_def find_None_iff)
  then show ?thesis using None by (auto simp: nonces_at_def path_at_def dest!: map_of_SomeD split: if_splits)
next
  case (Some p)
  obtain pid where pid: "(pid, p) \<in> set (ss_paths (session_at s q))"
    using path_for_nonce_member f Some by blast
  have "sp_id p = pid" using good_path_in [OF inv lv pid] by blast
  moreover have "keys_unique (ss_paths (session_at s q))" using session_wf_live [OF inv lv] by (simp add: session_wf_def)
  ultimately show ?thesis
    using pid live_bound [OF _ lv] inv Some
    by (auto simp: path_at_def server_inv_def map_get_mem [of "ss_paths (session_at s q)"])
qed

lemma keeps_handle_hello:
  assumes inv: "server_inv C s"
  shows "keeps_or_new 0 r s (snd (handle_hello C e remote packet s))"
proof (cases "\<exists>payload cred h q. plain_payload packet = Inr payload \<and> \<not> length payload < 16
      \<and> map_get (sv_credentials s) (client_id_string (take 16 payload)) = Some cred
      \<and> parse_hello C payload (cr_key cred) (ev_clock e 0) = Inr h
      \<and> fst (get_or_create_session e cred h s) = Some q")
  case False
  have "keeps 0 r s (snd (snd (get_or_create_session e cred h s)))" for cred h
    by (cases "get_or_create_session e cred h s") (simp add: get_or_create_paths)
  then show ?thesis
    using False keeps_imp_or_new unfolding handle_hello_def
    by (auto split: sum.splits option.splits if_splits prod.splits) (metis snd_conv)
next
  case True
  then obtain payload cred h q where t: "plain_payload packet = Inr payload" "\<not> length payload < 16"
    "map_get (sv_credentials s) (client_id_string (take 16 payload)) = Some cred"
    "parse_hello C payload (cr_key cred) (ev_clock e 0) = Inr h"
    "fst (get_or_create_session e cred h s) = Some q" by blast
  obtain outs s1 where g: "get_or_create_session e cred h s = (Some q, outs, s1)"
    using t(5) by (cases "get_or_create_session e cred h s") auto
  have c: "map_get (sv_credentials s) (client_id_string (cr_client_id cred)) = Some cred"
    using t(3) cred_lookup [OF inv t(3)] by simp
  have inv1: "server_inv C s1" and lv: "live s1 q" using get_or_create_session_inv [OF inv c, of e h] by (auto simp: g)
  have b: "q < length (sv_heap s1)" using inv1 lv by (simp add: server_inv_def live_bound)
  let ?reply = "case path_for_nonce (session_at s1 q) (hello_nonce h) of
      Some p \<Rightarrow> repeat_welcome e remote q p s1 | None \<Rightarrow> register_path C e remote cred h q s1"
  have "keeps_or_new 0 r s1 (snd ?reply)"
    using path_for_nonce_at [OF inv1 lv, of "hello_nonce h"] keeps_repeat_welcome keeps_register_path [OF _ b] keeps_imp_or_new
    by (auto split: option.splits)
  then have "keeps_or_new 0 r s (snd ?reply)"
    using get_or_create_paths(2) [OF g, of r] unfolding nonces_at_def set_eq_iff mem_Collect_eq
    by (intro keeps_before_new [OF get_or_create_paths(1) [OF g]]) blast+
  then show ?thesis using t g by (simp add: handle_hello_def case_prod_beta cong: option.case_cong)
qed

lemma server_step_paths:
  assumes inv: "server_inv C s"
  shows "keeps_or_new 1 r s (snd (server_step C L e s ev))"
proof (cases ev)
  case (Datagram remote packet)
  have w: "keeps_or_new 0 r s t \<Longrightarrow> keeps_or_new (Suc 0) r s t" for t
    unfolding keeps_or_new_def by blast
  show ?thesis
    using w [OF keeps_handle_hello [OF inv]] keeps_imp_or_new [OF keeps_handle_encrypted [OF inv]]
      keeps_imp_or_new [OF keeps_refl]
    by (auto simp: Datagram receive_datagram_def split: sum.splits)
next
  case (ReorderTick now)
  then show ?thesis using keeps_weaken [OF keeps_flush] by (auto simp: reorder_tick_def intro!: keeps_imp_or_new)
next
  case (JanitorTick now)
  have "keys_unique (sv_sessions s)" using inv by (simp add: server_inv_def indexes_ok_def)
  then have "keeps 0 r s (janitor_tick now s)"
    unfolding janitor_tick_def using inv map_get_mem [of "sv_sessions s"]
    by (intro keeps_expire_sessions [of C]) (auto simp: keys_unique_def)
  then have "keeps 1 r s (janitor_tick now s)" by (rule keeps_weaken) simp
  then show ?thesis using keeps_imp_or_new JanitorTick by simp
next
  case (Authorize c)
  have cr: "keeps k r s (terminate_client_session n (s\<lparr>sv_credentials := m\<rparr>))"
    "keeps k r s (s\<lparr>sv_credentials := m\<rparr>)" for k n m
  proof -
    have "path_at (s\<lparr>sv_credentials := m\<rparr>) = path_at s" by (simp add: fun_eq_iff path_at_def session_at_def)
    then show "keeps k r s (s\<lparr>sv_credentials := m\<rparr>)" by (intro keeps_same) simp
    from keeps_then_0 [OF this keeps_terminate_client]
    show "keeps k r s (terminate_client_session n (s\<lparr>sv_credentials := m\<rparr>))" .
  qed
  have "keeps 1 r s (snd (authorize_client L c s))"
    by (auto simp: authorize_client_def Let_def cr simp del: One_nat_def split: sum.splits option.splits)
  then show ?thesis by (simp add: Authorize keeps_imp_or_new)
next
  case (Revoke n)
  have "path_at (s\<lparr>sv_credentials := m\<rparr>) = path_at s" for m by (simp add: fun_eq_iff path_at_def session_at_def)
  then have "keeps 1 r s (s\<lparr>sv_credentials := m\<rparr>)" for m by (intro keeps_same) simp
  from keeps_then_0 [OF this keeps_terminate_client] have "keeps 1 r s (revoke_client n s)"
    by (auto simp: revoke_client_def Let_def simp del: One_nat_def split: sum.splits)
  then show ?thesis by (simp add: Revoke keeps_imp_or_new)
next
  case (SetHook b)
  have "path_at (s\<lparr>sv_hook := b\<rparr>) = path_at s" by (simp add: fun_eq_iff path_at_def session_at_def)
  then show ?thesis by (simp add: SetHook set_client_seen_hook_def keeps_imp_or_new keeps_same)
next
  case (TunPacket packet)
  then show ?thesis using keeps_tun_packet [OF inv] keeps_imp_or_new by simp
qed

section \<open>Runs along which a path stays registered\<close>

text \<open>\<open>path_run C L r pid n k s t\<close>: \<open>k\<close> steps lead from \<open>s\<close> to \<open>t\<close>, and in every state on the way the
  session object \<open>r\<close> has the path \<open>pid\<close> that was registered with client nonce \<open>n\<close>.\<close>

definition has_path :: "server \<Rightarrow> sref \<Rightarrow> u32 \<Rightarrow> bytes \<Rightarrow> bool" where
  "has_path s r pid n \<longleftrightarrow> (case path_at s r pid of Some p \<Rightarrow> sp_client_nonce p = n | None \<Rightarrow> False)"

inductive path_run :: "crypto \<Rightarrow> net_lib \<Rightarrow> sref \<Rightarrow> u32 \<Rightarrow> bytes \<Rightarrow> nat \<Rightarrow> server \<Rightarrow> server \<Rightarrow> bool"
  for C :: crypto and L :: net_lib and r :: sref and pid :: u32 and n :: bytes where
  stay: "has_path s r pid n \<Longrightarrow> path_run C L r pid n 0 s s"
| more: "path_run C L r pid n k s t \<Longrightarrow> server_step C L e t ev = (outs, u) \<Longrightarrow> has_path u r pid n
    \<Longrightarrow> path_run C L r pid n (Suc k) s u"

lemma has_path_iff: "has_path s r pid n \<longleftrightarrow> (\<exists>p. path_at s r pid = Some p \<and> sp_client_nonce p = n)"
  by (simp add: has_path_def split: option.split)

lemma step_evolves:
  assumes inv: "server_inv C s" and st: "server_step C L e s ev = (outs, t)"
    and p: "path_at s r pid = Some p" and q: "path_at t r pid = Some q" "sp_client_nonce q = sp_client_nonce p"
  shows "\<exists>j \<le> 1. path_evolves j p q"
proof -
  have "keeps_or_new 1 r s t" using server_step_paths [OF inv, of r L e ev] st by simp
  moreover have "\<not> new_on s r q" using p q(2) by (metis new_on_def)
  ultimately show ?thesis using p q(1) unfolding keeps_or_new_def by (metis option.inject)
qed

lemma path_run_evolves:
  assumes "path_run C L r pid n k s t" "server_inv C s"
  shows "server_inv C t \<and> (\<exists>p q j. path_at s r pid = Some p \<and> path_at t r pid = Some q \<and> sp_client_nonce p = n
      \<and> j \<le> k \<and> path_evolves j p q)"
  using assms
proof (induction rule: path_run.induct)
  case (stay s)
  then show ?case using evolves_refl by (auto simp: has_path_iff)
next
  case (more k s t e ev outs u)
  then obtain p q j where inv: "server_inv C t" and p: "path_at s r pid = Some p" "path_at t r pid = Some q"
    "sp_client_nonce p = n" "j \<le> k" "path_evolves j p q" by blast
  obtain x where x: "path_at u r pid = Some x" "sp_client_nonce x = n" using more.hyps(3) by (auto simp: has_path_iff)
  have "sp_client_nonce q = n" using p(3,5) by (simp add: path_evolves_def)
  then obtain i where "i \<le> 1" "path_evolves i q x" using step_evolves [OF inv more.hyps(2) p(2) x(1)] x(2) by auto
  then have "j + i \<le> Suc k" "path_evolves (j + i) p x" using p(4) evolves_trans [OF p(5)] by auto
  then show ?case using server_step_inv [OF inv, of L e ev] more.hyps(2) p(1,3) x(1) by auto
qed

section \<open>Replayed packets\<close>

text \<open>Every window on the heap represents some history, and what a path repeats is a WELCOME.\<close>

definition windows_ok :: "server \<Rightarrow> bool" where
  "windows_ok s \<longleftrightarrow>
     (\<forall>r pid p. path_at s r pid = Some p \<longrightarrow> (\<exists>S. represents (sp_replay p) S) \<and> welcome_shape (sp_welcome_packet p))"

lemma accept_all_represents: "represents w S \<Longrightarrow> \<exists>T. represents (snd (accept_all w qs)) T \<and> S \<subseteq> T"
proof (induction qs arbitrary: w S)
  case (Cons q qs)
  from Cons.IH [OF rw.history_step [OF Cons.prems, of q]]
  show ?case by (auto simp: case_prod_beta Let_def split: if_splits)
qed auto

lemma reachable_windows: "reachable C L c s \<Longrightarrow> windows_ok s"
proof (induction rule: reachable.induct)
  case (start m)
  show ?case by (simp add: windows_ok_def path_at_def empty_server_def)
next
  case (step s e ev outs t)
  have k: "keeps_or_new 1 r s t" for r
    using server_step_paths [OF reachable_inv [OF step.hyps(1)], of r L e ev] step.hyps(2) by simp
  show ?case
    unfolding windows_ok_def
  proof (intro allI impI)
    fix r pid q assume "path_at t r pid = Some q"
    then consider p j where "path_at s r pid = Some p" "path_evolves j p q" | "new_on s r q"
      using k [of r] unfolding keeps_or_new_def by blast
    then show "(\<exists>S. represents (sp_replay q) S) \<and> welcome_shape (sp_welcome_packet q)"
    proof cases
      case 1
      then show ?thesis using step.IH accept_all_represents unfolding windows_ok_def path_evolves_def by metis
    next
      case 2
      then show ?thesis using accept_all_represents [OF represents_new] unfolding new_on_def by metis
    qed
  qed
qed

text \<open>A window that was asked about a number refuses it ever after.\<close>

lemma asked_refuses:
  assumes "represents w S"
  shows "\<not> fst (accept (snd (accept_all (snd (accept w q)) qs)) q)"
proof -
  define n where "n = unat q"
  define refused where "refused T \<longleftrightarrow> T \<noteq> {} \<and> (n \<in> T \<or> n + 64 \<le> Max T)" for T
  have grow: "refused U" if r: "refused T" and "T \<subseteq> U" "finite U" for T U
  proof -
    have "T \<noteq> {}" using r by (simp add: refused_def)
    then have "Max T \<le> Max U" using that by (simp add: Max_mono)
    then show ?thesis using r that by (auto simp: refused_def)
  qed
  have no: "\<not> spec_accept T n" if "refused T" "finite T" for T
  proof (cases "n \<in> T")
    case True
    then have "n \<le> Max T" using that(2) by simp
    then show ?thesis using True by (auto simp: spec_accept_def)
  next
    case False
    then show ?thesis using that by (auto simp: refused_def spec_accept_def simp del: Max_less_iff)
  qed
  let ?T = "if spec_accept S n then insert n S else S"
  have h: "represents (snd (accept w q)) ?T" unfolding n_def by (rule rw.history_step [OF assms])
  have "refused ?T"
  proof (cases "spec_accept S n")
    case False
    then show ?thesis using rw.history_finite [OF assms] by (auto simp: spec_accept_def refused_def not_less)
  qed (simp add: refused_def)
  moreover obtain U where U: "represents (snd (accept_all (snd (accept w q)) qs)) U" "?T \<subseteq> U"
    using accept_all_represents [OF h] by blast
  ultimately have "\<not> spec_accept U n" using grow [of ?T U] no [of U] rw.history_finite [OF U(1)] by blast
  then show ?thesis using rw.answer [OF U(1), of q] by (simp add: n_def)
qed

lemma accept_refused: "\<not> fst (accept w q) \<Longrightarrow> snd (accept w q) = w"
  by (auto simp: accept_def Let_def split: if_splits)

lemma path_at_seen:
  "q < length (sv_heap s) \<Longrightarrow> path_at (update_session q (touch_session t) (update_session q (put_path p) s)) q (sp_id p) = Some p"
  using path_at_put [of q s p] by (simp add: path_at_def session_at_update touch_session_def)

text \<open>What an authentic packet leaves behind on its path.\<close>

lemma authentic_asked:
  assumes inv: "server_inv C s" and q: "map_get (sv_sessions s) (h_session h) = Some q"
    and p: "path_at s q (h_path h) = Some p" and o: "open_packet C (sp_aead p) h ClientToServer packet = Inr payload"
    and x: "path_at (snd (handle_encrypted C e remote h packet s)) q (h_path h) = Some x"
  shows "\<exists>qs. sp_replay x = snd (accept_all (snd (accept (sp_replay p) (h_seq h))) qs)"
proof -
  have lv: "live s q" using q by (auto simp: live_def)
  have b: "q < length (sv_heap s)" and pm: "map_get (ss_paths (session_at s q)) (h_path h) = Some p"
    using p by (auto simp: path_at_def split: if_splits)
  have pid: "sp_id p = h_path h" using good_path_member [OF inv lv pm] by blast
  obtain new w where w: "accept (sp_replay p) (h_seq h) = (new, w)" by (cases "accept (sp_replay p) (h_seq h)")
  show ?thesis
  proof (cases new)
    case False
    then have "x = p" using x p q pm o w by (simp add: handle_encrypted_def)
    then show ?thesis using False accept_refused [of "sp_replay p" "h_seq h"] w by (auto intro: exI [of _ "[]"])
  next
    case True
    let ?p1 = "seen_path remote (ev_clock e 0) w p"
    let ?s2 = "update_session q (touch_session (ev_clock e 1)) (update_session q (put_path ?p1) s)"
    let ?s3 = "update_metrics (update_path_metric (sp_metric p) (\<lambda>m. path_received (length payload) (path_health True m))) ?s2"
    have at: "path_at ?s3 q (sp_id ?p1) = Some ?p1" using path_at_seen [OF b] by simp
    have "snd (handle_encrypted C e remote h packet s) = snd (handle_payload C e q ?p1 (h_type h) payload ?s3)"
      using q pm o w True by (simp add: handle_encrypted_def Let_def)
    then have "keeps (Suc 0) q ?s3 (snd (handle_encrypted C e remote h packet s))"
      using keeps_handle_payload [OF at] by simp
    moreover have "sp_id ?p1 = h_path h" by (simp add: seen_path_def pid)
    ultimately obtain j where "path_evolves j ?p1 x"
      using x at unfolding keeps_def by (metis option.inject)
    then show ?thesis using w by (auto simp: path_evolves_def seen_path_def)
  qed
qed

text \<open>C2: A datagram that authenticated once is never taken again on its path: however the state
  evolved since, as long as the path is registered, every datagram with the same session, path and packet
  number (from whatever address, with whatever contents) produces no output and changes counters only.\<close>

theorem replay_stays_rejected:
  assumes "reachable C L c s" and "parse_header packet = Inr h" and "h_type h \<noteq> TypeHello"
    and "map_get (sv_sessions s) (h_session h) = Some r" and "path_at s r (h_path h) = Some p"
    and "open_packet C (sp_aead p) h ClientToServer packet = Inr payload"
    and "receive_datagram C e remote packet s = (outs, t)"
    and "path_run C L r (h_path h) n k t u" and "map_get (sv_sessions u) (h_session h) = Some r"
    and "parse_header packet' = Inr h'" and "h_type h' \<noteq> TypeHello"
    and "h_session h' = h_session h" and "h_path h' = h_path h" and "h_seq h' = h_seq h"
  shows "\<exists>f. receive_datagram C e' remote' packet' u = ([], update_metrics f u)"
proof -
  have inv: "server_inv C s" using assms(1) by (rule reachable_inv)
  have t: "t = snd (handle_encrypted C e remote h packet s)" using assms(2,3,7) by (simp add: receive_datagram_def)
  have "server_inv C t" unfolding t by (rule handle_encrypted_inv [OF inv])
  from path_run_evolves [OF assms(8) this] obtain x y j where
    x: "path_at t r (h_path h) = Some x" and y: "path_at u r (h_path h) = Some y" and xy: "path_evolves j x y"
    by blast
  obtain S where S: "represents (sp_replay p) S"
    using reachable_windows [OF assms(1)] assms(5) unfolding windows_ok_def by blast
  obtain qs where "sp_replay x = snd (accept_all (snd (accept (sp_replay p) (h_seq h))) qs)"
    using authentic_asked [OF inv assms(4-6)] x unfolding t by blast
  moreover obtain qs' where "sp_replay y = snd (accept_all (sp_replay x) qs')" using xy by (auto simp: path_evolves_def)
  ultimately have "sp_replay y = snd (accept_all (snd (accept (sp_replay p) (h_seq h))) (qs @ qs'))"
    by (simp add: accept_all_append)
  then have no: "\<not> fst (accept (sp_replay y) (h_seq h))" using asked_refuses [OF S] by simp
  have "map_get (ss_paths (session_at u r)) (h_path h) = Some y" using y by (auto simp: path_at_def split: if_splits)
  then show ?thesis
    using assms(9-14) no by (auto simp: receive_datagram_def handle_encrypted_def case_prod_beta split: sum.split)
qed

section \<open>Packet numbers are used once\<close>

text \<open>\<open>sealed_on C s t b\<close>: \<open>b\<close> was sealed under the next packet number of a path of a live session, and
  the step to \<open>t\<close> has used that number up.\<close>

definition sealed_on :: "crypto \<Rightarrow> server \<Rightarrow> server \<Rightarrow> bytes \<Rightarrow> bool" where
  "sealed_on C s t b \<longleftrightarrow>
     (\<exists>r p ty payload. live s r \<and> path_at s r (sp_id p) = Some p
        \<and> seal C (sp_aead p) (send_header p ty) ServerToClient payload = Inr b
        \<and> (\<exists>q. path_at t r (sp_id p) = Some q \<and> path_evolves 1 p q))"

lemma send_or_record_sent:
  assumes "send_or_record C e r p t payload s = (ok, outs, u)" and "SendTo a b \<in> set outs"
  shows "seal C (sp_aead p) (send_header p t) ServerToClient payload = Inr b \<and> sp_remote p = Some a
    \<and> path_at u = path_at (update_session r (put_path (p\<lparr>sp_sequence := sp_sequence p + 1\<rparr>)) s)"
  using assms
  by (auto simp: send_or_record_def send_path_def Let_def split: sum.splits option.splits if_splits)

lemma handle_payload_sent:
  assumes "handle_payload C e r p t payload s = (outs, u)" and "SendTo a b \<in> set outs" and "r < length (sv_heap s)"
  shows "\<exists>ty pl. seal C (sp_aead p) (send_header p ty) ServerToClient pl = Inr b
    \<and> path_at u r (sp_id p) = Some (p\<lparr>sp_sequence := sp_sequence p + 1\<rparr>)"
proof -
  have no: "SendTo a b \<notin> set (fst (deliver e r res v))" for res v
    using write_packets_outputs [of "ev_tun_ok e r" 0 "res_packets res"] unfolding deliver_def by fastforce
  have put: "path_at v r (sp_id p) = Some (p\<lparr>sp_sequence := sp_sequence p + 1\<rparr>)"
    if "path_at v = path_at (update_session r (put_path (p\<lparr>sp_sequence := sp_sequence p + 1\<rparr>)) s)" for v
    using path_at_put [OF assms(3), of "p\<lparr>sp_sequence := sp_sequence p + 1\<rparr>"] that by simp
  have "\<exists>ty pl ok. send_or_record C e r p ty pl s = (ok, outs, u)"
  proof (rule ccontr)
    assume c: "\<nexists>ty pl ok. send_or_record C e r p ty pl s = (ok, outs, u)"
    have "SendTo a b \<notin> set outs"
      using assms(1) c no unfolding handle_payload_def Let_def
      by (cases "send_or_record C e r p TypePong payload s"; cases "send_or_record C e r p TypeProbeReply payload s")
        (auto split: if_splits sum.splits prod.splits; metis fst_conv)
    then show False using assms(2) by blast
  qed
  then obtain ty pl ok where sr: "send_or_record C e r p ty pl s = (ok, outs, u)" by blast
  from send_or_record_sent [OF sr assms(2)] show ?thesis using put by blast
qed

lemma handle_encrypted_sent:
  assumes inv: "server_inv C s" and o: "SendTo a b \<in> set (fst (handle_encrypted C e remote h packet s))"
  shows "sealed_on C s (snd (handle_encrypted C e remote h packet s)) b"
proof -
  obtain q p payload w where q: "map_get (sv_sessions s) (h_session h) = Some q"
    and p: "map_get (ss_paths (session_at s q)) (h_path h) = Some p"
    and op: "open_packet C (sp_aead p) h ClientToServer packet = Inr payload"
    and w: "accept (sp_replay p) (h_seq h) = (True, w)"
    using o by (auto simp: handle_encrypted_def split: option.splits sum.splits prod.splits if_splits)
  have lv: "live s q" using q by (auto simp: live_def)
  have b: "q < length (sv_heap s)" using inv lv by (simp add: server_inv_def live_bound)
  have pid: "sp_id p = h_path h" using good_path_member [OF inv lv p] by blast
  let ?p1 = "seen_path remote (ev_clock e 0) w p"
  let ?s2 = "update_session q (touch_session (ev_clock e 1)) (update_session q (put_path ?p1) s)"
  let ?s3 = "update_metrics (update_path_metric (sp_metric p) (\<lambda>m. path_received (length payload) (path_health True m))) ?s2"
  have he: "handle_encrypted C e remote h packet s = handle_payload C e q ?p1 (h_type h) payload ?s3"
    using q p op w by (simp add: handle_encrypted_def Let_def)
  obtain outs u where hp: "handle_payload C e q ?p1 (h_type h) payload ?s3 = (outs, u)"
    by (cases "handle_payload C e q ?p1 (h_type h) payload ?s3")
  have out: "SendTo a b \<in> set outs" using o unfolding he hp by simp
  obtain ty pl where sent: "seal C (sp_aead ?p1) (send_header ?p1 ty) ServerToClient pl = Inr b"
    "path_at u q (sp_id ?p1) = Some (?p1\<lparr>sp_sequence := sp_sequence ?p1 + 1\<rparr>)"
    using handle_payload_sent [OF hp out] b by auto
  have eqs: "sp_aead ?p1 = sp_aead p" "send_header ?p1 ty = send_header p ty" "sp_id ?p1 = sp_id p"
    "sp_sequence ?p1 = sp_sequence p" by (simp_all add: seen_path_def send_header_def)
  have "path_evolves 1 p (?p1\<lparr>sp_sequence := sp_sequence ?p1 + 1\<rparr>)"
    using evolves_trans [OF evolves_seen [OF w] evolves_send [of ?p1]] by simp
  moreover have "path_at s q (sp_id p) = Some p" using b p pid by (simp add: path_at_def)
  ultimately show ?thesis
    using sent lv unfolding sealed_on_def he hp eqs snd_conv by blast
qed

lemma tun_packet_sent:
  assumes inv: "server_inv C s" and o: "SendTo a b \<in> set (fst (tun_packet C e packet s))"
  shows "sealed_on C s (snd (tun_packet C e packet s)) b"
proof -
  obtain ip q where ip: "destination_ip packet = Some ip" and q: "map_get (sv_by_ip s) ip = Some q"
    using o by (auto simp: tun_packet_def split: option.splits)
  have i: "indexes_ok s" using inv by (simp add: server_inv_def)
  have lv: "live s q" using indexes_ip [OF i q] by blast
  have b: "q < length (sv_heap s)" using live_bound [OF i lv] .
  obtain sel ss where n: "next_path (ev_order e) (ev_clock e 0) (session_at s q) = (sel, ss)"
    by (cases "next_path (ev_order e) (ev_clock e 0) (session_at s q)")
  obtain p where sel: "sel = Some p" using o ip q n by (cases sel) (auto simp: tun_packet_def)
  let ?s1 = "update_session q (\<lambda>_. ss) s"
  let ?s2 = "update_session q (\<lambda>ss. ss\<lparr>ss_data_seq := ss_data_seq (session_at ?s1 q) + 1\<rparr>) ?s1"
  obtain payload where m: "marshal_data (ss_data_seq (session_at ?s1 q) + 1) packet = Inr payload"
    using o ip q n sel by (cases "marshal_data (ss_data_seq (session_at ?s1 q) + 1) packet") (auto simp: tun_packet_def Let_def)
  obtain ok outs u where sr: "send_or_record C e q p TypeData payload ?s2 = (ok, outs, u)"
    by (cases "send_or_record C e q p TypeData payload ?s2")
  have tp: "tun_packet C e packet s = (outs, if ok then update_metrics (count_sent (length packet)) u else u)"
    using ip q n sel m sr by (simp add: tun_packet_def Let_def)
  have p: "path_at s q (sp_id p) = Some p"
    using next_path_selected [OF session_wf_live [OF inv lv], of "ev_order e" "ev_clock e 0" p ss] n sel b
    by (simp add: path_at_def)
  have sent: "seal C (sp_aead p) (send_header p TypeData) ServerToClient payload = Inr b"
    "path_at u = path_at (update_session q (put_path (p\<lparr>sp_sequence := sp_sequence p + 1\<rparr>)) ?s2)"
    using send_or_record_sent [OF sr, of a b] o tp by auto
  have "path_at u q (sp_id p) = Some (p\<lparr>sp_sequence := sp_sequence p + 1\<rparr>)"
    using path_at_put [of q ?s2 "p\<lparr>sp_sequence := sp_sequence p + 1\<rparr>"] b sent(2) by simp
  then have "path_at (snd (tun_packet C e packet s)) q (sp_id p) = Some (p\<lparr>sp_sequence := sp_sequence p + 1\<rparr>)"
    by (simp add: tp)
  moreover have "path_evolves 1 p (p\<lparr>sp_sequence := sp_sequence p + 1\<rparr>)" using evolves_send by simp
  ultimately show ?thesis using p sent(1) lv unfolding sealed_on_def by blast
qed

lemma handle_hello_sent:
  assumes inv: "server_inv C s" and win: "windows_ok s"
    and o: "SendTo a b \<in> set (fst (handle_hello C e remote packet s))"
  shows "welcome_shape b"
proof -
  obtain payload cred h where t: "plain_payload packet = Inr payload" "\<not> length payload < 16"
    "map_get (sv_credentials s) (client_id_string (take 16 payload)) = Some cred"
    "parse_hello C payload (cr_key cred) (ev_clock e 0) = Inr h"
    using o by (auto simp: handle_hello_def split: sum.splits option.splits if_splits)
  obtain res outs s1 where g: "get_or_create_session e cred h s = (res, outs, s1)"
    by (cases "get_or_create_session e cred h s")
  have no: "SendTo a b \<notin> set outs"
    using g by (auto simp: get_or_create_session_def Let_def split: option.splits if_splits)
  then obtain q where q: "res = Some q" using o t g by (cases res) (auto simp: handle_hello_def)
  have c: "map_get (sv_credentials s) (client_id_string (cr_client_id cred)) = Some cred"
    using t(3) cred_lookup [OF inv t(3)] by simp
  have inv1: "server_inv C s1" and lv: "live s1 q" using get_or_create_session_inv [OF inv c, of e h] by (auto simp: g q)
  show ?thesis
  proof (cases "path_for_nonce (session_at s1 q) (hello_nonce h)")
    case None
    then have "SendTo a b \<in> set (fst (register_path C e remote cred h q s1))"
      using o t g q no by (auto simp: handle_hello_def case_prod_beta)
    then show ?thesis
      using welcome_shape_new by (auto simp: register_path_def Let_def split: if_splits sum.splits prod.splits)
  next
    case (Some p)
    then have "SendTo a b \<in> set (fst (repeat_welcome e remote q p s1))"
      using o t g q no by (auto simp: handle_hello_def case_prod_beta)
    then have "b = sp_welcome_packet p" by (auto simp: repeat_welcome_def split: if_splits)
    moreover have "path_at s1 q (sp_id p) = Some p" using path_for_nonce_at [OF inv1 lv Some] by simp
    then obtain p' j where "path_at s q (sp_id p) = Some p'" "path_evolves j p' p"
      using get_or_create_paths(1) [OF g, of q] unfolding keeps_def by blast
    ultimately show ?thesis using win unfolding windows_ok_def path_evolves_def by metis
  qed
qed

text \<open>Everything the relay sends is a WELCOME or sealed under a fresh number of a registered path.\<close>

lemma step_sent:
  assumes re: "reachable C L c s" and st: "server_step C L e s ev = (outs, t)" and o: "SendTo a b \<in> set outs"
  shows "welcome_shape b \<or> sealed_on C s t b"
proof -
  have inv: "server_inv C s" and win: "windows_ok s" using reachable_inv [OF re] reachable_windows [OF re] .
  show ?thesis
  proof (cases ev)
    case (Datagram remote packet)
    then have rd: "receive_datagram C e remote packet s = (outs, t)" using st by simp
    obtain h where h: "parse_header packet = Inr h" using rd o by (cases "parse_header packet") (auto simp: receive_datagram_def)
    show ?thesis
    proof (cases "h_type h = TypeHello")
      case True
      then show ?thesis using handle_hello_sent [OF inv win, of a b e remote packet] rd o h by (simp add: receive_datagram_def)
    next
      case False
      then show ?thesis
        using handle_encrypted_sent [OF inv, of a b e remote h packet] rd o h by (simp add: receive_datagram_def)
    qed
  next
    case (TunPacket packet)
    then show ?thesis using tun_packet_sent [OF inv, of a b e packet] st o by simp
  next
    case (ReorderTick now)
    have "SendTo a b \<notin> set (fst (flush_sessions e now rs u))" for rs u
    proof (induction rs arbitrary: u)
      case (Cons r rs)
      have "SendTo a b \<notin> set (fst (deliver e r res v))" for res v
        using write_packets_outputs [of "ev_tun_ok e r" 0 "res_packets res"] unfolding deliver_def by fastforce
      then show ?case using Cons.IH by (auto simp: case_prod_beta)
    qed simp
    from this [of "map snd (sv_sessions s)" s] show ?thesis using ReorderTick st o by (simp add: reorder_tick_def)
  qed (use st o in auto)
qed

lemma sealed_header: "seal C k h d p = Inr b \<Longrightarrow> parse_header b = Inr h"
  by (auto simp: seal_def Let_def split: if_splits)

text \<open>C3: The relay never uses a packet number twice on one path: two datagrams it sends in different
  steps for the same session and path, with fewer than 2^64 steps from the first to the second and the path
  registered all the time, have different packet numbers (so no AES-GCM nonce repeats under the path's key).\<close>

theorem packet_numbers_fresh:
  assumes re: "reachable C L c s"
    and st: "server_step C L e s ev = (outs, t)" "SendTo a b \<in> set outs" "parse_header b = Inr h" "h_type h \<noteq> TypeWelcome"
    and run: "path_run C L r (h_path h) n k t u" "Suc k < 2 ^ 64"
    and st': "server_step C L e' u ev' = (outs', v)" "SendTo a' b' \<in> set outs'" "parse_header b' = Inr h'" "h_type h' \<noteq> TypeWelcome"
    and at: "map_get (sv_sessions s) (h_session h) = Some r" "map_get (sv_sessions u) (h_session h) = Some r"
    and same: "h_session h' = h_session h" "h_path h' = h_path h"
  shows "h_seq h \<noteq> h_seq h'"
proof -
  have inv: "server_inv C s" using re by (rule reachable_inv)
  have rt: "reachable C L c t" using re st(1) by (rule reachable.step)
  have ru: "reachable C L c u" using run(1) rt by (induction rule: path_run.induct) (auto intro: reachable.step)
  have sl: "\<exists>p. path_at x r (h_path g) = Some p \<and> h_seq g = sp_sequence p + 1
      \<and> (\<exists>q. path_at y r (h_path g) = Some q \<and> path_evolves 1 p q)"
    if rx: "reachable C L c x" and d: "welcome_shape d \<or> sealed_on C x y d" "parse_header d = Inr g" "h_type g \<noteq> TypeWelcome"
      and gs: "map_get (sv_sessions x) (h_session g) = Some r" for x y d g
  proof -
    have i: "server_inv C x" "indexes_ok x" using reachable_inv [OF rx] by (auto simp: server_inv_def)
    obtain q p ty payload where w: "live x q" "path_at x q (sp_id p) = Some p"
      "seal C (sp_aead p) (send_header p ty) ServerToClient payload = Inr d"
      "\<exists>p'. path_at y q (sp_id p) = Some p' \<and> path_evolves 1 p p'"
      using d unfolding sealed_on_def welcome_shape_def by blast
    have g: "g = send_header p ty" using sealed_header [OF w(3)] d(2) by simp
    have "map_get (ss_paths (session_at x q)) (sp_id p) = Some p" using w(2) by (auto simp: path_at_def split: if_splits)
    then have "sp_session_id p = ss_id (session_at x q)" using good_path_member [OF i(1) w(1)] by (auto simp: good_path_def path_ok_def)
    then have "q = r" using indexes_live [OF i(2) w(1)] gs by (simp add: g send_header_def)
    moreover have "h_path g = sp_id p" "h_seq g = sp_sequence p + 1" by (simp_all add: g send_header_def)
    ultimately show ?thesis using w(2,4) by metis
  qed
  obtain p q where p: "path_at s r (h_path h) = Some p" "h_seq h = sp_sequence p + 1"
    "path_at t r (h_path h) = Some q" "path_evolves 1 p q"
    using sl [OF re step_sent [OF re st(1,2)] st(3,4) at(1)] by blast
  obtain p' where p': "path_at u r (h_path h) = Some p'" "h_seq h' = sp_sequence p' + 1"
    using sl [OF ru step_sent [OF ru st'(1,2)] st'(3,4)] at(2) same by auto
  obtain j where j: "j \<le> k" "path_evolves j q p'"
    using path_run_evolves [OF run(1) reachable_inv [OF rt]] p(3) p'(1) by auto
  have "h_seq h' = h_seq h + of_nat (Suc j)" using p(2,4) p'(2) j(2) by (simp add: path_evolves_def)
  moreover have "of_nat (Suc j) \<noteq> (0 :: u64)"
  proof -
    have "Suc j < 2 ^ LENGTH(64)" using j(1) run(2) by simp
    then have "unat (of_nat (Suc j) :: u64) = Suc j" by (simp add: unat_of_nat del: of_nat_Suc)
    then show ?thesis by (metis unat_0 nat.distinct(1))
  qed
  ultimately show ?thesis by simp
qed

end
