(* ===== verification/Server_Facts.thy ===== *)
theory Server_Facts
  imports Server_Inv
begin

text \<open>
  What the relay guarantees: consistent routing tables, no spoofed packet on the tunnel device,
  datagrams that are not authentic change nothing but counters, packets for a client leave only
  through a healthy path of that client's session, and sessions end when they should.
\<close>

section \<open>Routing tables\<close>

text \<open>C16: In every reachable state the three indexes list the same sessions: a live session is found
  under its number, its client and its tunnel address, each index entry leads to a live session, two
  live sessions share neither client nor address, and the session counter is the number of sessions.\<close>

theorem routing_consistent:
  assumes "reachable C L c s"
  shows "(\<forall>r. live s r \<longrightarrow> map_get (sv_sessions s) (ss_id (session_at s r)) = Some r
        \<and> map_get (sv_by_client s) (client_of (session_at s r)) = Some r
        \<and> map_get (sv_by_ip s) (ip_of (session_at s r)) = Some r
        \<and> authorized (sv_credentials s) (ss_credential (session_at s r)))
    \<and> (\<forall>n r. map_get (sv_by_client s) n = Some r \<longrightarrow> live s r \<and> n = client_of (session_at s r))
    \<and> (\<forall>ip r. map_get (sv_by_ip s) ip = Some r \<longrightarrow> live s r \<and> ip = ip_of (session_at s r))
    \<and> mt_active_sessions (sv_metrics s) = signed_take_bit 63 (int (length (sv_sessions s)))"
proof -
  have inv: "server_inv C s" using assms by (rule reachable_inv)
  then have i: "indexes_ok s" by (simp add: server_inv_def)
  show ?thesis
    using indexes_live [OF i] indexes_client [OF i] indexes_ip [OF i] indexes_unique [OF i] inv
    by (auto simp: server_inv_def sessions_ok_def)
qed

section \<open>Anti-spoofing\<close>

text \<open>A packet for the tunnel device that carries the address of an authorized client.\<close>

definition attributable :: "server \<Rightarrow> server_output \<Rightarrow> bool" where
  "attributable s out \<longleftrightarrow>
     (case out of
        WriteTun packet \<Rightarrow> (\<exists>n cr. map_get (sv_credentials s) n = Some cr \<and> source_ip packet = Some (cr_tunnel_ip cr))
      | _ \<Rightarrow> True)"

lemma attributable_own:
  "server_inv C s \<Longrightarrow> live s r \<Longrightarrow> own_packet (session_at s r) p \<Longrightarrow> attributable s (WriteTun p)"
  by (force simp: attributable_def own_packet_def server_inv_def sessions_ok_def authorized_def)

lemma attributable_cong: "sv_credentials t = sv_credentials s \<Longrightarrow> attributable t = attributable s"
  by (rule ext) (simp add: attributable_def split: server_output.split)

lemma deliver_outputs: "set (fst (deliver e r res s)) \<subseteq> WriteTun ` set (res_packets res)"
  unfolding deliver_def by (rule write_packets_outputs)

lemma flush_sessions_outputs:
  assumes "server_inv C s" "set rs \<subseteq> {r. live s r}"
  shows "\<forall>out \<in> set (fst (flush_sessions e now rs s)). attributable s out"
  using assms
proof (induction rs arbitrary: s)
  case (Cons r rs)
  obtain res b where f: "flush_expired (ss_reorder (session_at s r)) now (ev_clock e r) = (res, b)"
    by (cases "flush_expired (ss_reorder (session_at s r)) now (ev_clock e r)")
  let ?t = "update_session r (\<lambda>ss. ss\<lparr>ss_reorder := b\<rparr>) s"
  obtain outs t where d: "deliver e r res ?t = (outs, t)" by (cases "deliver e r res ?t")
  have lr: "live s r" using Cons.prems(2) by auto
  have g: "rb.guarded (own_packet (session_at s r)) (ss_reorder (session_at s r))"
    using session_wf_live [OF Cons.prems(1) lr] by (simp add: session_wf_def)
  note fl = rb.guarded_flush [OF g f]
  have "server_inv C t"
    using deliver_inv [OF inv_set_reorder [OF Cons.prems(1), of r b], of e r res] fl by (simp add: d)
  moreover obtain k where "t = update_metrics k (if 0 < res_skipped res then update_metrics (count_skips (res_skipped res)) ?t else ?t)"
    using write_packets_metrics [of "ev_tun_ok e r" 0 "res_packets res"] d unfolding deliver_def by (metis snd_conv)
  then have t: "live t = live s" "sv_credentials t = sv_credentials s" by (auto simp: fun_eq_iff)
  ultimately have "\<forall>out \<in> set (fst (flush_sessions e now rs t)). attributable t out"
    using Cons.prems(2) by (intro Cons.IH) auto
  moreover have "attributable t = attributable s" by (rule attributable_cong) (rule t(2))
  moreover have "\<forall>out \<in> set outs. attributable s out"
    using deliver_outputs [of e r res ?t] d fl attributable_own [OF Cons.prems(1) lr] by auto
  ultimately show ?case by (auto simp: f d case_prod_beta)
qed simp

lemma send_outputs_attributable: "out \<in> set (fst (snd (send_or_record C e r p t payload s))) \<Longrightarrow> attributable s' out"
  by (auto simp: send_or_record_def send_path_def attributable_def Let_def split: sum.splits option.splits if_splits)

lemma handle_payload_outputs:
  assumes inv: "server_inv C s" and r: "live s r"
  shows "\<forall>out \<in> set (fst (handle_payload C e r p t payload s)). attributable s out"
proof -
  have data: "\<forall>out \<in> set (fst (deliver e r res u)). attributable s out"
    if "source_ip pkt = Some (ip_of (session_at s r))" "push (ss_reorder (session_at s r)) q pkt t1 t2 = (res, b)"
    for res b q pkt t1 t2 u
  proof -
    have g: "rb.guarded (own_packet (session_at s r)) (ss_reorder (session_at s r))"
      using session_wf_live [OF inv r] by (simp add: session_wf_def)
    have "own_packet (session_at s r) pkt" using that(1) by (simp add: own_packet_def)
    note rb.guarded_put [OF g this that(2)]
    then show ?thesis using deliver_outputs [of e r res u] attributable_own [OF inv r] by auto
  qed
  then show ?thesis
    unfolding handle_payload_def Let_def
    by (auto split: sum.splits prod.splits if_splits intro: send_outputs_attributable)
qed

text \<open>The handler's tail works on a state that differs from \<open>s\<close> only in path and counter fields.\<close>

lemma handle_encrypted_outputs:
  assumes inv: "server_inv C s"
  shows "\<forall>out \<in> set (fst (handle_encrypted C e remote h packet s)). attributable s out"
proof (cases "map_get (sv_sessions s) (h_session h)")
  case r: (Some r)
  then have lv: "live s r" by (auto simp: live_def)
  show ?thesis
  proof (cases "map_get (ss_paths (session_at s r)) (h_path h)")
    case p: (Some p)
    have gp: "good_path C s r (seen_path rm t w p)" for rm t w
    proof -
      have "good_path C s r p" using good_path_member [OF inv lv p] by blast
      then show ?thesis by (simp add: good_path_def path_ok_def seen_path_def)
    qed
    show ?thesis
    proof (cases "open_packet C (sp_aead p) h ClientToServer packet")
      case (Inr payload)
      obtain new w where w: "accept (sp_replay p) (h_seq h) = (new, w)" by (cases "accept (sp_replay p) (h_seq h)")
      let ?p1 = "seen_path remote (ev_clock e 0) w p"
      let ?s1 = "update_session r (touch_session (ev_clock e 1)) (update_session r (put_path ?p1) s)"
      let ?s2 = "update_metrics (update_path_metric (sp_metric p)
        (\<lambda>m. path_received (length payload) (path_health True m))) ?s1"
      have "server_inv C ?s2" using inv gp by (intro inv_update_metrics inv_touch inv_put_path) auto
      then have "\<forall>out \<in> set (fst (handle_payload C e r ?p1 (h_type h) payload ?s2)). attributable ?s2 out"
        using lv by (intro handle_payload_outputs) auto
      moreover have "attributable ?s2 = attributable s" by (rule attributable_cong) simp
      ultimately show ?thesis using r p Inr w by (auto simp: handle_encrypted_def Let_def)
    qed (simp add: handle_encrypted_def r p)
  qed (simp add: handle_encrypted_def r)
qed (simp add: handle_encrypted_def)

lemma handle_hello_outputs: "out \<in> set (fst (handle_hello C e remote packet s)) \<Longrightarrow> attributable s' out"
proof -
  have g: "out \<in> set (fst (snd (get_or_create_session e cred h s))) \<Longrightarrow> attributable s' out" for cred h
    by (auto simp: get_or_create_session_def Let_def attributable_def split: option.splits if_splits)
  have w: "out \<in> set (fst (repeat_welcome e remote r p s1)) \<Longrightarrow> attributable s' out" for r p s1
    by (auto simp: repeat_welcome_def attributable_def split: if_splits)
  have n: "out \<in> set (fst (register_path C e remote cred h r s1)) \<Longrightarrow> attributable s' out" for cred h r s1
    by (auto simp: register_path_def Let_def attributable_def split: if_splits sum.splits prod.splits)
  assume o: "out \<in> set (fst (handle_hello C e remote packet s))"
  show ?thesis
  proof (cases "\<exists>payload cred h. plain_payload packet = Inr payload \<and> \<not> length payload < 16
      \<and> map_get (sv_credentials s) (client_id_string (take 16 payload)) = Some cred
      \<and> parse_hello C payload (cr_key cred) (ev_clock e 0) = Inr h")
    case False
    then show ?thesis using o by (auto simp: handle_hello_def split: sum.splits option.splits if_splits)
  next
    case True
    then obtain payload cred h where t: "plain_payload packet = Inr payload" "\<not> length payload < 16"
      "map_get (sv_credentials s) (client_id_string (take 16 payload)) = Some cred"
      "parse_hello C payload (cr_key cred) (ev_clock e 0) = Inr h" by blast
    obtain r outs s1 where gc: "get_or_create_session e cred h s = (r, outs, s1)"
      by (cases "get_or_create_session e cred h s")
    show ?thesis
      using o t gc g [of cred h] w n
      by (auto simp: handle_hello_def case_prod_beta split: option.splits)
  qed
qed

lemma tun_packet_outputs: "\<forall>out \<in> set (fst (tun_packet C e packet s)). attributable s' out"
proof (cases "destination_ip packet")
  case (Some ip)
  show ?thesis
  proof (cases "map_get (sv_by_ip s) ip")
    case r: (Some r)
    obtain sel ss where n: "next_path (ev_order e) (ev_clock e 0) (session_at s r) = (sel, ss)"
      by (cases "next_path (ev_order e) (ev_clock e 0) (session_at s r)")
    show ?thesis
      using send_outputs_attributable [of _ C e r _ TypeData _ _ s']
      by (auto simp: tun_packet_def Some r n Let_def case_prod_beta split: option.splits sum.splits)
  qed (simp add: tun_packet_def Some)
qed (simp add: tun_packet_def)

text \<open>C1: Every packet the relay writes to its tunnel device, whether it comes straight from a datagram
  or out of a reorder buffer later, carries the tunnel address of a client that is authorized at that
  moment; no client can inject traffic under an address that is not its own.\<close>

theorem no_spoofed_packet:
  assumes "reachable C L c s" and "server_step C L e s ev = (outs, s')" and "WriteTun packet \<in> set outs"
  shows "\<exists>n cr. map_get (sv_credentials s) n = Some cr \<and> source_ip packet = Some (cr_tunnel_ip cr)"
proof -
  have inv: "server_inv C s" using assms(1) by (rule reachable_inv)
  have "attributable s (WriteTun packet)"
  proof (cases ev)
    case (Datagram remote pkt)
    then show ?thesis
      using assms(2,3) handle_encrypted_outputs [OF inv, of e remote _ pkt] handle_hello_outputs [of _ C e remote pkt s]
      by (auto simp: receive_datagram_def split: sum.splits if_splits) (metis fst_conv)+
  next
    case (TunPacket pkt)
    then show ?thesis
      using assms(2,3) tun_packet_outputs [of C e pkt s s] by auto
  next
    case (ReorderTick now)
    have u: "keys_unique (sv_sessions s)" using inv by (simp add: server_inv_def indexes_ok_def)
    have "set (map snd (sv_sessions s)) \<subseteq> {r. live s r}" using map_get_mem [OF u] by (auto simp: live_def)
    from flush_sessions_outputs [OF inv this, of e now] show ?thesis
      using assms(2,3) by (auto simp: ReorderTick reorder_tick_def)
  qed (use assms(2,3) in auto)
  then show ?thesis by (simp add: attributable_def)
qed

end
