(* ===== verification/Server_Handshake.thy ===== *)
theory Server_Handshake
  imports Server_Path
begin

text \<open>
  The relay's side of the handshake: what a HELLO must be to have any effect, what a fresh one does to
  sessions and paths, and that both ends then hold the same key.
\<close>

section \<open>Valid HELLO messages\<close>

definition valid_hello :: "crypto \<Rightarrow> gotime \<Rightarrow> server \<Rightarrow> bytes \<Rightarrow> server_credential \<Rightarrow> hello \<Rightarrow> bool" where
  "valid_hello C now s packet cred h \<longleftrightarrow>
     (case plain_payload packet of
        Inl _ \<Rightarrow> False
      | Inr payload \<Rightarrow> 16 \<le> length payload \<and> map_get (sv_credentials s) (client_id_string (take 16 payload)) = Some cred
          \<and> parse_hello C payload (cr_key cred) now = Inr h)"

lemma handle_hello_valid:
  assumes "valid_hello C (ev_clock e 0) s packet cred h"
  shows "handle_hello C e remote packet s =
    (case get_or_create_session e cred h s of
       (None, outs, s1) \<Rightarrow> (outs, s1)
     | (Some r, outs, s1) \<Rightarrow>
         let (outs', s2) = (case path_for_nonce (session_at s1 r) (hello_nonce h) of
               Some p \<Rightarrow> repeat_welcome e remote r p s1 | None \<Rightarrow> register_path C e remote cred h r s1)
         in (outs @ outs', s2))"
  using assms by (auto simp: valid_hello_def handle_hello_def split: sum.splits)

lemma handle_hello_invalid:
  assumes "\<nexists>cred h. valid_hello C (ev_clock e 0) s packet cred h"
  shows "\<exists>f. handle_hello C e remote packet s = ([], update_metrics f s)"
  using assms by (auto simp: valid_hello_def handle_hello_def split: sum.splits option.splits)

lemma valid_hello_credential:
  assumes inv: "server_inv C s" and v: "valid_hello C now s packet cred h"
  shows "map_get (sv_credentials s) (client_id_string (cr_client_id cred)) = Some cred"
    and "hello_client_id h = cr_client_id cred" and "wf_hello h" and "hello_weight h \<noteq> 0"
proof -
  obtain payload where p: "16 \<le> length payload" "map_get (sv_credentials s) (client_id_string (take 16 payload)) = Some cred"
    "parse_hello C payload (cr_key cred) now = Inr h"
    using v by (auto simp: valid_hello_def split: sum.splits)
  have c: "client_id_string (take 16 payload) = client_id_string (cr_client_id cred)" using cred_lookup [OF inv p(2)] .
  then show "map_get (sv_credentials s) (client_id_string (cr_client_id cred)) = Some cred" using p(2) by simp
  have "hello_client_id h = take 16 payload"
    using p(3) by (auto simp: parse_hello_defs Let_def slice_def split: if_splits)
  then show "hello_client_id h = cr_client_id cred" using c by simp
  show "wf_hello h" using p(3) by (auto simp: parse_hello_defs Let_def wf_hello_def zero16_def split: if_splits)
  show "hello_weight h \<noteq> 0" using p(3) by (rule parse_hello_weight)
qed

section \<open>Sessions\<close>

text \<open>The client's current session takes the HELLO.\<close>

definition session_takes :: "server \<Rightarrow> server_credential \<Rightarrow> hello \<Rightarrow> sref \<Rightarrow> bool" where
  "session_takes s cred h r \<longleftrightarrow>
     map_get (sv_by_client s) (client_id_string (cr_client_id cred)) = Some r \<and> session_accepts (session_at s r) h"

lemma get_or_create_same:
  assumes "map_get (sv_credentials s) (client_id_string (cr_client_id cred)) = Some cred" and "session_takes s cred h r"
  shows "get_or_create_session e cred h s = (Some r, [], s)"
  using assms by (simp add: get_or_create_session_def session_takes_def Let_def)

text \<open>Otherwise the client gets a new session; \<open>cleared\<close> is the state without the old one.\<close>

definition cleared :: "server \<Rightarrow> server_credential \<Rightarrow> server" where
  "cleared s cred =
     (case map_get (sv_by_client s) (client_id_string (cr_client_id cred)) of
        Some r \<Rightarrow> detach_session r (mark_closing r s) | None \<Rightarrow> s)"

definition renewed :: "env \<Rightarrow> server \<Rightarrow> server_credential \<Rightarrow> hello \<Rightarrow> u64 \<Rightarrow> server" where
  "renewed e s cred h sid =
     (let t = add_session (new_session (sv_config s) cred h sid (ev_clock e 1)) (cleared s cred) in
      case map_get (sv_by_client s) (client_id_string (cr_client_id cred)) of
        Some old \<Rightarrow> retire_paths old t | None \<Rightarrow> t)"

lemma get_or_create_new:
  assumes "map_get (sv_credentials s) (client_id_string (cr_client_id cred)) = Some cred"
    and "\<nexists>r. session_takes s cred h r" and "pick_session_id (sv_sessions s) (ev_ids e) = Some sid"
  shows "get_or_create_session e cred h s =
    (Some (length (sv_heap (cleared s cred))),
     if sv_hook (renewed e s cred h sid) then [ClientSeen (client_id_string (cr_client_id cred))] else [],
     renewed e s cred h sid)"
proof -
  have na: "(case map_get (sv_by_client s) (client_id_string (cr_client_id cred)) of
      Some r \<Rightarrow> session_accepts (session_at s r) h | None \<Rightarrow> False) = False"
    using assms(2) by (auto simp: session_takes_def split: option.splits)
  show ?thesis
    using assms(1,3) na unfolding renewed_def cleared_def add_session_def new_session_fields
    by (simp add: get_or_create_session_def Let_def del: One_nat_def)
qed

lemma retire_fields [simp]:
  "sv_sessions (retire_paths r s) = sv_sessions s" "sv_by_client (retire_paths r s) = sv_by_client s"
  "sv_by_ip (retire_paths r s) = sv_by_ip s" "sv_credentials (retire_paths r s) = sv_credentials s"
  "sv_config (retire_paths r s) = sv_config s" "length (sv_heap (retire_paths r s)) = length (sv_heap s)"
  "live (retire_paths r s) = live s" "sv_hook (retire_paths r s) = sv_hook s"
  by (simp_all add: retire_paths_def fun_eq_iff)

lemma renewed_session:
  assumes inv: "server_inv C s" and sid: "pick_session_id (sv_sessions s) (ev_ids e) = Some sid"
    and r: "r = length (sv_heap s)"
  shows "length (sv_heap (cleared s cred)) = r"
    and "map_get (sv_sessions (renewed e s cred h sid)) sid = Some r"
    and "map_get (sv_by_client (renewed e s cred h sid)) (client_id_string (cr_client_id cred)) = Some r"
    and "map_get (sv_by_ip (renewed e s cred h sid)) (cr_tunnel_ip cred) = Some r"
    and "session_at (renewed e s cred h sid) r = new_session (sv_config s) cred h sid (ev_clock e 1)"
    and "length (sv_heap (renewed e s cred h sid)) = Suc r"
    and "map_get (sv_by_client s) (client_id_string (cr_client_id cred)) = Some old \<Longrightarrow> \<not> live (renewed e s cred h sid) old"
proof -
  let ?n = "client_id_string (cr_client_id cred)"
  have i: "indexes_ok s" using inv by (simp add: server_inv_def)
  have cl: "length (sv_heap (cleared s cred)) = r \<and> map_get (sv_sessions (cleared s cred)) sid = None
      \<and> (\<forall>old. map_get (sv_by_client s) ?n = Some old \<longrightarrow> old < r \<and> \<not> live (cleared s cred) old)"
  proof (cases "map_get (sv_by_client s) ?n")
    case None
    then show ?thesis using pick_session_id_fresh [OF sid] by (simp add: cleared_def r)
  next
    case (Some old)
    have lo: "live s old" using indexes_client [OF i Some] by blast
    have "cleared s cred = mark_closing old (drop_session old s)"
      using Some by (simp add: cleared_def detach_mark_drop [OF i lo])
    then show ?thesis
      using Some pick_session_id_fresh [OF sid] live_bound [OF i lo] live_drop [OF i lo]
      by (simp add: mark_closing_def map_get_del r)
  qed
  then show "length (sv_heap (cleared s cred)) = r" by blast
  let ?t = "add_session (new_session (sv_config s) cred h sid (ev_clock e 1)) (cleared s cred)"
  have rn: "renewed e s cred h sid = (case map_get (sv_by_client s) ?n of Some old \<Rightarrow> retire_paths old ?t | None \<Rightarrow> ?t)"
    by (simp only: renewed_def Let_def)
  have t: "map_get (sv_sessions ?t) sid = Some r" "map_get (sv_by_client ?t) ?n = Some r"
    "map_get (sv_by_ip ?t) (cr_tunnel_ip cred) = Some r" "length (sv_heap ?t) = Suc r"
    "session_at ?t r = new_session (sv_config s) cred h sid (ev_clock e 1)"
    using cl by (simp_all add: map_get_put session_at_def nth_append)
  show "map_get (sv_sessions (renewed e s cred h sid)) sid = Some r"
    "map_get (sv_by_client (renewed e s cred h sid)) ?n = Some r"
    "map_get (sv_by_ip (renewed e s cred h sid)) (cr_tunnel_ip cred) = Some r"
    "length (sv_heap (renewed e s cred h sid)) = Suc r"
    using t by (auto simp: rn split: option.split)
  show "session_at (renewed e s cred h sid) r = new_session (sv_config s) cred h sid (ev_clock e 1)"
  proof (cases "map_get (sv_by_client s) ?n")
    case (Some old)
    then have "old < r" using cl by blast
    then show ?thesis using t(5) Some by (simp add: rn retire_paths_def session_at_update)
  qed (use t(5) in \<open>simp add: rn\<close>)
  show "\<not> live (renewed e s cred h sid) old" if "map_get (sv_by_client s) ?n = Some old"
    using that cl live_add [of "cleared s cred" "new_session (sv_config s) cred h sid (ev_clock e 1)" old] by (simp add: rn)
qed

section \<open>Registering a path\<close>

definition registered :: "crypto \<Rightarrow> env \<Rightarrow> udp_addr \<Rightarrow> server_credential \<Rightarrow> hello \<Rightarrow> welcome_msg \<Rightarrow> sref \<Rightarrow> server \<Rightarrow> server_path" where
  "registered C e remote cred h w r s =
     new_path C cred h w (ss_id (session_at s r)) (ss_next_path_id (session_at s r) + 1) remote (ev_clock e 3)"

lemma register_path_ok:
  assumes "r < length (sv_heap s)" and "\<not> ss_closing (session_at s r)"
    and "ss_next_path_id (session_at s r) + 1 \<noteq> 0" "ss_next_path_id (session_at s r) + 1 < 2 ^ 31"
    and "new_welcome (hello_nonce h) (ev_clock e 2) (ev_nonce e) = Inr w" and "ev_udp_ok e"
  shows "register_path C e remote cred h r s =
    ([SendTo remote (sp_welcome_packet (registered C e remote cred h w r s))],
     update_metrics (update_path_metric (sp_metric (registered C e remote cred h w r s)) (path_health True))
       (update_session r (\<lambda>ss. touch_session (ev_clock e 4)
          (put_path (registered C e remote cred h w r s) (ss\<lparr>ss_next_path_id := ss_next_path_id ss + 1\<rparr>))) s))"
proof -
  let ?pid = "ss_next_path_id (session_at s r) + 1"
  let ?s = "update_session r (\<lambda>ss. ss\<lparr>ss_next_path_id := ?pid\<rparr>) s"
  let ?p = "registered C e remote cred h w r s"
  have at: "session_at ?s r = (session_at s r)\<lparr>ss_next_path_id := ?pid\<rparr>" using assms(1) by (simp add: session_at_update)
  have np: "\<not> (?pid = 0 \<or> 2 ^ 31 \<le> ?pid)" using assms(3,4) by (simp add: not_le)
  have p: "new_path C cred h w (ss_id (session_at ?s r)) ?pid remote (ev_clock e 3) = ?p"
    by (simp add: at registered_def)
  have "register_path C e remote cred h r s =
    ([SendTo remote (sp_welcome_packet ?p)],
     update_session r (touch_session (ev_clock e 4)) (update_session r (put_path ?p)
       (update_metrics (update_path_metric (sp_metric ?p) (path_health True)) ?s)))"
    unfolding register_path_def Let_def if_not_P [OF np] assms(5) sum.case p
    using assms(2,6) by (simp add: at)
  also have "update_session r (touch_session (ev_clock e 4)) (update_session r (put_path ?p)
       (update_metrics (update_path_metric (sp_metric ?p) (path_health True)) ?s))
    = update_metrics (update_path_metric (sp_metric ?p) (path_health True))
       (update_session r (\<lambda>ss. touch_session (ev_clock e 4) (put_path ?p (ss\<lparr>ss_next_path_id := ss_next_path_id ss + 1\<rparr>))) s)"
    using assms(1) by (simp add: update_session_def update_metrics_def session_at_def)
  finally show ?thesis .
qed

lemma new_path_remote [simp]: "sp_remote (new_path C cred h w sid pid remote now) = Some remote"
  by (simp add: new_path_def)

text \<open>What the client makes of the WELCOME of a new path.\<close>

lemma welcome_agrees:
  assumes "length (hello_nonce h) = 16" and w: "w = \<lparr> welcome_client_nonce = hello_nonce h, welcome_server_nonce = sn, welcome_time = t \<rparr>"
    and "length sn = 16" and "wire_time t"
    and p_def: "p = new_path C cred h w sid pid remote now"
  shows "\<exists>pl. parse_header (sp_welcome_packet p) = Inr (welcome_header sid pid) \<and> plain_payload (sp_welcome_packet p) = Inr pl
    \<and> (\<forall>clock. \<bar>clock - truncate_second t\<bar> \<le> 2 * minute \<longrightarrow>
         (\<exists>v. parse_welcome C pl (cr_key cred) (welcome_header sid pid) (hello_nonce h) clock = Inr v
            \<and> sp_aead p = new_aead C (cr_key cred) (hello_nonce h) (welcome_server_nonce v) sid pid))"
proof -
  let ?m = "marshal_welcome C w (cr_key cred) (welcome_header sid pid)"
  have "length ?m = 72" using assms(1,3) by (simp add: w marshal_welcome_def welcome_body_def)
  then have b: "sp_welcome_packet p = marshal_header (welcome_header sid pid) @ ?m"
    by (simp add: p_def new_path_def marshal_plain_def)
  have "parse_welcome C ?m (cr_key cred) (welcome_header sid pid) (hello_nonce h) clock = Inr (w\<lparr>welcome_time := truncate_second t\<rparr>)"
    if "\<bar>clock - truncate_second t\<bar> \<le> 2 * minute" for clock
    using parse_marshal_welcome [of w clock C "cr_key cred" "welcome_header sid pid"] assms(1,3,4) that by (simp add: w)
  moreover have "sp_aead p = new_aead C (cr_key cred) (hello_nonce h) sn sid pid"
    by (simp add: p_def new_path_def w)
  ultimately show ?thesis by (intro exI [of _ ?m]) (auto simp: b plain_payload_def w)
qed

text \<open>The state the handler registers the path in.\<close>

lemma hello_session:
  assumes re: "reachable C L c s" and v: "valid_hello C now s packet cred h"
    and fresh: "\<forall>r. session_takes s cred h r \<longrightarrow>
      path_for_nonce (session_at s r) (hello_nonce h) = None \<and> ss_next_path_id (session_at s r) < 2 ^ 31 - 1"
    and sid: "pick_session_id (sv_sessions s) (ev_ids e) \<noteq> None"
  shows "\<exists>r outs t. get_or_create_session e cred h s = (Some r, outs, t) \<and> r < length (sv_heap t)
    \<and> map_get (sv_sessions t) (ss_id (session_at t r)) = Some r \<and> map_get (sv_by_ip t) (cr_tunnel_ip cred) = Some r
    \<and> \<not> ss_closing (session_at t r) \<and> path_for_nonce (session_at t r) (hello_nonce h) = None
    \<and> ss_next_path_id (session_at t r) < 2 ^ 31 - 1"
proof -
  have inv: "server_inv C s" and i: "indexes_ok s" using reachable_inv [OF re] by (auto simp: server_inv_def)
  note cr = valid_hello_credential [OF inv v]
  show ?thesis
  proof (cases "\<exists>r. session_takes s cred h r")
    case True
    then obtain r where r: "session_takes s cred h r" by blast
    then have lr: "live s r" "client_id_string (cr_client_id cred) = client_of (session_at s r)"
      using indexes_client [OF i, of "client_id_string (cr_client_id cred)" r] by (auto simp: session_takes_def)
    have "authorized (sv_credentials s) (ss_credential (session_at s r))"
      using inv lr(1) by (simp add: server_inv_def sessions_ok_def)
    then have "ip_of (session_at s r) = cr_tunnel_ip cred" using cr(1) lr(2) by (auto simp: authorized_def)
    then show ?thesis
      using get_or_create_same [OF cr(1) r] indexes_live [OF i lr(1)] fresh r by auto
  next
    case False
    obtain sid where s: "pick_session_id (sv_sessions s) (ev_ids e) = Some sid" using sid by blast
    have g: "get_or_create_session e cred h s = (Some (length (sv_heap s)),
        if sv_hook (renewed e s cred h sid) then [ClientSeen (client_id_string (cr_client_id cred))] else [],
        renewed e s cred h sid)"
      using get_or_create_new [OF cr(1) False s] renewed_session(1) [OF inv s refl] by simp
    have at: "session_at (renewed e s cred h sid) (length (sv_heap s)) = new_session (sv_config s) cred h sid (ev_clock e 1)"
      by (rule renewed_session(5) [OF inv s refl])
    have "ss_next_path_id (new_session (sv_config s) cred h sid (ev_clock e 1)) = 0" by (simp add: new_session_def)
    then show ?thesis
      unfolding g using renewed_session(2,4,6) [OF inv s refl, of cred h]
      by (simp add: at path_for_nonce_def)
  qed
qed

lemma next_path_id_ok: "i < 2 ^ 31 - 1 \<Longrightarrow> i + 1 \<noteq> 0 \<and> i + 1 < 2 ^ 31" for i :: u32
proof -
  assume i: "i < 2 ^ 31 - 1"
  have "unat (i + 1) = Suc (unat i)" using i by (rule unat_Suc_no_wrap)
  moreover have "unat i < 2 ^ 31 - 1" using i by (simp add: word_less_nat_alt)
  ultimately show ?thesis by (auto simp: word_less_nat_alt)
qed

lemma receive_hello:
  "parse_header packet = Inr hh \<Longrightarrow> h_type hh = TypeHello \<Longrightarrow>
   receive_datagram C e remote packet s = handle_hello C e remote packet s"
  by (simp add: receive_datagram_def)

text \<open>The answer to a valid HELLO with an unused nonce.\<close>

lemma hello_answered:
  assumes "reachable C L c s" and "parse_header packet = Inr hh" and "h_type hh = TypeHello"
    and "valid_hello C (ev_clock e 0) s packet cred h"
    and "\<forall>r. session_takes s cred h r \<longrightarrow>
      path_for_nonce (session_at s r) (hello_nonce h) = None \<and> ss_next_path_id (session_at s r) < 2 ^ 31 - 1"
    and "pick_session_id (sv_sessions s) (ev_ids e) \<noteq> None"
    and "ev_nonce e = Some sn" and "ev_udp_ok e"
  shows "\<exists>outs t r sid pid p. receive_datagram C e remote packet s = (outs @ [SendTo remote (sp_welcome_packet p)], t)
    \<and> (\<forall>out \<in> set outs. \<exists>i. out = ClientSeen i) \<and> pid \<noteq> 0
    \<and> p = new_path C cred h \<lparr> welcome_client_nonce = hello_nonce h, welcome_server_nonce = sn, welcome_time = ev_clock e 2 \<rparr>
        sid pid remote (ev_clock e 3)
    \<and> map_get (sv_sessions t) sid = Some r \<and> map_get (sv_by_ip t) (cr_tunnel_ip cred) = Some r
    \<and> path_at t r pid = Some p"
proof -
  have inv: "server_inv C s" using assms(1) by (rule reachable_inv)
  obtain r outs u where g: "get_or_create_session e cred h s = (Some r, outs, u)" "r < length (sv_heap u)"
    "map_get (sv_sessions u) (ss_id (session_at u r)) = Some r" "map_get (sv_by_ip u) (cr_tunnel_ip cred) = Some r"
    "\<not> ss_closing (session_at u r)" "path_for_nonce (session_at u r) (hello_nonce h) = None"
    "ss_next_path_id (session_at u r) < 2 ^ 31 - 1"
    using hello_session [OF assms(1,4,5,6)] by blast
  let ?w = "\<lparr> welcome_client_nonce = hello_nonce h, welcome_server_nonce = sn, welcome_time = ev_clock e 2 \<rparr>"
  let ?sid = "ss_id (session_at u r)" and ?pid = "ss_next_path_id (session_at u r) + 1"
  let ?p = "registered C e remote cred h ?w r u"
  have w: "new_welcome (hello_nonce h) (ev_clock e 2) (ev_nonce e) = Inr ?w"
    by (simp add: new_welcome_def assms(7))
  have pid: "?pid \<noteq> 0" "?pid < 2 ^ 31"
    using next_path_id_ok [OF g(7)] by auto
  note rp = register_path_ok [OF g(2,5) pid w assms(8), of C remote cred]
  let ?t = "snd (register_path C e remote cred h r u)"
  have rd: "receive_datagram C e remote packet s = (outs @ [SendTo remote (sp_welcome_packet ?p)], ?t)"
    using receive_hello [OF assms(2,3)] handle_hello_valid [OF assms(4)] g(1,6) rp by simp
  have seen: "\<forall>out \<in> set outs. \<exists>i. out = ClientSeen i"
    using g(1) by (auto simp: get_or_create_session_def Let_def split: option.splits if_splits)
  have at: "path_at ?t r ?pid = Some ?p" "map_get (sv_sessions ?t) ?sid = Some r"
    "map_get (sv_by_ip ?t) (cr_tunnel_ip cred) = Some r"
    using g(2-4) by (simp_all add: rp path_at_update touch_session_def put_path_def map_get_put registered_def)
  have pr: "?p = new_path C cred h ?w ?sid ?pid remote (ev_clock e 3)" by (simp add: registered_def)
  show ?thesis
    by (rule exI [of _ outs], rule exI [of _ ?t], rule exI [of _ r], rule exI [of _ ?sid], rule exI [of _ ?pid],
        rule exI [of _ ?p]) (intro conjI rd seen pid(1) pr at)
qed

text \<open>A valid HELLO with an unused nonce is answered by exactly one WELCOME to its sender; the relay then
  routes the client's tunnel address to a session with the announced number and has the announced path in it;
  and a client that reads the WELCOME within the allowed clock skew accepts it and derives the very key the
  relay holds for the path. Needed: a random source that works, a datagram that can be sent, a clock in the
  representable range, and fewer than 2^31 - 1 paths registered in the session before.\<close>

theorem handshake_agreement:
  assumes "reachable C L c s" and "parse_header packet = Inr hh" and "h_type hh = TypeHello"
    and "valid_hello C (ev_clock e 0) s packet cred h"
    and "\<forall>r. session_takes s cred h r \<longrightarrow>
      path_for_nonce (session_at s r) (hello_nonce h) = None \<and> ss_next_path_id (session_at s r) < 2 ^ 31 - 1"
    and "pick_session_id (sv_sessions s) (ev_ids e) \<noteq> None"
    and "ev_nonce e = Some sn" and "length sn = 16" and "ev_udp_ok e" and "wire_time (ev_clock e 2)"
  shows "\<exists>outs b t wh pl r p. receive_datagram C e remote packet s = (outs @ [SendTo remote b], t)
    \<and> (\<forall>out \<in> set outs. \<exists>i. out = ClientSeen i)
    \<and> parse_header b = Inr wh \<and> h_type wh = TypeWelcome \<and> plain_payload b = Inr pl
    \<and> map_get (sv_sessions t) (h_session wh) = Some r \<and> map_get (sv_by_ip t) (cr_tunnel_ip cred) = Some r
    \<and> path_at t r (h_path wh) = Some p \<and> sp_remote p = Some remote
    \<and> (\<forall>clock. \<bar>clock - truncate_second (ev_clock e 2)\<bar> \<le> 2 * minute \<longrightarrow>
         (\<exists>w. parse_welcome C pl (cr_key cred) wh (hello_nonce h) clock = Inr w
            \<and> sp_aead p = new_aead C (cr_key cred) (hello_nonce h) (welcome_server_nonce w) (h_session wh) (h_path wh)))"
proof -
  have inv: "server_inv C s" using assms(1) by (rule reachable_inv)
  have wf: "length (hello_nonce h) = 16" using valid_hello_credential(3) [OF inv assms(4)] by (simp add: wf_hello_def)
  obtain outs t r sid pid p where a:
    "receive_datagram C e remote packet s = (outs @ [SendTo remote (sp_welcome_packet p)], t)"
    "\<forall>out \<in> set outs. \<exists>i. out = ClientSeen i"
    "p = new_path C cred h \<lparr> welcome_client_nonce = hello_nonce h, welcome_server_nonce = sn, welcome_time = ev_clock e 2 \<rparr>
        sid pid remote (ev_clock e 3)"
    "map_get (sv_sessions t) sid = Some r" "map_get (sv_by_ip t) (cr_tunnel_ip cred) = Some r" "path_at t r pid = Some p"
    using hello_answered [OF assms(1-7,9)] by blast
  obtain pl where pl: "parse_header (sp_welcome_packet p) = Inr (welcome_header sid pid)"
    "plain_payload (sp_welcome_packet p) = Inr pl"
    "\<forall>clock. \<bar>clock - truncate_second (ev_clock e 2)\<bar> \<le> 2 * minute \<longrightarrow>
      (\<exists>v. parse_welcome C pl (cr_key cred) (welcome_header sid pid) (hello_nonce h) clock = Inr v
         \<and> sp_aead p = new_aead C (cr_key cred) (hello_nonce h) (welcome_server_nonce v) sid pid)"
    using welcome_agrees [OF wf refl assms(8,10) a(3)] by blast
  have hd: "h_type (welcome_header sid pid) = TypeWelcome" "h_session (welcome_header sid pid) = sid"
    "h_path (welcome_header sid pid) = pid" by (simp_all add: welcome_header_def)
  have rem: "sp_remote p = Some remote" by (simp add: a(3))
  show ?thesis
    by (rule exI [of _ outs], rule exI [of _ "sp_welcome_packet p"], rule exI [of _ t],
        rule exI [of _ "welcome_header sid pid"], rule exI [of _ pl], rule exI [of _ r], rule exI [of _ p], unfold hd)
      (intro conjI a pl rem refl)
qed

text \<open>C17: A repeated HELLO (same nonce, same address) gets the very same WELCOME again and creates nothing: no
  session, no path, no new key. From any other address it gets no answer at all, so a recorded HELLO cannot be
  used to move the path or to bounce WELCOMEs.\<close>

theorem hello_retransmission:
  assumes "reachable C L c s" and "parse_header packet = Inr hh" and "h_type hh = TypeHello"
    and "valid_hello C (ev_clock e 0) s packet cred h" and "session_takes s cred h r"
    and "path_for_nonce (session_at s r) (hello_nonce h) = Some p" and "ev_udp_ok e"
  shows "if same_udp_addr (sp_remote p) (Some remote)
    then \<exists>t. receive_datagram C e remote packet s = ([SendTo remote (sp_welcome_packet p)], t)
      \<and> sv_sessions t = sv_sessions s \<and> length (sv_heap t) = length (sv_heap s)
      \<and> ss_next_path_id (session_at t r) = ss_next_path_id (session_at s r)
      \<and> (\<forall>pid. path_at t r pid = (if pid = sp_id p then Some (p\<lparr>sp_healthy := True\<rparr>) else path_at s r pid))
    else receive_datagram C e remote packet s = ([], s)"
proof -
  have inv: "server_inv C s" and i: "indexes_ok s" using reachable_inv [OF assms(1)] by (auto simp: server_inv_def)
  note g = get_or_create_same [OF valid_hello_credential(1) [OF inv assms(4)] assms(5)]
  have rd: "receive_datagram C e remote packet s = repeat_welcome e remote r p s"
    using receive_hello [OF assms(2,3)] handle_hello_valid [OF assms(4)] g assms(6) by simp
  have b: "r < length (sv_heap s)"
    using indexes_client [OF i, of _ r] live_bound [OF i] assms(5) by (auto simp: session_takes_def)
  show ?thesis
  proof (cases "same_udp_addr (sp_remote p) (Some remote)")
    case True
    let ?t = "update_metrics (update_path_metric (sp_metric p) (path_health True))
        (update_session r (put_path (p\<lparr>sp_healthy := True\<rparr>)) s)"
    have "receive_datagram C e remote packet s = ([SendTo remote (sp_welcome_packet p)], ?t)"
      using rd True assms(7) by (simp add: repeat_welcome_def)
    then show ?thesis
      using True b by (auto simp: session_at_update put_path_def path_at_def map_get_put)
  qed (simp add: rd repeat_welcome_def)
qed

text \<open>C18: A client that starts again (a valid HELLO its current session does not take) gets a new session and
  loses the old one: afterwards the client and its tunnel address lead to the new session, which has no queued
  packet and at most the one new path, and the old session is in no index.\<close>

theorem restart_replaces_session:
  assumes "reachable C L c s" and "valid_hello C (ev_clock e 0) s packet cred h"
    and "map_get (sv_by_client s) (client_id_string (cr_client_id cred)) = Some old"
    and "\<not> session_accepts (session_at s old) h" and "pick_session_id (sv_sessions s) (ev_ids e) = Some sid"
    and "get_or_create_session e cred h s = (res, outs, t)"
  shows "\<exists>r. res = Some r \<and> r \<noteq> old \<and> \<not> live t old
    \<and> map_get (sv_sessions t) sid = Some r \<and> map_get (sv_by_client t) (client_id_string (cr_client_id cred)) = Some r
    \<and> map_get (sv_by_ip t) (cr_tunnel_ip cred) = Some r \<and> ss_paths (session_at t r) = []
    \<and> ss_reorder (session_at t r)
        = new_buffer (sc_reorder_window (sv_config s)) (duration_value (sc_reorder_delay (sv_config s)) (80 * millisecond))
    \<and> (sv_hook s \<longrightarrow> outs = [ClientSeen (client_id_string (cr_client_id cred))])"
proof -
  have inv: "server_inv C s" and i: "indexes_ok s" using reachable_inv [OF assms(1)] by (auto simp: server_inv_def)
  have n: "\<nexists>r. session_takes s cred h r" using assms(3,4) by (auto simp: session_takes_def)
  have lo: "live s old" using indexes_client [OF i assms(3)] by blast
  have g: "res = Some (length (sv_heap s))" "t = renewed e s cred h sid"
    "outs = (if sv_hook t then [ClientSeen (client_id_string (cr_client_id cred))] else [])"
    using get_or_create_new [OF valid_hello_credential(1) [OF inv assms(2)] n assms(5)] assms(6)
      renewed_session(1) [OF inv assms(5) refl, of cred] by auto
  have at: "session_at t (length (sv_heap s)) = new_session (sv_config s) cred h sid (ev_clock e 1)"
    unfolding g(2) by (rule renewed_session(5) [OF inv assms(5) refl])
  have k: "sv_hook t = sv_hook s"
    unfolding g(2) renewed_def cleared_def
    by (simp add: assms(3) detach_mark_drop [OF i lo]) (simp add: mark_closing_def)
  show ?thesis
    using renewed_session(2-4) [OF inv assms(5) refl, of cred h] renewed_session(7) [OF inv assms(5) refl assms(3), of h]
      at live_bound [OF i lo] k
    by (simp add: g(1,3)) (simp add: g(2) new_session_def)
qed


end
