(* ===== verification/Demo.thy ===== *)
theory Demo
  imports Server_Path Server_Facts Server_Handshake
begin

text \<open>
  One concrete run of the relay, evaluated in the kernel: a relay with one client, the client's HELLO
  on one path, a DATA packet, a packet for the client. The closed examples of the other theories'
  properties are read off its states.
\<close>

section \<open>The configuration\<close>

definition demo_lib :: net_lib where
  "demo_lib = \<lparr> nl_getenv = (\<lambda>_. []), nl_resolve_udp = (\<lambda>_. True), nl_parse_ip = (\<lambda>_. Some True),
     nl_split_host = (\<lambda>_. Some ''localhost'') \<rparr>"

definition demo_key :: bytes where
  "demo_key = map of_nat [1..<33]"

definition demo_id :: bytes where
  "demo_id = map of_nat [1..<17]"

definition demo_client :: client_credential where
  "demo_client = \<lparr> cl_name = ''a'', cl_client_id = client_id_string demo_id, cl_psk = b64_encode std_alphabet True demo_key,
     cl_psk_env = [], cl_tunnel_address = ''10.0.0.2/24'' \<rparr>"

definition demo_server_config :: server_config where
  "demo_server_config = \<lparr> sc_listen = '':4430'', sc_tunnel_name = ''lf'', sc_tunnel_address = ''10.0.0.1/24'', sc_mtu = 1280,
     sc_clients = [demo_client], sc_configure_interface = False, sc_session_timeout = 0, sc_reorder_delay = 0,
     sc_reorder_window = 512, sc_stats_interval = 0, sc_logging = \<lparr> lc_level = ''info'', lc_format = ''json'' \<rparr>,
     sc_metrics_listen = [], sc_management = None \<rparr>"

text \<open>Primitives that are quick to evaluate: a tag depends on the lengths only.\<close>

definition demo_crypto :: crypto where
  "demo_crypto = example_crypto\<lparr>hmac_sha256 := (\<lambda>k m. of_nat (length k + length m))\<rparr>"

lemma gcm_laws_demo [simp]: "gcm_laws demo_crypto"
  using gcm_laws_example by (simp add: gcm_laws_def demo_crypto_def)

definition demo_time :: gotime where
  "demo_time = 63835596800 * 1000000000"

definition demo_env :: env where
  "demo_env = \<lparr> ev_clock = (\<lambda>_. demo_time), ev_ids = [7], ev_nonce = Some (replicate 16 9), ev_udp_ok = True,
     ev_tun_ok = (\<lambda>_ _. True), ev_order = [] \<rparr>"

definition demo_addr :: udp_addr where
  "demo_addr = \<lparr> ua_ip = [192, 0, 2, 1], ua_port = 5000, ua_zone = [] \<rparr>"

definition demo_registry :: registry where
  "demo_registry = new_registry ''server'' demo_time"

definition demo_hello :: hello where
  "demo_hello = \<lparr> hello_client_id = demo_id, hello_instance_nonce = replicate 16 3, hello_nonce = replicate 16 5,
     hello_time = demo_time, hello_path_name = ''w'', hello_weight = 100, hello_wire_version = 2 \<rparr>"

definition demo_hello_packet :: bytes where
  "demo_hello_packet = marshal_header \<lparr> h_type = TypeHello, h_flags = 0, h_session = 0, h_path = 0, h_seq = 0 \<rparr>
     @ (case marshal_hello demo_crypto demo_hello demo_key of Inr b \<Rightarrow> b | Inl _ \<Rightarrow> [])"

definition demo_s0 :: server where
  "demo_s0 = empty_server demo_server_config demo_registry"

definition demo_s1 :: server where
  "demo_s1 = snd (server_step demo_crypto demo_lib demo_env demo_s0 (Authorize demo_client))"

definition demo_s2 :: server where
  "demo_s2 = snd (server_step demo_crypto demo_lib demo_env demo_s1 (Datagram demo_addr demo_hello_packet))"

lemma demo_reachable0: "reachable demo_crypto demo_lib demo_server_config demo_s0"
  unfolding demo_s0_def by (rule reachable.start) (simp add: demo_registry_def new_registry_def)

lemma demo_reachable1: "reachable demo_crypto demo_lib demo_server_config demo_s1"
  unfolding demo_s1_def by (rule reachable.step [OF demo_reachable0 surjective_pairing])

lemma demo_reachable2: "reachable demo_crypto demo_lib demo_server_config demo_s2"
  unfolding demo_s2_def by (rule reachable.step [OF demo_reachable1 surjective_pairing])

definition demo_cred :: server_credential where
  "demo_cred = \<lparr> cr_name = ''a'', cr_client_id = demo_id, cr_key = demo_key, cr_tunnel_ip = Addr4 0x0A000002 \<rparr>"

definition demo_welcome :: welcome_msg where
  "demo_welcome = \<lparr> welcome_client_nonce = replicate 16 5, welcome_server_nonce = replicate 16 9, welcome_time = demo_time \<rparr>"

definition demo_path :: server_path where
  "demo_path = new_path demo_crypto demo_cred demo_hello demo_welcome 7 1 demo_addr demo_time"

definition demo_session :: server_session where
  "demo_session = (put_path demo_path (new_session demo_server_config demo_cred demo_hello 7 demo_time))
     \<lparr>ss_last_seen := unix_nano demo_time, ss_next_path_id := 1\<rparr>"

lemma demo_parsed:
  "parse_client_id (cl_client_id demo_client) = Inr demo_id"
  "credential_key demo_lib demo_client = Inr demo_key"
  "parse_prefix4 (cl_tunnel_address demo_client) = Some (0x0A000002, 24)"
  "parse_prefix4 (sc_tunnel_address demo_server_config) = Some (0x0A000001, 24)"
  "prefix4_contains (0x0A000001, 24) 0x0A000002"
  by code_simp+

lemma demo_s1_eq: "demo_s1 = demo_s0\<lparr>sv_credentials := [(client_id_string demo_id, demo_cred)]\<rparr>"
  by (simp add: demo_s1_def authorize_client_def demo_parsed Let_def demo_s0_def empty_server_def demo_cred_def)
    (simp add: demo_client_def)

definition demo_hello_payload :: bytes where
  "demo_hello_payload = hello_body demo_hello @ sign demo_crypto demo_key [hello_v2_domain, hello_body demo_hello]"

lemma demo_hello_packet_eq:
  "demo_hello_packet = marshal_header \<lparr> h_type = TypeHello, h_flags = 0, h_session = 0, h_path = 0, h_seq = 0 \<rparr> @ demo_hello_payload"
proof -
  have "\<not> 63 < length (hello_path_name demo_hello)" "hello_instance_nonce demo_hello \<noteq> zero16"
    by code_simp+
  then show ?thesis by (simp add: demo_hello_packet_def demo_hello_payload_def marshal_hello_def)
qed

lemma demo_hello_parsed:
  "parse_hello demo_crypto demo_hello_payload demo_key demo_time = Inr demo_hello"
  "take 16 demo_hello_payload = demo_id" "\<not> length demo_hello_payload < 16"
  by code_simp+

lemma demo_get_session:
  "get_or_create_session demo_env demo_cred demo_hello demo_s1 =
     (Some 0, [], update_metrics (add_sessions 1)
       (demo_s1\<lparr>sv_heap := [new_session demo_server_config demo_cred demo_hello 7 demo_time],
          sv_sessions := [(7, 0)], sv_by_client := [(client_id_string demo_id, 0)], sv_by_ip := [(Addr4 0x0A000002, 0)]\<rparr>))"
  by (simp add: get_or_create_session_def Let_def demo_s1_eq demo_s0_def empty_server_def demo_cred_def demo_env_def
      update_metrics_def)

definition demo_metrics :: registry where
  "demo_metrics = sv_metrics demo_s2"

text \<open>The state the path is registered in.\<close>

definition demo_u :: server where
  "demo_u = update_metrics (add_sessions 1)
       (demo_s1\<lparr>sv_heap := [new_session demo_server_config demo_cred demo_hello 7 demo_time],
          sv_sessions := [(7, 0)], sv_by_client := [(client_id_string demo_id, 0)], sv_by_ip := [(Addr4 0x0A000002, 0)]\<rparr>)"

lemma demo_u_facts:
  "session_at demo_u 0 = new_session demo_server_config demo_cred demo_hello 7 demo_time"
  "length (sv_heap demo_u) = 1"
  by (simp_all add: demo_u_def session_at_def)

lemma demo_env_facts [simp]:
  "ev_clock demo_env = (\<lambda>_. demo_time)" "ev_udp_ok demo_env" "ev_nonce demo_env = Some (replicate 16 9)"
  "ev_ids demo_env = [7]" "ev_tun_ok demo_env = (\<lambda>_ _. True)" "ev_order demo_env = []"
  by (simp_all add: demo_env_def)

lemma demo_new_session: "ss_next_path_id (new_session demo_server_config demo_cred demo_hello 7 demo_time) = 0"
  "path_for_nonce (new_session demo_server_config demo_cred demo_hello 7 demo_time) n = None"
  by (simp_all add: new_session_def path_for_nonce_def)

lemma demo_registered: "registered demo_crypto demo_env demo_addr demo_cred demo_hello demo_welcome 0 demo_u = demo_path"
  unfolding registered_def demo_u_facts demo_new_session by (simp add: demo_path_def)

lemma demo_register:
  "register_path demo_crypto demo_env demo_addr demo_cred demo_hello 0 demo_u =
     ([SendTo demo_addr (sp_welcome_packet demo_path)],
      update_metrics (update_path_metric (sp_metric demo_path) (path_health True))
        (update_session 0 (\<lambda>ss. touch_session demo_time (put_path demo_path (ss\<lparr>ss_next_path_id := ss_next_path_id ss + 1\<rparr>))) demo_u))"
proof -
  have w: "new_welcome (hello_nonce demo_hello) (ev_clock demo_env 2) (ev_nonce demo_env) = Inr demo_welcome"
    by (simp add: new_welcome_def demo_welcome_def demo_hello_def)
  have "register_path demo_crypto demo_env demo_addr demo_cred demo_hello 0 demo_u =
    ([SendTo demo_addr (sp_welcome_packet (registered demo_crypto demo_env demo_addr demo_cred demo_hello demo_welcome 0 demo_u))],
     update_metrics (update_path_metric (sp_metric (registered demo_crypto demo_env demo_addr demo_cred demo_hello demo_welcome 0 demo_u)) (path_health True))
       (update_session 0 (\<lambda>ss. touch_session (ev_clock demo_env 4)
          (put_path (registered demo_crypto demo_env demo_addr demo_cred demo_hello demo_welcome 0 demo_u)
            (ss\<lparr>ss_next_path_id := ss_next_path_id ss + 1\<rparr>))) demo_u))"
    by (rule register_path_ok [OF _ _ _ _ w]) (simp_all add: demo_u_facts demo_new_session)
  then show ?thesis by (simp add: demo_registered)
qed

lemma demo_hello_step:
  "server_step demo_crypto demo_lib demo_env demo_s1 (Datagram demo_addr demo_hello_packet) =
     register_path demo_crypto demo_env demo_addr demo_cred demo_hello 0 demo_u"
proof -
  have t: "parse_header demo_hello_packet = Inr \<lparr> h_type = TypeHello, h_flags = 0, h_session = 0, h_path = 0, h_seq = 0 \<rparr>"
    by (simp add: demo_hello_packet_eq)
  have "handle_hello demo_crypto demo_env demo_addr demo_hello_packet demo_s1
      = register_path demo_crypto demo_env demo_addr demo_cred demo_hello 0 demo_u"
    using demo_get_session [folded demo_u_def] demo_hello_parsed demo_new_session(2)
    by (simp add: handle_hello_def demo_hello_packet_eq plain_payload_def demo_s1_eq demo_cred_def demo_u_facts)
  then show ?thesis by (simp add: receive_datagram_def t)
qed

lemma demo_s2_eq:
  "demo_s2 = \<lparr> sv_config = demo_server_config, sv_credentials = [(client_id_string demo_id, demo_cred)],
     sv_sessions = [(7, 0)], sv_by_client = [(client_id_string demo_id, 0)], sv_by_ip = [(Addr4 0x0A000002, 0)],
     sv_heap = [demo_session], sv_metrics = demo_metrics, sv_hook = False \<rparr>"
proof -
  have "demo_s2 = (demo_s1\<lparr>sv_heap := [demo_session], sv_sessions := [(7, 0)],
      sv_by_client := [(client_id_string demo_id, 0)], sv_by_ip := [(Addr4 0x0A000002, 0)],
      sv_metrics := sv_metrics demo_s2\<rparr>)"
    unfolding demo_s2_def demo_hello_step demo_register
    by (simp add: demo_u_def update_session_def update_metrics_def demo_session_def touch_session_def put_path_def
        new_session_def)
  then show ?thesis by (simp add: demo_metrics_def demo_s1_eq demo_s0_def empty_server_def)
qed

section \<open>Encrypted packets of the client\<close>

definition demo_header :: "packet_type \<Rightarrow> u64 \<Rightarrow> header" where
  "demo_header t n = \<lparr> h_type = t, h_flags = 0, h_session = 7, h_path = 1, h_seq = n \<rparr>"

definition demo_packet :: "packet_type \<Rightarrow> u64 \<Rightarrow> bytes \<Rightarrow> bytes" where
  "demo_packet t n payload =
     marshal_header (demo_header t n)
     @ gcm_seal demo_crypto (sp_aead demo_path) (packet_nonce 1 n ClientToServer) payload (marshal_header (demo_header t n))"

lemma demo_packet_header [simp]: "parse_header (demo_packet t n payload) = Inr (demo_header t n)"
  by (simp add: demo_packet_def)

lemma demo_header_simps [simp]:
  "h_type (demo_header t n) = t" "h_session (demo_header t n) = 7" "h_path (demo_header t n) = 1"
  "h_seq (demo_header t n) = n"
  by (simp_all add: demo_header_def)

lemma demo_packet_open [simp]:
  assumes "length payload \<le> 100"
  shows "open_packet demo_crypto (sp_aead demo_path) (demo_header t n) ClientToServer (demo_packet t n payload) = Inr payload"
proof -
  have "seal demo_crypto (sp_aead demo_path) (demo_header t n) ClientToServer payload = Inr (demo_packet t n payload)"
    using assms by (simp add: seal_def Let_def demo_packet_def)
  from open_seal [OF gcm_laws_demo this] show ?thesis by blast
qed

lemma demo_path_fields [simp]:
  "sp_id demo_path = 1" "sp_session_id demo_path = 7" "sp_sequence demo_path = 0" "sp_remote demo_path = Some demo_addr"
  "sp_replay demo_path = new_replay_window" "sp_client_nonce demo_path = replicate 16 5"
  by (simp_all add: demo_path_def new_path_def demo_hello_def)

lemma demo_session_fields [simp]:
  "ss_paths demo_session = [(1, demo_path)]" "ss_credential demo_session = demo_cred" "ss_id demo_session = 7"
  by (simp_all add: demo_session_def put_path_def new_session_def)

lemma demo_s2_fields [simp]:
  "sv_sessions demo_s2 = [(7, 0)]" "session_at demo_s2 0 = demo_session" "path_at demo_s2 0 1 = Some demo_path"
  "sv_by_ip demo_s2 = [(Addr4 0x0A000002, 0)]" "sv_by_client demo_s2 = [(client_id_string demo_id, 0)]"
  "sv_credentials demo_s2 = [(client_id_string demo_id, demo_cred)]" "length (sv_heap demo_s2) = 1"
  by (simp_all add: demo_s2_eq session_at_def path_at_def)

text \<open>A PING with packet number \<open>n\<close> on the demo path, in any state that has it.\<close>

definition ping :: "u64 \<Rightarrow> bytes" where
  "ping n = demo_packet TypePing n (replicate 8 0)"

definition pinged :: "replay_window \<Rightarrow> server_path \<Rightarrow> server_path" where
  "pinged w p = (seen_path demo_addr demo_time w p)\<lparr>sp_sequence := sp_sequence p + 1\<rparr>"

definition pong :: "server_path \<Rightarrow> bytes" where
  "pong p = marshal_header (send_header p TypePong)
     @ gcm_seal demo_crypto (sp_aead p) (packet_nonce (sp_id p) (sp_sequence p + 1) ServerToClient) (replicate 8 0)
         (marshal_header (send_header p TypePong))"

definition after_ping :: "u64 \<Rightarrow> server \<Rightarrow> server" where
  "after_ping n s = snd (server_step demo_crypto demo_lib demo_env s (Datagram demo_addr (ping n)))"

lemma ping_step:
  assumes "sv_sessions s = [(7, 0)]" and p: "path_at s 0 1 = Some p" and "sp_id p = 1" "sp_aead p = sp_aead demo_path"
    and w: "accept (sp_replay p) n = (True, w)"
  shows "server_step demo_crypto demo_lib demo_env s (Datagram demo_addr (ping n)) = ([SendTo demo_addr (pong p)], after_ping n s)"
    and "path_at (after_ping n s) 0 1 = Some (pinged w p)" and "sv_sessions (after_ping n s) = [(7, 0)]"
proof -
  have pm: "map_get (ss_paths (session_at s 0)) 1 = Some p" and b: "0 < length (sv_heap s)"
    using p by (auto simp: path_at_def split: if_splits)
  have sl: "seal demo_crypto k (send_header q TypePong) ServerToClient (replicate 8 0)
      = Inr (marshal_header (send_header q TypePong) @ gcm_seal demo_crypto k
          (packet_nonce (sp_id q) (sp_sequence q + 1) ServerToClient) (replicate 8 0)
          (marshal_header (send_header q TypePong)))" for k q
    by (simp add: seal_def Let_def send_header_def)
  note ev = ping_def receive_datagram_def handle_encrypted_def handle_payload_def send_or_record_def
    send_path_def sl Let_def w assms pm
  show "server_step demo_crypto demo_lib demo_env s (Datagram demo_addr (ping n)) = ([SendTo demo_addr (pong p)], after_ping n s)"
    unfolding after_ping_def by (simp add: ev) (simp add: seen_path_def send_header_def pong_def assms(3,4))
  show "path_at (after_ping n s) 0 1 = Some (pinged w p)"
    unfolding after_ping_def using b assms(3)
    by (simp add: ev) (simp add: seen_path_def path_at_update session_at_update put_path_def touch_session_def
        map_get_put pinged_def assms(3))
  show "sv_sessions (after_ping n s) = [(7, 0)]"
    unfolding after_ping_def by (simp add: ev) (simp add: seen_path_def assms(1))
qed

abbreviation demo_w1 :: replay_window where
  "demo_w1 \<equiv> \<lparr> rw_highest = 1, rw_bitmap = 1, rw_started = True \<rparr>"

lemma demo_accept: "accept new_replay_window 1 = (True, demo_w1)" "fst (accept demo_w1 2)"
  by code_simp+

definition demo_s3 :: server where
  "demo_s3 = after_ping 1 demo_s2"

lemma demo_s3_step:
  "server_step demo_crypto demo_lib demo_env demo_s2 (Datagram demo_addr (ping 1)) = ([SendTo demo_addr (pong demo_path)], demo_s3)"
  "path_at demo_s3 0 1 = Some (pinged demo_w1 demo_path)" "sv_sessions demo_s3 = [(7, 0)]"
  unfolding demo_s3_def using ping_step [of demo_s2 demo_path 1 demo_w1] demo_accept(1) by simp_all

lemma demo_reachable3: "reachable demo_crypto demo_lib demo_server_config demo_s3"
  by (rule reachable.step [OF demo_reachable2 demo_s3_step(1)])

lemma demo_run: "path_run demo_crypto demo_lib 0 1 (replicate 16 5) 0 demo_s3 demo_s3"
  by (rule path_run.stay) (simp add: has_path_def demo_s3_step(2) pinged_def seen_path_def)

section \<open>Closed instances of the properties\<close>

theorem routing_consistent_witness:
  "map_get (sv_sessions demo_s2) 7 = Some 0 \<and> authorized (sv_credentials demo_s2) (ss_credential (session_at demo_s2 0))"
proof -
  have "live demo_s2 0" unfolding live_def by (rule exI [of _ 7]) simp
  then show ?thesis using routing_consistent [OF demo_reachable2, THEN conjunct1, rule_format, of 0] by simp
qed

theorem replay_stays_rejected_witness:
  "\<exists>f. receive_datagram demo_crypto demo_env demo_addr (ping 1) demo_s3 = ([], update_metrics f demo_s3)"
proof -
  have r: "receive_datagram demo_crypto demo_env demo_addr (ping 1) demo_s2 = ([SendTo demo_addr (pong demo_path)], demo_s3)"
    using demo_s3_step(1) by simp
  have h: "parse_header (ping 1) = Inr (demo_header TypePing 1)" by (simp add: ping_def)
  have o: "open_packet demo_crypto (sp_aead demo_path) (demo_header TypePing 1) ClientToServer (ping 1) = Inr (replicate 8 0)"
    unfolding ping_def by (rule demo_packet_open) simp
  show ?thesis
    by (rule replay_stays_rejected [OF demo_reachable2 h _ _ _ o r _ _ h, where r = 0 and n = "replicate 16 5" and k = 0])
      (simp_all add: demo_run demo_s3_step)
qed

theorem packet_numbers_fresh_witness:
  "parse_header (pong demo_path) = Inr (send_header demo_path TypePong)
   \<and> h_seq (send_header demo_path TypePong) \<noteq> h_seq (send_header (pinged demo_w1 demo_path) TypePong)"
proof -
  have p: "parse_header (pong q) = Inr (send_header q TypePong)" for q by (simp add: pong_def)
  obtain w where w: "accept demo_w1 2 = (True, w)" using demo_accept(2) by (cases "accept demo_w1 2") auto
  have st: "server_step demo_crypto demo_lib demo_env demo_s3 (Datagram demo_addr (ping 2))
      = ([SendTo demo_addr (pong (pinged demo_w1 demo_path))], after_ping 2 demo_s3)"
    by (rule ping_step(1) [OF demo_s3_step(3,2), of 2 w]) (simp_all add: pinged_def seen_path_def w)
  have sid: "sp_session_id (pinged demo_w1 demo_path) = 7" "sp_id (pinged demo_w1 demo_path) = 1"
    by (simp_all add: pinged_def seen_path_def)
  have run: "path_run demo_crypto demo_lib 0 (h_path (send_header demo_path TypePong)) (replicate 16 5) 0 demo_s3 demo_s3"
    using demo_run by (simp add: send_header_def)
  have "h_seq (send_header demo_path TypePong) \<noteq> h_seq (send_header (pinged demo_w1 demo_path) TypePong)"
    by (rule packet_numbers_fresh [OF demo_reachable2 demo_s3_step(1) _ p _ run _ st _ p])
      (simp_all add: send_header_def demo_s3_step sid)
  then show ?thesis using p by simp
qed

text \<open>An IPv4 packet of the client's, as the payload of a DATA packet.\<close>

definition demo_ip :: bytes where
  "demo_ip = [0x45, 0, 0, 20, 0, 0, 0, 0, 64, 0, 0, 0, 10, 0, 0, 2, 10, 0, 0, 1]"

lemma demo_ip_source: "source_ip demo_ip = Some (Addr4 0x0A000002)"
  by code_simp

lemma demo_push: "res_packets (fst (push (new_buffer 512 (80 * millisecond)) 1 demo_ip demo_time demo_time)) = [demo_ip]"
  by code_simp

lemma demo_data: "parse_data (put_uint64 1 @ demo_ip) = Inr (1, demo_ip)" "length (put_uint64 1 @ demo_ip) \<le> 100"
  by (simp_all add: parse_data_def demo_ip_def)

lemma demo_data_step:
  "WriteTun demo_ip \<in> set (fst (server_step demo_crypto demo_lib demo_env demo_s2
      (Datagram demo_addr (demo_packet TypeData 1 (put_uint64 1 @ demo_ip)))))"
proof -
  have pm: "map_get (ss_paths demo_session) 1 = Some demo_path" by simp
  have ro: "ss_reorder demo_session = new_buffer 512 (80 * millisecond)"
    by (simp add: demo_session_def put_path_def new_session_def demo_server_config_def duration_value_def)
  have at: "session_at (update_session 0 (touch_session t) (update_session 0 (put_path p) demo_s2)) 0
      = touch_session t (put_path p demo_session)" for t p
    by (simp add: session_at_update)
  have keep: "ss_reorder (touch_session t (put_path p demo_session)) = ss_reorder demo_session"
    "ss_credential (touch_session t (put_path p demo_session)) = demo_cred" for t p
    by (simp_all add: touch_session_def put_path_def)
  obtain res b where ps: "push (new_buffer 512 (80 * millisecond)) 1 demo_ip demo_time demo_time = (res, b)"
    by (cases "push (new_buffer 512 (80 * millisecond)) 1 demo_ip demo_time demo_time")
  have rp: "res_packets res = [demo_ip]" using demo_push by (simp add: ps)
  have wt: "fst (write_packets (\<lambda>_. True) 0 [demo_ip] v) = [WriteTun demo_ip]" for v by simp
  show ?thesis
    using demo_data rp wt
    by (simp add: receive_datagram_def handle_encrypted_def handle_payload_def Let_def pm demo_accept at keep ro ps
        demo_ip_source deliver_def) (simp add: demo_cred_def)
qed

theorem no_spoofed_packet_witness:
  "\<exists>n cr. map_get (sv_credentials demo_s2) n = Some cr \<and> source_ip demo_ip = Some (cr_tunnel_ip cr)"
  by (rule no_spoofed_packet [OF demo_reachable2 surjective_pairing demo_data_step])

lemma demo_valid_hello: "valid_hello demo_crypto demo_time s demo_hello_packet demo_cred demo_hello"
  if "sv_credentials s = [(client_id_string demo_id, demo_cred)]"
proof -
  have "plain_payload demo_hello_packet = Inr demo_hello_payload" by (simp add: demo_hello_packet_eq plain_payload_def)
  then show ?thesis using that demo_hello_parsed by (simp add: valid_hello_def demo_cred_def)
qed

lemma demo_hello_header: "\<exists>h. parse_header demo_hello_packet = Inr h \<and> h_type h = TypeHello"
  by (simp add: demo_hello_packet_eq)

theorem handshake_agreement_witness:
  "\<exists>outs b t wh pl r p. receive_datagram demo_crypto demo_env demo_addr demo_hello_packet demo_s1 = (outs @ [SendTo demo_addr b], t)
    \<and> (\<forall>out \<in> set outs. \<exists>i. out = ClientSeen i)
    \<and> parse_header b = Inr wh \<and> h_type wh = TypeWelcome \<and> plain_payload b = Inr pl
    \<and> map_get (sv_sessions t) (h_session wh) = Some r \<and> map_get (sv_by_ip t) (cr_tunnel_ip demo_cred) = Some r
    \<and> path_at t r (h_path wh) = Some p \<and> sp_remote p = Some demo_addr
    \<and> (\<forall>clock. \<bar>clock - truncate_second (ev_clock demo_env 2)\<bar> \<le> 2 * minute \<longrightarrow>
         (\<exists>w. parse_welcome demo_crypto pl (cr_key demo_cred) wh (hello_nonce demo_hello) clock = Inr w
            \<and> sp_aead p = new_aead demo_crypto (cr_key demo_cred) (hello_nonce demo_hello) (welcome_server_nonce w) (h_session wh) (h_path wh)))"
proof -
  obtain h where h: "parse_header demo_hello_packet = Inr h" "h_type h = TypeHello" using demo_hello_header by blast
  have v: "valid_hello demo_crypto (ev_clock demo_env 0) demo_s1 demo_hello_packet demo_cred demo_hello"
    using demo_valid_hello [of demo_s1] by (simp add: demo_s1_eq)
  have n: "sv_by_client demo_s1 = []" "sv_sessions demo_s1 = []" by (simp_all add: demo_s1_eq demo_s0_def empty_server_def)
  have t: "wire_time (ev_clock demo_env 2)" by (simp, code_simp)
  show ?thesis
    by (rule handshake_agreement [OF demo_reachable1 h v _ _ _ _ _ t, where sn = "replicate 16 9"]) (simp_all add: session_takes_def n)
qed

theorem hello_retransmission_witness:
  "\<exists>t. receive_datagram demo_crypto demo_env demo_addr demo_hello_packet demo_s2
     = ([SendTo demo_addr (sp_welcome_packet demo_path)], t) \<and> sv_sessions t = sv_sessions demo_s2"
proof -
  obtain h where h: "parse_header demo_hello_packet = Inr h" "h_type h = TypeHello" using demo_hello_header by blast
  have v: "valid_hello demo_crypto (ev_clock demo_env 0) demo_s2 demo_hello_packet demo_cred demo_hello"
    using demo_valid_hello [of demo_s2] by simp
  have t: "session_takes demo_s2 demo_cred demo_hello 0"
    by (simp add: session_takes_def session_accepts_def demo_session_def put_path_def new_session_def)
      (simp add: demo_cred_def demo_hello_def)
  have n: "path_for_nonce (session_at demo_s2 0) (hello_nonce demo_hello) = Some demo_path"
    by (simp add: path_for_nonce_def) (simp add: demo_hello_def)
  have a: "same_udp_addr (sp_remote demo_path) (Some demo_addr)"
    by (simp add: same_udp_addr_def ip_equal_def)
  show ?thesis
    using hello_retransmission [OF demo_reachable2 h v t n, of demo_addr] a by auto
qed

text \<open>The same client, started again.\<close>

definition demo_hello2 :: hello where
  "demo_hello2 = demo_hello\<lparr>hello_instance_nonce := replicate 16 4, hello_nonce := replicate 16 6\<rparr>"

definition demo_hello2_packet :: bytes where
  "demo_hello2_packet = marshal_header \<lparr> h_type = TypeHello, h_flags = 0, h_session = 0, h_path = 0, h_seq = 0 \<rparr>
     @ hello_body demo_hello2 @ sign demo_crypto demo_key [hello_v2_domain, hello_body demo_hello2]"

lemma demo_hello2_parsed:
  "parse_hello demo_crypto (hello_body demo_hello2 @ sign demo_crypto demo_key [hello_v2_domain, hello_body demo_hello2]) demo_key demo_time = Inr demo_hello2"
  "take 16 (hello_body demo_hello2) = demo_id" "length (hello_body demo_hello2) = 60"
  by code_simp+

theorem restart_replaces_session_witness:
  "\<exists>t. fst (get_or_create_session (demo_env\<lparr>ev_ids := [8]\<rparr>) demo_cred demo_hello2 demo_s2) = Some t \<and> t \<noteq> 0
    \<and> \<not> live (snd (snd (get_or_create_session (demo_env\<lparr>ev_ids := [8]\<rparr>) demo_cred demo_hello2 demo_s2))) 0"
proof -
  let ?e = "demo_env\<lparr>ev_ids := [8]\<rparr>"
  have "plain_payload demo_hello2_packet
      = Inr (hello_body demo_hello2 @ sign demo_crypto demo_key [hello_v2_domain, hello_body demo_hello2])"
    by (simp add: demo_hello2_packet_def plain_payload_def)
  then have v: "valid_hello demo_crypto (ev_clock ?e 0) demo_s2 demo_hello2_packet demo_cred demo_hello2"
    using demo_hello2_parsed by (simp add: valid_hello_def demo_cred_def)
  have o: "map_get (sv_by_client demo_s2) (client_id_string (cr_client_id demo_cred)) = Some 0"
    by (simp add: demo_cred_def)
  have n: "\<not> session_accepts (session_at demo_s2 0) demo_hello2"
    by (simp add: session_accepts_def demo_session_def put_path_def new_session_def)
      (simp add: demo_hello_def demo_hello2_def numeral_eq_Suc)
  have i: "pick_session_id (sv_sessions demo_s2) (ev_ids ?e) = Some 8" by simp
  obtain res outs t where g: "get_or_create_session ?e demo_cred demo_hello2 demo_s2 = (res, outs, t)"
    by (cases "get_or_create_session ?e demo_cred demo_hello2 demo_s2")
  show ?thesis using restart_replaces_session [OF demo_reachable2 v o n i g] by (auto simp: g)
qed


end
