(* ===== verification/Examples.thy ===== *)
theory Examples
  imports Demo
begin

text \<open>
  Closed instances of the properties of the protocol, the reorder buffer and the configuration: each
  applies its theorem to a concrete input at which the hypotheses hold.
\<close>

section \<open>Protocol\<close>

theorem hello_roundtrip_witness:
  "parse_hello demo_crypto demo_hello_payload demo_key demo_time
     = Inr (demo_hello\<lparr>hello_time := truncate_second (hello_time demo_hello)\<rparr>)"
proof -
  have v: "hello_wire_version demo_hello = 2" "hello_weight demo_hello \<noteq> 0" by (simp_all add: demo_hello_def)
  have t: "wire_time (hello_time demo_hello)" "\<bar>demo_time - truncate_second (hello_time demo_hello)\<bar> \<le> 2 * minute"
    by code_simp+
  have m: "marshal_hello demo_crypto demo_hello demo_key = Inr demo_hello_payload"
  proof -
    have "\<not> 63 < length (hello_path_name demo_hello)" "hello_instance_nonce demo_hello \<noteq> zero16" by code_simp+
    then show ?thesis by (simp add: marshal_hello_def demo_hello_payload_def)
  qed
  have "wf_hello demo_hello" by code_simp
  from hello_roundtrip [OF this v t m] show ?thesis .
qed

theorem welcome_roundtrip_witness:
  "parse_welcome demo_crypto (marshal_welcome demo_crypto demo_welcome demo_key (welcome_header 7 1)) demo_key
     (welcome_header 7 1) (welcome_client_nonce demo_welcome) demo_time
   = Inr (demo_welcome\<lparr>welcome_time := truncate_second demo_time\<rparr>)"
proof -
  have "wire_time (welcome_time demo_welcome)" "\<bar>demo_time - truncate_second (welcome_time demo_welcome)\<bar> \<le> 2 * minute"
    by code_simp+
  then show ?thesis
    using welcome_roundtrip [of demo_welcome demo_time] by (simp add: demo_welcome_def)
qed

theorem open_iff_sealed_witness:
  "seal demo_crypto (sp_aead demo_path) (demo_header TypePing 1) ClientToServer (replicate 8 0) = Inr (ping 1)"
proof -
  have "length (ping 1) \<le> MaxDatagram"
    using length_gcm_seal [OF gcm_laws_demo] by (simp add: ping_def demo_packet_def)
  from open_iff_sealed [OF gcm_laws_demo this, of "demo_header TypePing 1" "sp_aead demo_path" ClientToServer "replicate 8 0"]
  show ?thesis by (simp add: ping_def)
qed

theorem packet_nonce_unique_witness: "packet_nonce 1 5 ClientToServer \<noteq> packet_nonce 1 5 ServerToClient"
proof -
  have "(1 :: u32) < 2 ^ 31" by simp
  from packet_nonce_unique [OF this this, of 5 ClientToServer 5 ServerToClient] show ?thesis by simp
qed

theorem hello_accepted_witness: "\<bar>demo_time - hello_time demo_hello\<bar> \<le> 2 * minute \<and> wf_hello demo_hello"
  using hello_accepted [OF demo_hello_parsed(1)] by blast

definition demo_welcome_bytes :: bytes where
  "demo_welcome_bytes = marshal_welcome demo_crypto demo_welcome demo_key (welcome_header 7 1)"

lemma demo_welcome_parsed:
  "parse_welcome demo_crypto demo_welcome_bytes demo_key (welcome_header 7 1) (replicate 16 5) demo_time = Inr demo_welcome"
  by code_simp

theorem welcome_accepted_witness:
  "drop 40 demo_welcome_bytes
     = sign demo_crypto demo_key [welcome_domain, marshal_header (welcome_header 7 1) @ take 40 demo_welcome_bytes]"
  using welcome_accepted [OF demo_welcome_parsed] by blast

theorem path_key_inputs_unique_witness:
  "path_key_info 7 1 \<noteq> path_key_info 7 2"
proof -
  have l: "length (replicate 16 (0 :: byte)) = 16" by simp
  from path_key_inputs_unique [OF l l, of "[]" "[]" 7 1 7 2] show ?thesis by simp
qed

theorem generated_key_parses_witness:
  "\<exists>s. generate_key (Some demo_key) = Inr s \<and> parse_key s = Inr demo_key"
proof -
  have l: "length demo_key = 32" by code_simp
  obtain s where s: "generate_key (Some demo_key) = Inr s" by (simp add: generate_key_def)
  with generated_key_parses [OF l s] show ?thesis by blast
qed

theorem client_id_canonical_witness: "parse_client_id (client_id_string demo_id) = Inr demo_id"
proof -
  have "parse_client_id ''01020304-0506-0708-090A-0B0C0D0E0F10'' = Inr demo_id" by code_simp
  from client_id_canonical [OF this] show ?thesis by blast
qed

section \<open>Reorder buffer\<close>

text \<open>Three packets, the second and third in reverse; each is its own number.\<close>

definition swapped :: "u64 event list" where
  "swapped = [Push 1 1 1000 1000, Push 3 3 1000 1000, Push 2 2 1000 1000]"

abbreviation small_buffer :: "u64 buffer" where
  "small_buffer \<equiv> new_buffer 16 millisecond"

theorem delivery_in_order_witness:
  "sorted_wrt (<) (map id (delivered (fst (buffer_run small_buffer swapped))))"
proof -
  have g: "\<forall>e \<in> set swapped. good_event id e" by (simp add: swapped_def)
  obtain rs b where r: "buffer_run small_buffer swapped = (rs, b)" by (cases "buffer_run small_buffer swapped")
  from delivery_in_order [OF g r] show ?thesis by (simp add: r)
qed

theorem burst_restored_witness:
  "map unat (delivered (fst (buffer_run small_buffer swapped))) = [1, 2, 3]"
proof -
  have d: "rb_max_delay small_buffer = 1000000" "rb_max_packets small_buffer = 16"
    by (simp_all add: new_buffer_def millisecond_def)
  have e: "\<forall>e \<in> set swapped. burst_event id 1000 (rb_max_delay small_buffer) e"
    by (simp add: swapped_def d)
  have l: "late 3 {} swapped" unfolding late_def
  proof (intro allI impI)
    fix j x assume "j < length swapped" "1 \<le> x \<and> x + 3 \<le> card ({} :: nat set) + Suc j"
    then show "x \<in> {} \<union> event_number ` set (take (Suc j) swapped)" by (simp add: swapped_def)
  qed
  obtain rs b where r: "buffer_run small_buffer swapped = (rs, b)" by (cases "buffer_run small_buffer swapped")
  have n: "distinct (map event_number swapped)" "event_number ` set swapped = {1..3}"
    by (simp_all add: swapped_def) (auto simp: atLeastAtMost_iff)
  from burst_restored [OF e _ _ _ n l refl r] show ?thesis by (simp add: r d upt_conv_Cons)
qed

definition gapped_buffer :: "u64 buffer" where
  "gapped_buffer = small_buffer\<lparr>rb_pending := [(3, 3)], rb_gap_since := 1000\<rparr>"

theorem flush_releases_witness:
  "\<exists>p ps. res_packets (fst (flush_expired gapped_buffer 2000000 2000000)) = p # ps"
proof -
  have w: "wf_buffer gapped_buffer"
    by (simp add: wf_buffer_def gapped_buffer_def new_buffer_def keys_above_def keys_unique_def millisecond_def
        is_zero_def zero_time_def)
  have "rb_pending gapped_buffer \<noteq> []" "rb_max_delay gapped_buffer \<le> time_sub 2000000 (rb_gap_since gapped_buffer)"
    by code_simp+
  from flush_releases [OF w this(1) _ this(2), of 2000000] show ?thesis by auto
qed

section \<open>Configuration\<close>

theorem validated_clients_distinct_witness:
  "\<exists>is. map cred_id (sc_clients demo_server_config) = map Inr is \<and> distinct is"
proof -
  have g: "validate_logging \<lparr> lc_level = ''info'', lc_format = ''json'' \<rparr> = None" by code_simp
  have t: "validate_tunnel (sc_tunnel_address demo_server_config) 1280 = None"
    by (simp add: validate_tunnel_def demo_parsed)
  have c: "validate_clients demo_lib (server_prefix demo_server_config) [] [] [] [demo_client] = None"
    using demo_parsed by (simp add: server_prefix_def)
  have "validate_server demo_lib demo_server_config = None"
    using g t c by (simp add: validate_server_def validate_duration_def demo_server_config_def demo_lib_def)
  from validated_clients_distinct [OF this] show ?thesis by blast
qed

definition demo_client_config :: client_config where
  "demo_client_config = \<lparr> cc_server = ''r:1'', cc_client_id = client_id_string demo_id, cc_psk = [], cc_psk_env = [],
     cc_tunnel_name = ''lf'', cc_tunnel_address = ''10.0.0.2/24'', cc_mtu = 1400,
     cc_paths = [\<lparr> pt_name = ''a'', pt_local_address = ''192.0.2.1'', pt_interface = [], pt_weight = 2, pt_enabled = None \<rparr>],
     cc_auto_discover = True, cc_routes = [], cc_traffic_mode = ''all'', cc_configure_interface = True,
     cc_health_interval = 0, cc_stats_interval = 0, cc_handshake_timeout = 0, cc_reorder_delay = 0,
     cc_reorder_window = 64, cc_logging = \<lparr> lc_level = [], lc_format = [] \<rparr>, cc_metrics_listen = [] \<rparr>"

theorem client_defaults_idempotent_witness:
  "cc_mtu (client_defaults demo_client_config) = 1400
   \<and> hd (cc_paths demo_client_config) \<in> set (cc_paths (client_defaults demo_client_config))"
  using client_defaults_idempotent [of demo_client_config] by (simp add: demo_client_config_def)

theorem default_pool_is_subnet_witness:
  "\<exists>q. parse_prefix4 (mg_tunnel_pool (management_defaults ''10.0.0.1/24''
      \<lparr> mg_listen = [], mg_database_path = [], mg_public_relay = [], mg_tunnel_pool = [], mg_admin_token_env = [],
        mg_master_key_env = [], mg_activation_ttl = 0 \<rparr>)) = Some q \<and> snd q = 24"
proof -
  have "parse_prefix4 ''10.0.0.1/24'' = Some (0x0A000001, 24)" by code_simp
  from default_pool_is_subnet [OF this, of "\<lparr> mg_listen = [], mg_database_path = [], mg_public_relay = [], mg_tunnel_pool = [],
      mg_admin_token_env = [], mg_master_key_env = [], mg_activation_ttl = 0 \<rparr>"]
  show ?thesis by auto
qed

theorem all_traffic_covered_witness:
  "\<exists>p q. map parse_prefix4 (effective_routes demo_client_config) = [Some p, Some q] \<and> snd p = 1 \<and> snd q = 1"
proof -
  have "cc_traffic_mode demo_client_config = ''all''" by (simp add: demo_client_config_def)
  from all_traffic_covered [OF this] show ?thesis
    by (elim exE conjE) (intro exI conjI, assumption+)
qed

definition demo_interfaces :: "net_interface list" where
  "demo_interfaces =
     [\<lparr> if_name = ''eth0'', if_up = True, if_loopback = False, if_point_to_point = False,
        if_addrs = Some [IfAddr4 0xC6336401] \<rparr>,
      \<lparr> if_name = ''lo'', if_up = True, if_loopback = True, if_point_to_point = False, if_addrs = Some [IfAddr4 0x7F000001] \<rparr>]"

theorem discovery_sound_witness:
  "\<exists>ps new. discover_paths demo_client_config (Some demo_interfaces) [] = Some ps
     \<and> ps = enabled_paths (cc_paths demo_client_config) @ new \<and> length new = 1"
proof -
  have a: "cc_auto_discover demo_client_config" by (simp add: demo_client_config_def)
  have l: "map_option length (discover_paths demo_client_config (Some demo_interfaces) []) = Some 2"
    "length (enabled_paths (cc_paths demo_client_config)) = 1" by code_simp+
  then obtain ps where ps: "discover_paths demo_client_config (Some demo_interfaces) [] = Some ps" "length ps = 2" by auto
  from discovery_sound [OF a ps(1)] obtain new where "ps = enabled_paths (cc_paths demo_client_config) @ new" by blast
  then show ?thesis using ps l by (intro exI [of _ ps] exI [of _ new]) auto
qed

end
