(* ===== verification/Client.thy ===== *)
theory Client
  imports Protocol Replay Reorder Scheduler Ip_Packet Metrics Config "HOL-Library.Signed_Division"
begin

text \<open>
  \<open>internal/engine/client.go\<close>: the client. Its state is the list of current paths (references into a
  heap of path objects, because goroutines keep working on a path object that was replaced), the reorder
  buffer, the counters and the identity of the current relay session. Each turn of a loop is one step.
  \<open>reconnectPath\<close> and \<open>rejoinAll\<close>, which wait for the network in the middle, are two steps each, so
  that the other loops can run in between. What a step reads of the clock, of the random source and of
  the network is an argument.
\<close>

section \<open>State\<close>

record client_path =
  cp_config :: path_config
  cp_open :: bool
  cp_aead :: bytes
  cp_session_id :: u64
  cp_path_id :: u32
  cp_sequence :: u64
  cp_replay :: replay_window
  cp_last_seen :: int
  cp_rtt :: int
  cp_healthy :: bool
  cp_health_timeout :: duration
  cp_metric :: string
  cp_reconnecting :: bool

text \<open>\<open>cp_open\<close> is false once the socket is closed.\<close>

type_synonym cref = nat

datatype client_error =
    KeyError config_error | ProtocolError proto_error | AddressError | ResolveError | RandomError
  | LocalAddressError | SocketError | DeadlineError | SendError | ReadError | HandshakeTimeout
  | DiscoverError | NoPathDiscovered | AllPathsFailed | InconsistentSessions | PayloadSizeError

record client =
  ct_config :: client_config
  ct_metrics :: registry
  ct_tun :: bool
  ct_key :: bytes
  ct_client_id :: bytes
  ct_tunnel_ip :: addr
  ct_credits :: credits
  ct_reorder :: "bytes buffer"
  ct_data_seq :: u64
  ct_session_id :: u64
  ct_rejoining :: bool
  ct_instance_nonce :: bytes
  ct_paths :: "cref list"
  ct_heap :: "client_path list"
  ct_dialing :: "(cref \<times> (client_error + client_path)) list"

text \<open>\<open>ct_tun\<close> says whether there is a tunnel device (a diagnostic run has none); \<open>ct_dialing\<close> holds, for
  each running \<open>reconnectPath\<close>, the path it replaces and how its handshake ends.\<close>

datatype client_output =
    SendRelay cref bytes | ClientTun bytes | ClosePath cref | CloseTun
  | StartReceiver cref | StartReconnect cref | StartRejoin

record client_env =
  cv_clock :: "nat \<Rightarrow> gotime"
  cv_write_ok :: "cref \<Rightarrow> bool"
  cv_tun_ok :: "nat \<Rightarrow> bool"

definition cpath :: "client \<Rightarrow> cref \<Rightarrow> client_path" where
  "cpath c r = ct_heap c ! r"

definition update_cpath :: "cref \<Rightarrow> (client_path \<Rightarrow> client_path) \<Rightarrow> client \<Rightarrow> client" where
  "update_cpath r f c = c\<lparr>ct_heap := (ct_heap c)[r := f (ct_heap c ! r)]\<rparr>"

definition client_metrics :: "(registry \<Rightarrow> registry) \<Rightarrow> client \<Rightarrow> client" where
  "client_metrics f c = c\<lparr>ct_metrics := f (ct_metrics c)\<rparr>"

section \<open>\<open>NewClient\<close>\<close>

definition new_client :: "net_lib \<Rightarrow> client_config \<Rightarrow> bool \<Rightarrow> registry \<Rightarrow> bytes option \<Rightarrow> client_error + client" where
  "new_client L c tun m rnd =
     (case client_key L c of
        Inl e \<Rightarrow> Inl (KeyError e)
      | Inr key \<Rightarrow>
          (case parse_client_id (cc_client_id c) of
             Inl e \<Rightarrow> Inl (ProtocolError e)
           | Inr i \<Rightarrow>
               (case parse_prefix4 (cc_tunnel_address c) of
                  None \<Rightarrow> Inl AddressError
                | Some p \<Rightarrow>
                    if \<not> nl_resolve_udp L (cc_server c) then Inl ResolveError
                    else case rnd of
                      None \<Rightarrow> Inl RandomError
                    | Some nonce \<Rightarrow>
                        Inr \<lparr> ct_config = c, ct_metrics = m, ct_tun = tun, ct_key = key, ct_client_id = i,
                              ct_tunnel_ip = Addr4 (fst p), ct_credits = [],
                              ct_reorder = new_buffer (cc_reorder_window c) (duration_value (cc_reorder_delay c) (80 * millisecond)),
                              ct_data_seq = 0, ct_session_id = 0, ct_rejoining = False,
                              ct_instance_nonce = nonce, ct_paths = [], ct_heap = [], ct_dialing = [] \<rparr>)))"

section \<open>The handshake of one path\<close>

datatype local_address = ParsedAddress string | InterfaceAddress u32 | AnyAddress

definition is_loopback4 :: "u32 \<Rightarrow> bool" where
  "is_loopback4 a \<longleftrightarrow> drop_bit 24 a = 127"

text \<open>\<open>resolveLocalIP\<close>; \<open>addrs\<close> gives the addresses of an interface, \<^const>\<open>None\<close> if it cannot be looked up.\<close>

definition resolve_local_ip :: "net_lib \<Rightarrow> (string \<Rightarrow> if_addr list option) \<Rightarrow> path_config \<Rightarrow> local_address option" where
  "resolve_local_ip L addrs p =
     (if pt_local_address p \<noteq> [] then
        (if nl_parse_ip L (pt_local_address p) = None then None else Some (ParsedAddress (pt_local_address p)))
      else if pt_interface p \<noteq> [] then
        (case addrs (pt_interface p) of
           None \<Rightarrow> None
         | Some as \<Rightarrow>
             (case find (\<lambda>a. case a of IfAddr4 ip \<Rightarrow> \<not> is_loopback4 ip | IfAddrOther t \<Rightarrow> False) as of
                Some (IfAddr4 ip) \<Rightarrow> Some (InterfaceAddress ip)
              | _ \<Rightarrow> None))
      else Some AnyAddress)"

text \<open>One turn of the handshake loop: the clock of the loop condition, whether the deadline can be set
  and the HELLO written, what the read gives and the clock at which the answer is checked.\<close>

datatype read_result = ReadTimeout | ReadFailed | ReadPacket bytes

record attempt =
  at_before :: gotime
  at_deadline_ok :: bool
  at_write_ok :: bool
  at_read :: read_result
  at_now :: gotime

record dial =
  dl_addrs :: "string \<Rightarrow> if_addr list option"
  dl_socket_ok :: "local_address \<Rightarrow> bool"
  dl_hello_time :: gotime
  dl_nonce :: "bytes option"
  dl_start :: gotime
  dl_attempts :: "attempt list"
  dl_seen :: gotime

definition hello_header :: header where
  "hello_header = \<lparr> h_type = TypeHello, h_flags = 0, h_session = 0, h_path = 0, h_seq = 0 \<rparr>"

text \<open>The datagram the code sends: the error of \<open>MarshalPlain\<close> is ignored, the packet is then nil.\<close>

definition hello_packet :: "bytes \<Rightarrow> bytes" where
  "hello_packet payload = (case marshal_plain hello_header payload of Inl _ \<Rightarrow> [] | Inr b \<Rightarrow> b)"

definition accept_welcome :: "crypto \<Rightarrow> bytes \<Rightarrow> bytes \<Rightarrow> gotime \<Rightarrow> bytes \<Rightarrow> (header \<times> welcome_msg) option" where
  "accept_welcome C key nonce now packet =
     (case parse_header packet of
        Inl _ \<Rightarrow> None
      | Inr h \<Rightarrow>
          if h_type h \<noteq> TypeWelcome \<or> h_path h = 0 \<or> h_session h = 0 then None
          else case plain_payload packet of
            Inl _ \<Rightarrow> None
          | Inr payload \<Rightarrow>
              (case parse_welcome C payload key h nonce now of Inl _ \<Rightarrow> None | Inr w \<Rightarrow> Some (h, w)))"

text \<open>The loop; it ends without an answer when the deadline has passed, at the latest when \<open>attempts\<close> is
  used up.\<close>

fun await_welcome ::
  "crypto \<Rightarrow> bytes \<Rightarrow> bytes \<Rightarrow> gotime \<Rightarrow> attempt list \<Rightarrow> client_error + (header \<times> welcome_msg) option" where
  "await_welcome C key nonce deadline [] = Inr None"
| "await_welcome C key nonce deadline (a # as) =
     (if deadline \<le> at_before a then Inr None
      else if \<not> at_deadline_ok a then Inl DeadlineError
      else if \<not> at_write_ok a then Inl SendError
      else case at_read a of
        ReadTimeout \<Rightarrow> await_welcome C key nonce deadline as
      | ReadFailed \<Rightarrow> Inl ReadError
      | ReadPacket packet \<Rightarrow>
          (case accept_welcome C key nonce (at_now a) packet of
             None \<Rightarrow> await_welcome C key nonce deadline as
           | Some hw \<Rightarrow> Inr (Some hw)))"

definition client_hello :: "client \<Rightarrow> dial \<Rightarrow> path_config \<Rightarrow> proto_error + hello" where
  "client_hello c d p =
     new_hello (ct_client_id c) (ct_instance_nonce c) (pt_name p) (pt_weight p) (dl_hello_time d) (dl_nonce d)"

definition default_health_interval :: duration where
  "default_health_interval = 2 * second"

definition new_client_path :: "crypto \<Rightarrow> client \<Rightarrow> dial \<Rightarrow> path_config \<Rightarrow> hello \<Rightarrow> header \<Rightarrow> welcome_msg \<Rightarrow> client_path" where
  "new_client_path C c d p h wh w =
     \<lparr> cp_config = p, cp_open = True,
       cp_aead = new_aead C (ct_key c) (hello_nonce h) (welcome_server_nonce w) (h_session wh) (h_path wh),
       cp_session_id = h_session wh, cp_path_id = h_path wh, cp_sequence = 0, cp_replay = new_replay_window,
       cp_last_seen = unix_nano (dl_seen d), cp_rtt = 0, cp_healthy = True,
       cp_health_timeout = 4 * duration_value (cc_health_interval (ct_config c)) default_health_interval,
       cp_metric = pt_name p, cp_reconnecting = False \<rparr>"

text \<open>\<open>connectPath\<close>. The zero server nonce is how the code recognizes that no answer came.\<close>

definition connect_path :: "crypto \<Rightarrow> net_lib \<Rightarrow> client \<Rightarrow> dial \<Rightarrow> path_config \<Rightarrow> client_error + client_path" where
  "connect_path C L c d p =
     (case resolve_local_ip L (dl_addrs d) p of
        None \<Rightarrow> Inl LocalAddressError
      | Some local \<Rightarrow>
          if \<not> dl_socket_ok d local then Inl SocketError
          else case client_hello c d p of
            Inl e \<Rightarrow> Inl (ProtocolError e)
          | Inr h \<Rightarrow>
              (case marshal_hello C h (ct_key c) of
                 Inl e \<Rightarrow> Inl (ProtocolError e)
               | Inr payload \<Rightarrow>
                   let deadline = dl_start d + duration_value (cc_handshake_timeout (ct_config c)) (8 * second) in
                   (case await_welcome C (ct_key c) (hello_nonce h) deadline (dl_attempts d) of
                      Inl e \<Rightarrow> Inl e
                    | Inr None \<Rightarrow> Inl HandshakeTimeout
                    | Inr (Some (wh, w)) \<Rightarrow>
                        if welcome_server_nonce w = zero16 then Inl HandshakeTimeout
                        else Inr (new_client_path C c d p h wh w))))"

section \<open>\<open>connect\<close>\<close>

text \<open>The handshakes of all discovered paths run at the same time; \<open>cn_order\<close> is the order in which they
  end, as indices into the list of paths, and \<open>cn_dial\<close> what each meets.\<close>

record connect_env =
  cn_interfaces :: "net_interface list option"
  cn_defaults :: "string list"
  cn_dial :: "nat \<Rightarrow> dial"
  cn_order :: "nat list"

definition connect_results ::
  "crypto \<Rightarrow> net_lib \<Rightarrow> connect_env \<Rightarrow> client \<Rightarrow> path_config list \<Rightarrow> (client_error + client_path) list" where
  "connect_results C L ce c ps =
     map (\<lambda>i. connect_path C L c (cn_dial ce i) (ps ! i))
       (filter (\<lambda>i. i < length ps) (remdups (cn_order ce)) @ filter (\<lambda>i. i \<notin> set (cn_order ce)) [0 ..< length ps])"

fun successes :: "('e + 'a) list \<Rightarrow> 'a list" where
  "successes [] = []"
| "successes (Inl e # rs) = successes rs"
| "successes (Inr a # rs) = a # successes rs"

text \<open>A path that authenticated is reported healthy before \<open>connect\<close> looks at its session.\<close>

definition paths_up :: "client_path list \<Rightarrow> registry \<Rightarrow> registry" where
  "paths_up ps m = foldl (\<lambda>m p. update_path_metric (cp_metric p) (path_health True) m) m ps"

definition connect ::
  "crypto \<Rightarrow> net_lib \<Rightarrow> connect_env \<Rightarrow> client \<Rightarrow> client_error option \<times> client" where
  "connect C L ce c =
     (case discover_paths (ct_config c) (cn_interfaces ce) (cn_defaults ce) of
        None \<Rightarrow> (Some DiscoverError, c)
      | Some ps \<Rightarrow>
          if ps = [] then (Some NoPathDiscovered, c)
          else
            let connected = successes (connect_results C L ce c ps);
                c1 = client_metrics (paths_up connected) c in
            if connected = [] then (Some AllPathsFailed, c1)
            else
              let sid = cp_session_id (hd connected);
                  checked = map (\<lambda>p. p\<lparr>cp_open := cp_session_id p = sid\<rparr>) connected;
                  base = length (ct_heap c1);
                  usable = filter (\<lambda>r. cp_open (checked ! (r - base))) [base ..< base + length checked];
                  c2 = c1\<lparr>ct_heap := ct_heap c1 @ checked\<rparr> in
              if usable = [] then (Some InconsistentSessions, c2)
              else (None, c2\<lparr>ct_session_id := sid, ct_paths := usable\<rparr>))"

section \<open>One path\<close>

definition client_path_healthy :: "gotime \<Rightarrow> client_path \<Rightarrow> bool" where
  "client_path_healthy now p \<longleftrightarrow>
     cp_healthy p \<and> time_sub now (time_unix_nano (cp_last_seen p)) \<le> cp_health_timeout p"

definition path_metrics :: "cref \<Rightarrow> (path_metric \<Rightarrow> path_metric) \<Rightarrow> client \<Rightarrow> client" where
  "path_metrics r f c = client_metrics (update_path_metric (cp_metric (cpath c r)) f) c"

definition set_health :: "cref \<Rightarrow> bool \<Rightarrow> client \<Rightarrow> client" where
  "set_health r b c = path_metrics r (path_health b) (update_cpath r (\<lambda>p. p\<lparr>cp_healthy := b\<rparr>) c)"

text \<open>\<open>markUnhealthy\<close> and \<open>refreshHealth\<close> touch the metric only when the flag changes.\<close>

definition mark_unhealthy :: "cref \<Rightarrow> client \<Rightarrow> client" where
  "mark_unhealthy r c = (if cp_healthy (cpath c r) then set_health r False c else c)"

definition refresh_health :: "gotime \<Rightarrow> cref \<Rightarrow> client \<Rightarrow> client" where
  "refresh_health now r c =
     (let healthy = time_sub now (time_unix_nano (cp_last_seen (cpath c r))) \<le> cp_health_timeout (cpath c r) in
      if cp_healthy (cpath c r) \<noteq> healthy then set_health r healthy c else c)"

definition client_write_error :: "cref \<Rightarrow> client \<Rightarrow> client" where
  "client_write_error r c =
     mark_unhealthy r (path_metrics r (\<lambda>m. m\<lparr>pm_write_errors := pm_write_errors m + 1\<rparr>) c)"

text \<open>\<open>updateRTT\<close>: a moving average in \<open>int64\<close> arithmetic, which truncates towards zero.\<close>

definition smoothed_rtt :: "int \<Rightarrow> duration \<Rightarrow> int" where
  "smoothed_rtt old sample =
     (if 0 < old then signed_take_bit 63 (signed_take_bit 63 (old * (8 - 1)) + sample) sdiv 8 else sample)"

definition update_rtt :: "cref \<Rightarrow> duration \<Rightarrow> client \<Rightarrow> client" where
  "update_rtt r sample c =
     (let v = smoothed_rtt (cp_rtt (cpath c r)) sample in
      path_metrics r (\<lambda>m. m\<lparr>pm_rtt_nanos := v\<rparr>) (update_cpath r (\<lambda>p. p\<lparr>cp_rtt := v\<rparr>) c))"

text \<open>\<open>clientPath.send\<close>: whether it succeeded, what was sent, and the state; the number is used up in any
  case, and a closed socket refuses the datagram.\<close>

definition client_header :: "client_path \<Rightarrow> packet_type \<Rightarrow> header" where
  "client_header p t =
     \<lparr> h_type = t, h_flags = 0, h_session = cp_session_id p, h_path = cp_path_id p, h_seq = cp_sequence p + 1 \<rparr>"

definition client_send ::
  "crypto \<Rightarrow> client_env \<Rightarrow> cref \<Rightarrow> packet_type \<Rightarrow> bytes \<Rightarrow> client \<Rightarrow> bool \<times> client_output list \<times> client" where
  "client_send C e r t payload c0 =
     (let p = cpath c0 r; c = update_cpath r (\<lambda>p. p\<lparr>cp_sequence := cp_sequence p + 1\<rparr>) c0 in
      case seal C (cp_aead p) (client_header p t) ClientToServer payload of
        Inl _ \<Rightarrow> (False, [], c)
      | Inr packet \<Rightarrow>
          if \<not> cp_open p \<or> \<not> cv_write_ok e r then (False, [], c)
          else (True, [SendRelay r packet], path_metrics r (path_sent (length payload)) c))"

definition send_or_mark ::
  "crypto \<Rightarrow> client_env \<Rightarrow> cref \<Rightarrow> packet_type \<Rightarrow> bytes \<Rightarrow> client \<Rightarrow> bool \<times> client_output list \<times> client" where
  "send_or_mark C e r t payload c =
     (let (ok, outs, c1) = client_send C e r t payload c in
      if ok then (True, outs, c1) else (False, outs, client_write_error r c1))"

section \<open>From the tunnel\<close>

definition client_candidate :: "gotime \<Rightarrow> client \<Rightarrow> cref \<Rightarrow> cref candidate" where
  "client_candidate now c r =
     \<lparr> pc_path = r, pc_name = pt_name (cp_config (cpath c r)), pc_weight = pt_weight (cp_config (cpath c r)),
       pc_healthy = client_path_healthy now (cpath c r), pc_rtt = cp_rtt (cpath c r) \<rparr>"

definition client_next_path :: "gotime \<Rightarrow> client \<Rightarrow> cref option \<times> client" where
  "client_next_path now c =
     (let (selected, credits) = next_candidate (ct_credits c) (map (client_candidate now c) (ct_paths c))
      in (map_option pc_path selected, c\<lparr>ct_credits := credits\<rparr>))"

text \<open>One turn of \<open>tunLoop\<close> for a packet that was read.\<close>

definition tun_read :: "crypto \<Rightarrow> client_env \<Rightarrow> bytes \<Rightarrow> client \<Rightarrow> client_output list \<times> client" where
  "tun_read C e packet c =
     (if source_ip packet \<noteq> Some (ct_tunnel_ip c) then ([], client_metrics count_invalid c)
      else
        let (selected, c1) = client_next_path (cv_clock e 0) c in
        case selected of
          None \<Rightarrow> ([], client_metrics count_no_path c1)
        | Some r \<Rightarrow>
            let seq = ct_data_seq c1 + 1; c2 = c1\<lparr>ct_data_seq := seq\<rparr> in
            (case marshal_data seq packet of
               Inl _ \<Rightarrow> ([], client_metrics count_invalid c2)
             | Inr payload \<Rightarrow>
                 let (ok, outs, c3) = send_or_mark C e r TypeData payload c2
                 in (outs, if ok then client_metrics (count_sent (length packet)) c3 else c3)))"

section \<open>From the relay\<close>

text \<open>The loop of \<open>deliver\<close>: a failed write loses that packet only.\<close>

fun write_tun :: "(nat \<Rightarrow> bool) \<Rightarrow> nat \<Rightarrow> bytes list \<Rightarrow> client \<Rightarrow> client_output list \<times> client" where
  "write_tun ok i [] c = ([], c)"
| "write_tun ok i (p # ps) c =
     (if ok i then
        let (outs, c1) = write_tun ok (Suc i) ps (client_metrics (count_received (length p)) c)
        in (ClientTun p # outs, c1)
      else write_tun ok (Suc i) ps (client_metrics count_tun_write_error c))"

definition client_deliver :: "client_env \<Rightarrow> bytes result \<Rightarrow> client \<Rightarrow> client_output list \<times> client" where
  "client_deliver e res c =
     (let c1 = (if 0 < res_skipped res then client_metrics (count_skips (res_skipped res)) c else c) in
      if \<not> ct_tun c1 then ([], c1) else write_tun (cv_tun_ok e) 0 (res_packets res) c1)"

text \<open>\<open>handlePacket\<close>. A PONG returns the timestamp of the PING, so its age is the round trip time.\<close>

definition handle_packet ::
  "client_env \<Rightarrow> cref \<Rightarrow> packet_type \<Rightarrow> bytes \<Rightarrow> client \<Rightarrow> client_output list \<times> client" where
  "handle_packet e r t payload c =
     (if t = TypeData then
        (case parse_data payload of
           Inl _ \<Rightarrow> ([], client_metrics count_invalid c)
         | Inr (sequence, ipPacket) \<Rightarrow>
             if destination_ip ipPacket \<noteq> Some (ct_tunnel_ip c) then ([], client_metrics count_invalid c)
             else if \<not> ct_tun c then ([], c)
             else
               let (res, b) = push (ct_reorder c) sequence ipPacket (cv_clock e 1) (cv_clock e 2)
               in client_deliver e res (c\<lparr>ct_reorder := b\<rparr>))
      else if t = TypePong then
        (if length payload \<noteq> 8 then ([], client_metrics count_invalid c)
         else
           let sentAt = sint (get_uint64 payload); rtt = time_sub (cv_clock e 1) (time_unix_nano sentAt)
           in ([], if 0 < rtt \<and> rtt < minute then update_rtt r rtt c else c))
      else if t = TypeProbeReply then ([], c)
      else if t = TypeClose then ([], mark_unhealthy r c)
      else ([], client_metrics count_invalid c))"

text \<open>An authenticated new packet: the path was just seen.\<close>

definition seen_on :: "cref \<Rightarrow> gotime \<Rightarrow> replay_window \<Rightarrow> nat \<Rightarrow> client \<Rightarrow> client" where
  "seen_on r now w n c =
     (let c1 = update_cpath r (\<lambda>p. p\<lparr>cp_replay := w, cp_last_seen := unix_nano now\<rparr>) c;
          c2 = (if cp_healthy (cpath c1 r) then c1 else set_health r True c1)
      in path_metrics r (path_received n) c2)"

text \<open>One turn of \<open>receiveLoop\<close> for a datagram that was read.\<close>

definition client_receive :: "crypto \<Rightarrow> client_env \<Rightarrow> cref \<Rightarrow> bytes \<Rightarrow> client \<Rightarrow> client_output list \<times> client" where
  "client_receive C e r packet c =
     (let p = cpath c r; rejected = path_metrics r path_auth_failure c in
      case parse_header packet of
        Inl _ \<Rightarrow> ([], rejected)
      | Inr h \<Rightarrow>
          if h_session h \<noteq> cp_session_id p \<or> h_path h \<noteq> cp_path_id p \<or> is_handshake (h_type h) then ([], rejected)
          else case open_packet C (cp_aead p) h ServerToClient packet of
            Inl _ \<Rightarrow> ([], rejected)
          | Inr payload \<Rightarrow>
              (let (new, w) = accept (cp_replay p) (h_seq h) in
               if \<not> new then ([], path_metrics r path_replay_drop c)
               else handle_packet e r (h_type h) payload (seen_on r (cv_clock e 0) w (length payload) c)))"

text \<open>A failed read on a socket that is still open.\<close>

definition read_failed :: "cref \<Rightarrow> client \<Rightarrow> client" where
  "read_failed r c = (if cp_open (cpath c r) then mark_unhealthy r c else c)"

section \<open>Timers\<close>

definition client_reorder_tick :: "client_env \<Rightarrow> gotime \<Rightarrow> client \<Rightarrow> client_output list \<times> client" where
  "client_reorder_tick e now c =
     (let (res, b) = flush_expired (ct_reorder c) now (cv_clock e 0)
      in client_deliver e res (c\<lparr>ct_reorder := b\<rparr>))"

text \<open>One tick of \<open>healthLoop\<close>: the snapshot of the paths is \<open>rs\<close>.\<close>

definition ping_payload :: "gotime \<Rightarrow> bytes" where
  "ping_payload now = put_uint64 (word_of_int (unix_nano now))"

definition check_path ::
  "crypto \<Rightarrow> client_env \<Rightarrow> gotime \<Rightarrow> cref \<Rightarrow> client \<Rightarrow> client_output list \<times> client" where
  "check_path C e now r c =
     (let (ok, outs, c1) = send_or_mark C e r TypePing (ping_payload now) c;
          c2 = refresh_health now r c1
      in (outs @ (if client_path_healthy now (cpath c2 r) then [] else [StartReconnect r]), c2))"

fun check_paths ::
  "crypto \<Rightarrow> client_env \<Rightarrow> gotime \<Rightarrow> cref list \<Rightarrow> client \<Rightarrow> client_output list \<times> client" where
  "check_paths C e now [] c = ([], c)"
| "check_paths C e now (r # rs) c =
     (let (outs, c1) = check_path C e now r c; (outs', c2) = check_paths C e now rs c1 in (outs @ outs', c2))"

definition health_tick :: "crypto \<Rightarrow> client_env \<Rightarrow> gotime \<Rightarrow> client \<Rightarrow> client_output list \<times> client" where
  "health_tick C e now c =
     (if ct_paths c = [] then ([StartRejoin], c) else check_paths C e now (ct_paths c) c)"

section \<open>Reconnecting\<close>

text \<open>\<open>reconnectPath\<close>: the start, up to the end of the handshake (whose outcome the dial determines), and
  what is done with the outcome.\<close>

definition reconnect_begin :: "crypto \<Rightarrow> net_lib \<Rightarrow> cref \<Rightarrow> dial \<Rightarrow> client \<Rightarrow> client" where
  "reconnect_begin C L r d c =
     (if cp_reconnecting (cpath c r) then c
      else (update_cpath r (\<lambda>p. p\<lparr>cp_reconnecting := True\<rparr>) c)
             \<lparr>ct_dialing := map_put (ct_dialing c) r (connect_path C L c d (cp_config (cpath c r)))\<rparr>)"

definition replace_path :: "cref \<Rightarrow> cref \<Rightarrow> cref list \<Rightarrow> cref list" where
  "replace_path old new rs = map (\<lambda>r. if r = old then new else r) rs"

definition reconnect_end :: "cref \<Rightarrow> client \<Rightarrow> client_output list \<times> client" where
  "reconnect_end old c0 =
     (case map_get (ct_dialing c0) old of
        None \<Rightarrow> ([], c0)
      | Some outcome \<Rightarrow>
          let c = (update_cpath old (\<lambda>p. p\<lparr>cp_reconnecting := False\<rparr>) c0)\<lparr>ct_dialing := map_del (ct_dialing c0) old\<rparr> in
          (case outcome of
             Inl _ \<Rightarrow> ([], c)
           | Inr p \<Rightarrow>
               let new = length (ct_heap c); c1 = client_metrics (paths_up [p]) c in
               if cp_session_id p \<noteq> ct_session_id c
               then ([ClosePath new, StartRejoin], c1\<lparr>ct_heap := ct_heap c @ [p\<lparr>cp_open := False\<rparr>]\<rparr>)
               else if old \<notin> set (ct_paths c)
               then ([ClosePath new], c1\<lparr>ct_heap := ct_heap c @ [p\<lparr>cp_open := False\<rparr>]\<rparr>)
               else ([ClosePath old, StartReceiver new],
                     update_cpath old (\<lambda>p. p\<lparr>cp_open := False\<rparr>)
                       (c1\<lparr>ct_heap := ct_heap c @ [p], ct_paths := replace_path old new (ct_paths c)\<rparr>))))"

text \<open>\<open>rejoinAll\<close>: leave the session, then connect again. \<open>rnd\<close> is the new instance nonce, \<^const>\<open>None\<close> if
  the random source fails; the session is then left, but nothing else happens.\<close>

definition close_paths :: "cref list \<Rightarrow> client \<Rightarrow> client" where
  "close_paths rs c = foldl (\<lambda>c r. update_cpath r (\<lambda>p. p\<lparr>cp_open := False\<rparr>) c) c rs"

definition rejoin_begin :: "bytes option \<Rightarrow> client \<Rightarrow> client_output list \<times> client" where
  "rejoin_begin rnd c =
     (if ct_rejoining c then ([], c)
      else
        let c1 = (close_paths (ct_paths c) c)\<lparr>ct_paths := []\<rparr>; outs = map ClosePath (ct_paths c) in
        case rnd of
          None \<Rightarrow> (outs, c1)
        | Some nonce \<Rightarrow>
            (outs, c1\<lparr>ct_rejoining := True, ct_instance_nonce := nonce, ct_reorder := reset (ct_reorder c1),
                      ct_data_seq := 0, ct_session_id := 0\<rparr>))"

definition rejoin_end :: "crypto \<Rightarrow> net_lib \<Rightarrow> connect_env \<Rightarrow> client \<Rightarrow> client_output list \<times> client" where
  "rejoin_end C L ce c =
     (if \<not> ct_rejoining c then ([], c)
      else
        let (err, c1) = connect C L ce c; c2 = c1\<lparr>ct_rejoining := False\<rparr>
        in (if err = None then map StartReceiver (ct_paths c2) else [], c2))"

text \<open>\<open>close\<close>: say goodbye on every path and close it; errors are ignored.\<close>

fun say_goodbye :: "crypto \<Rightarrow> client_env \<Rightarrow> cref list \<Rightarrow> client \<Rightarrow> client_output list \<times> client" where
  "say_goodbye C e [] c = ([], c)"
| "say_goodbye C e (r # rs) c =
     (let (ok, outs, c1) = client_send C e r TypeClose [] c;
          (outs', c2) = say_goodbye C e rs (close_paths [r] c1)
      in (outs @ ClosePath r # outs', c2))"

definition client_close :: "crypto \<Rightarrow> client_env \<Rightarrow> client \<Rightarrow> client_output list \<times> client" where
  "client_close C e c =
     (let (outs, c1) = say_goodbye C e (ct_paths c) c in (outs @ (if ct_tun c1 then [CloseTun] else []), c1))"

section \<open>Diagnosis\<close>

text \<open>\<open>Diagnose\<close>: one turn of a probing loop (whether the loop goes on, what is sent, the state), and the
  evaluation of the counters at the end.\<close>

definition probe_payload :: "gotime \<Rightarrow> nat \<Rightarrow> bytes" where
  "probe_payload now n = put_uint64 (word_of_int (unix_nano now)) @ replicate (n - 8) 0"

definition probe_path ::
  "crypto \<Rightarrow> client_env \<Rightarrow> cref \<Rightarrow> nat \<Rightarrow> client \<Rightarrow> bool \<times> client_output list \<times> client" where
  "probe_path C e r n c = send_or_mark C e r TypeProbe (probe_payload (cv_clock e 0) n) c"

definition check_diagnostic :: "duration \<Rightarrow> int \<Rightarrow> client_error + duration" where
  "check_diagnostic duration n =
     (if n < 64 \<or> 1200 < n then Inl PayloadSizeError else Inr (if duration \<le> 0 then 5 * second else duration))"

record path_diagnostic =
  pd_name :: string
  pd_rtt :: duration
  pd_sent :: u64
  pd_received :: u64
  pd_healthy :: bool

record diagnostic_result =
  dr_duration :: duration
  dr_sent :: u64
  dr_received :: u64
  dr_paths :: "path_diagnostic list"

definition sent_bytes :: "client \<Rightarrow> cref \<Rightarrow> u64" where
  "sent_bytes c r = pm_sent_bytes (fst (registry_path (ct_metrics c) (cp_metric (cpath c r))))"

definition received_bytes :: "client \<Rightarrow> cref \<Rightarrow> u64" where
  "received_bytes c r = pm_received_bytes (fst (registry_path (ct_metrics c) (cp_metric (cpath c r))))"

text \<open>\<open>start\<close> is the state when the probing began; \<open>rs\<close> the snapshot of the paths.\<close>

definition diagnose_path :: "gotime \<Rightarrow> client \<Rightarrow> client \<Rightarrow> cref \<Rightarrow> path_diagnostic" where
  "diagnose_path now start c r =
     \<lparr> pd_name = pt_name (cp_config (cpath c r)), pd_rtt = cp_rtt (cpath c r),
       pd_sent = sent_bytes c r - sent_bytes start r, pd_received = received_bytes c r - received_bytes start r,
       pd_healthy = client_path_healthy now (cpath c r) \<rparr>"

definition diagnose_result :: "duration \<Rightarrow> gotime \<Rightarrow> client \<Rightarrow> client \<Rightarrow> cref list \<Rightarrow> diagnostic_result" where
  "diagnose_result duration now start c rs =
     (let ps = map (diagnose_path now start c) rs in
      \<lparr> dr_duration = duration, dr_sent = sum_list (map pd_sent ps), dr_received = sum_list (map pd_received ps),
        dr_paths = ps \<rparr>)"

section \<open>Steps\<close>

datatype client_event =
    TunRead bytes
  | PathPacket cref bytes
  | PathReadError cref
  | ClientReorderTick gotime
  | HealthTick gotime
  | ReconnectBegin cref dial
  | ReconnectEnd cref
  | RejoinBegin "bytes option"
  | RejoinEnd connect_env
  | Probe cref nat

text \<open>The events of a path concern an object of the heap; a receive loop may still hold a datagram of a
  path that was closed meanwhile.\<close>

fun client_step ::
  "crypto \<Rightarrow> net_lib \<Rightarrow> client_env \<Rightarrow> client \<Rightarrow> client_event \<Rightarrow> client_output list \<times> client" where
  "client_step C L e c (TunRead packet) = tun_read C e packet c"
| "client_step C L e c (PathPacket r packet) =
     (if r < length (ct_heap c) then client_receive C e r packet c else ([], c))"
| "client_step C L e c (PathReadError r) = ([], if r < length (ct_heap c) then read_failed r c else c)"
| "client_step C L e c (ClientReorderTick now) = client_reorder_tick e now c"
| "client_step C L e c (HealthTick now) = health_tick C e now c"
| "client_step C L e c (ReconnectBegin r d) =
     ([], if r < length (ct_heap c) then reconnect_begin C L r d c else c)"
| "client_step C L e c (ReconnectEnd r) = reconnect_end r c"
| "client_step C L e c (RejoinBegin rnd) = rejoin_begin rnd c"
| "client_step C L e c (RejoinEnd ce) = rejoin_end C L ce c"
| "client_step C L e c (Probe r n) = (if r < length (ct_heap c) then snd (probe_path C e r n c) else ([], c))"

text \<open>The states of a client that was started with configuration \<open>cfg\<close> and connected.\<close>

inductive client_reachable :: "crypto \<Rightarrow> net_lib \<Rightarrow> client_config \<Rightarrow> bool \<Rightarrow> client \<Rightarrow> bool"
  for C :: crypto and L :: net_lib and cfg :: client_config and tun :: bool where
  start: "new_client L cfg tun m rnd = Inr c0 \<Longrightarrow> connect C L ce c0 = (None, c)
    \<Longrightarrow> client_reachable C L cfg tun c"
| step: "client_reachable C L cfg tun c \<Longrightarrow> client_step C L e c ev = (outs, c')
    \<Longrightarrow> client_reachable C L cfg tun c'"

end
