(* ===== verification/Client_Inv.thy ===== *)
theory Client_Inv
  imports Client Protocol_Facts Reorder_Facts Scheduler_Facts Config_Facts
begin

text \<open>
  The invariant of the client and its preservation by every step: the paths in use are distinct, open
  and joined to the one relay session the client is in; the key of every path is derived from the
  client's key for that path alone; what waits in the reorder buffer is addressed to the client; and the
  handshakes under way are those of the paths marked as reconnecting.
\<close>

section \<open>Updates\<close>

lemma client_metrics_fields [simp]:
  "ct_config (client_metrics f c) = ct_config c" "ct_tun (client_metrics f c) = ct_tun c"
  "ct_key (client_metrics f c) = ct_key c" "ct_client_id (client_metrics f c) = ct_client_id c"
  "ct_tunnel_ip (client_metrics f c) = ct_tunnel_ip c" "ct_credits (client_metrics f c) = ct_credits c"
  "ct_reorder (client_metrics f c) = ct_reorder c" "ct_data_seq (client_metrics f c) = ct_data_seq c"
  "ct_session_id (client_metrics f c) = ct_session_id c" "ct_rejoining (client_metrics f c) = ct_rejoining c"
  "ct_instance_nonce (client_metrics f c) = ct_instance_nonce c" "ct_paths (client_metrics f c) = ct_paths c"
  "ct_heap (client_metrics f c) = ct_heap c" "ct_dialing (client_metrics f c) = ct_dialing c"
  "cpath (client_metrics f c) r = cpath c r" "ct_metrics (client_metrics f c) = f (ct_metrics c)"
  by (simp_all add: client_metrics_def cpath_def)

lemma update_cpath_fields [simp]:
  "ct_config (update_cpath r f c) = ct_config c" "ct_tun (update_cpath r f c) = ct_tun c"
  "ct_key (update_cpath r f c) = ct_key c" "ct_client_id (update_cpath r f c) = ct_client_id c"
  "ct_tunnel_ip (update_cpath r f c) = ct_tunnel_ip c" "ct_credits (update_cpath r f c) = ct_credits c"
  "ct_reorder (update_cpath r f c) = ct_reorder c" "ct_data_seq (update_cpath r f c) = ct_data_seq c"
  "ct_session_id (update_cpath r f c) = ct_session_id c" "ct_rejoining (update_cpath r f c) = ct_rejoining c"
  "ct_instance_nonce (update_cpath r f c) = ct_instance_nonce c" "ct_paths (update_cpath r f c) = ct_paths c"
  "length (ct_heap (update_cpath r f c)) = length (ct_heap c)" "ct_dialing (update_cpath r f c) = ct_dialing c"
  "ct_metrics (update_cpath r f c) = ct_metrics c"
  by (simp_all add: update_cpath_def)

lemma cpath_update:
  "cpath (update_cpath r f c) q = (if q = r \<and> r < length (ct_heap c) then f (cpath c r) else cpath c q)"
  by (auto simp: update_cpath_def cpath_def nth_list_update list_update_beyond not_less)

lemma path_metrics_fields [simp]:
  "ct_config (path_metrics r f c) = ct_config c" "ct_tun (path_metrics r f c) = ct_tun c"
  "ct_key (path_metrics r f c) = ct_key c" "ct_client_id (path_metrics r f c) = ct_client_id c"
  "ct_tunnel_ip (path_metrics r f c) = ct_tunnel_ip c" "ct_credits (path_metrics r f c) = ct_credits c"
  "ct_reorder (path_metrics r f c) = ct_reorder c" "ct_data_seq (path_metrics r f c) = ct_data_seq c"
  "ct_session_id (path_metrics r f c) = ct_session_id c" "ct_rejoining (path_metrics r f c) = ct_rejoining c"
  "ct_instance_nonce (path_metrics r f c) = ct_instance_nonce c" "ct_paths (path_metrics r f c) = ct_paths c"
  "ct_heap (path_metrics r f c) = ct_heap c" "ct_dialing (path_metrics r f c) = ct_dialing c"
  "cpath (path_metrics r f c) q = cpath c q"
  by (simp_all add: path_metrics_def)

section \<open>The invariant\<close>

text \<open>A path of a client with key \<open>psk\<close> and configuration \<open>cfg\<close>.\<close>

definition cpath_ok :: "crypto \<Rightarrow> bytes \<Rightarrow> client_config \<Rightarrow> client_path \<Rightarrow> bool" where
  "cpath_ok C psk cfg p \<longleftrightarrow>
     cp_session_id p \<noteq> 0 \<and> cp_path_id p \<noteq> 0
     \<and> (\<exists>cn sn. sn \<noteq> zero16 \<and> cp_aead p = new_aead C psk cn sn (cp_session_id p) (cp_path_id p))
     \<and> 0 \<le> cp_rtt p \<and> cp_rtt p < minute
     \<and> (cp_config p \<in> set (cc_paths cfg) \<or> pt_weight (cp_config p) = 1)"

definition fresh_path :: "client_path \<Rightarrow> bool" where
  "fresh_path p \<longleftrightarrow> cp_open p \<and> cp_sequence p = 0 \<and> cp_replay p = new_replay_window \<and> \<not> cp_reconnecting p"

text \<open>A packet for this client.\<close>

definition for_me :: "client \<Rightarrow> bytes \<Rightarrow> bool" where
  "for_me c packet \<longleftrightarrow> destination_ip packet = Some (ct_tunnel_ip c)"

definition used_paths_ok :: "client \<Rightarrow> bool" where
  "used_paths_ok c \<longleftrightarrow>
     distinct (ct_paths c)
     \<and> (\<forall>r \<in> set (ct_paths c). r < length (ct_heap c) \<and> cp_open (cpath c r) \<and> cp_session_id (cpath c r) = ct_session_id c)
     \<and> (ct_rejoining c \<longrightarrow> ct_paths c = [] \<and> ct_session_id c = 0)"

definition dialing_ok :: "crypto \<Rightarrow> client \<Rightarrow> bool" where
  "dialing_ok C c \<longleftrightarrow>
     keys_unique (ct_dialing c)
     \<and> (\<forall>r < length (ct_heap c). cp_reconnecting (cpath c r) \<longleftrightarrow> map_get (ct_dialing c) r \<noteq> None)
     \<and> (\<forall>r outcome. map_get (ct_dialing c) r = Some outcome \<longrightarrow> r < length (ct_heap c)
          \<and> (\<forall>p. outcome = Inr p \<longrightarrow> cpath_ok C (ct_key c) (ct_config c) p \<and> fresh_path p
               \<and> cp_config p = cp_config (cpath c r)))"

definition client_inv :: "crypto \<Rightarrow> client \<Rightarrow> bool" where
  "client_inv C c \<longleftrightarrow>
     used_paths_ok c \<and> dialing_ok C c
     \<and> (\<forall>r < length (ct_heap c). cpath_ok C (ct_key c) (ct_config c) (cpath c r))
     \<and> rb.guarded (for_me c) (ct_reorder c)"

lemma for_me_eq: "for_me c = (\<lambda>packet. destination_ip packet = Some (ct_tunnel_ip c))"
  by (simp add: for_me_def fun_eq_iff)

text \<open>What counters do not matter for.\<close>

lemma inv_metrics [simp, preserves]: "client_inv C (client_metrics f c) = client_inv C c"
  by (simp add: client_inv_def used_paths_ok_def dialing_ok_def for_me_eq)

lemma inv_path_metrics [simp]: "client_inv C (path_metrics r f c) = client_inv C c"
  by (simp add: path_metrics_def)

lemma inv_credits [simp]: "client_inv C (c\<lparr>ct_credits := m\<rparr>) = client_inv C c"
  by (simp add: client_inv_def used_paths_ok_def dialing_ok_def for_me_eq cpath_def)

lemma inv_data_seq [simp]: "client_inv C (c\<lparr>ct_data_seq := n\<rparr>) = client_inv C c"
  by (simp add: client_inv_def used_paths_ok_def dialing_ok_def for_me_eq cpath_def)

text \<open>An update of one path that leaves its identity alone.\<close>

definition keeps_path :: "(client_path \<Rightarrow> client_path) \<Rightarrow> bool" where
  "keeps_path f \<longleftrightarrow>
     (\<forall>p. cp_config (f p) = cp_config p \<and> cp_open (f p) = cp_open p \<and> cp_aead (f p) = cp_aead p
        \<and> cp_session_id (f p) = cp_session_id p \<and> cp_path_id (f p) = cp_path_id p
        \<and> cp_reconnecting (f p) = cp_reconnecting p \<and> (0 \<le> cp_rtt p \<and> cp_rtt p < minute \<longrightarrow> 0 \<le> cp_rtt (f p) \<and> cp_rtt (f p) < minute))"

lemma keeps_path_simps [simp]:
  "keeps_path (\<lambda>p. p\<lparr>cp_healthy := b\<rparr>)" "keeps_path (\<lambda>p. p\<lparr>cp_sequence := cp_sequence p + 1\<rparr>)"
  "keeps_path (\<lambda>p. p\<lparr>cp_replay := w, cp_last_seen := t\<rparr>)"
  "0 \<le> v \<Longrightarrow> v < minute \<Longrightarrow> keeps_path (\<lambda>p. p\<lparr>cp_rtt := v\<rparr>)"
  by (simp_all add: keeps_path_def)

lemma cpath_ok_keeps: "keeps_path f \<Longrightarrow> cpath_ok C k cfg p \<Longrightarrow> cpath_ok C k cfg (f p)"
  by (auto simp: keeps_path_def cpath_ok_def)

lemma inv_update_cpath [preserves]:
  assumes "client_inv C c" "keeps_path f" shows "client_inv C (update_cpath r f c)"
proof -
  have k: "cp_open (f p) = cp_open p" "cp_session_id (f p) = cp_session_id p" "cp_reconnecting (f p) = cp_reconnecting p"
    "cp_config (f p) = cp_config p" for p
    using assms(2) by (simp_all add: keeps_path_def)
  let ?u = "update_cpath r f c"
  have g: "cp_open (cpath ?u q) = cp_open (cpath c q)" "cp_session_id (cpath ?u q) = cp_session_id (cpath c q)"
    "cp_reconnecting (cpath ?u q) = cp_reconnecting (cpath c q)" "cp_config (cpath ?u q) = cp_config (cpath c q)" for q
    by (simp_all add: cpath_update k)
  have "used_paths_ok ?u = used_paths_ok c" "dialing_ok C ?u = dialing_ok C c"
    by (simp_all add: used_paths_ok_def dialing_ok_def g)
  moreover have "\<forall>q < length (ct_heap ?u). cpath_ok C (ct_key ?u) (ct_config ?u) (cpath ?u q)"
    using assms by (simp add: client_inv_def cpath_update cpath_ok_keeps)
  ultimately show ?thesis
    using assms(1) by (simp add: client_inv_def for_me_eq)
qed

lemma inv_set_health [preserves]: "client_inv C c \<Longrightarrow> client_inv C (set_health r b c)"
  by (simp add: set_health_def inv_update_cpath)

lemma inv_mark_unhealthy [preserves]: "client_inv C c \<Longrightarrow> client_inv C (mark_unhealthy r c)"
  by (simp add: mark_unhealthy_def inv_set_health)

lemma inv_refresh_health [preserves]: "client_inv C c \<Longrightarrow> client_inv C (refresh_health now r c)"
  by (simp add: refresh_health_def Let_def inv_set_health)

lemma inv_write_error [preserves]: "client_inv C c \<Longrightarrow> client_inv C (client_write_error r c)"
  by (simp add: client_write_error_def inv_mark_unhealthy)

lemma inv_send [preserves]: "client_inv C c \<Longrightarrow> client_inv C (snd (snd (client_send D e r t payload c)))"
  by (auto simp: client_send_def Let_def inv_update_cpath split: sum.splits)

lemma inv_send_or_mark [preserves]: "client_inv C c \<Longrightarrow> client_inv C (snd (snd (send_or_mark D e r t payload c)))"
  using inv_send [of C c D e r t payload] by (auto simp: send_or_mark_def inv_write_error split: prod.splits)

section \<open>The round trip time\<close>

text \<open>The average never leaves the range of its samples, so the \<open>int64\<close> arithmetic does not wrap.\<close>

lemma smoothed_rtt_exact:
  assumes "0 \<le> old" "old < minute" "0 < sample" "sample < minute"
  shows "smoothed_rtt old sample = (if 0 < old then (old * 7 + sample) div 8 else sample)"
proof -
  have b: "old * 7 < 2 ^ 63" "0 \<le> old * 7" "old * 7 + sample < 2 ^ 63" using assms by (auto simp: minute_def)
  have "signed_take_bit 63 (old * 7) = old * 7" using b by (intro signed_take_bit_int_eq_self) auto
  moreover have "signed_take_bit 63 (old * 7 + sample) = old * 7 + sample"
    using b assms by (intro signed_take_bit_int_eq_self) auto
  moreover have "(old * 7 + sample) sdiv 8 = (old * 7 + sample) div 8"
    using assms by (simp add: signed_divide_int_def sgn_if)
  ultimately show ?thesis by (simp add: smoothed_rtt_def)
qed

lemma smoothed_rtt_range:
  assumes "0 \<le> old" "old < minute" "0 < sample" "sample < minute"
  shows "0 \<le> smoothed_rtt old sample \<and> smoothed_rtt old sample < minute"
  unfolding smoothed_rtt_exact [OF assms] using assms by (auto simp: minute_def)

lemma inv_update_rtt [preserves]:
  assumes "client_inv C c" "r < length (ct_heap c)" "0 < sample" "sample < minute"
  shows "client_inv C (update_rtt r sample c)"
proof -
  have "0 \<le> cp_rtt (cpath c r)" "cp_rtt (cpath c r) < minute"
    using assms by (auto simp: client_inv_def cpath_ok_def)
  then have "keeps_path (\<lambda>p. p\<lparr>cp_rtt := smoothed_rtt (cp_rtt (cpath c r)) sample\<rparr>)"
    using smoothed_rtt_range assms by auto
  then show ?thesis using assms by (simp add: update_rtt_def Let_def inv_update_cpath)
qed

section \<open>Delivery\<close>

lemma client_metrics_twice: "client_metrics f (client_metrics g c) = client_metrics (\<lambda>m. f (g m)) c"
  by (simp add: client_metrics_def)

lemma client_metrics_id: "client_metrics (\<lambda>m. m) c = c"
  by (simp add: client_metrics_def)

lemma write_tun_metrics: "\<exists>g. snd (write_tun ok i ps c) = client_metrics g c"
proof (induction ps arbitrary: i c)
  case Nil
  show ?case using client_metrics_id [of c] by (metis snd_conv write_tun.simps(1))
next
  case (Cons p ps)
  obtain g1 g2 where "snd (write_tun ok (Suc i) ps (client_metrics (count_received (length p)) c)) = client_metrics g1 c"
    "snd (write_tun ok (Suc i) ps (client_metrics count_tun_write_error c)) = client_metrics g2 c"
    using Cons.IH [of "Suc i" "client_metrics (count_received (length p)) c"]
      Cons.IH [of "Suc i" "client_metrics count_tun_write_error c"] unfolding client_metrics_twice by blast
  then show ?case by (cases "ok i") (auto simp: case_prod_beta)
qed

lemma write_tun_outputs: "set (fst (write_tun ok i ps c)) \<subseteq> ClientTun ` set ps"
proof (induction ps arbitrary: i c)
  case (Cons p ps)
  show ?case
    using Cons.IH [of "Suc i" "client_metrics (count_received (length p)) c"]
      Cons.IH [of "Suc i" "client_metrics count_tun_write_error c"]
    by (auto simp: case_prod_beta)
qed simp

lemma client_deliver_metrics: "\<exists>g. snd (client_deliver e res c) = client_metrics g c"
proof -
  obtain f where f: "(if 0 < res_skipped res then client_metrics (count_skips (res_skipped res)) c else c) = client_metrics f c"
    using client_metrics_id [of c] by (cases "0 < res_skipped res") (metis (full_types))+
  show ?thesis
  proof (cases "ct_tun c")
    case True
    obtain g where "snd (write_tun (cv_tun_ok e) 0 (res_packets res) (client_metrics f c)) = client_metrics g (client_metrics f c)"
      using write_tun_metrics by blast
    then show ?thesis using True unfolding client_deliver_def Let_def f client_metrics_twice by auto
  next
    case False
    then show ?thesis unfolding client_deliver_def Let_def f by auto
  qed
qed

lemma client_deliver_outputs: "set (fst (client_deliver e res c)) \<subseteq> ClientTun ` set (res_packets res)"
proof -
  have "set (fst (if \<not> ct_tun d then ([], d) else write_tun (cv_tun_ok e) 0 (res_packets res) d)) \<subseteq> ClientTun ` set (res_packets res)" for d
    using write_tun_outputs by (cases "ct_tun d") auto
  then show ?thesis unfolding client_deliver_def Let_def .
qed

lemma inv_set_reorder_client:
  assumes "client_inv C c" "rb.guarded (for_me c) b" shows "client_inv C (c\<lparr>ct_reorder := b\<rparr>)"
proof -
  let ?d = "c\<lparr>ct_reorder := b\<rparr>"
  have "used_paths_ok ?d = used_paths_ok c" "dialing_ok C ?d = dialing_ok C c" "for_me ?d = for_me c"
    "\<And>r. cpath ?d r = cpath c r"
    by (simp_all add: used_paths_ok_def dialing_ok_def for_me_eq cpath_def)
  then show ?thesis using assms by (simp add: client_inv_def)
qed

lemma inv_deliver [preserves]: "client_inv C c \<Longrightarrow> client_inv C (snd (client_deliver e res c))"
  using client_deliver_metrics [of e res c] by auto

section \<open>Datagrams\<close>

lemma inv_handle_packet [preserves]:
  assumes inv: "client_inv C c" and r: "r < length (ct_heap c)"
  shows "client_inv C (snd (handle_packet e r t payload c))"
proof -
  have "client_inv C (snd (client_deliver e res (c\<lparr>ct_reorder := b\<rparr>)))"
    if "destination_ip q = Some (ct_tunnel_ip c)" "push (ct_reorder c) n q u v = (res, b)" for q n u v res b
  proof -
    have "rb.guarded (for_me c) b"
      using rb.guarded_put [OF _ _ that(2), of "for_me c"] inv that(1) by (simp add: client_inv_def for_me_def)
    then show ?thesis using inv by (simp add: inv_deliver inv_set_reorder_client)
  qed
  then show ?thesis
    using inv r by (auto simp: handle_packet_def Let_def inv_update_rtt inv_mark_unhealthy split: sum.splits prod.splits)
qed

lemma inv_seen_on [preserves]: "client_inv C c \<Longrightarrow> client_inv C (seen_on r now w n c)"
  by (simp add: seen_on_def Let_def inv_update_cpath inv_set_health)

lemma set_health_fields [simp]:
  "ct_paths (set_health r b c) = ct_paths c" "length (ct_heap (set_health r b c)) = length (ct_heap c)"
  "ct_tunnel_ip (set_health r b c) = ct_tunnel_ip c" "ct_tun (set_health r b c) = ct_tun c"
  "ct_reorder (set_health r b c) = ct_reorder c" "ct_config (set_health r b c) = ct_config c"
  "ct_key (set_health r b c) = ct_key c" "ct_session_id (set_health r b c) = ct_session_id c"
  "ct_data_seq (set_health r b c) = ct_data_seq c" "ct_credits (set_health r b c) = ct_credits c"
  "cpath (set_health r b c) q =
     (if q = r \<and> r < length (ct_heap c) then (cpath c r)\<lparr>cp_healthy := b\<rparr> else cpath c q)"
  by (simp_all add: set_health_def cpath_update)

lemma seen_on_fields [simp]:
  "length (ct_heap (seen_on r now w n c)) = length (ct_heap c)" "ct_paths (seen_on r now w n c) = ct_paths c"
  "ct_tunnel_ip (seen_on r now w n c) = ct_tunnel_ip c" "ct_tun (seen_on r now w n c) = ct_tun c"
  "ct_reorder (seen_on r now w n c) = ct_reorder c"
  by (simp_all add: seen_on_def Let_def)

lemma cpath_seen_on:
  "cpath (seen_on r now w n c) q =
     (if q = r \<and> r < length (ct_heap c)
      then (cpath c r)\<lparr>cp_replay := w, cp_last_seen := unix_nano now, cp_healthy := True\<rparr> else cpath c q)"
  by (simp add: seen_on_def Let_def cpath_update)

lemma inv_client_receive [preserves]:
  "client_inv C c \<Longrightarrow> r < length (ct_heap c) \<Longrightarrow> client_inv C (snd (client_receive D e r packet c))"
  by (auto simp: client_receive_def Let_def inv_handle_packet inv_seen_on split: sum.splits prod.splits)

lemma inv_read_failed [preserves]: "client_inv C c \<Longrightarrow> client_inv C (read_failed r c)"
  by (simp add: read_failed_def inv_mark_unhealthy)

lemma inv_tun_read [preserves]: "client_inv C c \<Longrightarrow> client_inv C (snd (tun_read D e packet c))"
proof -
  assume inv: "client_inv C c"
  obtain sel c1 where n: "client_next_path (cv_clock e 0) c = (sel, c1)" by (cases "client_next_path (cv_clock e 0) c")
  have c1: "client_inv C c1" using n inv by (auto simp: client_next_path_def split: prod.splits)
  have "client_inv C (snd (snd (send_or_mark D e r t payload (c1\<lparr>ct_data_seq := m\<rparr>))))" for r t payload m
    using c1 by (simp add: inv_send_or_mark)
  then show ?thesis
    using inv n c1 by (auto simp: tun_read_def Let_def case_prod_beta split: option.splits sum.splits)
qed

section \<open>Timers\<close>

lemma inv_reorder_tick [preserves]:
  "client_inv C c \<Longrightarrow> client_inv C (snd (client_reorder_tick e now c))"
proof -
  assume inv: "client_inv C c"
  obtain res b where f: "flush_expired (ct_reorder c) now (cv_clock e 0) = (res, b)"
    by (cases "flush_expired (ct_reorder c) now (cv_clock e 0)")
  have "rb.guarded (for_me c) b" using rb.guarded_flush [OF _ f] inv by (simp add: client_inv_def)
  then show ?thesis using inv by (simp add: client_reorder_tick_def f inv_deliver inv_set_reorder_client)
qed

lemma inv_check_path [preserves]: "client_inv C c \<Longrightarrow> client_inv C (snd (check_path D e now r c))"
  using inv_send_or_mark [of C c D e r TypePing "ping_payload now"]
  by (simp add: check_path_def Let_def case_prod_beta inv_refresh_health)

lemma inv_health_tick [preserves]: "client_inv C c \<Longrightarrow> client_inv C (snd (health_tick D e now c))"
proof -
  have "client_inv C c \<Longrightarrow> client_inv C (snd (check_paths D e now rs c))" for rs
    by (induction rs arbitrary: c) (simp_all add: case_prod_beta inv_check_path)
  then show "client_inv C c \<Longrightarrow> ?thesis" by (simp add: health_tick_def)
qed

section \<open>The handshake\<close>

lemma await_welcome_accepts:
  "await_welcome C key nonce deadline as = Inr (Some hw) \<Longrightarrow>
   \<exists>a \<in> set as. \<exists>packet. at_read a = ReadPacket packet \<and> at_before a < deadline
     \<and> accept_welcome C key nonce (at_now a) packet = Some hw"
proof (induction as)
  case (Cons a as)
  show ?case
  proof (cases "deadline \<le> at_before a \<or> \<not> at_deadline_ok a \<or> \<not> at_write_ok a")
    case True
    then show ?thesis using Cons.prems by (auto split: if_splits)
  next
    case False
    show ?thesis
    proof (cases "at_read a")
      case (ReadPacket packet)
      then show ?thesis
        using Cons False by (cases "accept_welcome C key nonce (at_now a) packet") auto
    qed (use Cons False in auto)
  qed
qed simp

lemma accept_welcome_spec:
  "accept_welcome C key nonce now packet = Some (h, w) \<Longrightarrow>
   parse_header packet = Inr h \<and> h_type h = TypeWelcome \<and> h_path h \<noteq> 0 \<and> h_session h \<noteq> 0
   \<and> parse_welcome C (drop HeaderSize packet) key h nonce now = Inr w"
  by (auto simp: accept_welcome_def plain_payload_def split: sum.splits if_splits)

lemma connect_path_spec:
  assumes "connect_path C L c d p = Inr q"
  obtains h wh w where "client_hello c d p = Inr h" "q = new_client_path C c d p h wh w"
    "welcome_server_nonce w \<noteq> zero16" "h_path wh \<noteq> 0" "h_session wh \<noteq> 0"
proof -
  obtain h wh w where s: "client_hello c d p = Inr h" "q = new_client_path C c d p h wh w" "welcome_server_nonce w \<noteq> zero16"
    "await_welcome C (ct_key c) (hello_nonce h)
      (dl_start d + duration_value (cc_handshake_timeout (ct_config c)) (8 * second)) (dl_attempts d) = Inr (Some (wh, w))"
    using assms by (auto simp: connect_path_def Let_def split: option.splits sum.splits if_splits)
  then have "h_path wh \<noteq> 0" "h_session wh \<noteq> 0"
    by (auto dest!: await_welcome_accepts accept_welcome_spec)
  then show thesis using s that by blast
qed

lemma connect_path_ok:
  assumes c: "connect_path C L c d p = Inr q" and p: "p \<in> set (cc_paths (ct_config c)) \<or> pt_weight p = 1"
  shows "cpath_ok C (ct_key c) (ct_config c) q \<and> fresh_path q \<and> cp_config q = p"
  using c
proof (rule connect_path_spec)
  fix h wh w
  assume "q = new_client_path C c d p h wh w" "welcome_server_nonce w \<noteq> zero16" "h_path wh \<noteq> 0" "h_session wh \<noteq> 0"
  moreover from this have "\<exists>cn sn. sn \<noteq> zero16 \<and> cp_aead q = new_aead C (ct_key c) cn sn (cp_session_id q) (cp_path_id q)"
    by (intro exI [of _ "hello_nonce h"] exI [of _ "welcome_server_nonce w"]) (simp add: new_client_path_def)
  ultimately show ?thesis
    using p unfolding cpath_ok_def fresh_path_def by (simp add: new_client_path_def minute_def)
qed

text \<open>Discovered paths have weight 1.\<close>

lemma foldl_keeps: "(\<And>acc x. P acc \<Longrightarrow> P (f acc x)) \<Longrightarrow> P acc \<Longrightarrow> P (foldl f acc xs)"
  by (induction xs arbitrary: acc) auto

lemma discover_weights:
  assumes d: "discover_paths c is defaults = Some ps" and p: "p \<in> set ps"
  shows "p \<in> set (cc_paths c) \<or> pt_weight p = 1"
proof -
  define ok where "ok = (\<lambda>acc :: path_config list \<times> string list. \<forall>p \<in> set (fst acc). p \<in> set (cc_paths c) \<or> pt_weight p = 1)"
  have a: "ok (discover_address c n acc a)" if ok: "ok acc" for n a acc
  proof -
    obtain paths existing where acc: "acc = (paths, existing)" by (cases acc)
    show ?thesis
      using ok by (cases a) (simp_all add: ok_def discover_address_def acc Let_def ball_Un)
  qed
  have as: "ok (foldl (discover_address c n) acc xs)" if "ok acc" for n acc xs
    by (rule foldl_keeps [of ok, OF a that])
  have i: "ok (discover_interface c defaults acc i)" if "ok acc" for i acc
    unfolding discover_interface_def Let_def using that as [OF that] by (cases "if_addrs i") simp_all
  have "ok (foldl (discover_interface c defaults) (cc_paths c, map pt_local_address (cc_paths c)) xs)" for xs
    by (rule foldl_keeps [of ok, OF i]) (simp_all add: ok_def)
  then show ?thesis
    using d p unfolding ok_def discover_paths_def enabled_paths_def by (fastforce split: if_splits option.splits)
qed

section \<open>Connecting\<close>

lemma successes_mem: "p \<in> set (successes rs) \<longleftrightarrow> Inr p \<in> set rs"
  by (induction rs rule: successes.induct) auto

lemma connect_results_mem:
  "outcome \<in> set (connect_results C L ce c ps) \<longleftrightarrow> (\<exists>i < length ps. outcome = connect_path C L c (cn_dial ce i) (ps ! i))"
  by (auto simp: connect_results_def)

lemma dialing_entry:
  "dialing_ok C c \<Longrightarrow> map_get (ct_dialing c) r = Some outcome \<Longrightarrow> r < length (ct_heap c)
   \<and> (\<forall>p. outcome = Inr p \<longrightarrow> cpath_ok C (ct_key c) (ct_config c) p \<and> fresh_path p \<and> cp_config p = cp_config (cpath c r))"
  unfolding dialing_ok_def by blast

lemma dialing_flag:
  "dialing_ok C c \<Longrightarrow> r < length (ct_heap c) \<Longrightarrow> cp_reconnecting (cpath c r) \<longleftrightarrow> map_get (ct_dialing c) r \<noteq> None"
  unfolding dialing_ok_def by blast

lemma dialing_ok_cong:
  assumes "dialing_ok C c" "ct_dialing c' = ct_dialing c" "ct_key c' = ct_key c" "ct_config c' = ct_config c"
    "length (ct_heap c) \<le> length (ct_heap c')"
    "\<And>r. r < length (ct_heap c) \<Longrightarrow> cp_reconnecting (cpath c' r) = cp_reconnecting (cpath c r)
      \<and> cp_config (cpath c' r) = cp_config (cpath c r)"
    "\<And>r. length (ct_heap c) \<le> r \<Longrightarrow> r < length (ct_heap c') \<Longrightarrow> \<not> cp_reconnecting (cpath c' r)"
  shows "dialing_ok C c'"
proof -
  have b: "map_get (ct_dialing c) r = Some out \<Longrightarrow> r < length (ct_heap c)" for r out
    using dialing_entry [OF assms(1)] by blast
  have flag: "cp_reconnecting (cpath c' r) \<longleftrightarrow> map_get (ct_dialing c) r \<noteq> None" if "r < length (ct_heap c')" for r
  proof (cases "r < length (ct_heap c)")
    case True
    then show ?thesis using assms(6) dialing_flag [OF assms(1)] by blast
  next
    case False
    then have "map_get (ct_dialing c) r = None" using b by (cases "map_get (ct_dialing c) r") auto
    then show ?thesis using assms(7) [of r] that False by simp
  qed
  have out: "r < length (ct_heap c') \<and> (\<forall>p. out = Inr p \<longrightarrow> cpath_ok C (ct_key c') (ct_config c') p \<and> fresh_path p
               \<and> cp_config p = cp_config (cpath c' r))"
    if m: "map_get (ct_dialing c) r = Some out" for r out
  proof -
    have x: "cp_config (cpath c' r) = cp_config (cpath c r)" using assms(6) b [OF m] by blast
    have "r < length (ct_heap c')" using b [OF m] assms(5) by (rule less_le_trans)
    then show ?thesis using dialing_entry [OF assms(1) m] unfolding assms(3,4) x by blast
  qed
  show ?thesis
    unfolding dialing_ok_def assms(2)
  proof (intro conjI allI impI)
    show "keys_unique (ct_dialing c)" using assms(1) by (simp add: dialing_ok_def)
  qed (use flag out in blast)+
qed

text \<open>Paths are added to the heap by \<open>connect\<close> and by \<open>reconnectPath\<close>.\<close>

definition add_paths :: "client_path list \<Rightarrow> client \<Rightarrow> client" where
  "add_paths ps c = c\<lparr>ct_heap := ct_heap c @ ps\<rparr>"

lemma cpath_add_old: "r < length (ct_heap c) \<Longrightarrow> cpath (add_paths ps c) r = cpath c r"
  by (simp add: add_paths_def cpath_def nth_append)

lemma cpath_add_new: "i < length ps \<Longrightarrow> cpath (add_paths ps c) (length (ct_heap c) + i) = ps ! i"
  by (simp add: add_paths_def cpath_def nth_append)

lemma cpath_add_cases:
  assumes "r < length (ct_heap (add_paths ps c))"
  shows "r < length (ct_heap c) \<and> cpath (add_paths ps c) r = cpath c r
    \<or> length (ct_heap c) \<le> r \<and> cpath (add_paths ps c) r \<in> set ps"
proof (cases "r < length (ct_heap c)")
  case False
  then have "r - length (ct_heap c) < length ps" using assms by (simp add: add_paths_def)
  then show ?thesis using cpath_add_new [of "r - length (ct_heap c)" ps c] False by simp
qed (simp add: cpath_add_old)

lemma add_paths_fields [simp]:
  "ct_config (add_paths ps c) = ct_config c" "ct_tun (add_paths ps c) = ct_tun c" "ct_key (add_paths ps c) = ct_key c"
  "ct_tunnel_ip (add_paths ps c) = ct_tunnel_ip c" "ct_reorder (add_paths ps c) = ct_reorder c"
  "ct_session_id (add_paths ps c) = ct_session_id c" "ct_rejoining (add_paths ps c) = ct_rejoining c"
  "ct_paths (add_paths ps c) = ct_paths c" "ct_dialing (add_paths ps c) = ct_dialing c"
  "length (ct_heap (add_paths ps c)) = length (ct_heap c) + length ps"
  by (simp_all add: add_paths_def)

lemma inv_add_paths:
  assumes inv: "client_inv C c"
    and ps: "\<And>p. p \<in> set ps \<Longrightarrow> cpath_ok C (ct_key c) (ct_config c) p \<and> \<not> cp_reconnecting p"
  shows "client_inv C (add_paths ps c)"
proof -
  let ?d = "add_paths ps c"
  have "used_paths_ok ?d" using inv by (auto simp: client_inv_def used_paths_ok_def cpath_add_old)
  moreover have "dialing_ok C ?d"
  proof (rule dialing_ok_cong [of C c])
    show "\<not> cp_reconnecting (cpath ?d r)" if "length (ct_heap c) \<le> r" "r < length (ct_heap ?d)" for r
      using cpath_add_cases [OF that(2)] that(1) ps by auto
  qed (use inv in \<open>auto simp: client_inv_def cpath_add_old\<close>)
  moreover have "\<forall>r < length (ct_heap ?d). cpath_ok C (ct_key ?d) (ct_config ?d) (cpath ?d r)"
    using cpath_add_cases [of _ ps c] inv ps by (metis add_paths_fields(1,3) client_inv_def)
  ultimately show ?thesis using inv by (simp add: client_inv_def for_me_eq)
qed

text \<open>Choosing other paths of the same heap.\<close>

lemma inv_use_paths:
  assumes inv: "client_inv C c" and d: "distinct rs"
    and rs: "\<And>r. r \<in> set rs \<Longrightarrow> r < length (ct_heap c) \<and> cp_open (cpath c r) \<and> cp_session_id (cpath c r) = sid"
    and rj: "rj \<Longrightarrow> rs = [] \<and> sid = 0"
  shows "client_inv C (c\<lparr>ct_session_id := sid, ct_paths := rs, ct_rejoining := rj\<rparr>)"
proof -
  let ?d = "c\<lparr>ct_session_id := sid, ct_paths := rs, ct_rejoining := rj\<rparr>"
  have h: "\<And>r. cpath ?d r = cpath c r" by (simp add: cpath_def)
  have "used_paths_ok ?d" using d rs rj by (auto simp: used_paths_ok_def h)
  moreover have "dialing_ok C ?d = dialing_ok C c" "for_me ?d = for_me c" by (simp_all add: dialing_ok_def for_me_eq h)
  ultimately show ?thesis using inv by (simp add: client_inv_def h)
qed

lemma connect_connected:
  assumes d: "discover_paths (ct_config c) (cn_interfaces ce) (cn_defaults ce) = Some ps"
    and p: "p \<in> set (successes (connect_results C L ce c ps))"
  shows "cpath_ok C (ct_key c) (ct_config c) p \<and> fresh_path p"
proof -
  obtain i where i: "i < length ps" "connect_path C L c (cn_dial ce i) (ps ! i) = Inr p"
    using p unfolding successes_mem connect_results_mem by auto
  then have "ps ! i \<in> set (cc_paths (ct_config c)) \<or> pt_weight (ps ! i) = 1"
    using discover_weights [OF d] by simp
  from connect_path_ok [OF i(2) this] show ?thesis by blast
qed

text \<open>What \<open>connect\<close> does to the state: it adds the paths that authenticated and, if there is one, uses
  those of the session that the first of them joined.\<close>

definition joined :: "client_path list \<Rightarrow> client_path list" where
  "joined ps = map (\<lambda>p. p\<lparr>cp_open := cp_session_id p = cp_session_id (hd ps)\<rparr>) ps"

definition joined_refs :: "client_path list \<Rightarrow> client \<Rightarrow> cref list" where
  "joined_refs ps c = filter (\<lambda>r. cp_open (joined ps ! (r - length (ct_heap c)))) [length (ct_heap c) ..< length (ct_heap c) + length ps]"

lemma joined_refs_mem:
  "r \<in> set (joined_refs ps c) \<longleftrightarrow>
   (\<exists>i < length ps. r = length (ct_heap c) + i \<and> cp_session_id (ps ! i) = cp_session_id (hd ps))"
proof -
  let ?n = "length (ct_heap c)"
  have "cp_open (joined ps ! i) \<longleftrightarrow> cp_session_id (ps ! i) = cp_session_id (hd ps)" if "i < length ps" for i
    using that by (simp add: joined_def)
  then have "?n + i \<in> set (joined_refs ps c) \<longleftrightarrow> i < length ps \<and> cp_session_id (ps ! i) = cp_session_id (hd ps)" for i
    by (auto simp: joined_refs_def)
  moreover have "r \<in> set (joined_refs ps c) \<Longrightarrow> \<exists>i. r = ?n + i"
    by (auto simp: joined_refs_def intro: le_Suc_ex)
  ultimately show ?thesis by auto
qed

lemma joined_refs_nonempty: "ps \<noteq> [] \<Longrightarrow> joined_refs ps c \<noteq> []"
proof -
  assume "ps \<noteq> []"
  then have "length (ct_heap c) \<in> set (joined_refs ps c)"
    unfolding joined_refs_mem by (intro exI [of _ 0]) (simp add: hd_conv_nth)
  then show ?thesis by auto
qed

lemma connect_cases:
  assumes con: "connect C L ce c = (err, c')"
  shows "(\<exists>g. err \<noteq> None \<and> c' = client_metrics g c)
    \<or> (\<exists>ps connected g. discover_paths (ct_config c) (cn_interfaces ce) (cn_defaults ce) = Some ps
        \<and> connected = successes (connect_results C L ce c ps) \<and> connected \<noteq> [] \<and> err = None
        \<and> c' = (add_paths (joined connected) (client_metrics g c))
                 \<lparr>ct_session_id := cp_session_id (hd connected), ct_paths := joined_refs connected c\<rparr>)"
proof (cases "discover_paths (ct_config c) (cn_interfaces ce) (cn_defaults ce)")
  case None
  then have "err = Some DiscoverError \<and> c' = client_metrics (\<lambda>m. m) c" using con by (simp add: connect_def client_metrics_id)
  then show ?thesis by blast
next
  case (Some ps)
  let ?cn = "successes (connect_results C L ce c ps)"
  show ?thesis
  proof (cases "ps = [] \<or> ?cn = []")
    case True
    then have "err \<noteq> None \<and> (c' = client_metrics (\<lambda>m. m) c \<or> c' = client_metrics (paths_up ?cn) c)"
      using con Some by (auto simp: connect_def Let_def client_metrics_id split: if_splits)
    then show ?thesis by blast
  next
    case False
    then have "joined_refs ?cn c \<noteq> []" using joined_refs_nonempty by blast
    then have "filter (\<lambda>r. cp_open (joined ?cn ! (r - length (ct_heap c)))) [length (ct_heap c) ..< length (ct_heap c) + length (joined ?cn)] \<noteq> []"
      by (simp add: joined_refs_def joined_def)
    then have "err = None \<and> c' = (add_paths (joined ?cn) (client_metrics (paths_up ?cn) c))
        \<lparr>ct_session_id := cp_session_id (hd ?cn), ct_paths := joined_refs ?cn c\<rparr>"
      using con Some False unfolding connect_def joined_def [symmetric] Let_def
      by (auto simp: add_paths_def joined_refs_def joined_def)
    then show ?thesis using Some False by blast
  qed
qed

lemma inv_connect:
  assumes inv: "client_inv C c" and con: "connect C L ce c = (err, c')" and none: "ct_rejoining c \<Longrightarrow> ct_paths c = []"
  shows "client_inv C (c'\<lparr>ct_rejoining := False\<rparr>)"
proof -
  have same: "client_inv C (c\<lparr>ct_rejoining := False\<rparr>)"
  proof -
    have "client_inv C (c\<lparr>ct_session_id := ct_session_id c, ct_paths := ct_paths c, ct_rejoining := False\<rparr>)"
      using inv by (intro inv_use_paths) (auto simp: client_inv_def used_paths_ok_def)
    then show ?thesis by simp
  qed
  from connect_cases [OF con] show ?thesis
  proof (elim disjE exE conjE)
    fix g assume "c' = client_metrics g c"
    then have "c'\<lparr>ct_rejoining := False\<rparr> = client_metrics g (c\<lparr>ct_rejoining := False\<rparr>)" by (simp add: client_metrics_def)
    then show ?thesis using same by simp
  next
    fix ps connected g
    assume d: "discover_paths (ct_config c) (cn_interfaces ce) (cn_defaults ce) = Some ps"
      and cn: "connected = successes (connect_results C L ce c ps)"
      and c': "c' = (add_paths (joined connected) (client_metrics g c))
        \<lparr>ct_session_id := cp_session_id (hd connected), ct_paths := joined_refs connected c\<rparr>"
    let ?a = "add_paths (joined connected) (client_metrics g c)"
    have a: "client_inv C ?a"
    proof (rule inv_add_paths)
      fix p assume "p \<in> set (joined connected)"
      then obtain q where "q \<in> set connected" "p = q\<lparr>cp_open := cp_session_id q = cp_session_id (hd connected)\<rparr>"
        by (auto simp: joined_def)
      then show "cpath_ok C (ct_key (client_metrics g c)) (ct_config (client_metrics g c)) p \<and> \<not> cp_reconnecting p"
        using connect_connected [OF d, of q C L] by (simp add: cn cpath_ok_def fresh_path_def)
    qed (simp add: inv)
    have "client_inv C (?a\<lparr>ct_session_id := cp_session_id (hd connected), ct_paths := joined_refs connected c, ct_rejoining := False\<rparr>)"
    proof (rule inv_use_paths [OF a])
      show "distinct (joined_refs connected c)" by (simp add: joined_refs_def)
      fix r assume "r \<in> set (joined_refs connected c)"
      then obtain i where i: "i < length connected" "r = length (ct_heap c) + i" "cp_session_id (connected ! i) = cp_session_id (hd connected)"
        unfolding joined_refs_mem by blast
      have "cpath ?a r = joined connected ! i"
        using cpath_add_new [of i "joined connected" "client_metrics g c"] i by (simp add: joined_def)
      then show "r < length (ct_heap ?a) \<and> cp_open (cpath ?a r) \<and> cp_session_id (cpath ?a r) = cp_session_id (hd connected)"
        using i by (simp add: joined_def)
    qed simp
    then show ?thesis by (simp add: c')
  qed
qed

section \<open>Reconnecting\<close>

lemma inv_close_unused:
  assumes inv: "client_inv C c" and r: "r \<notin> set (ct_paths c)"
  shows "client_inv C (update_cpath r (\<lambda>p. p\<lparr>cp_open := False\<rparr>) c)"
proof -
  let ?d = "update_cpath r (\<lambda>p. p\<lparr>cp_open := False\<rparr>) c"
  have "used_paths_ok ?d" using inv r by (auto simp: client_inv_def used_paths_ok_def cpath_update)
  moreover have "dialing_ok C ?d"
    by (rule dialing_ok_cong [of C c]) (use inv in \<open>simp_all add: client_inv_def cpath_update\<close>)
  moreover have "cpath_ok C k cfg (p\<lparr>cp_open := False\<rparr>) = cpath_ok C k cfg p" for k cfg p by (simp add: cpath_ok_def)
  ultimately show ?thesis using inv by (simp add: client_inv_def for_me_eq cpath_update)
qed

lemma inv_reconnect_begin [preserves]:
  assumes inv: "client_inv C c" and r: "r < length (ct_heap c)"
  shows "client_inv C (reconnect_begin C L r d c)"
proof (cases "cp_reconnecting (cpath c r)")
  case False
  let ?out = "connect_path C L c d (cp_config (cpath c r))"
  let ?u = "update_cpath r (\<lambda>p. p\<lparr>cp_reconnecting := True\<rparr>) c"
  let ?d = "?u\<lparr>ct_dialing := map_put (ct_dialing c) r ?out\<rparr>"
  have h: "cpath ?d q = (if q = r then (cpath c r)\<lparr>cp_reconnecting := True\<rparr> else cpath c q)" for q
    using r cpath_update [of r _ c q] by (simp add: cpath_def)
  have dk: "dialing_ok C c" using inv by (simp add: client_inv_def)
  have ok: "cpath_ok C (ct_key c) (ct_config c) (cpath c q)" if "q < length (ct_heap c)" for q
    using inv that by (simp add: client_inv_def)
  have flag: "cpath_ok C k cfg (p\<lparr>cp_reconnecting := b\<rparr>) = cpath_ok C k cfg p" for k cfg p b by (simp add: cpath_ok_def)
  have "used_paths_ok ?d" using inv by (auto simp: client_inv_def used_paths_ok_def h)
  moreover have "dialing_ok C ?d"
    unfolding dialing_ok_def
  proof (intro conjI allI impI)
    show "keys_unique (ct_dialing ?d)" using dk by (simp add: dialing_ok_def)
    show "cp_reconnecting (cpath ?d q) = (map_get (ct_dialing ?d) q \<noteq> None)" if "q < length (ct_heap ?d)" for q
      using dialing_flag [OF dk, of q] that by (simp add: h map_get_put)
    fix q out assume m: "map_get (ct_dialing ?d) q = Some out"
    show "q < length (ct_heap ?d)"
      using m r dialing_entry [OF dk, of q out] by (auto simp: map_get_put split: if_splits)
    fix p assume p: "out = Inr p"
    have "cpath_ok C (ct_key c) (ct_config c) p \<and> fresh_path p \<and> cp_config p = cp_config (cpath c q)"
    proof (cases "q = r")
      case True
      then have "connect_path C L c d (cp_config (cpath c r)) = Inr p" using m p by (simp add: map_get_put)
      moreover have "cp_config (cpath c r) \<in> set (cc_paths (ct_config c)) \<or> pt_weight (cp_config (cpath c r)) = 1"
        using ok [OF r] by (simp add: cpath_ok_def)
      ultimately show ?thesis using connect_path_ok True by blast
    next
      case False
      then show ?thesis using m p dialing_entry [OF dk, of q out] by (simp add: map_get_put)
    qed
    then show "cpath_ok C (ct_key ?d) (ct_config ?d) p" "fresh_path p" "cp_config p = cp_config (cpath ?d q)"
      by (auto simp: h)
  qed
  ultimately show ?thesis
    using inv ok False by (simp add: reconnect_begin_def client_inv_def for_me_eq h flag)
qed (simp add: reconnect_begin_def inv)

lemma inv_dial_done:
  assumes inv: "client_inv C c" and m: "map_get (ct_dialing c) old = Some out"
  shows "client_inv C ((update_cpath old (\<lambda>p. p\<lparr>cp_reconnecting := False\<rparr>) c)\<lparr>ct_dialing := map_del (ct_dialing c) old\<rparr>)"
    (is "client_inv C ?d")
proof -
  have dk: "dialing_ok C c" using inv by (simp add: client_inv_def)
  have b: "old < length (ct_heap c)" using dialing_entry [OF dk m] by blast
  have h: "cpath ?d q = (if q = old then (cpath c old)\<lparr>cp_reconnecting := False\<rparr> else cpath c q)" for q
    using b cpath_update [of old _ c q] by (simp add: cpath_def)
  have flag: "cpath_ok C k cfg (p\<lparr>cp_reconnecting := b\<rparr>) = cpath_ok C k cfg p" for k cfg p b by (simp add: cpath_ok_def)
  have "used_paths_ok ?d" using inv by (auto simp: client_inv_def used_paths_ok_def h)
  moreover have "dialing_ok C ?d"
    unfolding dialing_ok_def
  proof (intro conjI allI impI)
    show "keys_unique (ct_dialing ?d)" using dk by (simp add: dialing_ok_def)
    show "cp_reconnecting (cpath ?d q) = (map_get (ct_dialing ?d) q \<noteq> None)" if "q < length (ct_heap ?d)" for q
      using dialing_flag [OF dk, of q] that by (simp add: h map_get_del)
    fix q o' assume e: "map_get (ct_dialing ?d) q = Some o'"
    then have q: "q \<noteq> old" "map_get (ct_dialing c) q = Some o'" by (simp_all add: map_get_del split: if_splits)
    show "q < length (ct_heap ?d)" using dialing_entry [OF dk q(2)] by simp
    fix p assume "o' = Inr p"
    then show "cpath_ok C (ct_key ?d) (ct_config ?d) p" "fresh_path p" "cp_config p = cp_config (cpath ?d q)"
      using dialing_entry [OF dk q(2)] q(1) by (auto simp: h)
  qed
  ultimately show ?thesis
    using inv by (simp add: client_inv_def for_me_eq h flag)
qed

lemma replace_path_facts:
  assumes "distinct rs" "new \<notin> set rs" "old \<in> set rs"
  shows "distinct (replace_path old new rs)" "set (replace_path old new rs) = insert new (set rs - {old})"
proof -
  show "set (replace_path old new rs) = insert new (set rs - {old})" using assms(3) by (auto simp: replace_path_def)
  have "inj_on (\<lambda>r. if r = old then new else r) (set rs)" using assms(2) by (auto simp: inj_on_def)
  then show "distinct (replace_path old new rs)" using assms(1) by (simp add: replace_path_def distinct_map)
qed

lemma inv_reconnect_end [preserves]:
  assumes inv: "client_inv C c0"
  shows "client_inv C (snd (reconnect_end old c0))"
proof (cases "map_get (ct_dialing c0) old")
  case None
  then show ?thesis using inv by (simp add: reconnect_end_def)
next
  case (Some out)
  define c where "c = (update_cpath old (\<lambda>p. p\<lparr>cp_reconnecting := False\<rparr>) c0)\<lparr>ct_dialing := map_del (ct_dialing c0) old\<rparr>"
  have ic: "client_inv C c" unfolding c_def by (rule inv_dial_done [OF inv Some])
  show ?thesis
  proof (cases out)
    case (Inl e)
    then show ?thesis using ic Some by (simp add: reconnect_end_def c_def)
  next
    case (Inr p)
    have p: "cpath_ok C (ct_key c) (ct_config c) p" "fresh_path p"
      using dialing_entry [of C c0 old out] inv Some Inr by (auto simp: client_inv_def c_def)
    let ?c1 = "client_metrics (paths_up [p]) c" let ?new = "length (ct_heap c)"
    have closed: "client_inv C (add_paths [p\<lparr>cp_open := False\<rparr>] ?c1)"
      using p by (intro inv_add_paths) (simp_all add: ic cpath_ok_def fresh_path_def)
    have added: "client_inv C (add_paths [p] ?c1)"
      using p by (intro inv_add_paths) (simp_all add: ic fresh_path_def)
    let ?a = "add_paths [p] ?c1" let ?rs = "replace_path old ?new (ct_paths c)"
    have used: "client_inv C (?a\<lparr>ct_paths := ?rs\<rparr>) \<and> old \<notin> set ?rs"
      if s: "cp_session_id p = ct_session_id c" and o: "old \<in> set (ct_paths c)"
    proof -
      have u: "used_paths_ok c" using ic by (simp add: client_inv_def)
      have n: "?new \<notin> set (ct_paths c)" using u by (auto simp: used_paths_ok_def)
      note rp = replace_path_facts [OF _ n o]
      have new: "cpath ?a ?new = p" using cpath_add_new [of 0 "[p]" ?c1] by simp
      have "client_inv C (?a\<lparr>ct_session_id := ct_session_id c, ct_paths := ?rs, ct_rejoining := ct_rejoining c\<rparr>)"
      proof (rule inv_use_paths [OF added])
        show "distinct ?rs" using rp(1) u by (simp add: used_paths_ok_def)
        show "?rs = [] \<and> ct_session_id c = 0" if "ct_rejoining c" using u o that by (auto simp: used_paths_ok_def)
        fix r assume "r \<in> set ?rs"
        then consider "r = ?new" | "r \<in> set (ct_paths c)" using rp(2) u by (auto simp: used_paths_ok_def)
        then show "r < length (ct_heap ?a) \<and> cp_open (cpath ?a r) \<and> cp_session_id (cpath ?a r) = ct_session_id c"
        proof cases
          case 1
          then show ?thesis using p(2) s new by (simp add: fresh_path_def)
        next
          case 2
          then have "r < length (ct_heap c) \<and> cp_open (cpath c r) \<and> cp_session_id (cpath c r) = ct_session_id c"
            using u by (simp add: used_paths_ok_def)
          then show ?thesis using cpath_add_old [of r ?c1 "[p]"] by simp
        qed
      qed
      moreover have "?a\<lparr>ct_session_id := ct_session_id c, ct_paths := ?rs, ct_rejoining := ct_rejoining c\<rparr> = ?a\<lparr>ct_paths := ?rs\<rparr>"
        by (simp add: add_paths_def client_metrics_def)
      moreover have "old \<noteq> ?new" using n o by auto
      ultimately show ?thesis using rp(2) u by (simp add: used_paths_ok_def)
    qed
    have "snd (reconnect_end old c0) =
        (if cp_session_id p \<noteq> ct_session_id c \<or> old \<notin> set (ct_paths c) then add_paths [p\<lparr>cp_open := False\<rparr>] ?c1
         else update_cpath old (\<lambda>p. p\<lparr>cp_open := False\<rparr>) (?a\<lparr>ct_paths := ?rs\<rparr>))"
      using Some Inr by (simp add: reconnect_end_def Let_def c_def [symmetric] add_paths_def)
    then show ?thesis using closed used inv_close_unused by (auto split: if_splits)
  qed
qed

section \<open>Rejoining\<close>

lemma close_paths_Cons: "close_paths (r # rs) c = close_paths rs (update_cpath r (\<lambda>p. p\<lparr>cp_open := False\<rparr>) c)"
  by (simp add: close_paths_def)

lemma close_paths_fields [simp]:
  "ct_config (close_paths rs c) = ct_config c" "ct_tun (close_paths rs c) = ct_tun c" "ct_key (close_paths rs c) = ct_key c"
  "ct_tunnel_ip (close_paths rs c) = ct_tunnel_ip c" "ct_reorder (close_paths rs c) = ct_reorder c"
  "ct_session_id (close_paths rs c) = ct_session_id c" "ct_rejoining (close_paths rs c) = ct_rejoining c"
  "ct_paths (close_paths rs c) = ct_paths c" "ct_dialing (close_paths rs c) = ct_dialing c"
  "length (ct_heap (close_paths rs c)) = length (ct_heap c)" "ct_client_id (close_paths rs c) = ct_client_id c"
  "ct_metrics (close_paths rs c) = ct_metrics c" "ct_instance_nonce (close_paths rs c) = ct_instance_nonce c"
  by (induction rs arbitrary: c) (simp_all add: close_paths_def)

lemma cpath_close_paths:
  "cpath (close_paths rs c) q = (if q \<in> set rs \<and> q < length (ct_heap c) then (cpath c q)\<lparr>cp_open := False\<rparr> else cpath c q)"
proof (induction rs arbitrary: c)
  case Nil
  then show ?case by (simp add: close_paths_def)
next
  case (Cons r rs)
  show ?case unfolding close_paths_Cons Cons.IH by (auto simp: cpath_update)
qed

lemma close_paths_unused:
  "(close_paths rs c)\<lparr>ct_paths := []\<rparr> = close_paths rs (c\<lparr>ct_paths := []\<rparr>)"
proof (induction rs arbitrary: c)
  case Nil
  then show ?case by (simp add: close_paths_def)
next
  case (Cons r rs)
  have "(update_cpath r f c)\<lparr>ct_paths := []\<rparr> = update_cpath r f (c\<lparr>ct_paths := []\<rparr>)" for f
    by (rule client.equality) (simp_all add: update_cpath_def)
  then show ?case by (simp add: close_paths_Cons Cons.IH)
qed

lemma not_rejoining: "\<not> ct_rejoining c \<Longrightarrow> c\<lparr>ct_rejoining := False\<rparr> = c"
  by (rule client.equality) simp_all

lemma inv_close_paths: "client_inv C c \<Longrightarrow> ct_paths c = [] \<Longrightarrow> client_inv C (close_paths rs c)"
  by (induction rs arbitrary: c) (simp_all add: close_paths_def inv_close_unused)

lemma inv_leave:
  assumes inv: "client_inv C c" and nr: "\<not> ct_rejoining c"
  shows "client_inv C ((close_paths rs c)\<lparr>ct_paths := []\<rparr>)"
proof -
  have "client_inv C (c\<lparr>ct_session_id := ct_session_id c, ct_paths := [], ct_rejoining := False\<rparr>)"
    by (rule inv_use_paths [OF inv]) auto
  moreover have "c\<lparr>ct_session_id := ct_session_id c, ct_paths := [], ct_rejoining := False\<rparr> = c\<lparr>ct_paths := []\<rparr>"
    using nr by (intro client.equality) simp_all
  ultimately have "client_inv C (c\<lparr>ct_paths := []\<rparr>)" by simp
  then show ?thesis unfolding close_paths_unused by (rule inv_close_paths) simp
qed

lemma inv_new_identity:
  "client_inv C (c\<lparr>ct_instance_nonce := n\<rparr>) = client_inv C c"
proof -
  let ?d = "c\<lparr>ct_instance_nonce := n\<rparr>"
  have "used_paths_ok ?d = used_paths_ok c" "dialing_ok C ?d = dialing_ok C c" "for_me ?d = for_me c"
    "\<And>r. cpath ?d r = cpath c r"
    by (simp_all add: used_paths_ok_def dialing_ok_def for_me_eq cpath_def)
  then show ?thesis by (simp add: client_inv_def)
qed

lemma inv_rejoin_begin [preserves]:
  assumes inv: "client_inv C c" shows "client_inv C (snd (rejoin_begin rnd c))"
proof (cases "ct_rejoining c")
  case False
  let ?c1 = "(close_paths (ct_paths c) c)\<lparr>ct_paths := []\<rparr>"
  have c1: "client_inv C ?c1" using inv_leave [OF inv False] .
  show ?thesis
  proof (cases rnd)
    case (Some nonce)
    let ?c2 = "?c1\<lparr>ct_session_id := 0, ct_paths := [], ct_rejoining := True\<rparr>"
    have c2: "client_inv C ?c2" by (rule inv_use_paths [OF c1]) auto
    have "client_inv C (?c2\<lparr>ct_reorder := reset (ct_reorder ?c1)\<rparr>)"
      by (rule inv_set_reorder_client [OF c2 rb.guarded_clear])
    then have "client_inv C (?c2\<lparr>ct_reorder := reset (ct_reorder ?c1), ct_data_seq := 0, ct_instance_nonce := nonce\<rparr>)"
      by (simp add: inv_new_identity)
    moreover have "snd (rejoin_begin rnd c) =
        ?c2\<lparr>ct_reorder := reset (ct_reorder ?c1), ct_data_seq := 0, ct_instance_nonce := nonce\<rparr>"
      using False Some by (simp add: rejoin_begin_def Let_def)
    ultimately show ?thesis by simp
  qed (use c1 False in \<open>simp add: rejoin_begin_def Let_def\<close>)
qed (simp add: rejoin_begin_def inv)

lemma inv_rejoin_end [preserves]:
  assumes inv: "client_inv C c" shows "client_inv C (snd (rejoin_end C L ce c))"
proof (cases "ct_rejoining c")
  case True
  obtain err c1 where con: "connect C L ce c = (err, c1)" by (cases "connect C L ce c")
  have "client_inv C (c1\<lparr>ct_rejoining := False\<rparr>)"
    using inv_connect [OF inv con] inv by (simp add: client_inv_def used_paths_ok_def)
  then show ?thesis using True con by (simp add: rejoin_end_def Let_def)
qed (simp add: rejoin_end_def inv)

section \<open>All steps\<close>

lemma client_step_inv:
  assumes inv: "client_inv C c" shows "client_inv C (snd (client_step C L e c ev))"
  using inv
  by (cases ev) (auto simp: probe_path_def intro: preserves)

lemma new_client_fields:
  assumes "new_client L cfg tun m rnd = Inr c"
  shows "client_inv C c" "\<not> ct_rejoining c" "ct_config c = cfg" "ct_tun c = tun" "ct_data_seq c = 0" "ct_heap c = []"
    "ct_dialing c = []" "client_key L cfg = Inr (ct_key c)" "parse_client_id (cc_client_id cfg) = Inr (ct_client_id c)"
    "\<exists>p. parse_prefix4 (cc_tunnel_address cfg) = Some p \<and> ct_tunnel_ip c = Addr4 (fst p)"
    "ct_reorder c = new_buffer (cc_reorder_window cfg) (duration_value (cc_reorder_delay cfg) (80 * millisecond))"
    "ct_session_id c = 0" "ct_paths c = []"
proof -
  show f: "\<not> ct_rejoining c" "ct_config c = cfg" "ct_tun c = tun" "ct_data_seq c = 0" "ct_heap c = []"
    "ct_dialing c = []" "client_key L cfg = Inr (ct_key c)" "parse_client_id (cc_client_id cfg) = Inr (ct_client_id c)"
    "\<exists>p. parse_prefix4 (cc_tunnel_address cfg) = Some p \<and> ct_tunnel_ip c = Addr4 (fst p)"
    "ct_reorder c = new_buffer (cc_reorder_window cfg) (duration_value (cc_reorder_delay cfg) (80 * millisecond))"
    "ct_session_id c = 0" "ct_paths c = []"
    using assms by (auto simp: new_client_def split: sum.splits option.splits if_splits)
  then show "client_inv C c"
    by (simp add: client_inv_def used_paths_ok_def dialing_ok_def rb.guarded_def held_def new_buffer_def)
qed

lemma client_reachable_inv: "client_reachable C L cfg tun c \<Longrightarrow> client_inv C c"
proof (induction rule: client_reachable.induct)
  case (start m rnd c0 ce c)
  have "client_inv C (c\<lparr>ct_rejoining := False\<rparr>)"
    by (rule inv_connect [OF new_client_fields(1) [OF start(1)] start(2)]) (use new_client_fields(2) [OF start(1)] in simp)
  moreover have "\<not> ct_rejoining c"
    using connect_cases [OF start(2)] new_client_fields(2) [OF start(1)] by auto
  ultimately show ?case by (simp add: not_rejoining)
next
  case (step c e ev outs c')
  then show ?case using client_step_inv [of C c L e ev] by simp
qed

end
