(* ===== verification/Client_Facts.thy ===== *)
theory Client_Facts
  imports Client_Inv
begin

text \<open>
  What the client's invariant gives: one relay session at a time, delivery of the client's own packets
  only, bounded round trip times; and what the timers and the tunnel loop do: the health check decides
  by the age of the last packet, a packet leaves through a healthy path whenever there is one.
\<close>

section \<open>What never changes\<close>

definition client_identity :: "client \<Rightarrow> client_config \<times> bool \<times> bytes \<times> bytes \<times> addr" where
  "client_identity c = (ct_config c, ct_tun c, ct_key c, ct_client_id c, ct_tunnel_ip c)"

lemma identity_updates [simp]:
  "client_identity (client_metrics f c) = client_identity c" "client_identity (path_metrics r g c) = client_identity c"
  "client_identity (update_cpath r h c) = client_identity c" "client_identity (c\<lparr>ct_credits := m\<rparr>) = client_identity c"
  "client_identity (c\<lparr>ct_data_seq := n\<rparr>) = client_identity c" "client_identity (c\<lparr>ct_reorder := b\<rparr>) = client_identity c"
  "client_identity (c\<lparr>ct_dialing := d\<rparr>) = client_identity c" "client_identity (add_paths ps c) = client_identity c"
  "client_identity (c\<lparr>ct_heap := hp\<rparr>) = client_identity c" "client_identity (c\<lparr>ct_paths := rs\<rparr>) = client_identity c"
  "client_identity (c\<lparr>ct_session_id := sid\<rparr>) = client_identity c" "client_identity (c\<lparr>ct_rejoining := rj\<rparr>) = client_identity c"
  "client_identity (close_paths rs c) = client_identity c" "client_identity (c\<lparr>ct_instance_nonce := nn\<rparr>) = client_identity c"
  by (simp_all add: client_identity_def add_paths_def)

lemma identity_health [simp]:
  "client_identity (set_health r b c) = client_identity c" "client_identity (mark_unhealthy r c) = client_identity c"
  "client_identity (refresh_health now r c) = client_identity c" "client_identity (client_write_error r c) = client_identity c"
  "client_identity (update_rtt r sample c) = client_identity c" "client_identity (seen_on r now w n c) = client_identity c"
  "client_identity (read_failed r c) = client_identity c"
  by (simp_all add: set_health_def mark_unhealthy_def refresh_health_def client_write_error_def update_rtt_def
      seen_on_def read_failed_def Let_def)

lemma identity_send [simp]:
  "client_identity (snd (snd (client_send C e r t payload c))) = client_identity c"
  "client_identity (snd (snd (send_or_mark C e r t payload c))) = client_identity c"
proof -
  show s: "client_identity (snd (snd (client_send C e r t payload c))) = client_identity c"
    by (auto simp: client_send_def Let_def split: sum.splits)
  show "client_identity (snd (snd (send_or_mark C e r t payload c))) = client_identity c"
    using s by (auto simp: send_or_mark_def split: prod.splits)
qed

lemma identity_deliver [simp]: "client_identity (snd (client_deliver e res c)) = client_identity c"
  using client_deliver_metrics [of e res c] by auto

lemma identity_receive [simp]:
  "client_identity (snd (handle_packet e r t payload c)) = client_identity c"
  "client_identity (snd (client_receive C e r packet c)) = client_identity c"
proof -
  show h: "client_identity (snd (handle_packet e r t payload c)) = client_identity c" for t payload c
    by (auto simp: handle_packet_def Let_def split: sum.splits prod.splits)
  show "client_identity (snd (client_receive C e r packet c)) = client_identity c"
    using h by (auto simp: client_receive_def Let_def split: sum.splits prod.splits)
qed

lemma identity_tun_read [simp]: "client_identity (snd (tun_read C e packet c)) = client_identity c"
proof -
  obtain sel c1 where n: "client_next_path (cv_clock e 0) c = (sel, c1)" by (cases "client_next_path (cv_clock e 0) c")
  have c1: "client_identity c1 = client_identity c" using n by (auto simp: client_next_path_def split: prod.splits)
  then show ?thesis
    using n by (auto simp: tun_read_def Let_def case_prod_beta split: option.splits sum.splits)
qed

lemma identity_timers [simp]:
  "client_identity (snd (client_reorder_tick e now c)) = client_identity c"
  "client_identity (snd (health_tick C e now c)) = client_identity c"
proof -
  show "client_identity (snd (client_reorder_tick e now c)) = client_identity c"
    by (simp add: client_reorder_tick_def case_prod_beta)
  have "client_identity (snd (check_path C e now r c)) = client_identity c" for r c
    by (simp add: check_path_def Let_def case_prod_beta)
  then have "client_identity (snd (check_paths C e now rs c)) = client_identity c" for rs
    by (induction rs arbitrary: c) (simp_all add: case_prod_beta)
  then show "client_identity (snd (health_tick C e now c)) = client_identity c" by (simp add: health_tick_def)
qed

lemma identity_connect: "connect C L ce c = (err, c') \<Longrightarrow> client_identity c' = client_identity c"
  by (drule connect_cases) auto

lemma client_step_identity: "client_identity (snd (client_step C L e c ev)) = client_identity c"
proof (cases ev)
  case (ReconnectBegin r d)
  then show ?thesis by (simp add: reconnect_begin_def)
next
  case (ReconnectEnd r)
  then show ?thesis by (auto simp: reconnect_end_def Let_def split: option.splits sum.splits)
next
  case (RejoinBegin rnd)
  then show ?thesis by (auto simp: rejoin_begin_def Let_def split: option.splits)
next
  case (RejoinEnd ce)
  then show ?thesis
    using identity_connect [of C L ce c] by (auto simp: rejoin_end_def Let_def split: prod.splits)
qed (auto simp: probe_path_def)

lemma client_reachable_identity:
  "client_reachable C L cfg tun c \<Longrightarrow>
   ct_config c = cfg \<and> ct_tun c = tun \<and> client_key L cfg = Inr (ct_key c)
   \<and> parse_client_id (cc_client_id cfg) = Inr (ct_client_id c)
   \<and> (\<exists>p. parse_prefix4 (cc_tunnel_address cfg) = Some p \<and> ct_tunnel_ip c = Addr4 (fst p))"
proof (induction rule: client_reachable.induct)
  case (start m rnd c0 ce c)
  then show ?case
    using new_client_fields [OF start(1)] identity_connect [OF start(2)] by (simp add: client_identity_def)
next
  case (step c e ev outs c')
  then show ?case using client_step_identity [of C L e c ev] by (simp add: client_identity_def)
qed

section \<open>One session at a time\<close>

text \<open>C7: In every state of a running client the paths in use are different, have an open socket and belong
  to the one relay session the client is in; each is encrypted with a key derived from the configured client
  key for exactly that session and path. While the client rejoins no path is in use, and a path is marked as
  reconnecting exactly while a handshake to replace it is under way.\<close>

theorem client_one_session:
  assumes "client_reachable C L cfg tun c"
  shows "distinct (ct_paths c)
    \<and> (\<forall>r \<in> set (ct_paths c). r < length (ct_heap c) \<and> cp_open (cpath c r)
        \<and> cp_session_id (cpath c r) = ct_session_id c
        \<and> (\<exists>psk cn sn. client_key L cfg = Inr psk
             \<and> cp_aead (cpath c r) = new_aead C psk cn sn (ct_session_id c) (cp_path_id (cpath c r))))
    \<and> (ct_rejoining c \<longrightarrow> ct_paths c = [])
    \<and> (\<forall>r < length (ct_heap c). cp_reconnecting (cpath c r) \<longleftrightarrow> map_get (ct_dialing c) r \<noteq> None)"
proof -
  have inv: "client_inv C c" using assms by (rule client_reachable_inv)
  have k: "client_key L cfg = Inr (ct_key c)" "ct_config c = cfg" using client_reachable_identity [OF assms] by auto
  have u: "used_paths_ok c" and d: "dialing_ok C c" using inv by (auto simp: client_inv_def)
  have key: "\<exists>cn sn. cp_aead (cpath c r) = new_aead C (ct_key c) cn sn (cp_session_id (cpath c r)) (cp_path_id (cpath c r))"
    if "r < length (ct_heap c)" for r
    using inv that unfolding client_inv_def cpath_ok_def by blast
  show ?thesis
    using u key k(1) dialing_flag [OF d] unfolding used_paths_ok_def by metis
qed

section \<open>What the client writes to its tunnel\<close>

lemma handle_packet_outputs:
  assumes inv: "client_inv C c" and o: "out \<in> set (fst (handle_packet e r t payload c))"
  shows "\<exists>packet. out = ClientTun packet \<and> for_me c packet \<and> ct_tun c"
proof -
  obtain n q where q: "parse_data payload = Inr (n, q)" "destination_ip q = Some (ct_tunnel_ip c)" "ct_tun c"
    and od: "out \<in> set (fst (let (res, b) = push (ct_reorder c) n q (cv_clock e 1) (cv_clock e 2)
      in client_deliver e res (c\<lparr>ct_reorder := b\<rparr>)))"
    using o by (auto simp: handle_packet_def Let_def split: if_splits sum.splits prod.splits)
  obtain res b where p: "push (ct_reorder c) n q (cv_clock e 1) (cv_clock e 2) = (res, b)"
    by (cases "push (ct_reorder c) n q (cv_clock e 1) (cv_clock e 2)")
  have "\<forall>x \<in> set (res_packets res). for_me c x"
    using rb.guarded_put [OF _ _ p, of "for_me c"] inv q(2) by (simp add: client_inv_def for_me_def)
  moreover have "out \<in> ClientTun ` set (res_packets res)"
    using od client_deliver_outputs [of e res "c\<lparr>ct_reorder := b\<rparr>"] unfolding p by auto
  ultimately show ?thesis using q(3) by auto
qed

lemma client_receive_outputs:
  assumes inv: "client_inv C c" and r: "r < length (ct_heap c)" and o: "out \<in> set (fst (client_receive D e r packet c))"
  shows "\<exists>packet. out = ClientTun packet \<and> for_me c packet \<and> ct_tun c"
proof -
  have "\<exists>t payload w. out \<in> set (fst (handle_packet e r t payload (seen_on r (cv_clock e 0) w (length payload) c)))"
    using o unfolding client_receive_def Let_def by (auto split: sum.splits prod.splits if_splits)
  then obtain t payload w where
    "out \<in> set (fst (handle_packet e r t payload (seen_on r (cv_clock e 0) w (length payload) c)))"
    by blast
  from handle_packet_outputs [OF _ this, of C] show ?thesis
    using inv_seen_on [OF inv] by (auto simp: for_me_def)
qed

lemma send_outputs:
  "out \<in> set (fst (snd (send_or_mark C e r t payload c))) \<Longrightarrow> \<exists>b. out = SendRelay r b"
  by (auto simp: send_or_mark_def client_send_def Let_def split: sum.splits prod.splits if_splits)

lemma send_not_tun: "ClientTun p \<notin> set (fst (snd (send_or_mark C e r t payload c)))"
  using send_outputs by blast

text \<open>C8: Every packet the client writes to its tunnel device is an IP packet whose destination is the
  configured tunnel address of this client, whatever datagrams arrive and however the loops interleave; a
  diagnostic run, which has no device, writes none.\<close>

theorem client_delivers_own:
  assumes re: "client_reachable C L cfg tun c" and st: "client_step C L e c ev = (outs, c')"
    and o: "ClientTun packet \<in> set outs"
  shows "tun \<and> (\<exists>p. parse_prefix4 (cc_tunnel_address cfg) = Some p \<and> destination_ip packet = Some (Addr4 (fst p)))"
proof -
  have inv: "client_inv C c" using re by (rule client_reachable_inv)
  have "for_me c packet \<and> ct_tun c"
  proof (cases ev)
    case (PathPacket r datagram)
    then have "ClientTun packet \<in> set (fst (client_receive C e r datagram c))" "r < length (ct_heap c)"
      using st o by (auto split: if_splits)
    from client_receive_outputs [OF inv this(2,1)] show ?thesis by auto
  next
    case (ClientReorderTick now)
    obtain res b where f: "flush_expired (ct_reorder c) now (cv_clock e 0) = (res, b)"
      by (cases "flush_expired (ct_reorder c) now (cv_clock e 0)")
    have g: "\<forall>x \<in> set (res_packets res). for_me c x"
      using rb.guarded_flush [OF _ f, of "for_me c"] inv by (simp add: client_inv_def)
    have d: "ClientTun packet \<in> set (fst (client_deliver e res (c\<lparr>ct_reorder := b\<rparr>)))"
      using st o f ClientReorderTick by (simp add: client_reorder_tick_def)
    then have "ClientTun packet \<in> ClientTun ` set (res_packets res)" using client_deliver_outputs by blast
    moreover have "ct_tun c" using d by (auto simp: client_deliver_def Let_def split: if_splits)
    ultimately show ?thesis using g by auto
  next
    case (TunRead p)
    then have "ClientTun packet \<in> set (fst (tun_read C e p c))" using st o by simp
    then have False
      using send_not_tun by (auto simp: tun_read_def Let_def case_prod_beta split: if_splits option.splits sum.splits)
    then show ?thesis ..
  next
    case (HealthTick now)
    have one: "ClientTun packet \<notin> set (fst (check_path C e now r d))" for r d
      using send_not_tun by (auto simp: check_path_def Let_def case_prod_beta)
    have "ClientTun packet \<notin> set (fst (check_paths C e now rs d))" for rs d
      using one by (induction rs arbitrary: d) (auto simp: case_prod_beta)
    from this [of "ct_paths c" c] show ?thesis using HealthTick st o by (auto simp: health_tick_def split: if_splits)
  next
    case (Probe r n)
    then show ?thesis using st o send_not_tun [of packet C e r TypeProbe "probe_payload (cv_clock e 0) n" c]
      by (auto simp: probe_path_def split: if_splits)
  qed (use st o in \<open>auto simp: reconnect_end_def rejoin_begin_def rejoin_end_def Let_def
      split: option.splits sum.splits if_splits prod.splits\<close>)
  then show ?thesis using client_reachable_identity [OF re] by (auto simp: for_me_def)
qed

section \<open>Round trip times\<close>

text \<open>The round trip time of every path of a running client stays below one minute and never becomes
  negative, so the 64-bit arithmetic of the moving average never wraps; a new sample moves the average
  between its old value and the sample, by an eighth of the distance (rounded down).\<close>

theorem rtt_bounded:
  assumes "client_reachable C L cfg tun c" "r < length (ct_heap c)"
  shows "0 \<le> cp_rtt (cpath c r) \<and> cp_rtt (cpath c r) < minute
    \<and> (\<forall>sample. 0 < sample \<and> sample < minute \<longrightarrow>
         cp_rtt (cpath (update_rtt r sample c) r)
           = (if cp_rtt (cpath c r) = 0 then sample else (7 * cp_rtt (cpath c r) + sample) div 8)
         \<and> (cp_rtt (cpath c r) \<noteq> 0 \<longrightarrow>
              min (cp_rtt (cpath c r)) sample \<le> cp_rtt (cpath (update_rtt r sample c) r)
              \<and> cp_rtt (cpath (update_rtt r sample c) r) \<le> max (cp_rtt (cpath c r)) sample))"
proof -
  let ?old = "cp_rtt (cpath c r)"
  have inv: "client_inv C c" using assms(1) by (rule client_reachable_inv)
  have b: "0 \<le> ?old" "?old < minute" using inv assms(2) by (auto simp: client_inv_def cpath_ok_def)
  have new: "cp_rtt (cpath (update_rtt r sample c) r) = (if ?old = 0 then sample else (7 * ?old + sample) div 8)"
    if "0 < sample" "sample < minute" for sample
    using smoothed_rtt_exact [OF b that] b(1) assms(2)
    by (simp add: update_rtt_def Let_def cpath_update algebra_simps)
  have "min ?old sample \<le> (7 * ?old + sample) div 8" "(7 * ?old + sample) div 8 \<le> max ?old sample" for sample
    by linarith+
  with b new show ?thesis by simp
qed

section \<open>The health check\<close>

lemma send_keeps_paths [simp]:
  "ct_paths (snd (snd (client_send C e r t payload c))) = ct_paths c"
  "length (ct_heap (snd (snd (client_send C e r t payload c)))) = length (ct_heap c)"
  by (auto simp: client_send_def Let_def split: sum.splits)

lemma mark_unhealthy_fields [simp]:
  "ct_paths (mark_unhealthy r c) = ct_paths c" "length (ct_heap (mark_unhealthy r c)) = length (ct_heap c)"
  "ct_paths (client_write_error r c) = ct_paths c" "length (ct_heap (client_write_error r c)) = length (ct_heap c)"
  by (simp_all add: client_write_error_def mark_unhealthy_def)

lemma cpath_mark_unhealthy:
  "cpath (mark_unhealthy r c) q =
     (if q = r \<and> r < length (ct_heap c) then (cpath c r)\<lparr>cp_healthy := False\<rparr> else cpath c q)"
  by (auto simp: mark_unhealthy_def)

lemma cpath_write_error:
  "cpath (client_write_error r c) q =
     (if q = r \<and> r < length (ct_heap c) then (cpath c r)\<lparr>cp_healthy := False\<rparr> else cpath c q)"
  by (simp add: client_write_error_def cpath_mark_unhealthy)

lemma cpath_client_send:
  "cpath (snd (snd (client_send C e r t payload c))) q =
     (if q = r \<and> r < length (ct_heap c) then (cpath c r)\<lparr>cp_sequence := cp_sequence (cpath c r) + 1\<rparr> else cpath c q)"
  by (auto simp: client_send_def Let_def cpath_update split: sum.splits)

text \<open>What sending leaves of the path: the number is used up, and a failure marks it.\<close>

lemma send_or_mark_eq:
  "send_or_mark C e r t payload c =
     (let (ok, outs, c1) = client_send C e r t payload c
      in (ok, outs, if ok then c1 else client_write_error r c1))"
  by (simp add: send_or_mark_def split: prod.splits)

lemma send_or_mark_keeps [simp]:
  "ct_paths (snd (snd (send_or_mark C e r t payload c))) = ct_paths c"
  "length (ct_heap (snd (snd (send_or_mark C e r t payload c)))) = length (ct_heap c)"
  by (simp_all add: send_or_mark_eq case_prod_beta)

lemma cpath_send_or_mark:
  "\<exists>b. cpath (snd (snd (send_or_mark C e r t payload c))) q =
     (if q = r \<and> r < length (ct_heap c)
      then (cpath c r)\<lparr>cp_sequence := cp_sequence (cpath c r) + 1, cp_healthy := b\<rparr> else cpath c q)"
proof (cases "q = r \<and> r < length (ct_heap c)")
  case True
  let ?p = "(cpath c r)\<lparr>cp_sequence := cp_sequence (cpath c r) + 1\<rparr>"
  have "\<exists>b. cpath (snd (snd (send_or_mark C e r t payload c))) r = ?p\<lparr>cp_healthy := b\<rparr>"
  proof (cases "fst (client_send C e r t payload c)")
    case ok: True
    then have "cpath (snd (snd (send_or_mark C e r t payload c))) r = ?p"
      using True by (simp add: send_or_mark_eq case_prod_beta cpath_client_send)
    then show ?thesis by (intro exI [of _ "cp_healthy ?p"]) simp
  next
    case False
    then show ?thesis using True by (simp add: send_or_mark_eq case_prod_beta cpath_client_send cpath_write_error) blast
  qed
  then show ?thesis using True by simp
next
  case False
  then show ?thesis
    by (auto simp: send_or_mark_eq case_prod_beta cpath_client_send cpath_write_error)
qed

definition recently_seen :: "gotime \<Rightarrow> client_path \<Rightarrow> bool" where
  "recently_seen now p \<longleftrightarrow> time_sub now (time_unix_nano (cp_last_seen p)) \<le> cp_health_timeout p"

lemma cpath_refresh:
  "cpath (refresh_health now r c) q =
     (if q = r \<and> r < length (ct_heap c) then (cpath c r)\<lparr>cp_healthy := recently_seen now (cpath c r)\<rparr> else cpath c q)"
  by (auto simp: refresh_health_def Let_def recently_seen_def)

lemma refresh_fields [simp]:
  "ct_paths (refresh_health now r c) = ct_paths c" "length (ct_heap (refresh_health now r c)) = length (ct_heap c)"
  by (simp_all add: refresh_health_def Let_def)

text \<open>The effect of the check on one path.\<close>

definition checked_path :: "gotime \<Rightarrow> client_path \<Rightarrow> client_path" where
  "checked_path now p = p\<lparr>cp_sequence := cp_sequence p + 1, cp_healthy := recently_seen now p\<rparr>"

lemma cpath_check_path:
  "cpath (snd (check_path C e now r c)) q =
     (if q = r \<and> r < length (ct_heap c) then checked_path now (cpath c r) else cpath c q)"
proof -
  obtain b where b: "cpath (snd (snd (send_or_mark C e r TypePing (ping_payload now) c))) q =
     (if q = r \<and> r < length (ct_heap c)
      then (cpath c r)\<lparr>cp_sequence := cp_sequence (cpath c r) + 1, cp_healthy := b\<rparr> else cpath c q)"
    using cpath_send_or_mark by blast
  show ?thesis
    using b by (auto simp: check_path_def Let_def case_prod_beta cpath_refresh checked_path_def recently_seen_def)
qed

lemma check_path_fields [simp]:
  "ct_paths (snd (check_path C e now r c)) = ct_paths c"
  "length (ct_heap (snd (check_path C e now r c))) = length (ct_heap c)"
  by (simp_all add: check_path_def Let_def case_prod_beta)

lemma check_path_reconnect:
  assumes "r < length (ct_heap c)"
  shows "StartReconnect q \<in> set (fst (check_path C e now r c)) \<longleftrightarrow> q = r \<and> \<not> recently_seen now (cpath c r)"
proof -
  have "StartReconnect q \<notin> set (fst (snd (send_or_mark C e r TypePing (ping_payload now) c)))" using send_outputs by blast
  moreover have "client_path_healthy now (cpath (snd (check_path C e now r c)) r) = recently_seen now (cpath c r)"
    using assms by (simp add: cpath_check_path checked_path_def client_path_healthy_def recently_seen_def)
  ultimately show ?thesis by (auto simp: check_path_def Let_def case_prod_beta)
qed

lemma check_paths_spec:
  assumes "distinct rs" "\<forall>r \<in> set rs. r < length (ct_heap c)"
  shows "cpath (snd (check_paths C e now rs c)) q = (if q \<in> set rs then checked_path now (cpath c q) else cpath c q)
    \<and> ct_paths (snd (check_paths C e now rs c)) = ct_paths c
    \<and> (StartReconnect q \<in> set (fst (check_paths C e now rs c)) \<longleftrightarrow> q \<in> set rs \<and> \<not> recently_seen now (cpath c q))"
  using assms
proof (induction rs arbitrary: c)
  case (Cons r rs)
  let ?c1 = "snd (check_path C e now r c)"
  have rs: "distinct rs" "\<forall>q \<in> set rs. q < length (ct_heap ?c1)" "r \<notin> set rs" "r < length (ct_heap c)"
    using Cons.prems by auto
  show ?case
    using Cons.IH [OF rs(1,2)] check_path_reconnect [OF rs(4)] rs(3,4)
    by (auto simp: case_prod_beta cpath_check_path)
qed simp

text \<open>C9: One tick of the health check leaves every path in use healthy exactly when its last authentic packet
  is not older than its timeout, whatever the flag was before and even if the PING of this very tick could
  not be written, and it starts a reconnection for exactly the others; when no path is in use it starts a
  rejoin instead and changes nothing.\<close>

theorem health_check_exact:
  assumes re: "client_reachable C L cfg tun c" and st: "client_step C L e c (HealthTick now) = (outs, c')"
  shows "(ct_paths c = [] \<longrightarrow> outs = [StartRejoin] \<and> c' = c)
    \<and> ct_paths c' = ct_paths c
    \<and> (\<forall>r \<in> set (ct_paths c).
         cp_healthy (cpath c' r) = (time_sub now (time_unix_nano (cp_last_seen (cpath c r))) \<le> cp_health_timeout (cpath c r)))
    \<and> (\<forall>r. StartReconnect r \<in> set outs \<longleftrightarrow> r \<in> set (ct_paths c) \<and> \<not> cp_healthy (cpath c' r))"
proof (cases "ct_paths c = []")
  case True
  then show ?thesis using st by (auto simp: health_tick_def)
next
  case False
  have inv: "client_inv C c" using re by (rule client_reachable_inv)
  then have "distinct (ct_paths c)" "\<forall>r \<in> set (ct_paths c). r < length (ct_heap c)"
    by (auto simp: client_inv_def used_paths_ok_def)
  note s = check_paths_spec [OF this, of C e now]
  have "check_paths C e now (ct_paths c) c = (outs, c')" using st False by (simp add: health_tick_def)
  with s show ?thesis using False by (simp add: checked_path_def recently_seen_def)
qed

end
