(* ===== verification/Client_Demo.thy ===== *)
theory Client_Demo
  imports Demo Client_Facts
begin

text \<open>
  The client at the other end of the demo run, evaluated in the kernel: it is configured with the same key,
  connects one path with the WELCOME the relay of \<open>Demo\<close> sends, and takes part in the run.
\<close>

section \<open>Connecting\<close>

definition demo_path_config :: path_config where
  "demo_path_config = \<lparr> pt_name = ''w'', pt_local_address = [], pt_interface = [], pt_weight = 1, pt_enabled = None \<rparr>"

definition demo_cc :: client_config where
  "demo_cc = \<lparr> cc_server = ''r:1'', cc_client_id = client_id_string demo_id,
     cc_psk = b64_encode std_alphabet True demo_key, cc_psk_env = [],
     cc_tunnel_name = ''lf'', cc_tunnel_address = ''10.0.0.2/24'', cc_mtu = 1280,
     cc_paths = [demo_path_config],
     cc_auto_discover = False, cc_routes = [], cc_traffic_mode = ''all'', cc_configure_interface = False,
     cc_health_interval = 0, cc_stats_interval = 0, cc_handshake_timeout = 0, cc_reorder_delay = 0,
     cc_reorder_window = 512, cc_logging = \<lparr> lc_level = ''info'', lc_format = ''json'' \<rparr>, cc_metrics_listen = [] \<rparr>"

definition demo_dial :: dial where
  "demo_dial = \<lparr> dl_addrs = (\<lambda>_. None), dl_socket_ok = (\<lambda>_. True), dl_hello_time = demo_time,
     dl_nonce = Some (replicate 16 5), dl_start = demo_time,
     dl_attempts =
       [\<lparr> at_before = demo_time, at_deadline_ok = True, at_write_ok = True, at_read = ReadTimeout, at_now = demo_time \<rparr>,
        \<lparr> at_before = demo_time, at_deadline_ok = True, at_write_ok = True,
          at_read = ReadPacket (sp_welcome_packet demo_path), at_now = demo_time \<rparr>],
     dl_seen = demo_time \<rparr>"

definition demo_connect_env :: connect_env where
  "demo_connect_env = \<lparr> cn_interfaces = None, cn_defaults = [], cn_dial = (\<lambda>_. demo_dial), cn_order = [] \<rparr>"

definition demo_c0 :: client where
  "demo_c0 = \<lparr> ct_config = demo_cc, ct_metrics = demo_registry, ct_tun = True, ct_key = demo_key, ct_client_id = demo_id,
     ct_tunnel_ip = Addr4 0x0A000002, ct_credits = [], ct_reorder = new_buffer 512 (80 * millisecond),
     ct_data_seq = 0, ct_session_id = 0, ct_rejoining = False, ct_instance_nonce = replicate 16 3,
     ct_paths = [], ct_heap = [], ct_dialing = [] \<rparr>"

lemma demo_new_client: "new_client demo_lib demo_cc True demo_registry (Some (replicate 16 3)) = Inr demo_c0"
proof -
  have "client_key demo_lib demo_cc = Inr demo_key" "parse_client_id (cc_client_id demo_cc) = Inr demo_id"
    "parse_prefix4 (cc_tunnel_address demo_cc) = Some (0x0A000002, 24)" by code_simp+
  then show ?thesis
    by (simp add: new_client_def) (simp add: demo_lib_def demo_c0_def demo_cc_def duration_value_def)
qed

lemma demo_client_hello: "client_hello demo_c0 demo_dial demo_path_config = Inr demo_hello"
  by code_simp

lemma demo_marshal: "marshal_hello demo_crypto demo_hello demo_key = Inr demo_hello_payload"
proof -
  have "\<not> 63 < length (hello_path_name demo_hello)" "hello_instance_nonce demo_hello \<noteq> zero16" by code_simp+
  then show ?thesis by (simp add: marshal_hello_def demo_hello_payload_def)
qed

lemma demo_welcome_packet:
  "sp_welcome_packet demo_path = marshal_header (welcome_header 7 1)
     @ marshal_welcome demo_crypto demo_welcome demo_key (welcome_header 7 1)"
proof -
  have "length (marshal_welcome demo_crypto demo_welcome demo_key (welcome_header 7 1)) \<le> MaxPayload" by code_simp
  then show ?thesis by (simp add: demo_path_def new_path_def marshal_plain_def demo_cred_def)
qed

lemma demo_welcome_read:
  "parse_welcome demo_crypto (marshal_welcome demo_crypto demo_welcome demo_key (welcome_header 7 1)) demo_key
     (welcome_header 7 1) (replicate 16 5) demo_time = Inr demo_welcome"
  by code_simp

lemma demo_accept_welcome:
  "accept_welcome demo_crypto demo_key (replicate 16 5) demo_time (sp_welcome_packet demo_path)
     = Some (welcome_header 7 1, demo_welcome)"
  by (simp add: accept_welcome_def demo_welcome_packet plain_payload_def demo_welcome_read)
    (simp add: welcome_header_def)

text \<open>The first turn of the handshake times out, the second reads the WELCOME.\<close>

definition demo_cp :: client_path where
  "demo_cp = \<lparr> cp_config = demo_path_config, cp_open = True, cp_aead = sp_aead demo_path, cp_session_id = 7, cp_path_id = 1,
     cp_sequence = 0, cp_replay = new_replay_window, cp_last_seen = unix_nano demo_time, cp_rtt = 0, cp_healthy = True,
     cp_health_timeout = 8 * second, cp_metric = ''w'', cp_reconnecting = False \<rparr>"

lemma demo_connect_path:
  assumes "ct_config c = demo_cc" "ct_key c = demo_key" "ct_client_id c = demo_id" "ct_instance_nonce c = replicate 16 3"
  shows "connect_path demo_crypto L c demo_dial demo_path_config = Inr demo_cp"
proof -
  have h: "client_hello c demo_dial demo_path_config = Inr demo_hello"
    using demo_client_hello assms by (simp add: client_hello_def) (simp add: demo_c0_def)
  have n: "hello_nonce demo_hello = replicate 16 5" by (simp add: demo_hello_def)
  have "await_welcome demo_crypto demo_key (replicate 16 5) (demo_time + 8 * second) (dl_attempts demo_dial)
      = Inr (Some (welcome_header 7 1, demo_welcome))"
    by (simp add: demo_dial_def demo_accept_welcome second_def)
  moreover have "welcome_server_nonce demo_welcome \<noteq> zero16" by code_simp
  moreover have "new_client_path demo_crypto c demo_dial demo_path_config demo_hello (welcome_header 7 1) demo_welcome = demo_cp"
    using assms(1,2)
    by (simp add: new_client_path_def demo_cp_def demo_path_def new_path_def n welcome_header_def demo_cred_def)
      (simp add: demo_dial_def demo_cc_def duration_value_def default_health_interval_def second_def demo_path_config_def)
  moreover have "resolve_local_ip L (dl_addrs demo_dial) demo_path_config = Some AnyAddress" "dl_socket_ok demo_dial AnyAddress"
    "duration_value (cc_handshake_timeout demo_cc) (8 * second) = 8 * second" "dl_start demo_dial = demo_time"
    by (simp_all add: resolve_local_ip_def demo_path_config_def demo_dial_def demo_cc_def duration_value_def)
  ultimately show ?thesis
    using assms(1,2) h by (simp add: connect_path_def demo_marshal n)
qed

definition demo_c1 :: client where
  "demo_c1 = snd (connect demo_crypto demo_lib demo_connect_env demo_c0)"

lemma demo_connect: "connect demo_crypto demo_lib demo_connect_env demo_c0 = (None, demo_c1)"
  "demo_c1 = client_metrics (paths_up [demo_cp]) (demo_c0\<lparr>ct_heap := [demo_cp], ct_session_id := 7, ct_paths := [0]\<rparr>)"
proof -
  have d: "discover_paths (ct_config demo_c0) (cn_interfaces demo_connect_env) (cn_defaults demo_connect_env)
      = Some [demo_path_config]"
    by (simp add: discover_paths_def demo_c0_def demo_cc_def enabled_paths_def path_enabled_def demo_path_config_def)
  have r: "connect_results demo_crypto demo_lib demo_connect_env demo_c0 [demo_path_config] = [Inr demo_cp]"
    using demo_connect_path [of demo_c0 demo_lib]
    by (simp add: connect_results_def demo_connect_env_def) (simp add: demo_c0_def)
  have k: "demo_cp\<lparr>cp_open := True\<rparr> = demo_cp" "cp_open demo_cp" "cp_session_id demo_cp = 7" by (simp_all add: demo_cp_def)
  have "connect demo_crypto demo_lib demo_connect_env demo_c0
      = (None, client_metrics (paths_up [demo_cp]) (demo_c0\<lparr>ct_heap := [demo_cp], ct_session_id := 7, ct_paths := [0]\<rparr>))"
    using k by (simp add: connect_def d r Let_def) (simp add: demo_c0_def client_metrics_def)
  then show "connect demo_crypto demo_lib demo_connect_env demo_c0 = (None, demo_c1)"
    "demo_c1 = client_metrics (paths_up [demo_cp]) (demo_c0\<lparr>ct_heap := [demo_cp], ct_session_id := 7, ct_paths := [0]\<rparr>)"
    by (simp_all add: demo_c1_def)
qed

lemma demo_client_reachable: "client_reachable demo_crypto demo_lib demo_cc True demo_c1"
  by (rule client_reachable.start [OF demo_new_client demo_connect(1)])

lemma demo_c1_fields [simp]:
  "ct_paths demo_c1 = [0]" "ct_heap demo_c1 = [demo_cp]" "cpath demo_c1 0 = demo_cp" "ct_session_id demo_c1 = 7"
  "ct_tunnel_ip demo_c1 = Addr4 0x0A000002" "ct_tun demo_c1" "ct_data_seq demo_c1 = 0" "ct_config demo_c1 = demo_cc"
  "ct_reorder demo_c1 = new_buffer 512 (80 * millisecond)"
  by (simp_all add: demo_connect(2) cpath_def) (simp_all add: demo_c0_def)

section \<open>A packet from the relay\<close>

definition demo_client_env :: client_env where
  "demo_client_env = \<lparr> cv_clock = (\<lambda>_. demo_time), cv_write_ok = (\<lambda>_. True), cv_tun_ok = (\<lambda>_. True) \<rparr>"

lemma demo_client_env_fields [simp]:
  "cv_clock demo_client_env = (\<lambda>_. demo_time)" "cv_write_ok demo_client_env = (\<lambda>_. True)"
  "cv_tun_ok demo_client_env = (\<lambda>_. True)"
  by (simp_all add: demo_client_env_def)

definition demo_ip_down :: bytes where
  "demo_ip_down = [0x45, 0, 0, 20, 0, 0, 0, 0, 64, 0, 0, 0, 10, 0, 0, 1, 10, 0, 0, 2]"

definition demo_down :: bytes where
  "demo_down = marshal_header (demo_header TypeData 1)
     @ gcm_seal demo_crypto (sp_aead demo_path) (packet_nonce 1 1 ServerToClient) (put_uint64 1 @ demo_ip_down)
         (marshal_header (demo_header TypeData 1))"

lemma demo_down_open:
  "open_packet demo_crypto (sp_aead demo_path) (demo_header TypeData 1) ServerToClient demo_down = Inr (put_uint64 1 @ demo_ip_down)"
proof -
  have "seal demo_crypto (sp_aead demo_path) (demo_header TypeData 1) ServerToClient (put_uint64 1 @ demo_ip_down) = Inr demo_down"
    by (simp add: seal_def Let_def demo_down_def demo_ip_down_def)
  from open_seal [OF gcm_laws_demo this] show ?thesis by blast
qed

lemma demo_down_data:
  "parse_data (put_uint64 1 @ demo_ip_down) = Inr (1, demo_ip_down)" "destination_ip demo_ip_down = Some (Addr4 0x0A000002)"
  "res_packets (fst (push (new_buffer 512 (80 * millisecond)) 1 demo_ip_down demo_time demo_time)) = [demo_ip_down]"
  by (simp add: parse_data_def demo_ip_down_def) code_simp+

definition demo_c2 :: client where
  "demo_c2 = snd (client_step demo_crypto demo_lib demo_client_env demo_c1 (PathPacket 0 demo_down))"

lemma demo_client_data:
  "ClientTun demo_ip_down \<in> set (fst (client_step demo_crypto demo_lib demo_client_env demo_c1 (PathPacket 0 demo_down)))"
proof -
  obtain res b where ps: "push (new_buffer 512 (80 * millisecond)) 1 demo_ip_down demo_time demo_time = (res, b)"
    by (cases "push (new_buffer 512 (80 * millisecond)) 1 demo_ip_down demo_time demo_time")
  have rp: "res_packets res = [demo_ip_down]" using demo_down_data(3) by (simp add: ps)
  define c2 where "c2 = seen_on 0 demo_time demo_w1 (length (put_uint64 1 @ demo_ip_down)) demo_c1"
  have f: "ct_tunnel_ip c2 = Addr4 0x0A000002" "ct_tun c2" "ct_reorder c2 = new_buffer 512 (80 * millisecond)"
    by (simp_all add: c2_def seen_on_def Let_def set_health_def)
  have wt: "fst (write_tun (\<lambda>_. True) 0 [demo_ip_down] v) = [ClientTun demo_ip_down]" for v by simp
  have p: "cp_session_id demo_cp = 7" "cp_path_id demo_cp = 1" "cp_aead demo_cp = sp_aead demo_path"
    "cp_replay demo_cp = new_replay_window" by (simp_all add: demo_cp_def)
  have hd: "parse_header demo_down = Inr (demo_header TypeData 1)" "\<not> is_handshake TypeData"
    by (simp add: demo_down_def) code_simp
  have "fst (handle_packet demo_client_env 0 TypeData (put_uint64 1 @ demo_ip_down) c2) = [ClientTun demo_ip_down]"
    using wt rp by (simp add: handle_packet_def demo_down_data f ps client_deliver_def Let_def)
  moreover have "client_receive demo_crypto demo_client_env 0 demo_down demo_c1
      = handle_packet demo_client_env 0 TypeData (put_uint64 1 @ demo_ip_down) c2"
    using demo_down_open hd
    by (simp add: client_receive_def Let_def p demo_accept c2_def)
  ultimately show ?thesis by simp
qed

section \<open>Closed instances of the properties\<close>

theorem client_one_session_witness:
  "distinct (ct_paths demo_c1) \<and> cp_open (cpath demo_c1 0) \<and> cp_session_id (cpath demo_c1 0) = 7 \<and> ct_paths demo_c1 = [0]"
  using client_one_session [OF demo_client_reachable] by simp

theorem client_delivers_own_witness: "destination_ip demo_ip_down = Some (Addr4 0x0A000002)"
proof -
  have "parse_prefix4 (cc_tunnel_address demo_cc) = Some (0x0A000002, 24)" by code_simp
  then show ?thesis
    using client_delivers_own [OF demo_client_reachable surjective_pairing demo_client_data] by simp
qed

theorem rtt_bounded_witness:
  "cp_rtt (cpath (update_rtt 0 (8 * millisecond) demo_c1) 0) = 8 * millisecond"
proof -
  have "0 < 8 * millisecond" "8 * millisecond < minute" "cp_rtt (cpath demo_c1 0) = 0" "0 < length (ct_heap demo_c1)"
    by (simp_all add: millisecond_def minute_def second_def) (simp add: demo_cp_def)
  then show ?thesis using rtt_bounded [OF demo_client_reachable, of 0] by simp
qed

text \<open>A path that was seen just now stays healthy although its PING cannot be written.\<close>

theorem health_check_exact_witness:
  "cp_healthy (cpath (snd (client_step demo_crypto demo_lib (demo_client_env\<lparr>cv_write_ok := (\<lambda>_. False)\<rparr>) demo_c1
     (HealthTick demo_time))) 0)"
proof -
  have "cp_last_seen demo_cp = unix_nano demo_time" "cp_health_timeout demo_cp = 8 * second" by (simp_all add: demo_cp_def)
  moreover have "time_sub demo_time (time_unix_nano (unix_nano demo_time)) \<le> 8 * second" by code_simp
  ultimately show ?thesis
    using health_check_exact [OF demo_client_reachable surjective_pairing, of "demo_client_env\<lparr>cv_write_ok := (\<lambda>_. False)\<rparr>" demo_time]
    by simp
qed

end
