(* ===== verification/Tunnel_Contract.thy ===== *)
theory Tunnel_Contract
  imports Replay Reorder_Facts "HOL-Library.Multiset"
begin

text \<open>
  The interface between the two ends of the tunnel: a sender numbers the packets it is given and seals
  each for one path; a receiver that takes a datagram pushes its packet into the reorder buffer and
  writes what comes out. The contract of both ends gives the promise of a multipath tunnel: packets sent
  over several paths are written at the other end in the order in which they were given, in whatever
  order the datagrams arrive.
\<close>

section \<open>The buffer does not look into the packets\<close>

definition map_buffer :: "('p \<Rightarrow> 'q) \<Rightarrow> 'p buffer \<Rightarrow> 'q buffer" where
  "map_buffer f b =
     \<lparr> rb_expected = rb_expected b, rb_pending = map (\<lambda>(s, p). (s, f p)) (rb_pending b),
       rb_gap_since = rb_gap_since b, rb_max_packets = rb_max_packets b, rb_max_delay = rb_max_delay b \<rparr>"

definition map_result :: "('p \<Rightarrow> 'q) \<Rightarrow> 'p result \<Rightarrow> 'q result" where
  "map_result f r = \<lparr> res_packets = map f (res_packets r), res_skipped = res_skipped r \<rparr>"

lemma map_buffer_fields [simp]:
  "rb_expected (map_buffer f b) = rb_expected b" "rb_pending (map_buffer f b) = map (\<lambda>(s, p). (s, f p)) (rb_pending b)"
  "rb_gap_since (map_buffer f b) = rb_gap_since b" "rb_max_packets (map_buffer f b) = rb_max_packets b"
  "rb_max_delay (map_buffer f b) = rb_max_delay b"
  by (simp_all add: map_buffer_def)

lemma map_result_fields [simp]:
  "res_packets (map_result f r) = map f (res_packets r)" "res_skipped (map_result f r) = res_skipped r"
  by (simp_all add: map_result_def)

lemma map_get_values: "map_get (map (\<lambda>(s, p). (s, f p)) m) k = map_option f (map_get m k)"
  by (induction m) auto

lemma map_del_values: "map_del (map (\<lambda>(s, p). (s, f p)) m) k = map (\<lambda>(s, p). (s, f p)) (map_del m k)"
  by (induction m) auto

lemma map_put_values: "map_put (map (\<lambda>(s, p). (s, f p)) m) k (f p) = map (\<lambda>(s, p). (s, f p)) (map_put m k p)"
  by (induction m) auto

lemma drain_loop_values:
  "drain_loop e m acc = (e', m', out) \<Longrightarrow>
   drain_loop e (map (\<lambda>(s, p). (s, f p)) m) (map f acc) = (e', map (\<lambda>(s, p). (s, f p)) m', map f out)"
proof (induction e m acc arbitrary: e' m' out rule: drain_loop.induct)
  case (1 e m acc)
  show ?case
  proof (cases "map_get m e")
    case None
    then have "e' = e" "m' = m" "out = acc" using "1.prems" by (simp_all add: drain_loop.simps [of e m])
    then show ?thesis by (subst drain_loop.simps) (simp add: map_get_values None)
  next
    case (Some p)
    then have "drain_loop (e + 1) (map_del m e) (acc @ [p]) = (e', m', out)"
      using "1.prems" by (simp add: drain_loop.simps [of e m])
    from "1.IH" [OF Some this] show ?thesis
      using Some by (simp add: drain_loop.simps [of e "map (\<lambda>(s, p). (s, f p)) m"] map_get_values map_del_values)
  qed
qed

lemma drain_values: "drain b r clock = (r', b') \<Longrightarrow> drain (map_buffer f b) (map_result f r) clock = (map_result f r', map_buffer f b')"
proof -
  assume d: "drain b r clock = (r', b')"
  obtain e m out where l: "drain_loop (rb_expected b) (rb_pending b) (res_packets r) = (e, m, out)"
    by (cases "drain_loop (rb_expected b) (rb_pending b) (res_packets r)")
  show ?thesis
    using d drain_loop_values [OF l, of f] by (auto simp: drain_def l map_buffer_def map_result_def)
qed

lemma lowest_values: "lowest (map (\<lambda>(s, p). (s, f p)) m) = lowest m"
proof -
  have "foldl (\<lambda>low e. if fst e < low then fst e else low) i (map (\<lambda>(s, p). (s, f p)) m)
      = foldl (\<lambda>low e. if fst e < low then fst e else low) i m" for i
    by (induction m arbitrary: i) auto
  then show ?thesis by (simp add: lowest_def)
qed

lemma force_drain_values:
  "force_drain b clock = (r, b') \<Longrightarrow> force_drain (map_buffer f b) clock = (map_result f r, map_buffer f b')"
proof (cases "rb_pending b = []")
  case True
  then show "force_drain b clock = (r, b') \<Longrightarrow> ?thesis" by (auto simp: force_drain_def no_result_def map_result_def)
next
  case False
  let ?b = "b\<lparr>rb_expected := lowest (rb_pending b)\<rparr>"
  let ?r = "\<lparr> res_packets = [], res_skipped = lowest (rb_pending b) - rb_expected b \<rparr>"
  assume "force_drain b clock = (r, b')"
  then have "drain ?b ?r clock = (r, b')" using False by (simp add: force_drain_def Let_def)
  from drain_values [OF this, of f] show ?thesis
    using False by (simp add: force_drain_def lowest_values Let_def map_buffer_def map_result_def)
qed

lemma push_values:
  assumes "push b s p now clock = (r, b')"
  shows "push (map_buffer f b) s (f p) now clock = (map_result f r, map_buffer f b')"
proof -
  let ?b1 = "b\<lparr>rb_pending := map_put (rb_pending b) s p\<rparr>"
  define b2 where "b2 = (if is_zero (rb_gap_since ?b1) then ?b1\<lparr>rb_gap_since := now\<rparr> else ?b1)"
  let ?c1 = "(map_buffer f b)\<lparr>rb_pending := map_put (rb_pending (map_buffer f b)) s (f p)\<rparr>"
  have c2: "(if is_zero (rb_gap_since ?c1) then ?c1\<lparr>rb_gap_since := now\<rparr> else ?c1) = map_buffer f b2"
    by (simp add: b2_def map_buffer_def map_put_values)
  consider "s < rb_expected b" | "s = rb_expected b" | "rb_expected b < s" "map_get (rb_pending b) s \<noteq> None"
    | "rb_expected b < s" "map_get (rb_pending b) s = None" by (metis linorder_less_linear)
  then show ?thesis
  proof cases
    case 2
    then have "drain (b\<lparr>rb_expected := rb_expected b + 1\<rparr>) \<lparr> res_packets = [p], res_skipped = 0 \<rparr> clock = (r, b')"
      using assms by (simp add: push_def)
    from drain_values [OF this, of f] show ?thesis using 2 by (simp add: push_def map_buffer_def map_result_def)
  next
    case 4
    then have n: "\<not> s < rb_expected b" "s \<noteq> rb_expected b" by auto
    have p: "(if rb_max_packets b2 \<le> int (length (rb_pending b2)) \<or> rb_max_delay b2 \<le> time_sub now (rb_gap_since b2)
           then force_drain b2 clock else (no_result, b2)) = (r, b')"
      using assms n 4 unfolding push_def Let_def b2_def by simp
    have "(if rb_max_packets (map_buffer f b2) \<le> int (length (rb_pending (map_buffer f b2)))
             \<or> rb_max_delay (map_buffer f b2) \<le> time_sub now (rb_gap_since (map_buffer f b2))
           then force_drain (map_buffer f b2) clock else (no_result, map_buffer f b2)) = (map_result f r, map_buffer f b')"
      using p force_drain_values [of b2 clock r b' f] by (auto simp: no_result_def map_result_def split: if_splits)
    then show ?thesis
      using n 4 unfolding push_def Let_def c2 by (simp add: map_get_values)
  qed (use assms in \<open>auto simp: push_def map_get_values no_result_def map_result_def\<close>)
qed

lemma buffer_run_values:
  assumes "\<forall>e \<in> set es. \<exists>s p now clock. e = Push s p now clock" and "buffer_run b es = (rs, b')"
  shows "buffer_run (map_buffer f b) (map (map_event f) es) = (map (map_result f) rs, map_buffer f b')"
  using assms
proof (induction es arbitrary: b rs)
  case (Cons e es)
  obtain s p now clock where e: "e = Push s p now clock" using Cons.prems(1) by auto
  obtain r b1 where st: "push b s p now clock = (r, b1)" by (cases "push b s p now clock")
  obtain rs' where rs: "buffer_run b1 es = (rs', b')" "rs = r # rs'"
    using Cons.prems(2) st by (auto simp: e split: prod.splits)
  show ?case using Cons.IH [OF _ rs(1)] Cons.prems(1) push_values [OF st, of f] by (simp add: e rs(2))
qed simp

lemma pairs_determined:
  assumes "map fst xs = map fst ys" "distinct (map fst ys)" "set xs \<subseteq> set ys" shows "xs = ys"
proof (rule nth_equalityI)
  show len: "length xs = length ys" using assms(1) by (metis length_map)
  fix i assume i: "i < length xs"
  then have "xs ! i \<in> set ys" using assms(3) nth_mem by blast
  then obtain j where j: "j < length ys" "xs ! i = ys ! j" by (metis in_set_conv_nth)
  have "fst (ys ! i) = fst (ys ! j)" using assms(1) i j len by (metis nth_map)
  then have "i = j" using assms(2) i j(1) len by (simp add: distinct_conv_nth) metis
  then show "xs ! i = ys ! i" using j(2) by simp
qed

section \<open>A burst over several paths\<close>

text \<open>A sealed datagram: its path, its number on that path, its number in the session, and its content.\<close>

record 'k datagram =
  dg_path :: 'k
  dg_seq :: u64
  dg_num :: u64
  dg_packet :: bytes
  dg_bytes :: bytes

text \<open>The numbers of a burst continue where the receiver stands.\<close>

definition continues :: "'p buffer \<Rightarrow> 'k datagram list \<Rightarrow> bool" where
  "continues b ds \<longleftrightarrow>
     map (\<lambda>d. unat (dg_num d)) ds = [unat (rb_expected b) ..< unat (rb_expected b) + length ds]
     \<and> int (length ds) < rb_max_packets b \<and> unat (rb_expected b) + length ds < 2 ^ 64"

text \<open>An idle buffer: nothing waits.\<close>

definition idle_buffer :: "'p buffer \<Rightarrow> bool" where
  "idle_buffer b \<longleftrightarrow> wf_buffer b \<and> rb_pending b = [] \<and> 0 < rb_expected b \<and> rb_max_delay b < 2 ^ 62"

text \<open>Times of a burst: all within one delay of the buffer, from \<open>T\<close> on.\<close>

definition in_time :: "gotime \<Rightarrow> 'p buffer \<Rightarrow> gotime \<times> gotime \<Rightarrow> bool" where
  "in_time T b t \<longleftrightarrow> T \<le> fst t \<and> fst t < T + rb_max_delay b \<and> T \<le> snd t \<and> snd t < T + rb_max_delay b"

definition push_of :: "'k datagram \<times> gotime \<times> gotime \<Rightarrow> (u64 \<times> bytes) event" where
  "push_of a = Push (dg_num (fst a)) (dg_num (fst a), dg_packet (fst a)) (fst (snd a)) (snd (snd a))"

lemma pushed: "map_event snd (push_of (d, t)) = Push (dg_num d) (dg_packet d) (fst t) (snd t)"
  by (simp add: push_of_def)

lemma unat_last: "unat (- 1 :: u64) = 2 ^ 64 - 1"
  by (simp add: unsigned_minus_1_eq_mask mask_eq_exp_minus_1)

lemma drain_limits: "drain b r clock = (r', b') \<Longrightarrow> rb_max_packets b' = rb_max_packets b \<and> rb_max_delay b' = rb_max_delay b"
  by (auto simp: drain_def split: prod.splits)

lemma force_drain_limits:
  "force_drain b clock = (r, b') \<Longrightarrow> rb_max_packets b' = rb_max_packets b \<and> rb_max_delay b' = rb_max_delay b"
  by (auto simp: force_drain_def Let_def dest: drain_limits split: if_splits)

lemma push_limits:
  "push b s p now clock = (r, b') \<Longrightarrow> rb_max_packets b' = rb_max_packets b \<and> rb_max_delay b' = rb_max_delay b"
  by (auto simp: push_def Let_def dest!: drain_limits force_drain_limits split: if_splits)

lemma buffer_step_limits:
  "buffer_step b e = (r, b') \<Longrightarrow> rb_max_packets b' = rb_max_packets b \<and> rb_max_delay b' = rb_max_delay b"
  by (cases e) (auto simp: flush_expired_def dest: push_limits force_drain_limits split: if_splits)

lemma buffer_run_limits:
  "buffer_run b es = (rs, b') \<Longrightarrow> rb_max_packets b' = rb_max_packets b \<and> rb_max_delay b' = rb_max_delay b"
  by (induction es arbitrary: b rs) (auto dest: buffer_step_limits split: prod.splits)

lemma aligned_burst:
  assumes i: "idle_buffer b" and c: "continues b ds" and T: "0 < T"
    and perm: "mset (map fst arr) = mset ds" and tm: "\<forall>a \<in> set arr. in_time T b (snd a)"
    and run: "buffer_run b (map (\<lambda>a. map_event snd (push_of a)) arr) = (rs, b')"
  shows "delivered rs = map dg_packet ds \<and> idle_buffer b' \<and> unat (rb_expected b') = unat (rb_expected b) + length ds
    \<and> skipped_total rs = 0"
proof -
  let ?E = "unat (rb_expected b)" let ?n = "length ds"
  define B where "B = \<lparr> rb_expected = rb_expected b, rb_pending = ([] :: (u64 \<times> u64 \<times> bytes) list),
      rb_gap_since = rb_gap_since b, rb_max_packets = rb_max_packets b, rb_max_delay = rb_max_delay b \<rparr>"
  have b: "b = map_buffer snd B" using i by (simp add: B_def map_buffer_def idle_buffer_def)
  let ?es = "map push_of arr"
  obtain RS B' where R: "buffer_run B ?es = (RS, B')" by (cases "buffer_run B ?es")
  have "buffer_run b (map (map_event snd) ?es) = (map (map_result snd) RS, map_buffer snd B')"
    unfolding b by (rule buffer_run_values [OF _ R]) (auto simp: push_of_def)
  then have "buffer_run b (map (\<lambda>a. map_event snd (push_of a)) arr) = (map (map_result snd) RS, map_buffer snd B')"
    by (simp add: o_def)
  then have rs: "rs = map (map_result snd) RS" "b' = map_buffer snd B'" using run by simp_all
  have E1: "1 \<le> ?E" using i by (simp add: idle_buffer_def word_less_nat_alt)
  have lim: "rb_max_packets B = rb_max_packets b" "rb_max_delay B = rb_max_delay b" "rb_expected B = rb_expected b"
    by (simp_all add: B_def)
  have wB: "wf_buffer B" "rb_gap_since B = 0"
    using i by (simp_all add: B_def idle_buffer_def wf_buffer_def is_zero_def zero_time_def)
  have bi: "burst_inv T {1..<?E} B" using wB E1 by (auto simp: burst_inv_def B_def)
  have cm: "map (\<lambda>d. unat (dg_num d)) ds = [?E..<?E + ?n]" using c by (simp add: continues_def)
  have dset: "set (map fst arr) = set ds" using perm by (metis set_mset_mset)
  have len: "length arr = ?n" using perm by (metis length_map size_mset)
  have nums: "event_number ` set ?es = {?E..<?E + ?n}"
  proof -
    have "event_number ` set ?es = (\<lambda>d. unat (dg_num d)) ` set (map fst arr)"
      by (simp add: push_of_def image_image)
    also have "\<dots> = (\<lambda>d. unat (dg_num d)) ` set ds" by (simp only: dset)
    also have "\<dots> = {?E..<?E + ?n}" unfolding set_map [symmetric] cm by simp
    finally show ?thesis .
  qed
  have dist: "distinct (map event_number ?es)"
  proof -
    have "map event_number ?es = map (\<lambda>d. unat (dg_num d)) (map fst arr)" by (simp add: push_of_def o_def)
    moreover have "mset (map (\<lambda>d. unat (dg_num d)) (map fst arr)) = mset (map (\<lambda>d. unat (dg_num d)) ds)"
      using perm by (metis mset_map)
    moreover have "distinct (map (\<lambda>d. unat (dg_num d)) ds)" unfolding cm by simp
    ultimately show ?thesis by (metis mset_eq_imp_distinct_iff)
  qed
  have ev: "\<forall>e \<in> set ?es. burst_event fst T (rb_max_delay B) e"
  proof
    fix e assume "e \<in> set ?es"
    then obtain a where a: "a \<in> set arr" "e = push_of a" by auto
    have "event_number (push_of a) \<in> event_number ` set ?es" using a(1) by simp
    then have "unat (dg_num (fst a)) \<in> {?E..<?E + ?n}" unfolding nums by (simp add: push_of_def)
    then have "dg_num (fst a) \<noteq> 0 \<and> dg_num (fst a) \<noteq> - 1"
      using E1 c by (auto simp: continues_def unat_last)
    then show "burst_event fst T (rb_max_delay B) e"
      using tm a by (auto simp: push_of_def in_time_def lim)
  qed
  have late: "late ?n {1..<?E} ?es"
    using E1 by (auto simp: late_def len)
  have "{1..<?E} \<union> {?E..<?E + ?n} = {1..<?E + ?n}" using E1 by auto
  with burst_run [OF bi T _ _ ev dist _ late R] have B': "burst_inv T {1..<?E + ?n} B'" and sk: "skipped_total RS = 0"
    using i c unfolding nums by (auto simp: lim idle_buffer_def continues_def)
  have E': "unat (rb_expected B') = ?E + ?n"
  proof (rule ccontr)
    assume ne: "unat (rb_expected B') \<noteq> ?E + ?n"
    have "{1..<unat (rb_expected B')} \<subseteq> {1..<?E + ?n}" "unat (rb_expected B') \<notin> {1..<?E + ?n}" "0 < unat (rb_expected B')"
      using B' by (auto simp: burst_inv_def)
    with ne E1 have "?E + ?n \<in> {1..<unat (rb_expected B')}" by (simp add: Suc_le_eq not_less)
    with \<open>{1..<unat (rb_expected B')} \<subseteq> {1..<?E + ?n}\<close> show False by auto
  qed
  have "unat ` fst ` set (rb_pending B') = {}" using B' E' by (auto simp: burst_inv_def)
  then have pend: "rb_pending B' = []" by simp
  have g: "\<forall>e \<in> set ?es. good_event fst e"
  proof
    fix e assume "e \<in> set ?es"
    with ev have "burst_event fst T (rb_max_delay B) e" by blast
    then show "good_event fst e" using T by (cases e) auto
  qed
  have "tagged fst B" "held B = {}" by (simp_all add: tagged_def held_def B_def)
  note r = run_order [OF wB(1) g this(1) R] this(2)
  have "sorted_wrt (<) (map unat (map fst (delivered RS)))" using r by (auto simp: sorted_wrt_map word_less_unat)
  moreover have "set (map unat (map fst (delivered RS))) \<subseteq> {?E..<?E + ?n}"
    using r E' by (auto simp: word_less_unat word_le_nat_alt lim)
  moreover have "length (delivered RS) = ?n" using r E' sk by (simp add: lim)
  ultimately have xs: "sorted_wrt (<) (map unat (map fst (delivered RS)))"
    "set (map unat (map fst (delivered RS))) \<subseteq> {?E..<?E + ?n}"
    "length (map unat (map fst (delivered RS))) = ?n" by simp_all
  have "set (map unat (map fst (delivered RS))) = {?E..<?E + ?n}"
    using xs by (intro card_subset_eq) (simp_all only: strict_sorted_iff distinct_card, simp_all)
  with xs(1) have "map unat (map fst (delivered RS)) = [?E..<?E + ?n]"
    by (intro sorted_distinct_set_unique) (simp_all add: strict_sorted_iff)
  then have "map unat (map fst (delivered RS)) = map unat (map dg_num ds)" using c by (simp add: continues_def o_def)
  then have mf: "map fst (delivered RS) = map dg_num ds" by (rule map_injective) (simp add: inj_def word_unat_eq_iff)
  have "\<Union> (set ` event_packets ` set ?es) = (\<lambda>d. (dg_num d, dg_packet d)) ` set (map fst arr)"
    by (auto simp: push_of_def image_image)
  also have "\<dots> = (\<lambda>d. (dg_num d, dg_packet d)) ` set ds" by (simp only: dset)
  finally have pk: "\<Union> (set ` event_packets ` set ?es) = (\<lambda>d. (dg_num d, dg_packet d)) ` set ds" .
  then have "set (delivered RS) \<subseteq> set (map (\<lambda>d. (dg_num d, dg_packet d)) ds)" using r pk by auto
  moreover have "distinct (map dg_num ds)"
  proof -
    have "distinct (map unat (map dg_num ds))" using cm by (simp add: o_def)
    then show ?thesis using distinct_map by blast
  qed
  ultimately have "delivered RS = map (\<lambda>d. (dg_num d, dg_packet d)) ds"
    using mf by (intro pairs_determined) (simp_all add: o_def)
  moreover have "delivered rs = map snd (delivered RS)" by (simp add: rs delivered_def map_concat o_def)
  moreover have "skipped_total rs = 0" using sk by (simp add: rs skipped_total_def o_def)
  moreover have "idle_buffer b'"
  proof -
    have "wf_buffer B'" using B' by (simp add: burst_inv_def)
    moreover have "rb_max_delay B' = rb_max_delay B" using buffer_run_limits [OF R] by blast
    ultimately show ?thesis
      using pend E' E1 i by (auto simp: idle_buffer_def rs wf_buffer_def keys_above_def keys_unique_def word_less_nat_alt lim)
  qed
  ultimately show ?thesis using E' by (simp add: rs o_def)
qed

section \<open>Runs\<close>

text \<open>A list of operations, one after the other; the outputs are appended.\<close>

fun run_all :: "('x \<Rightarrow> 's \<Rightarrow> 'out list \<times> 's) \<Rightarrow> 'x list \<Rightarrow> 's \<Rightarrow> 'out list \<times> 's" where
  "run_all f [] s = ([], s)"
| "run_all f (x # xs) s = (let (outs, t) = f x s; (outs', u) = run_all f xs t in (outs @ outs', u))"

lemma mset_map_lift: "mset ys = mset (map f xs) \<Longrightarrow> \<exists>zs. mset zs = mset xs \<and> ys = map f zs"
proof (induction ys arbitrary: xs)
  case (Cons y ys)
  then have "y \<in> set (map f xs)" by (metis list.set_intros(1) set_mset_mset)
  then obtain x where x: "x \<in> set xs" "f x = y" by auto
  define rest where "rest = remove1 x xs"
  have m: "mset xs = add_mset x (mset rest)" using x(1) by (simp add: rest_def)
  have "add_mset y (mset ys) = image_mset f (mset xs)" using Cons.prems by simp
  also have "\<dots> = add_mset y (mset (map f rest))" using x(2) by (simp add: m)
  finally have "mset ys = mset (map f rest)" by simp
  then obtain zs where zs: "mset zs = mset rest" "ys = map f zs" using Cons.IH by blast
  have "mset (x # zs) = mset xs" by (simp add: m zs(1))
  moreover have "y # ys = map f (x # zs)" using x(2) zs(2) by simp
  ultimately show ?case by (intro exI [of _ "x # zs"] conjI)
qed simp

section \<open>The sending end\<close>

text \<open>\<open>able e p s\<close>: in this state and environment packet \<open>p\<close> can be sent; \<open>wire\<close> is how a datagram looks among
  the outputs, \<open>number\<close> and \<open>counter\<close> are the last numbers used in the session and on a path.\<close>

locale tunnel_sender =
  fixes send :: "'e \<Rightarrow> bytes \<Rightarrow> 's \<Rightarrow> 'out list \<times> 's"
    and wire :: "'s \<Rightarrow> 'k datagram \<Rightarrow> 'out"
    and number :: "'s \<Rightarrow> u64" and counter :: "'s \<Rightarrow> 'k \<Rightarrow> u64"
    and sealed :: "'s \<Rightarrow> 'k datagram \<Rightarrow> bool" and able :: "'e \<Rightarrow> bytes \<Rightarrow> 's \<Rightarrow> bool"
  assumes send_law: "able e p s \<Longrightarrow> \<exists>d t. send e p s = ([wire s d], t)
      \<and> dg_packet d = p \<and> sealed s d \<and> dg_num d = number s + 1 \<and> dg_seq d = counter s (dg_path d) + 1
      \<and> number t = number s + 1 \<and> counter t = (counter s)(dg_path d := counter s (dg_path d) + 1)
      \<and> wire t = wire s \<and> sealed t = sealed s \<and> (\<forall>e' p'. able e' p' s \<longrightarrow> able e' p' t)"
begin

lemma sends_all:
  assumes "\<forall>(e, p) \<in> set xs. able e p s" "unat (number s) + length xs < 2 ^ 64"
    and "\<And>d. sealed s d \<Longrightarrow> unat (counter s (dg_path d)) + length xs < 2 ^ 64"
  shows "\<exists>ds t. run_all (\<lambda>(e, p). send e p) xs s = (map (wire s) ds, t)
    \<and> map dg_packet ds = map snd xs \<and> length ds = length xs
    \<and> (\<forall>d \<in> set ds. sealed s d \<and> unat (counter s (dg_path d)) < unat (dg_seq d)
         \<and> unat (dg_seq d) \<le> unat (counter s (dg_path d)) + length xs)
    \<and> map (\<lambda>d. unat (dg_num d)) ds = [Suc (unat (number s)) ..< Suc (unat (number s)) + length xs]
    \<and> distinct (map (\<lambda>d. (dg_path d, dg_seq d)) ds)
    \<and> unat (number t) = unat (number s) + length xs"
  using assms
proof (induction xs arbitrary: s)
  case (Cons x xs)
  obtain e p where x: "x = (e, p)" by (cases x)
  obtain d t where d: "send e p s = ([wire s d], t)" "dg_packet d = p" "sealed s d"
    "dg_num d = number s + 1" "dg_seq d = counter s (dg_path d) + 1"
    "number t = number s + 1" "counter t = (counter s)(dg_path d := counter s (dg_path d) + 1)"
    "wire t = wire s" "sealed t = sealed s" "\<forall>e' p'. able e' p' s \<longrightarrow> able e' p' t"
    using send_law [of e p s] Cons.prems(1) by (auto simp: x)
  have suc: "unat (w + 1) = Suc (unat w)" if "unat w + length (x # xs) < 2 ^ 64" for w :: u64
    using that by (intro unat_Suc_no_wrap [of w "- 1"]) (simp add: word_less_nat_alt unat_last)
  have num: "unat (number t) = Suc (unat (number s))" using suc Cons.prems(2) d(6) by simp
  have cnt: "unat (counter t (dg_path d)) = Suc (unat (counter s (dg_path d)))"
    using suc Cons.prems(3) [OF d(3)] d(7) by simp
  have "unat (counter t (dg_path g)) + length xs < 2 ^ 64" if "sealed t g" for g
    using Cons.prems(3) [of g] that d(7,9) cnt by (cases "dg_path g = dg_path d") auto
  then obtain ds u where IH: "run_all (\<lambda>(e, p). send e p) xs t = (map (wire t) ds, u)"
    "map dg_packet ds = map snd xs" "length ds = length xs"
    "\<forall>d \<in> set ds. sealed t d \<and> unat (counter t (dg_path d)) < unat (dg_seq d)
         \<and> unat (dg_seq d) \<le> unat (counter t (dg_path d)) + length xs"
    "map (\<lambda>d. unat (dg_num d)) ds = [Suc (unat (number t)) ..< Suc (unat (number t)) + length xs]"
    "distinct (map (\<lambda>d. (dg_path d, dg_seq d)) ds)" "unat (number u) = unat (number t) + length xs"
    using Cons.IH [of t] Cons.prems(1,2) d(10) num by fastforce
  have grow: "unat (counter s k) \<le> unat (counter t k)" "unat (counter t k) \<le> Suc (unat (counter s k))" for k
    using cnt d(7) by (cases "k = dg_path d"; simp)+
  have "\<forall>g \<in> set (d # ds). sealed s g \<and> unat (counter s (dg_path g)) < unat (dg_seq g)
         \<and> unat (dg_seq g) \<le> unat (counter s (dg_path g)) + length (x # xs)"
  proof
    fix g assume g: "g \<in> set (d # ds)"
    show "sealed s g \<and> unat (counter s (dg_path g)) < unat (dg_seq g)
         \<and> unat (dg_seq g) \<le> unat (counter s (dg_path g)) + length (x # xs)"
    proof (cases "g = d")
      case True
      then show ?thesis using d(3,5,7) cnt by simp
    next
      case False
      then have "g \<in> set ds" using g by simp
      then have "sealed t g" "unat (counter t (dg_path g)) < unat (dg_seq g)"
        "unat (dg_seq g) \<le> unat (counter t (dg_path g)) + length xs" using IH(4) by auto
      then show ?thesis using grow [of "dg_path g"] d(9) by auto
    qed
  qed
  moreover have "distinct (map (\<lambda>d. (dg_path d, dg_seq d)) (d # ds))"
  proof -
    have "dg_seq g \<noteq> dg_seq d" if "g \<in> set ds" "dg_path g = dg_path d" for g
      using IH(4) that cnt d(5,7) by fastforce
    then show ?thesis using IH(6) by force
  qed
  moreover have "map (\<lambda>d. unat (dg_num d)) (d # ds) = [Suc (unat (number s)) ..< Suc (unat (number s)) + length (x # xs)]"
    using IH(5) d(4,6) num by (simp add: upt_conv_Cons del: upt_Suc)
  ultimately show ?case
    using d(1,2) IH(1-3,7) d(8) num by (intro exI [of _ "d # ds"] exI [of _ u]) (simp add: x)
qed simp

end

section \<open>The receiving end\<close>

text \<open>\<open>takes base e d s\<close>: in environment \<open>e\<close> the receiver accepts datagram \<open>d\<close>, as long as the numbers on its
  path stay within the window that starts at \<open>base\<close>; taking one datagram does not spoil another.\<close>

locale tunnel_receiver =
  fixes recv :: "'e \<Rightarrow> bytes \<Rightarrow> 's \<Rightarrow> 'out list \<times> 's"
    and emit :: "bytes \<Rightarrow> 'out" and times :: "'e \<Rightarrow> gotime \<times> gotime"
    and buffer_of :: "'s \<Rightarrow> bytes buffer"
    and takes :: "('k \<Rightarrow> nat) \<Rightarrow> 'e \<Rightarrow> 'k datagram \<Rightarrow> 's \<Rightarrow> bool"
  assumes recv_law: "takes base e d s
      \<Longrightarrow> push (buffer_of s) (dg_num d) (dg_packet d) (fst (times e)) (snd (times e)) = (r, b) \<Longrightarrow> res_skipped r = 0
      \<Longrightarrow> \<exists>t. recv e (dg_bytes d) s = (map emit (res_packets r), t) \<and> buffer_of t = b"
    and takes_later: "takes base e d s \<Longrightarrow> takes base e' d' s \<Longrightarrow> (dg_path d, dg_seq d) \<noteq> (dg_path d', dg_seq d')
      \<Longrightarrow> recv e (dg_bytes d) s = (outs, t) \<Longrightarrow> takes base e' d' t"
begin

lemma receives:
  assumes "\<forall>(d, e) \<in> set arr. takes base e d s" "distinct (map (\<lambda>(d, e). (dg_path d, dg_seq d)) arr)"
    and "buffer_run (buffer_of s) (map (\<lambda>(d, e). map_event snd (push_of (d, times e))) arr) = (rs, b)"
    and "skipped_total rs = 0"
  shows "\<exists>t. run_all (\<lambda>(d, e). recv e (dg_bytes d)) arr s = (map emit (delivered rs), t) \<and> buffer_of t = b"
  using assms
proof (induction arr arbitrary: s rs)
  case Nil
  then show ?case by (simp add: delivered_def)
next
  case (Cons a arr)
  obtain d e where a: "a = (d, e)" by (cases a)
  obtain r b1 where p: "push (buffer_of s) (dg_num d) (dg_packet d) (fst (times e)) (snd (times e)) = (r, b1)"
    by (cases "push (buffer_of s) (dg_num d) (dg_packet d) (fst (times e)) (snd (times e))")
  obtain rs' where rs: "buffer_run b1 (map (\<lambda>(d, e). map_event snd (push_of (d, times e))) arr) = (rs', b)"
    "rs = r # rs'"
    using Cons.prems(3) p by (auto simp: a pushed split: prod.splits)
  have z: "res_skipped r = 0" "skipped_total rs' = 0"
    using Cons.prems(4) by (simp_all add: rs skipped_total_def unat_eq_zero)
  have tk: "takes base e d s" using Cons.prems(1) by (simp add: a)
  obtain t where t: "recv e (dg_bytes d) s = (map emit (res_packets r), t)" "buffer_of t = b1"
    using recv_law [OF tk p z(1)] by blast
  have "\<forall>(d', e') \<in> set arr. takes base e' d' t"
  proof clarify
    fix d' e' assume m: "(d', e') \<in> set arr"
    then have "takes base e' d' s" using Cons.prems(1) by auto
    moreover have "(dg_path d, dg_seq d) \<noteq> (dg_path d', dg_seq d')" using Cons.prems(2) m by (force simp: a)
    ultimately show "takes base e' d' t" using takes_later [OF tk _ _ t(1)] by blast
  qed
  moreover have "distinct (map (\<lambda>(d, e). (dg_path d, dg_seq d)) arr)" using Cons.prems(2) by simp
  moreover have "buffer_run (buffer_of t) (map (\<lambda>(d, e). map_event snd (push_of (d, times e))) arr) = (rs', b)"
    using rs(1) t(2) by simp
  ultimately obtain u where "run_all (\<lambda>(d, e). recv e (dg_bytes d)) arr t = (map emit (delivered rs'), u)" "buffer_of u = b"
    using Cons.IH z(2) by blast
  then show ?case using t(1) by (simp add: a rs delivered_def)
qed

end

section \<open>Both ends\<close>

locale tunnel = tunnel_sender send wire number counter sealed able + tunnel_receiver recv emit times buffer_of takes
  for send :: "'e \<Rightarrow> bytes \<Rightarrow> 's \<Rightarrow> 'out list \<times> 's" and wire :: "'s \<Rightarrow> 'k datagram \<Rightarrow> 'out"
    and number and counter and sealed and able
    and recv :: "'e2 \<Rightarrow> bytes \<Rightarrow> 't \<Rightarrow> 'out2 list \<times> 't" and emit and times and buffer_of
    and takes :: "('k \<Rightarrow> nat) \<Rightarrow> 'e2 \<Rightarrow> 'k datagram \<Rightarrow> 't \<Rightarrow> bool" +
  fixes linked :: "'s \<Rightarrow> 't \<Rightarrow> bool" and arrives :: "'e2 \<Rightarrow> 'out \<Rightarrow> 't \<Rightarrow> bool" and payload :: "'out \<Rightarrow> bytes"
  assumes payload_wire: "payload (wire s d) = dg_bytes d"
    and link_law: "linked s t \<Longrightarrow> sealed s d \<Longrightarrow> unat (counter s (dg_path d)) < unat (dg_seq d)
      \<Longrightarrow> unat (dg_seq d) \<le> unat (counter s (dg_path d)) + 64 \<Longrightarrow> dg_num d \<noteq> 0 \<Longrightarrow> arrives e (wire s d) t
      \<Longrightarrow> takes (\<lambda>k. unat (counter s k)) e d t"
begin

text \<open>What the sender sends, in whatever order it arrives, the receiver writes in the order of sending.\<close>

lemma carries_burst:
  assumes link: "linked s t" and able: "\<forall>(e, p) \<in> set xs. able e p s"
    and n: "length xs \<le> 64" "int (length xs) < rb_max_packets (buffer_of t)"
    and room: "unat (number s) + 1 + length xs < 2 ^ 64" "\<And>d. sealed s d \<Longrightarrow> unat (counter s (dg_path d)) + length xs < 2 ^ 64"
    and buf: "idle_buffer (buffer_of t)" "unat (rb_expected (buffer_of t)) = Suc (unat (number s))"
    and sent: "run_all (\<lambda>(e, p). send e p) xs s = (outs, s')"
    and arr: "mset (map snd arr) = mset outs" "0 < T"
      "\<And>e out. (e, out) \<in> set arr \<Longrightarrow> arrives e out t \<and> in_time T (buffer_of t) (times e)"
  shows "\<exists>t'. run_all (\<lambda>(e, out). recv e (payload out)) arr t = (map emit (map snd xs), t')
    \<and> idle_buffer (buffer_of t') \<and> unat (rb_expected (buffer_of t')) = Suc (unat (number s'))"
proof -
  have "unat (number s) + length xs < 2 ^ 64" using room(1) by simp
  then obtain ds where ds: "outs = map (wire s) ds" "map dg_packet ds = map snd xs" "length ds = length xs"
    "\<forall>d \<in> set ds. sealed s d \<and> unat (counter s (dg_path d)) < unat (dg_seq d)
         \<and> unat (dg_seq d) \<le> unat (counter s (dg_path d)) + length xs"
    "map (\<lambda>d. unat (dg_num d)) ds = [Suc (unat (number s)) ..< Suc (unat (number s)) + length xs]"
    "distinct (map (\<lambda>d. (dg_path d, dg_seq d)) ds)" "unat (number s') = unat (number s) + length xs"
    using sends_all [OF able _ room(2)] sent by auto
  obtain zs where zs: "mset zs = mset ds" "map snd arr = map (wire s) zs"
    using mset_map_lift [of "map snd arr" "wire s" ds] arr(1) ds(1) by auto
  define ar where "ar = zip zs (map fst arr)"
  have len: "length zs = length arr" using zs(2) by (metis length_map)
  have ar: "map fst ar = zs" "arr = map (\<lambda>(d, e). (e, wire s d)) ar"
  proof -
    show "map fst ar = zs" by (simp add: ar_def len)
    have "arr = zip (map fst arr) (map snd arr)" by (simp add: zip_map_fst_snd)
    also have "\<dots> = map (\<lambda>(d, e). (e, wire s d)) ar"
      unfolding zs(2) ar_def by (simp add: len list_eq_iff_nth_eq)
    finally show "arr = map (\<lambda>(d, e). (e, wire s d)) ar" .
  qed
  have mem: "d \<in> set ds \<and> arrives e (wire s d) t \<and> in_time T (buffer_of t) (times e)" if "(d, e) \<in> set ar" for d e
  proof -
    have "d \<in> set zs" using that ar(1) by (metis fst_conv image_eqI set_map)
    then have "d \<in> set ds" using zs(1) by (metis set_mset_mset)
    moreover have "(e, wire s d) \<in> set arr" using that by (force simp: ar(2))
    ultimately show ?thesis using arr(3) by blast
  qed
  have tk: "\<forall>(d, e) \<in> set ar. takes (\<lambda>k. unat (counter s k)) e d t"
  proof clarify
    fix d e assume a: "(d, e) \<in> set ar"
    then have d: "d \<in> set ds" "arrives e (wire s d) t" using mem by blast+
    have "unat (dg_num d) \<in> set (map (\<lambda>d. unat (dg_num d)) ds)" using d(1) by simp
    then have "dg_num d \<noteq> 0" unfolding ds(5) by auto
    then show "takes (\<lambda>k. unat (counter s k)) e d t"
      using d ds(4) n(1) by (intro link_law [OF link]) fastforce+
  qed
  have di: "distinct (map (\<lambda>(d, e). (dg_path d, dg_seq d)) ar)"
  proof -
    have "map (\<lambda>(d, e). (dg_path d, dg_seq d)) ar = map (\<lambda>d. (dg_path d, dg_seq d)) zs"
      unfolding ar(1) [symmetric] by (simp add: case_prod_beta)
    moreover have "mset (map (\<lambda>d. (dg_path d, dg_seq d)) zs) = mset (map (\<lambda>d. (dg_path d, dg_seq d)) ds)"
      using zs(1) by (metis mset_map)
    ultimately have "mset (map (\<lambda>(d, e). (dg_path d, dg_seq d)) ar) = mset (map (\<lambda>d. (dg_path d, dg_seq d)) ds)" by simp
    from mset_eq_imp_distinct_iff [OF this] show ?thesis using ds(6) by blast
  qed
  let ?ev = "map (\<lambda>(d, e). (d, times e)) ar"
  obtain rs b where run: "buffer_run (buffer_of t) (map (\<lambda>a. map_event snd (push_of a)) ?ev) = (rs, b)"
    by (cases "buffer_run (buffer_of t) (map (\<lambda>a. map_event snd (push_of a)) ?ev)")
  have "continues (buffer_of t) ds"
    using ds(3,5) n(2) buf(2) room(1) by (simp add: continues_def)
  moreover have "mset (map fst ?ev) = mset ds" using ar(1) zs(1) by (simp add: o_def case_prod_beta)
  moreover have "\<forall>a \<in> set ?ev. in_time T (buffer_of t) (snd a)" using mem by auto
  ultimately have b: "delivered rs = map dg_packet ds" "idle_buffer b"
    "unat (rb_expected b) = unat (rb_expected (buffer_of t)) + length ds" "skipped_total rs = 0"
    using aligned_burst [OF buf(1) _ arr(2) _ _ run] by blast+
  obtain t' where "run_all (\<lambda>(d, e). recv e (dg_bytes d)) ar t = (map emit (delivered rs), t')" "buffer_of t' = b"
  proof -
    have "buffer_run (buffer_of t) (map (\<lambda>(d, e). map_event snd (push_of (d, times e))) ar) = (rs, b)"
      using run by (simp add: o_def case_prod_unfold)
    from receives [OF tk di this b(4)] show thesis using that by blast
  qed
  moreover have "run_all (\<lambda>(e, out). recv e (payload out)) (map (\<lambda>(d, e). (e, wire s d)) as) u
      = run_all (\<lambda>(d, e). recv e (dg_bytes d)) as u" for as u
    by (induction as arbitrary: u) (auto simp: payload_wire)
  ultimately show ?thesis using b buf(2) ds(2,3,7) by (auto simp: ar(2))
qed

end

end
