(* ===== verification/Tunnel.thy ===== *)
theory Tunnel
  imports Tunnel_Contract Client_Facts Server_Handshake
begin

text \<open>
  The client and the relay as the two ends of the tunnel: both are senders and receivers in the sense of
  the contract, so bursts over several paths arrive whole and in order in both directions; and the
  handshake of \<open>connectPath\<close> with \<open>handleHello\<close> links a path of the client with a path of the relay.
\<close>

section \<open>Sealed DATA packets\<close>

definition data_header :: "u64 \<Rightarrow> u32 \<Rightarrow> u64 \<Rightarrow> header" where
  "data_header sid pid n = \<lparr> h_type = TypeData, h_flags = 0, h_session = sid, h_path = pid, h_seq = n \<rparr>"

definition sealed_data :: "crypto \<Rightarrow> direction \<Rightarrow> bytes \<Rightarrow> u64 \<Rightarrow> u32 datagram \<Rightarrow> bool" where
  "sealed_data C dir key sid d \<longleftrightarrow>
     seal C key (data_header sid (dg_path d) (dg_seq d)) dir (put_uint64 (dg_num d) @ dg_packet d) = Inr (dg_bytes d)"

lemma sealed_data_opens:
  assumes "gcm_laws C" "sealed_data C dir key sid d"
  shows "parse_header (dg_bytes d) = Inr (data_header sid (dg_path d) (dg_seq d))
    \<and> open_packet C key (data_header sid (dg_path d) (dg_seq d)) dir (dg_bytes d) = Inr (put_uint64 (dg_num d) @ dg_packet d)"
  using open_seal [OF assms(1)] assms(2) by (simp add: sealed_data_def)

lemma seal_data_ok:
  "length p \<le> MaxDataPayload \<Longrightarrow> \<exists>b. seal C key h dir (put_uint64 n @ p) = Inr b"
  by (simp add: seal_def Let_def)

lemma packet_nonempty: "source_ip p = Some ip \<Longrightarrow> p \<noteq> []" "destination_ip p = Some ip \<Longrightarrow> p \<noteq> []"
  by (auto simp: source_ip_def destination_ip_def ip_version_def)

lemma parse_data_put: "n \<noteq> 0 \<Longrightarrow> p \<noteq> [] \<Longrightarrow> parse_data (put_uint64 n @ p) = Inr (n, p)"
  by (cases p) (simp_all add: parse_data_def)

text \<open>The numbers a window has seen, all below a bound: a new number in the next 64 is taken.\<close>

lemma accept_in_window:
  assumes "represents w S" "unat q \<notin> S" "base < unat q" "\<forall>n \<in> S. n \<le> base + 64"
  shows "\<exists>w'. accept w q = (True, w') \<and> represents w' (insert (unat q) S)"
proof -
  have "spec_accept S (unat q)"
  proof (cases "S = {}")
    case False
    have "finite S" using assms(1) by (simp add: represents_def)
    then have "Max S \<in> S" using False by simp
    then have "Max S - unat q < 64" using assms(3,4) by fastforce
    then show ?thesis using assms(2) by (simp add: spec_accept_def)
  qed (simp add: spec_accept_def)
  then show ?thesis
    using accept_represents [OF assms(1), of q] by (cases "accept w q") auto
qed

section \<open>The client sends\<close>

definition path_ref :: "client \<Rightarrow> u32 \<Rightarrow> cref option" where
  "path_ref c pid = find (\<lambda>r. cp_path_id (cpath c r) = pid) (ct_paths c)"

definition client_counter :: "client \<Rightarrow> u32 \<Rightarrow> u64" where
  "client_counter c pid = (case path_ref c pid of Some r \<Rightarrow> cp_sequence (cpath c r) | None \<Rightarrow> 0)"

definition client_wire :: "client \<Rightarrow> u32 datagram \<Rightarrow> client_output" where
  "client_wire c d = SendRelay (the (path_ref c (dg_path d))) (dg_bytes d)"

definition client_sealed :: "crypto \<Rightarrow> client \<Rightarrow> u32 datagram \<Rightarrow> bool" where
  "client_sealed C c d \<longleftrightarrow>
     (\<exists>r \<in> set (ct_paths c). cp_path_id (cpath c r) = dg_path d
        \<and> sealed_data C ClientToServer (cp_aead (cpath c r)) (ct_session_id c) d)
     \<and> source_ip (dg_packet d) = Some (ct_tunnel_ip c)"

text \<open>The client can send a packet from its own address that fits when some path is healthy and the
  sockets work.\<close>

definition client_able :: "crypto \<Rightarrow> client_env \<Rightarrow> bytes \<Rightarrow> client \<Rightarrow> bool" where
  "client_able C e p c \<longleftrightarrow>
     client_inv C c \<and> distinct (map (\<lambda>r. cp_path_id (cpath c r)) (ct_paths c))
     \<and> (\<forall>w \<in> set (cc_paths (ct_config c)). is_float64 (pt_weight w) \<and> (0 < pt_weight w \<longrightarrow> 1 / 2 ^ 1000 \<le> pt_weight w))
     \<and> source_ip p = Some (ct_tunnel_ip c) \<and> length p \<le> MaxDataPayload
     \<and> (\<forall>r. cv_write_ok e r) \<and> (\<exists>r \<in> set (ct_paths c). client_path_healthy (cv_clock e 0) (cpath c r))"

lemma find_SomeD: "find P xs = Some x \<Longrightarrow> x \<in> set xs \<and> P x"
  by (induction xs) (auto split: if_splits)

lemma path_ref_mem: "path_ref c pid = Some r \<Longrightarrow> r \<in> set (ct_paths c) \<and> cp_path_id (cpath c r) = pid"
  unfolding path_ref_def by (rule find_SomeD)

lemma path_ref_eq:
  assumes "distinct (map (\<lambda>r. cp_path_id (cpath c r)) (ct_paths c))" "r \<in> set (ct_paths c)"
  shows "path_ref c (cp_path_id (cpath c r)) = Some r"
proof (cases "path_ref c (cp_path_id (cpath c r))")
  case None
  then show ?thesis using assms(2) by (auto simp: path_ref_def find_None_iff)
next
  case (Some q)
  then have "q = r" using path_ref_mem [OF Some] assms by (simp add: distinct_map inj_on_def)
  with Some show ?thesis by simp
qed

lemma client_next_chosen:
  assumes able: "client_able C e p c"
  obtains r m where "client_next_path (cv_clock e 0) c = (Some r, c\<lparr>ct_credits := m\<rparr>)" "r \<in> set (ct_paths c)"
    "client_path_healthy (cv_clock e 0) (cpath c r)"
proof -
  let ?cs = "map (client_candidate (cv_clock e 0) c) (ct_paths c)"
  have inv: "client_inv C c" using able by (simp add: client_able_def)
  have "sane_weight (client_candidate (cv_clock e 0) c r)" if "r \<in> set (ct_paths c)" for r
  proof -
    have "r < length (ct_heap c)" using inv that by (auto simp: client_inv_def used_paths_ok_def)
    then have "cp_config (cpath c r) \<in> set (cc_paths (ct_config c)) \<or> pt_weight (cp_config (cpath c r)) = 1"
      using inv unfolding client_inv_def cpath_ok_def by blast
    then show ?thesis using able by (auto simp: client_able_def sane_weight_def client_candidate_def)
  qed
  then have sane: "\<forall>k \<in> set ?cs. sane_weight k" by simp
  obtain q where q: "q \<in> set (ct_paths c)" "client_path_healthy (cv_clock e 0) (cpath c q)"
    using able by (auto simp: client_able_def)
  have "client_candidate (cv_clock e 0) c q \<in> set ?cs" "pc_healthy (client_candidate (cv_clock e 0) c q)"
    using q by (simp_all add: client_candidate_def)
  from wrr.finds [OF sane this] obtain k where k: "k \<in> set ?cs" "fst (next_candidate (ct_credits c) ?cs) = Some k" "pc_healthy k"
    by blast
  then obtain r where r: "r \<in> set (ct_paths c)" "k = client_candidate (cv_clock e 0) c r" by auto
  obtain m where m: "next_candidate (ct_credits c) ?cs = (Some k, m)" using k(2) by (metis prod.collapse)
  show thesis
    using that [of r m] r m k(3) by (simp add: client_next_path_def client_candidate_def)
qed

text \<open>What sending one packet does.\<close>

lemma tun_read_sends:
  assumes able: "client_able C e p c"
  shows "\<exists>r b g m. r \<in> set (ct_paths c)
    \<and> seal C (cp_aead (cpath c r)) (data_header (ct_session_id c) (cp_path_id (cpath c r)) (cp_sequence (cpath c r) + 1))
        ClientToServer (put_uint64 (ct_data_seq c + 1) @ p) = Inr b
    \<and> tun_read C e p c = ([SendRelay r b],
        client_metrics g (update_cpath r (\<lambda>q. q\<lparr>cp_sequence := cp_sequence q + 1\<rparr>)
          (c\<lparr>ct_credits := m, ct_data_seq := ct_data_seq c + 1\<rparr>)))"
proof -
  obtain r m where n: "client_next_path (cv_clock e 0) c = (Some r, c\<lparr>ct_credits := m\<rparr>)" "r \<in> set (ct_paths c)"
    using client_next_chosen [OF able] by blast
  have inv: "client_inv C c" and src: "source_ip p = Some (ct_tunnel_ip c)" and len: "length p \<le> MaxDataPayload"
    and ok: "cv_write_ok e r"
    using able by (auto simp: client_able_def)
  have r: "cp_open (cpath c r)" "cp_session_id (cpath c r) = ct_session_id c"
    using inv n(2) by (auto simp: client_inv_def used_paths_ok_def)
  let ?c2 = "c\<lparr>ct_credits := m, ct_data_seq := ct_data_seq c + 1\<rparr>"
  have at: "cpath ?c2 r = cpath c r" by (simp add: cpath_def)
  obtain b where b: "seal C (cp_aead (cpath c r)) (client_header (cpath c r) TypeData) ClientToServer
      (put_uint64 (ct_data_seq c + 1) @ p) = Inr b"
    using seal_data_ok [OF len] by blast
  have "client_header (cpath c r) TypeData = data_header (ct_session_id c) (cp_path_id (cpath c r)) (cp_sequence (cpath c r) + 1)"
    by (simp add: client_header_def data_header_def r(2))
  moreover have "tun_read C e p c = ([SendRelay r b],
      client_metrics (\<lambda>k. count_sent (length p) (update_path_metric (cp_metric (cpath (update_cpath r (\<lambda>q. q\<lparr>cp_sequence := cp_sequence q + 1\<rparr>) ?c2) r))
          (path_sent (length (put_uint64 (ct_data_seq c + 1) @ p))) k))
        (update_cpath r (\<lambda>q. q\<lparr>cp_sequence := cp_sequence q + 1\<rparr>) ?c2))"
    using src len n(1) b r(1) ok at
    by (simp add: tun_read_def marshal_data_def send_or_mark_def client_send_def Let_def path_metrics_def client_metrics_twice)
  ultimately show ?thesis using b n(2) by auto
qed

interpretation client_tx: tunnel_sender "tun_read C" client_wire ct_data_seq client_counter "client_sealed C" "client_able C"
  for C :: crypto
proof
  fix e p and c :: client
  assume able: "client_able C e p c"
  obtain r b g m where r: "r \<in> set (ct_paths c)"
    and b: "seal C (cp_aead (cpath c r)) (data_header (ct_session_id c) (cp_path_id (cpath c r)) (cp_sequence (cpath c r) + 1))
        ClientToServer (put_uint64 (ct_data_seq c + 1) @ p) = Inr b"
    and s: "tun_read C e p c = ([SendRelay r b], client_metrics g (update_cpath r (\<lambda>q. q\<lparr>cp_sequence := cp_sequence q + 1\<rparr>)
          (c\<lparr>ct_credits := m, ct_data_seq := ct_data_seq c + 1\<rparr>)))"
    using tun_read_sends [OF able] by blast
  define t where "t = client_metrics g (update_cpath r (\<lambda>q. q\<lparr>cp_sequence := cp_sequence q + 1\<rparr>)
          (c\<lparr>ct_credits := m, ct_data_seq := ct_data_seq c + 1\<rparr>))"
  have dist: "distinct (map (\<lambda>r. cp_path_id (cpath c r)) (ct_paths c))" and inv: "client_inv C c"
    using able by (auto simp: client_able_def)
  have rb: "r < length (ct_heap c)" using inv r by (auto simp: client_inv_def used_paths_ok_def)
  have at: "cpath t q = (if q = r then (cpath c r)\<lparr>cp_sequence := cp_sequence (cpath c r) + 1\<rparr> else cpath c q)" for q
    using rb by (simp add: t_def cpath_update) (simp add: cpath_def)
  have fields: "ct_paths t = ct_paths c" "ct_tunnel_ip t = ct_tunnel_ip c" "ct_config t = ct_config c"
    "ct_session_id t = ct_session_id c" "ct_data_seq t = ct_data_seq c + 1"
    by (simp_all add: t_def)
  have ids: "cp_path_id (cpath t q) = cp_path_id (cpath c q)" "cp_aead (cpath t q) = cp_aead (cpath c q)"
    "client_path_healthy now (cpath t q) = client_path_healthy now (cpath c q)" for q now
    by (simp_all add: at client_path_healthy_def)
  have ref: "path_ref t = path_ref c" by (simp add: fun_eq_iff path_ref_def fields ids)
  define d where "d = \<lparr> dg_path = cp_path_id (cpath c r), dg_seq = cp_sequence (cpath c r) + 1,
      dg_num = ct_data_seq c + 1, dg_packet = p, dg_bytes = b \<rparr>"
  have rr: "path_ref c (cp_path_id (cpath c r)) = Some r" by (rule path_ref_eq [OF dist r])
  have "tun_read C e p c = ([client_wire c d], t)"
    by (simp add: s t_def client_wire_def d_def rr)
  moreover have "client_sealed C c d"
    using r b able by (auto simp: client_sealed_def sealed_data_def d_def client_able_def)
  moreover have "client_counter c (dg_path d) = cp_sequence (cpath c r)" by (simp add: client_counter_def d_def rr)
  moreover have "client_counter t = (client_counter c)(dg_path d := client_counter c (dg_path d) + 1)"
  proof
    fix pid
    show "client_counter t pid = ((client_counter c)(dg_path d := client_counter c (dg_path d) + 1)) pid"
    proof (cases "path_ref c pid")
      case None
      then have "pid \<noteq> cp_path_id (cpath c r)" using rr by auto
      then show ?thesis using None by (simp add: client_counter_def ref d_def)
    next
      case (Some q)
      show ?thesis
      proof (cases "q = r")
        case True
        then have "pid = dg_path d" using path_ref_mem [OF Some] by (simp add: d_def)
        then show ?thesis using Some True by (simp add: client_counter_def ref at)
      next
        case False
        then have "pid \<noteq> dg_path d" using Some rr by (auto simp: d_def)
        then show ?thesis using Some False by (simp add: client_counter_def ref at)
      qed
    qed
  qed
  moreover have "client_wire t = client_wire c" by (simp add: fun_eq_iff client_wire_def ref)
  moreover have "client_sealed C t = client_sealed C c" by (simp add: fun_eq_iff client_sealed_def fields ids)
  moreover have "client_able C e' p' c \<longrightarrow> client_able C e' p' t" for e' p'
  proof -
    have "client_inv C t" using inv_tun_read [OF inv, of C e p] by (simp add: s t_def)
    then show ?thesis by (simp add: client_able_def fields ids)
  qed
  ultimately show "\<exists>d t. tun_read C e p c = ([client_wire c d], t)
      \<and> dg_packet d = p \<and> client_sealed C c d \<and> dg_num d = ct_data_seq c + 1 \<and> dg_seq d = client_counter c (dg_path d) + 1
      \<and> ct_data_seq t = ct_data_seq c + 1 \<and> client_counter t = (client_counter c)(dg_path d := client_counter c (dg_path d) + 1)
      \<and> client_wire t = client_wire c \<and> client_sealed C t = client_sealed C c \<and> (\<forall>e' p'. client_able C e' p' c \<longrightarrow> client_able C e' p' t)"
    by (intro exI [of _ d] exI [of _ t] conjI allI) (simp_all add: d_def fields)
qed

section \<open>The relay receives\<close>

definition relay_buffer :: "sref \<Rightarrow> server \<Rightarrow> bytes buffer" where
  "relay_buffer q s = ss_reorder (session_at s q)"

text \<open>The relay takes a DATA packet of session \<open>q\<close> that is sealed for one of its paths, comes from the
  client's own address and has a new number in the window.\<close>

definition relay_takes ::
  "crypto \<Rightarrow> sref \<Rightarrow> (u32 \<Rightarrow> nat) \<Rightarrow> env \<times> udp_addr \<Rightarrow> u32 datagram \<Rightarrow> server \<Rightarrow> bool" where
  "relay_takes C q base er d s \<longleftrightarrow>
     (\<forall>i. ev_tun_ok (fst er) q i) \<and> q < length (sv_heap s) \<and> dg_num d \<noteq> 0
     \<and> source_ip (dg_packet d) = Some (ip_of (session_at s q))
     \<and> (\<exists>sid p S. map_get (sv_sessions s) sid = Some q \<and> map_get (ss_paths (session_at s q)) (dg_path d) = Some p
          \<and> sp_id p = dg_path d \<and> sealed_data C ClientToServer (sp_aead p) sid d
          \<and> represents (sp_replay p) S \<and> unat (dg_seq d) \<notin> S \<and> base (dg_path d) < unat (dg_seq d)
          \<and> unat (dg_seq d) \<le> base (dg_path d) + 64 \<and> (\<forall>n \<in> S. n \<le> base (dg_path d) + 64))"

lemma write_packets_ok:
  assumes "\<forall>i. ok i"
  shows "\<exists>f. write_packets ok i ps s = (map WriteTun ps, update_metrics f s)"
proof (induction ps arbitrary: i s)
  case Nil
  then show ?case by (intro exI [of _ "\<lambda>m. m"]) (simp add: update_metrics_def)
next
  case (Cons p ps)
  obtain f where "write_packets ok (Suc i) ps (update_metrics (count_received (length p)) s)
      = (map WriteTun ps, update_metrics f (update_metrics (count_received (length p)) s))" using Cons.IH by blast
  then show ?case
    using spec [OF assms, of i] by (intro exI [of _ "\<lambda>m. f (count_received (length p) m)"]) (simp add: update_metrics_def)
qed

lemma deliver_ok:
  assumes "\<forall>i. ev_tun_ok e q i"
  shows "\<exists>f. deliver e q res s = (map WriteTun (res_packets res), update_metrics f s)"
proof -
  obtain f where "write_packets (ev_tun_ok e q) 0 (res_packets res)
      (if 0 < res_skipped res then update_metrics (count_skips (res_skipped res)) s else s)
    = (map WriteTun (res_packets res), update_metrics f
      (if 0 < res_skipped res then update_metrics (count_skips (res_skipped res)) s else s))"
    using write_packets_ok [of "ev_tun_ok e q"] assms by blast
  then show ?thesis
    unfolding deliver_def
    by (cases "0 < res_skipped res") (auto simp: update_metrics_def intro: exI [of _ "\<lambda>m. f (count_skips (res_skipped res) m)"])
qed

text \<open>What receiving such a datagram does.\<close>

lemma receive_takes:
  assumes C: "gcm_laws C" and tk: "relay_takes C q base (e, remote) d s"
    and push: "push (relay_buffer q s) (dg_num d) (dg_packet d) (ev_clock e 2) (ev_clock e 3) = (r, b)"
  shows "\<exists>sid p w f. map_get (sv_sessions s) sid = Some q \<and> map_get (ss_paths (session_at s q)) (dg_path d) = Some p
    \<and> sp_id p = dg_path d \<and> accept (sp_replay p) (dg_seq d) = (True, w)
    \<and> receive_datagram C e remote (dg_bytes d) s = (map WriteTun (res_packets r),
        update_metrics f (update_session q (\<lambda>ss. ss\<lparr>ss_reorder := b\<rparr>)
          (update_session q (touch_session (ev_clock e 1)) (update_session q (put_path (seen_path remote (ev_clock e 0) w p)) s))))"
proof -
  obtain sid p S where t: "map_get (sv_sessions s) sid = Some q" "map_get (ss_paths (session_at s q)) (dg_path d) = Some p"
    "sp_id p = dg_path d" "sealed_data C ClientToServer (sp_aead p) sid d" "represents (sp_replay p) S"
    "unat (dg_seq d) \<notin> S" "base (dg_path d) < unat (dg_seq d)" "\<forall>n \<in> S. n \<le> base (dg_path d) + 64"
    and o: "\<forall>i. ev_tun_ok e q i" "q < length (sv_heap s)" "dg_num d \<noteq> 0" "source_ip (dg_packet d) = Some (ip_of (session_at s q))"
    using tk by (auto simp: relay_takes_def)
  obtain w where w: "accept (sp_replay p) (dg_seq d) = (True, w)"
    using accept_in_window [OF t(5-8)] by blast
  define p1 where "p1 = seen_path remote (ev_clock e 0) w p"
  define s1 where "s1 = update_session q (touch_session (ev_clock e 1)) (update_session q (put_path p1) s)"
  define pl where "pl = put_uint64 (dg_num d) @ dg_packet d"
  define m where "m = update_path_metric (sp_metric p) (\<lambda>m. path_received (length pl) (path_health True m))"
  define s2 where "s2 = update_metrics m s1"
  note op = sealed_data_opens [OF C t(4), folded pl_def]
  have he: "receive_datagram C e remote (dg_bytes d) s = handle_payload C e q p1 TypeData pl s2"
    using op t(1,2) w by (simp add: receive_datagram_def handle_encrypted_def data_header_def Let_def p1_def s1_def s2_def m_def)
  have at: "ss_reorder (session_at s2 q) = relay_buffer q s" "ip_of (session_at s2 q) = ip_of (session_at s q)"
    using o(2) by (simp_all add: s2_def s1_def session_at_update relay_buffer_def touch_session_def put_path_def)
  have pd: "parse_data pl = Inr (dg_num d, dg_packet d)"
    unfolding pl_def using o(3) packet_nonempty(1) [OF o(4)] by (rule parse_data_put)
  have "handle_payload C e q p1 TypeData pl s2 = deliver e q r (update_session q (\<lambda>ss. ss\<lparr>ss_reorder := b\<rparr>) s2)"
    using push o(4) by (simp add: handle_payload_def pd at)
  moreover obtain f where "deliver e q r (update_session q (\<lambda>ss. ss\<lparr>ss_reorder := b\<rparr>) s2)
      = (map WriteTun (res_packets r), update_metrics f (update_session q (\<lambda>ss. ss\<lparr>ss_reorder := b\<rparr>) s2))"
    using deliver_ok [OF o(1)] by blast
  moreover have "update_metrics f (update_session q (\<lambda>ss. ss\<lparr>ss_reorder := b\<rparr>) s2)
      = update_metrics (\<lambda>k. f (m k)) (update_session q (\<lambda>ss. ss\<lparr>ss_reorder := b\<rparr>) s1)"
    by (simp add: s2_def update_metrics_def update_session_def)
  ultimately have "receive_datagram C e remote (dg_bytes d) s = (map WriteTun (res_packets r),
      update_metrics (\<lambda>k. f (m k)) (update_session q (\<lambda>ss. ss\<lparr>ss_reorder := b\<rparr>) s1))"
    using he by simp
  then show ?thesis using t(1-3) w unfolding s1_def p1_def by blast
qed

lemma represents_accepted:
  "represents w S \<Longrightarrow> accept w q = (True, w') \<Longrightarrow> represents w' (insert (unat q) S)"
  using accept_represents [of w S q] by simp

lemma relay_takes_later:
  assumes C: "gcm_laws C" and tk: "relay_takes C q base er d s" and tk': "relay_takes C q base er' d' s"
    and ne: "(dg_path d, dg_seq d) \<noteq> (dg_path d', dg_seq d')"
    and rd: "receive_datagram C (fst er) (snd er) (dg_bytes d) s = (outs, t)"
  shows "relay_takes C q base er' d' t"
proof -
  obtain e remote where er: "er = (e, remote)" by (cases er)
  obtain r b where push: "push (relay_buffer q s) (dg_num d) (dg_packet d) (ev_clock e 2) (ev_clock e 3) = (r, b)"
    by (cases "push (relay_buffer q s) (dg_num d) (dg_packet d) (ev_clock e 2) (ev_clock e 3)")
  obtain p w f where p: "map_get (ss_paths (session_at s q)) (dg_path d) = Some p" "sp_id p = dg_path d"
    "accept (sp_replay p) (dg_seq d) = (True, w)"
    and t: "t = update_metrics f (update_session q (\<lambda>ss. ss\<lparr>ss_reorder := b\<rparr>)
          (update_session q (touch_session (ev_clock e 1)) (update_session q (put_path (seen_path remote (ev_clock e 0) w p)) s)))"
    using receive_takes [OF C tk [unfolded er] push] rd by (auto simp: er)
  have q: "q < length (sv_heap s)" using tk by (simp add: relay_takes_def)
  have base: "unat (dg_seq d) \<le> base (dg_path d) + 64" using tk by (auto simp: relay_takes_def)
  have at: "ss_paths (session_at t q) = map_put (ss_paths (session_at s q)) (dg_path d) (seen_path remote (ev_clock e 0) w p)"
    "ip_of (session_at t q) = ip_of (session_at s q)" "sv_sessions t = sv_sessions s" "length (sv_heap t) = length (sv_heap s)"
    using q by (simp_all add: t session_at_update touch_session_def put_path_def seen_path_def p(2))
  obtain sid' p' S where d': "map_get (sv_sessions s) sid' = Some q" "map_get (ss_paths (session_at s q)) (dg_path d') = Some p'"
    "sp_id p' = dg_path d'" "sealed_data C ClientToServer (sp_aead p') sid' d'" "represents (sp_replay p') S"
    "unat (dg_seq d') \<notin> S" "base (dg_path d') < unat (dg_seq d')" "unat (dg_seq d') \<le> base (dg_path d') + 64"
    "\<forall>n \<in> S. n \<le> base (dg_path d') + 64"
    using tk' by (auto simp: relay_takes_def)
  have "\<exists>p2 S2. map_get (ss_paths (session_at t q)) (dg_path d') = Some p2 \<and> sp_id p2 = dg_path d'
      \<and> sealed_data C ClientToServer (sp_aead p2) sid' d' \<and> represents (sp_replay p2) S2
      \<and> unat (dg_seq d') \<notin> S2 \<and> (\<forall>n \<in> S2. n \<le> base (dg_path d') + 64)"
  proof (cases "dg_path d' = dg_path d")
    case True
    then have pp: "p' = p" using d'(2) p(1) by simp
    have "dg_seq d' \<noteq> dg_seq d" using ne True by auto
    then have "unat (dg_seq d') \<notin> insert (unat (dg_seq d)) S" using d'(6) by (simp add: word_unat_eq_iff)
    moreover have "represents w (insert (unat (dg_seq d)) S)"
      using represents_accepted [OF _ p(3)] d'(5) pp by simp
    ultimately show ?thesis
      using True pp d'(3,4,9) base
      by (intro exI [of _ "seen_path remote (ev_clock e 0) w p"] exI [of _ "insert (unat (dg_seq d)) S"])
        (auto simp: at map_get_put seen_path_def)
  next
    case False
    then show ?thesis using d' by (auto simp: at map_get_put)
  qed
  then show ?thesis
    using tk' d'(1,7,8) at(2-4) unfolding relay_takes_def by metis
qed

interpretation relay_rx: tunnel_receiver "\<lambda>er. receive_datagram C (fst er) (snd er)" WriteTun
    "\<lambda>er. (ev_clock (fst er) 2, ev_clock (fst er) 3)" "relay_buffer q" "\<lambda>base er d s. gcm_laws C \<and> relay_takes C q base er d s"
  for C :: crypto and q :: sref
proof
  fix base er d s r b
  assume tk: "gcm_laws C \<and> relay_takes C q base er d s"
    and push: "push (relay_buffer q s) (dg_num d) (dg_packet d) (fst (ev_clock (fst er) 2, ev_clock (fst er) 3))
      (snd (ev_clock (fst er) 2, ev_clock (fst er) 3)) = (r, b)"
  obtain e remote where er: "er = (e, remote)" by (cases er)
  have q: "q < length (sv_heap s)" using tk by (simp add: relay_takes_def)
  obtain p w f where "receive_datagram C e remote (dg_bytes d) s = (map WriteTun (res_packets r),
        update_metrics f (update_session q (\<lambda>ss. ss\<lparr>ss_reorder := b\<rparr>)
          (update_session q (touch_session (ev_clock e 1)) (update_session q (put_path (seen_path remote (ev_clock e 0) w p)) s))))"
    using receive_takes [of C q base e remote d s r b] tk push by (auto simp: er)
  then show "\<exists>t. receive_datagram C (fst er) (snd er) (dg_bytes d) s = (map WriteTun (res_packets r), t) \<and> relay_buffer q t = b"
    using q by (auto simp: er relay_buffer_def session_at_update)
next
  show "gcm_laws C \<and> relay_takes C q base er' d' t"
    if "gcm_laws C \<and> relay_takes C q base er d s" "gcm_laws C \<and> relay_takes C q base er' d' s"
      "(dg_path d, dg_seq d) \<noteq> (dg_path d', dg_seq d')" "receive_datagram C (fst er) (snd er) (dg_bytes d) s = (outs, t)"
    for base er d s er' d' outs t
    using that relay_takes_later by blast
qed

section \<open>Upload\<close>

text \<open>The client's paths are linked to session \<open>q\<close> of the relay: same session, same tunnel address, and
  each path has its counterpart with the same key, which has seen no number the client has not used.\<close>

definition linked_up :: "sref \<Rightarrow> client \<Rightarrow> server \<Rightarrow> bool" where
  "linked_up q c s \<longleftrightarrow>
     q < length (sv_heap s) \<and> map_get (sv_sessions s) (ct_session_id c) = Some q \<and> ip_of (session_at s q) = ct_tunnel_ip c
     \<and> distinct (map (\<lambda>r. cp_path_id (cpath c r)) (ct_paths c))
     \<and> (\<forall>r \<in> set (ct_paths c). \<exists>p S. map_get (ss_paths (session_at s q)) (cp_path_id (cpath c r)) = Some p
          \<and> sp_id p = cp_path_id (cpath c r) \<and> sp_aead p = cp_aead (cpath c r)
          \<and> represents (sp_replay p) S \<and> (\<forall>n \<in> S. n \<le> unat (cp_sequence (cpath c r))))"

fun relay_bytes :: "client_output \<Rightarrow> bytes" where
  "relay_bytes (SendRelay r b) = b"
| "relay_bytes out = []"

interpretation up: tunnel "tun_read C" client_wire ct_data_seq client_counter "client_sealed C" "client_able C"
    "\<lambda>er :: env \<times> udp_addr. receive_datagram C (fst er) (snd er)" WriteTun
    "\<lambda>er. (ev_clock (fst er) 2, ev_clock (fst er) 3)" "relay_buffer q" "\<lambda>base er d s. gcm_laws C \<and> relay_takes C q base er d s"
    "\<lambda>c s. gcm_laws C \<and> linked_up q c s" "\<lambda>(er :: env \<times> udp_addr) out s. \<forall>i. ev_tun_ok (fst er) q i" relay_bytes
  for C :: crypto and q :: sref
proof
  show "relay_bytes (client_wire c d) = dg_bytes d" for c d by (simp add: client_wire_def)
  fix c s d and er :: "env \<times> udp_addr"
  assume l: "gcm_laws C \<and> linked_up q c s" and sd: "client_sealed C c d"
    and lo: "unat (client_counter c (dg_path d)) < unat (dg_seq d)"
    and hi: "unat (dg_seq d) \<le> unat (client_counter c (dg_path d)) + 64" and nz: "dg_num d \<noteq> 0"
    and ok: "\<forall>i. ev_tun_ok (fst er) q i"
  obtain r where r: "r \<in> set (ct_paths c)" "cp_path_id (cpath c r) = dg_path d"
    "sealed_data C ClientToServer (cp_aead (cpath c r)) (ct_session_id c) d"
    using sd by (auto simp: client_sealed_def)
  have lk: "linked_up q c s" using l by blast
  then have "path_ref c (dg_path d) = Some r"
    using path_ref_eq [of c r] r by (simp add: linked_up_def)
  then have cnt: "client_counter c (dg_path d) = cp_sequence (cpath c r)" by (simp add: client_counter_def)
  obtain p S where p: "map_get (ss_paths (session_at s q)) (dg_path d) = Some p" "sp_id p = dg_path d"
    "sp_aead p = cp_aead (cpath c r)" "represents (sp_replay p) S" "\<forall>n \<in> S. n \<le> unat (cp_sequence (cpath c r))"
    using lk r by (auto simp: linked_up_def)
  have "relay_takes C q (\<lambda>k. unat (client_counter c k)) er d s"
    unfolding relay_takes_def
    using lk ok nz sd r(3) p lo hi
    by (intro conjI exI [of _ "ct_session_id c"] exI [of _ p] exI [of _ S])
      (auto simp: linked_up_def client_sealed_def cnt dest: bspec)
  then show "gcm_laws C \<and> relay_takes C q (\<lambda>k. unat (client_counter c k)) er d s" using l by blast
qed


end
