(* ===== verification/Tunnel_Down.thy ===== *)
theory Tunnel_Down
  imports Tunnel
begin

text \<open>
  The direction from the relay to the client: the relay's \<open>tunLoop\<close> is a sender and the client's
  \<open>receiveLoop\<close> a receiver of the tunnel contract.
\<close>

section \<open>The relay sends\<close>

definition relay_path :: "sref \<Rightarrow> server \<Rightarrow> u32 \<Rightarrow> server_path option" where
  "relay_path q s pid = map_get (ss_paths (session_at s q)) pid"

definition relay_counter :: "sref \<Rightarrow> server \<Rightarrow> u32 \<Rightarrow> u64" where
  "relay_counter q s pid = (case relay_path q s pid of Some p \<Rightarrow> sp_sequence p | None \<Rightarrow> 0)"

definition relay_number :: "sref \<Rightarrow> server \<Rightarrow> u64" where
  "relay_number q s = ss_data_seq (session_at s q)"

definition relay_wire :: "sref \<Rightarrow> server \<Rightarrow> u32 datagram \<Rightarrow> server_output" where
  "relay_wire q s d = SendTo (the (sp_remote (the (relay_path q s (dg_path d))))) (dg_bytes d)"

definition relay_sealed :: "crypto \<Rightarrow> sref \<Rightarrow> server \<Rightarrow> u32 datagram \<Rightarrow> bool" where
  "relay_sealed C q s d \<longleftrightarrow>
     (\<exists>p. relay_path q s (dg_path d) = Some p \<and> sealed_data C ServerToClient (sp_aead p) (ss_id (session_at s q)) d)
     \<and> destination_ip (dg_packet d) = Some (ip_of (session_at s q))"

text \<open>The relay can send a packet to the client of session \<open>q\<close> when the session is the one of its tunnel
  address, some path is healthy and the socket works.\<close>

definition relay_able :: "crypto \<Rightarrow> sref \<Rightarrow> env \<Rightarrow> bytes \<Rightarrow> server \<Rightarrow> bool" where
  "relay_able C q e p s \<longleftrightarrow>
     server_inv C s \<and> map_get (sv_by_ip s) (ip_of (session_at s q)) = Some q
     \<and> destination_ip p = Some (ip_of (session_at s q)) \<and> length p \<le> MaxDataPayload \<and> ev_udp_ok e
     \<and> (\<exists>(pid, p) \<in> set (ss_paths (session_at s q)). path_is_healthy (ev_clock e 0) p)"

lemma next_path_finds:
  assumes wf: "session_wf C ss" and h: "(pid, p) \<in> set (ss_paths ss)" "path_is_healthy now p"
  obtains p' m where "next_path order now ss = (Some p', ss\<lparr>ss_credits := m\<rparr>)"
proof -
  let ?cs = "map (\<lambda>(_, p). path_candidate now p) (visit_order order (ss_paths ss))"
  have "set (visit_order order (ss_paths ss)) = set (ss_paths ss)"
    using wf by (intro set_visit_order) (simp add: session_wf_def)
  then have "path_candidate now p \<in> set ?cs" using h(1) by force
  moreover have "pc_healthy (path_candidate now p)" using h(2) by (simp add: path_candidate_def)
  ultimately obtain k where k: "fst (next_candidate (ss_credits ss) ?cs) = Some k"
    using wrr.finds [OF candidates_sane [OF wf]] by blast
  obtain m where "next_candidate (ss_credits ss) ?cs = (Some k, m)" using k by (metis prod.collapse)
  then show thesis using that [of "pc_path k" m] by (simp add: next_path_def)
qed

lemma tun_packet_sends:
  assumes able: "relay_able C q e packet s"
  shows "\<exists>p b remote f m. map_get (ss_paths (session_at s q)) (sp_id p) = Some p \<and> sp_remote p = Some remote
    \<and> seal C (sp_aead p) (data_header (ss_id (session_at s q)) (sp_id p) (sp_sequence p + 1))
        ServerToClient (put_uint64 (ss_data_seq (session_at s q) + 1) @ packet) = Inr b
    \<and> tun_packet C e packet s = ([SendTo remote b],
        update_metrics f (update_session q (put_path (p\<lparr>sp_sequence := sp_sequence p + 1\<rparr>))
          (update_session q (\<lambda>ss. ss\<lparr>ss_credits := m, ss_data_seq := ss_data_seq ss + 1\<rparr>) s)))"
proof -
  have inv: "server_inv C s" and ip: "map_get (sv_by_ip s) (ip_of (session_at s q)) = Some q"
    and dst: "destination_ip packet = Some (ip_of (session_at s q))" and len: "length packet \<le> MaxDataPayload"
    and ok: "ev_udp_ok e"
    using able by (auto simp: relay_able_def)
  obtain pid h where h: "(pid, h) \<in> set (ss_paths (session_at s q))" "path_is_healthy (ev_clock e 0) h"
    using able by (auto simp: relay_able_def)
  have i: "indexes_ok s" using inv by (simp add: server_inv_def)
  have lv: "live s q" using indexes_ip [OF i ip] by blast
  have q: "q < length (sv_heap s)" using live_bound [OF i lv] .
  have wf: "session_wf C (session_at s q)" using session_wf_live [OF inv lv] .
  obtain p m where n: "next_path (ev_order e) (ev_clock e 0) (session_at s q) = (Some p, (session_at s q)\<lparr>ss_credits := m\<rparr>)"
    using next_path_finds [OF wf h] by blast
  have p: "map_get (ss_paths (session_at s q)) (sp_id p) = Some p" using next_path_selected [OF wf n] by blast
  have pok: "path_ok C (session_at s q) (sp_id p) p"
    using good_path_member [OF inv lv p] lv by (simp add: good_path_def)
  then obtain remote where r: "sp_remote p = Some remote" "sp_session_id p = ss_id (session_at s q)"
    by (auto simp: path_ok_def)
  obtain b where b: "seal C (sp_aead p) (send_header p TypeData) ServerToClient
      (put_uint64 (ss_data_seq (session_at s q) + 1) @ packet) = Inr b"
    using seal_data_ok [OF len] by blast
  have hd: "send_header p TypeData = data_header (ss_id (session_at s q)) (sp_id p) (sp_sequence p + 1)"
    by (simp add: send_header_def data_header_def r(2))
  let ?g = "\<lambda>ss. ss\<lparr>ss_credits := m, ss_data_seq := ss_data_seq ss + 1\<rparr>"
  have two: "update_session q (\<lambda>ss. ss\<lparr>ss_data_seq := ss_data_seq (session_at s q) + 1\<rparr>)
      (update_session q (\<lambda>_. (session_at s q)\<lparr>ss_credits := m\<rparr>) s) = update_session q ?g s"
    using q by (simp add: update_session_def session_at_def)
  have "tun_packet C e packet s = ([SendTo remote b],
      update_metrics (count_sent (length packet)) (update_metrics (update_path_metric (sp_metric p)
        (path_sent (length (put_uint64 (ss_data_seq (session_at s q) + 1) @ packet))))
        (update_session q (put_path (p\<lparr>sp_sequence := sp_sequence p + 1\<rparr>)) (update_session q ?g s))))"
    using dst ip n len b r(1) ok q two
    by (simp add: tun_packet_def marshal_data_def Let_def send_or_record_def send_path_def session_at_update)
  then have "tun_packet C e packet s = ([SendTo remote b],
      update_metrics (\<lambda>k. count_sent (length packet) (update_path_metric (sp_metric p)
        (path_sent (length (put_uint64 (ss_data_seq (session_at s q) + 1) @ packet))) k))
        (update_session q (put_path (p\<lparr>sp_sequence := sp_sequence p + 1\<rparr>)) (update_session q ?g s)))"
    by (simp add: update_metrics_def)
  then show ?thesis using p r(1) b unfolding hd by blast
qed

interpretation relay_tx: tunnel_sender "tun_packet C" "relay_wire q" "relay_number q" "relay_counter q"
    "relay_sealed C q" "relay_able C q"
  for C :: crypto and q :: sref
proof
  fix e packet s
  assume able: "relay_able C q e packet s"
  obtain p b remote f m where p: "map_get (ss_paths (session_at s q)) (sp_id p) = Some p" "sp_remote p = Some remote"
    and b: "seal C (sp_aead p) (data_header (ss_id (session_at s q)) (sp_id p) (sp_sequence p + 1))
        ServerToClient (put_uint64 (ss_data_seq (session_at s q) + 1) @ packet) = Inr b"
    and st: "tun_packet C e packet s = ([SendTo remote b],
        update_metrics f (update_session q (put_path (p\<lparr>sp_sequence := sp_sequence p + 1\<rparr>))
          (update_session q (\<lambda>ss. ss\<lparr>ss_credits := m, ss_data_seq := ss_data_seq ss + 1\<rparr>) s)))"
    using tun_packet_sends [OF able] by blast
  define t where "t = snd (tun_packet C e packet s)"
  have inv: "server_inv C s" and ip: "map_get (sv_by_ip s) (ip_of (session_at s q)) = Some q"
    using able by (auto simp: relay_able_def)
  have i: "indexes_ok s" using inv by (simp add: server_inv_def)
  have q: "q < length (sv_heap s)" using indexes_ip [OF i ip] live_bound [OF i] by blast
  have at: "session_at t q = put_path (p\<lparr>sp_sequence := sp_sequence p + 1\<rparr>)
      ((session_at s q)\<lparr>ss_credits := m, ss_data_seq := ss_data_seq (session_at s q) + 1\<rparr>)"
    and tip: "sv_by_ip t = sv_by_ip s"
    using q by (simp_all add: t_def st session_at_update)
  have fields: "ss_data_seq (session_at t q) = ss_data_seq (session_at s q) + 1" "ip_of (session_at t q) = ip_of (session_at s q)"
    "ss_id (session_at t q) = ss_id (session_at s q)"
    "ss_paths (session_at t q) = map_put (ss_paths (session_at s q)) (sp_id p) (p\<lparr>sp_sequence := sp_sequence p + 1\<rparr>)"
    by (simp_all add: at put_path_def)
  have rp: "relay_path q t pid = (if pid = sp_id p then Some (p\<lparr>sp_sequence := sp_sequence p + 1\<rparr>) else relay_path q s pid)" for pid
    by (simp add: relay_path_def fields map_get_put)
  have rs: "relay_path q s (sp_id p) = Some p" using p(1) by (simp add: relay_path_def)
  define d where "d = \<lparr> dg_path = sp_id p, dg_seq = sp_sequence p + 1, dg_num = ss_data_seq (session_at s q) + 1,
      dg_packet = packet, dg_bytes = b \<rparr>"
  have "tun_packet C e packet s = ([relay_wire q s d], t)" by (simp add: t_def st relay_wire_def d_def rs p(2))
  moreover have "relay_sealed C q s d"
    using able b rs by (simp add: relay_sealed_def sealed_data_def d_def relay_able_def)
  moreover have "relay_wire q t = relay_wire q s" by (auto simp: fun_eq_iff relay_wire_def rp rs)
  moreover have "relay_sealed C q t = relay_sealed C q s"
    by (auto simp: fun_eq_iff relay_sealed_def rp rs fields)
  moreover have "relay_counter q t = (relay_counter q s)(dg_path d := relay_counter q s (dg_path d) + 1)"
    by (auto simp: fun_eq_iff relay_counter_def rp rs d_def)
  moreover have "relay_able C q e' p' t" if a: "relay_able C q e' p' s" for e' p'
  proof -
    have inv': "server_inv C t" unfolding t_def by (rule tun_packet_inv [OF inv])
    obtain pid h where h: "(pid, h) \<in> set (ss_paths (session_at s q))" "path_is_healthy (ev_clock e' 0) h"
      using a by (auto simp: relay_able_def)
    have u: "keys_unique (ss_paths (session_at s q))" "keys_unique (ss_paths (session_at t q))"
      using session_wf_live [OF inv] session_wf_live [OF inv'] indexes_ip [OF i ip] inv' tip ip fields(2)
        indexes_ip [of t "ip_of (session_at t q)" q] by (auto simp: session_wf_def server_inv_def)
    have "relay_path q s pid = Some h" using h(1) map_get_mem [OF u(1)] by (simp add: relay_path_def)
    then have "\<exists>h'. relay_path q t pid = Some h' \<and> path_is_healthy (ev_clock e' 0) h'"
      using h(2) rs by (auto simp: rp path_is_healthy_def)
    then obtain h' where "(pid, h') \<in> set (ss_paths (session_at t q))" "path_is_healthy (ev_clock e' 0) h'"
      using map_get_mem [OF u(2)] by (auto simp: relay_path_def)
    then show ?thesis using a inv' by (auto simp: relay_able_def tip fields(2))
  qed
  ultimately show "\<exists>d t. tun_packet C e packet s = ([relay_wire q s d], t)
      \<and> dg_packet d = packet \<and> relay_sealed C q s d \<and> dg_num d = relay_number q s + 1
      \<and> dg_seq d = relay_counter q s (dg_path d) + 1
      \<and> relay_number q t = relay_number q s + 1
      \<and> relay_counter q t = (relay_counter q s)(dg_path d := relay_counter q s (dg_path d) + 1)
      \<and> relay_wire q t = relay_wire q s \<and> relay_sealed C q t = relay_sealed C q s
      \<and> (\<forall>e' p'. relay_able C q e' p' s \<longrightarrow> relay_able C q e' p' t)"
    by (intro exI [of _ d] exI [of _ t]) (simp add: relay_number_def fields d_def relay_counter_def rs)
qed

section \<open>The client receives\<close>

definition client_takes ::
  "crypto \<Rightarrow> (u32 \<Rightarrow> nat) \<Rightarrow> client_env \<times> cref \<Rightarrow> u32 datagram \<Rightarrow> client \<Rightarrow> bool" where
  "client_takes C base er d c \<longleftrightarrow>
     (\<forall>i. cv_tun_ok (fst er) i) \<and> snd er < length (ct_heap c) \<and> ct_tun c \<and> dg_num d \<noteq> 0
     \<and> destination_ip (dg_packet d) = Some (ct_tunnel_ip c) \<and> cp_path_id (cpath c (snd er)) = dg_path d
     \<and> sealed_data C ServerToClient (cp_aead (cpath c (snd er))) (cp_session_id (cpath c (snd er))) d
     \<and> (\<exists>S. represents (cp_replay (cpath c (snd er))) S \<and> unat (dg_seq d) \<notin> S \<and> base (dg_path d) < unat (dg_seq d)
          \<and> unat (dg_seq d) \<le> base (dg_path d) + 64 \<and> (\<forall>n \<in> S. n \<le> base (dg_path d) + 64))"

lemma write_tun_ok:
  assumes "\<forall>i. ok i"
  shows "\<exists>f. write_tun ok i ps c = (map ClientTun ps, client_metrics f c)"
proof (induction ps arbitrary: i c)
  case Nil
  then show ?case by (intro exI [of _ "\<lambda>m. m"]) (simp add: client_metrics_def)
next
  case (Cons p ps)
  obtain f where "write_tun ok (Suc i) ps (client_metrics (count_received (length p)) c)
      = (map ClientTun ps, client_metrics f (client_metrics (count_received (length p)) c))" using Cons.IH by blast
  then show ?case
    using spec [OF assms, of i] by (intro exI [of _ "\<lambda>m. f (count_received (length p) m)"]) (simp add: client_metrics_def)
qed

lemma client_deliver_ok:
  assumes "\<forall>i. cv_tun_ok e i" "ct_tun c"
  shows "\<exists>f. client_deliver e res c = (map ClientTun (res_packets res), client_metrics f c)"
proof -
  define c1 where "c1 = (if 0 < res_skipped res then client_metrics (count_skips (res_skipped res)) c else c)"
  obtain f where f: "write_tun (cv_tun_ok e) 0 (res_packets res) c1 = (map ClientTun (res_packets res), client_metrics f c1)"
    using write_tun_ok [OF assms(1)] by blast
  have "ct_tun c1" using assms(2) by (simp add: c1_def)
  then have "client_deliver e res c = (map ClientTun (res_packets res), client_metrics f c1)"
    using f by (simp add: client_deliver_def Let_def flip: c1_def)
  moreover have "\<exists>g. client_metrics f c1 = client_metrics g c"
  proof (cases "0 < res_skipped res")
    case True
    then show ?thesis
      by (intro exI [of _ "\<lambda>m. f (count_skips (res_skipped res) m)"]) (simp add: c1_def client_metrics_def)
  qed (auto simp: c1_def)
  ultimately show ?thesis by auto
qed

lemma seen_on_eq:
  "\<exists>f g. seen_on r now w n c = client_metrics g (update_cpath r f c)
     \<and> (\<forall>p. cp_replay (f p) = w \<and> cp_path_id (f p) = cp_path_id p \<and> cp_aead (f p) = cp_aead p
          \<and> cp_session_id (f p) = cp_session_id p)"
proof (cases "cp_healthy (cpath (update_cpath r (\<lambda>p. p\<lparr>cp_replay := w, cp_last_seen := unix_nano now\<rparr>) c) r)")
  case True
  then show ?thesis
    by (intro exI [of _ "\<lambda>p. p\<lparr>cp_replay := w, cp_last_seen := unix_nano now\<rparr>"])
      (auto simp: seen_on_def Let_def path_metrics_def)
next
  case False
  define u where "u = update_cpath r (\<lambda>p. p\<lparr>cp_replay := w, cp_last_seen := unix_nano now\<rparr>) c"
  have "update_cpath r (\<lambda>p. p\<lparr>cp_healthy := True\<rparr>) u
      = update_cpath r (\<lambda>p. p\<lparr>cp_replay := w, cp_last_seen := unix_nano now, cp_healthy := True\<rparr>) c"
    by (cases "r < length (ct_heap c)") (simp_all add: u_def update_cpath_def list_update_beyond)
  then have "seen_on r now w n c = path_metrics r (path_received n) (path_metrics r (path_health True)
      (update_cpath r (\<lambda>p. p\<lparr>cp_replay := w, cp_last_seen := unix_nano now, cp_healthy := True\<rparr>) c))"
    using False by (simp add: seen_on_def Let_def set_health_def flip: u_def)
  then show ?thesis
    by (intro exI [of _ "\<lambda>p. p\<lparr>cp_replay := w, cp_last_seen := unix_nano now, cp_healthy := True\<rparr>"])
      (auto simp: path_metrics_def client_metrics_def)
qed

text \<open>What receiving such a datagram does.\<close>

lemma client_receive_takes:
  assumes C: "gcm_laws C" and tk: "client_takes C base (e, r) d c"
    and push: "push (ct_reorder c) (dg_num d) (dg_packet d) (cv_clock e 1) (cv_clock e 2) = (res, b)"
  shows "\<exists>w f g. accept (cp_replay (cpath c r)) (dg_seq d) = (True, w)
    \<and> (\<forall>p. cp_replay (f p) = w \<and> cp_path_id (f p) = cp_path_id p \<and> cp_aead (f p) = cp_aead p
          \<and> cp_session_id (f p) = cp_session_id p)
    \<and> client_receive C e r (dg_bytes d) c = (map ClientTun (res_packets res),
        client_metrics g ((update_cpath r f c)\<lparr>ct_reorder := b\<rparr>))"
proof -
  obtain S where t: "cp_path_id (cpath c r) = dg_path d"
    "sealed_data C ServerToClient (cp_aead (cpath c r)) (cp_session_id (cpath c r)) d"
    "represents (cp_replay (cpath c r)) S" "unat (dg_seq d) \<notin> S" "base (dg_path d) < unat (dg_seq d)"
    "\<forall>n \<in> S. n \<le> base (dg_path d) + 64"
    and o: "\<forall>i. cv_tun_ok e i" "r < length (ct_heap c)" "ct_tun c" "dg_num d \<noteq> 0"
      "destination_ip (dg_packet d) = Some (ct_tunnel_ip c)"
    using tk by (auto simp: client_takes_def)
  obtain w where w: "accept (cp_replay (cpath c r)) (dg_seq d) = (True, w)"
    using accept_in_window [OF t(3-6)] by blast
  define pl where "pl = put_uint64 (dg_num d) @ dg_packet d"
  note op = sealed_data_opens [OF C t(2), folded pl_def]
  obtain f g where s: "seen_on r (cv_clock e 0) w (length pl) c = client_metrics g (update_cpath r f c)"
    and f: "\<forall>p. cp_replay (f p) = w \<and> cp_path_id (f p) = cp_path_id p \<and> cp_aead (f p) = cp_aead p
          \<and> cp_session_id (f p) = cp_session_id p"
    using seen_on_eq by blast
  define c2 where "c2 = client_metrics g (update_cpath r f c)"
  have h: "\<not> is_handshake (h_type (data_header (cp_session_id (cpath c r)) (dg_path d) (dg_seq d)))"
    by (simp add: data_header_def is_handshake_def)
  have he: "client_receive C e r (dg_bytes d) c = handle_packet e r TypeData pl c2"
    using op t(1) w h by (simp add: client_receive_def Let_def c2_def flip: s) (simp add: data_header_def)
  have pd: "parse_data pl = Inr (dg_num d, dg_packet d)"
    unfolding pl_def using o(4) packet_nonempty(2) [OF o(5)] by (rule parse_data_put)
  have "handle_packet e r TypeData pl c2 = client_deliver e res (c2\<lparr>ct_reorder := b\<rparr>)"
    using push o(3,5) by (simp add: handle_packet_def pd c2_def)
  moreover obtain k where "client_deliver e res (c2\<lparr>ct_reorder := b\<rparr>)
      = (map ClientTun (res_packets res), client_metrics k (c2\<lparr>ct_reorder := b\<rparr>))"
    using client_deliver_ok [OF o(1), of "c2\<lparr>ct_reorder := b\<rparr>" res] o(3) by (auto simp: c2_def)
  moreover have "client_metrics k (c2\<lparr>ct_reorder := b\<rparr>) = client_metrics (\<lambda>m. k (g m)) ((update_cpath r f c)\<lparr>ct_reorder := b\<rparr>)"
    by (simp add: c2_def client_metrics_def)
  ultimately show ?thesis using he w f by metis
qed

lemma client_takes_later:
  assumes C: "gcm_laws C" and tk: "client_takes C base er d c" and tk': "client_takes C base er' d' c"
    and ne: "(dg_path d, dg_seq d) \<noteq> (dg_path d', dg_seq d')"
    and rd: "client_receive C (fst er) (snd er) (dg_bytes d) c = (outs, t)"
  shows "client_takes C base er' d' t"
proof -
  obtain e r where er: "er = (e, r)" by (cases er)
  obtain res b where push: "push (ct_reorder c) (dg_num d) (dg_packet d) (cv_clock e 1) (cv_clock e 2) = (res, b)"
    by (cases "push (ct_reorder c) (dg_num d) (dg_packet d) (cv_clock e 1) (cv_clock e 2)")
  obtain w f g where w: "accept (cp_replay (cpath c r)) (dg_seq d) = (True, w)"
    and f: "\<forall>p. cp_replay (f p) = w \<and> cp_path_id (f p) = cp_path_id p \<and> cp_aead (f p) = cp_aead p
          \<and> cp_session_id (f p) = cp_session_id p"
    and t: "t = client_metrics g ((update_cpath r f c)\<lparr>ct_reorder := b\<rparr>)"
    using client_receive_takes [OF C tk [unfolded er] push] rd by (auto simp: er)
  define r' where "r' = snd er'"
  have at: "cpath t k = (if k = r \<and> r < length (ct_heap c) then f (cpath c r) else cpath c k)" for k
    using cpath_update [of r f c k] by (simp add: t cpath_def)
  have fields: "length (ct_heap t) = length (ct_heap c)" "ct_tun t = ct_tun c" "ct_tunnel_ip t = ct_tunnel_ip c"
    by (simp_all add: t)
  have same: "cp_path_id (cpath t k) = cp_path_id (cpath c k)" "cp_aead (cpath t k) = cp_aead (cpath c k)"
    "cp_session_id (cpath t k) = cp_session_id (cpath c k)" for k
    using f by (simp_all add: at)
  obtain S where S: "represents (cp_replay (cpath c r')) S" "unat (dg_seq d') \<notin> S"
    "\<forall>n \<in> S. n \<le> base (dg_path d') + 64"
    using tk' by (auto simp: client_takes_def r'_def)
  have "\<exists>S2. represents (cp_replay (cpath t r')) S2 \<and> unat (dg_seq d') \<notin> S2 \<and> (\<forall>n \<in> S2. n \<le> base (dg_path d') + 64)"
  proof (cases "r' = r")
    case True
    have p: "dg_path d' = dg_path d" using tk tk' True by (simp add: client_takes_def er r'_def)
    then have "dg_seq d' \<noteq> dg_seq d" using ne by auto
    then have "unat (dg_seq d') \<noteq> unat (dg_seq d)" by (simp add: word_unat_eq_iff)
    moreover have "represents w (insert (unat (dg_seq d)) S)" using represents_accepted [OF _ w] S(1) True by simp
    moreover have "unat (dg_seq d) \<le> base (dg_path d) + 64" "r < length (ct_heap c)"
      using tk by (auto simp: client_takes_def er)
    ultimately show ?thesis
      using S(2,3) f True unfolding p by (intro exI [of _ "insert (unat (dg_seq d)) S"]) (auto simp: at)
  next
    case False
    then show ?thesis using S by (intro exI [of _ S]) (simp add: at)
  qed
  then show ?thesis using tk' unfolding client_takes_def fields same r'_def by blast
qed

interpretation client_rx: tunnel_receiver "\<lambda>er. client_receive C (fst er) (snd er)" ClientTun
    "\<lambda>er. (cv_clock (fst er) 1, cv_clock (fst er) 2)" ct_reorder "\<lambda>base er d c. gcm_laws C \<and> client_takes C base er d c"
  for C :: crypto
proof
  fix base er d c r b
  assume tk: "gcm_laws C \<and> client_takes C base er d c"
    and push: "push (ct_reorder c) (dg_num d) (dg_packet d) (fst (cv_clock (fst er) 1, cv_clock (fst er) 2))
      (snd (cv_clock (fst er) 1, cv_clock (fst er) 2)) = (r, b)"
  obtain e k where er: "er = (e, k)" by (cases er)
  obtain f g where "client_receive C e k (dg_bytes d) c
      = (map ClientTun (res_packets r), client_metrics g ((update_cpath k f c)\<lparr>ct_reorder := b\<rparr>))"
    using client_receive_takes [of C base e k d c r b] tk push by (auto simp: er)
  then show "\<exists>t. client_receive C (fst er) (snd er) (dg_bytes d) c = (map ClientTun (res_packets r), t) \<and> ct_reorder t = b"
    by (simp add: er)
next
  show "gcm_laws C \<and> client_takes C base er' d' t"
    if "gcm_laws C \<and> client_takes C base er d c" "gcm_laws C \<and> client_takes C base er' d' c"
      "(dg_path d, dg_seq d) \<noteq> (dg_path d', dg_seq d')" "client_receive C (fst er) (snd er) (dg_bytes d) c = (outs, t)"
    for base er d c er' d' outs t
    using that client_takes_later by blast
qed

section \<open>Download\<close>

text \<open>Session \<open>q\<close> of the relay is linked to the client's paths: each path in use has its counterpart at
  the relay with the same key, and has seen no number the relay has not used.\<close>

definition linked_down :: "sref \<Rightarrow> server \<Rightarrow> client \<Rightarrow> bool" where
  "linked_down q s c \<longleftrightarrow>
     ct_tun c \<and> ip_of (session_at s q) = ct_tunnel_ip c
     \<and> (\<forall>r \<in> set (ct_paths c). r < length (ct_heap c) \<and> cp_session_id (cpath c r) = ss_id (session_at s q)
          \<and> (\<exists>p S. relay_path q s (cp_path_id (cpath c r)) = Some p \<and> sp_aead p = cp_aead (cpath c r)
               \<and> represents (cp_replay (cpath c r)) S \<and> (\<forall>n \<in> S. n \<le> unat (sp_sequence p))))"

fun client_bytes :: "server_output \<Rightarrow> bytes" where
  "client_bytes (SendTo a b) = b"
| "client_bytes out = []"

text \<open>The network brings a datagram to the socket of the path that it was sent for.\<close>

definition arrives_at :: "client_env \<times> cref \<Rightarrow> server_output \<Rightarrow> client \<Rightarrow> bool" where
  "arrives_at er out c \<longleftrightarrow>
     (\<forall>i. cv_tun_ok (fst er) i) \<and> snd er \<in> set (ct_paths c)
     \<and> (\<exists>h. parse_header (client_bytes out) = Inr h \<and> h_path h = cp_path_id (cpath c (snd er)))"

interpretation down: tunnel "tun_packet C" "relay_wire q" "relay_number q" "relay_counter q"
    "relay_sealed C q" "relay_able C q"
    "\<lambda>er :: client_env \<times> cref. client_receive C (fst er) (snd er)" ClientTun
    "\<lambda>er. (cv_clock (fst er) 1, cv_clock (fst er) 2)" ct_reorder "\<lambda>base er d c. gcm_laws C \<and> client_takes C base er d c"
    "\<lambda>s c. gcm_laws C \<and> linked_down q s c" arrives_at client_bytes
  for C :: crypto and q :: sref
proof
  show "client_bytes (relay_wire q s d) = dg_bytes d" for s d by (simp add: relay_wire_def)
  fix s c d and er :: "client_env \<times> cref"
  assume l: "gcm_laws C \<and> linked_down q s c" and sd: "relay_sealed C q s d"
    and lo: "unat (relay_counter q s (dg_path d)) < unat (dg_seq d)"
    and hi: "unat (dg_seq d) \<le> unat (relay_counter q s (dg_path d)) + 64" and nz: "dg_num d \<noteq> 0"
    and ar: "arrives_at er (relay_wire q s d) c"
  have C: "gcm_laws C" and lk: "linked_down q s c" using l by auto
  obtain p where p: "relay_path q s (dg_path d) = Some p"
    "sealed_data C ServerToClient (sp_aead p) (ss_id (session_at s q)) d"
    and dst: "destination_ip (dg_packet d) = Some (ip_of (session_at s q))"
    using sd by (auto simp: relay_sealed_def)
  have "parse_header (dg_bytes d) = Inr (data_header (ss_id (session_at s q)) (dg_path d) (dg_seq d))"
    using sealed_data_opens [OF C p(2)] by blast
  then have r: "snd er \<in> set (ct_paths c)" "cp_path_id (cpath c (snd er)) = dg_path d" and ok: "\<forall>i. cv_tun_ok (fst er) i"
    using ar by (auto simp: arrives_at_def relay_wire_def data_header_def)
  obtain p' S where p': "relay_path q s (cp_path_id (cpath c (snd er))) = Some p'" "sp_aead p' = cp_aead (cpath c (snd er))"
    "represents (cp_replay (cpath c (snd er))) S" "\<forall>n \<in> S. n \<le> unat (sp_sequence p')"
    and o: "snd er < length (ct_heap c)" "cp_session_id (cpath c (snd er)) = ss_id (session_at s q)"
    using lk r(1) by (auto simp: linked_down_def)
  have pp: "p' = p" using p'(1) p(1) r(2) by simp
  have cnt: "relay_counter q s (dg_path d) = sp_sequence p" by (simp add: relay_counter_def p(1))
  have "client_takes C (\<lambda>k. unat (relay_counter q s k)) er d c"
    unfolding client_takes_def
    using lk ok nz dst r(2) o p(2) p'(2-4) lo hi
    by (intro conjI exI [of _ S]) (auto simp: linked_down_def cnt pp dest: bspec)
  then show "gcm_laws C \<and> client_takes C (\<lambda>k. unat (relay_counter q s k)) er d c" using C by blast
qed


end
