(* ===== verification/Connection.thy ===== *)
theory Connection
  imports Tunnel_Down
begin

text \<open>
  The handshake of both ends together: the HELLO that \<open>connectPath\<close> sends, the relay's answer to it, and
  what \<open>connectPath\<close> makes of the answer.
\<close>

section \<open>The HELLO reaches the relay\<close>

lemma hello_packet_plain:
  assumes "wf_hello h" "marshal_hello C h key = Inr payload"
  shows "parse_header (hello_packet payload) = Inr hello_header \<and> plain_payload (hello_packet payload) = Inr payload
    \<and> take 16 payload = hello_client_id h \<and> 16 \<le> length payload"
proof -
  have p: "payload = hello_body h @ sign C key [hello_v2_domain, hello_body h]" and n: "length (hello_path_name h) \<le> 63"
    using assms(2) by (auto simp: marshal_hello_def split: if_splits)
  have "length payload \<le> MaxPayload"
    using length_hello_body [OF assms(1)] n by (simp add: p)
  then have "hello_packet payload = marshal_header hello_header @ payload"
    by (simp add: hello_packet_def marshal_plain_def)
  moreover have "take 16 payload = hello_client_id h" "16 \<le> length payload"
    using assms(1) by (simp_all add: p hello_body_def wf_hello_def)
  ultimately show ?thesis by (simp add: plain_payload_def hello_header_def)
qed

lemma hello_packet_valid:
  assumes "wf_hello h" "hello_wire_version h = 2" "hello_weight h \<noteq> 0" "wire_time (hello_time h)"
    and "\<bar>now - truncate_second (hello_time h)\<bar> \<le> 2 * minute"
    and "marshal_hello C h (cr_key cred) = Inr payload"
    and "map_get (sv_credentials s) (client_id_string (hello_client_id h)) = Some cred"
  shows "valid_hello C now s (hello_packet payload) cred (h\<lparr>hello_time := truncate_second (hello_time h)\<rparr>)"
  using hello_packet_plain [OF assms(1,6)] parse_marshal_hello [OF assms(1-6)] assms(7) by (simp add: valid_hello_def)

lemma client_hello_fields:
  assumes "client_hello c d p = Inr h"
  shows "hello_client_id h = ct_client_id c" "hello_instance_nonce h = ct_instance_nonce c" "hello_wire_version h = 2"
    "hello_weight h \<noteq> 0" "hello_time h = dl_hello_time d" "dl_nonce d = Some (hello_nonce h)"
  using assms by (auto simp: client_hello_def new_hello_def Let_def split: if_splits option.splits)

section \<open>The WELCOME reaches the client\<close>

lemma await_skips:
  assumes "\<forall>x \<in> set silent. at_before x < deadline \<and> at_deadline_ok x \<and> at_write_ok x \<and> at_read x = ReadTimeout"
  shows "await_welcome C key nonce deadline (silent @ as) = await_welcome C key nonce deadline as"
  using assms by (induction silent) auto

text \<open>The answer comes before the deadline, after some turns without one.\<close>

definition answered :: "client \<Rightarrow> dial \<Rightarrow> bytes \<Rightarrow> gotime \<Rightarrow> bool" where
  "answered c d b now \<longleftrightarrow>
     (\<exists>silent a rest. dl_attempts d = silent @ a # rest \<and> at_read a = ReadPacket b \<and> at_now a = now
        \<and> (\<forall>x \<in> set (silent @ [a]). at_before x < dl_start d + duration_value (cc_handshake_timeout (ct_config c)) (8 * second)
             \<and> at_deadline_ok x \<and> at_write_ok x)
        \<and> (\<forall>x \<in> set silent. at_read x = ReadTimeout))"

lemma connect_path_answered:
  assumes "answered c d b now" and "accept_welcome C (ct_key c) (hello_nonce h) now b = Some (wh, w)"
    and "welcome_server_nonce w \<noteq> zero16" and "client_hello c d p = Inr h" "marshal_hello C h (ct_key c) = Inr payload"
    and "resolve_local_ip L (dl_addrs d) p = Some local" "dl_socket_ok d local"
  shows "connect_path C L c d p = Inr (new_client_path C c d p h wh w)"
proof -
  obtain silent a rest where a: "dl_attempts d = silent @ a # rest" "at_read a = ReadPacket b" "at_now a = now"
    "\<forall>x \<in> set (silent @ [a]). at_before x < dl_start d + duration_value (cc_handshake_timeout (ct_config c)) (8 * second)
             \<and> at_deadline_ok x \<and> at_write_ok x" "\<forall>x \<in> set silent. at_read x = ReadTimeout"
    using assms(1) by (auto simp: answered_def)
  have "await_welcome C (ct_key c) (hello_nonce h)
      (dl_start d + duration_value (cc_handshake_timeout (ct_config c)) (8 * second)) (dl_attempts d) = Inr (Some (wh, w))"
    unfolding a(1) using a(2-5) assms(2) by (subst await_skips) auto
  then show ?thesis using assms(3-7) by (simp add: connect_path_def Let_def)
qed

text \<open>C6: The handshake of the two programs together: when the relay's answer to the client's HELLO comes back
  before the deadline, \<open>connectPath\<close> succeeds, and the path it creates and the path the relay has registered
  agree on the session, on the path number and on the key; both start with packet number 0 and an empty
  replay window, and the relay sends to the address the HELLO came from. Needed: the relay knows the client
  under the same key and has not seen the nonce, working random sources and sockets, and clocks within two
  minutes of each other.\<close>

theorem handshake_links_path:
  assumes "reachable C L sc s"
    and "map_get (sv_credentials s) (client_id_string (ct_client_id c)) = Some cred" and "cr_key cred = ct_key c"
    and "client_hello c d p = Inr h" and "wf_hello h" and "marshal_hello C h (ct_key c) = Inr payload"
    and "wire_time (hello_time h)" and "\<bar>ev_clock e 0 - truncate_second (hello_time h)\<bar> \<le> 2 * minute"
    and "\<forall>r. session_takes s cred h r \<longrightarrow>
      path_for_nonce (session_at s r) (hello_nonce h) = None \<and> ss_next_path_id (session_at s r) < 2 ^ 31 - 1"
    and "pick_session_id (sv_sessions s) (ev_ids e) \<noteq> None" and "ev_nonce e = Some sn" and "length sn = 16" and "sn \<noteq> zero16"
    and "ev_udp_ok e" and "wire_time (ev_clock e 2)"
    and "receive_datagram C e remote (hello_packet payload) s = (outs, t)" and "SendTo remote b \<in> set outs"
    and "resolve_local_ip K (dl_addrs d) p = Some local" and "dl_socket_ok d local"
    and "answered c d b now" and "\<bar>now - truncate_second (ev_clock e 2)\<bar> \<le> 2 * minute"
  shows "\<exists>q r sp. connect_path C K c d p = Inr q
    \<and> map_get (sv_sessions t) (cp_session_id q) = Some r \<and> map_get (sv_by_ip t) (cr_tunnel_ip cred) = Some r
    \<and> path_at t r (cp_path_id q) = Some sp \<and> sp_aead sp = cp_aead q \<and> sp_remote sp = Some remote
    \<and> cp_sequence q = 0 \<and> sp_sequence sp = 0 \<and> cp_replay q = new_replay_window \<and> sp_replay sp = new_replay_window"
proof -
  define h1 where "h1 = h\<lparr>hello_time := truncate_second (hello_time h)\<rparr>"
  note f = client_hello_fields [OF assms(4)]
  have v: "valid_hello C (ev_clock e 0) s (hello_packet payload) cred h1"
    unfolding h1_def using hello_packet_valid [of h "ev_clock e 0" C cred payload s] assms(2,3,5-8) f by simp
  have same: "session_takes s cred h1 r = session_takes s cred h r" "hello_nonce h1 = hello_nonce h" for r
    by (simp_all add: h1_def session_takes_def session_accepts_def)
  have fresh: "\<forall>r. session_takes s cred h1 r \<longrightarrow>
      path_for_nonce (session_at s r) (hello_nonce h1) = None \<and> ss_next_path_id (session_at s r) < 2 ^ 31 - 1"
    using assms(9) by (simp add: same)
  have ph: "parse_header (hello_packet payload) = Inr hello_header" using hello_packet_plain [OF assms(5,6)] by blast
  define w where "w = \<lparr> welcome_client_nonce = hello_nonce h, welcome_server_nonce = sn, welcome_time = ev_clock e 2 \<rparr>"
  obtain outs' t' r sid pid sp where a:
    "receive_datagram C e remote (hello_packet payload) s = (outs' @ [SendTo remote (sp_welcome_packet sp)], t')"
    "\<forall>out \<in> set outs'. \<exists>i. out = ClientSeen i" "pid \<noteq> 0" "sp = new_path C cred h1 w sid pid remote (ev_clock e 3)"
    "map_get (sv_sessions t') sid = Some r" "map_get (sv_by_ip t') (cr_tunnel_ip cred) = Some r" "path_at t' r pid = Some sp"
    using hello_answered [OF assms(1) ph _ v fresh assms(10,11,14), of remote]
    unfolding w_def same(2) by (auto simp: hello_header_def)
  have t: "t' = t" "b = sp_welcome_packet sp" using a(1,2) assms(16,17) by auto
  have "reachable C L sc t"
    using reachable.step [OF assms(1), of e "Datagram remote (hello_packet payload)" outs t] assms(16) by simp
  then have sid: "sid \<noteq> 0"
    using reachable_inv [of C L sc t] a(5) by (auto simp: server_inv_def indexes_ok_def t(1))
  have len: "length (hello_nonce h) = 16" using assms(5) by (simp add: wf_hello_def)
  define pl where "pl = marshal_welcome C w (ct_key c) (welcome_header sid pid)"
  have b: "b = marshal_header (welcome_header sid pid) @ pl"
    using len assms(3,12) by (simp add: t(2) a(4) new_path_def marshal_plain_def pl_def marshal_welcome_def welcome_body_def w_def)
  define v where "v = w\<lparr>welcome_time := truncate_second (ev_clock e 2)\<rparr>"
  have pw: "parse_welcome C pl (ct_key c) (welcome_header sid pid) (hello_nonce h) now = Inr v"
    using parse_marshal_welcome [of w now C "ct_key c" "welcome_header sid pid"] len assms(12,15,21)
    by (simp add: pl_def v_def w_def)
  have "accept_welcome C (ct_key c) (hello_nonce h) now b = Some (welcome_header sid pid, v)"
    using pw sid a(3) by (simp add: accept_welcome_def b plain_payload_def) (simp add: welcome_header_def)
  then have q: "connect_path C K c d p = Inr (new_client_path C c d p h (welcome_header sid pid) v)"
    using connect_path_answered [OF assms(20) _ _ assms(4,6,18,19), of "welcome_header sid pid" v] assms(13)
    by (simp add: v_def w_def)
  define qp where "qp = new_client_path C c d p h (welcome_header sid pid) v"
  have qf: "cp_session_id qp = sid" "cp_path_id qp = pid" "cp_sequence qp = 0" "cp_replay qp = new_replay_window"
    "cp_aead qp = new_aead C (ct_key c) (hello_nonce h) sn sid pid"
    by (simp_all add: qp_def new_client_path_def welcome_header_def v_def w_def)
  have sf: "sp_aead sp = new_aead C (ct_key c) (hello_nonce h) sn sid pid" "sp_remote sp = Some remote"
    "sp_sequence sp = 0" "sp_replay sp = new_replay_window"
    using assms(3) by (simp_all add: a(4) new_path_def w_def same(2))
  show ?thesis
    using q a(5-7) unfolding qp_def [symmetric] t(1)
    by (intro exI [of _ qp] exI [of _ r] exI [of _ sp]) (simp add: qf sf)
qed

end
