(* ===== verification/Tunnel_Demo.thy ===== *)
theory Tunnel_Demo
  imports Client_Demo Connection
begin

text \<open>
  The demo client and the demo relay joined: closed instances of the properties of both ends together.
\<close>

section \<open>The handshake\<close>

theorem handshake_links_path_witness:
  "\<exists>outs t q r sp. receive_datagram demo_crypto demo_env demo_addr (hello_packet demo_hello_payload) demo_s1 = (outs, t)
     \<and> connect_path demo_crypto demo_lib demo_c0 demo_dial demo_path_config = Inr q
     \<and> map_get (sv_sessions t) (cp_session_id q) = Some r \<and> path_at t r (cp_path_id q) = Some sp \<and> sp_aead sp = cp_aead q"
proof -
  have wf: "wf_hello demo_hello" by code_simp
  have len: "length demo_hello_payload \<le> MaxPayload" by code_simp
  then have hp: "hello_packet demo_hello_payload = demo_hello_packet"
    by (simp add: hello_packet_def marshal_plain_def demo_hello_packet_eq hello_header_def)
  have st: "receive_datagram demo_crypto demo_env demo_addr (hello_packet demo_hello_payload) demo_s1
      = ([SendTo demo_addr (sp_welcome_packet demo_path)], snd (register_path demo_crypto demo_env demo_addr demo_cred demo_hello 0 demo_u))"
    using demo_hello_step by (simp add: hp demo_register)
  have t: "wire_time (hello_time demo_hello)" "\<bar>demo_time - truncate_second (hello_time demo_hello)\<bar> \<le> 2 * minute"
    "wire_time demo_time" "\<bar>demo_time - truncate_second demo_time\<bar> \<le> 2 * minute" "replicate 16 9 \<noteq> zero16"
    by code_simp+
  have cr: "map_get (sv_credentials demo_s1) (client_id_string (ct_client_id demo_c0)) = Some demo_cred"
    "cr_key demo_cred = ct_key demo_c0"
    by (simp_all add: demo_s1_eq demo_c0_def demo_cred_def)
  have no: "\<not> session_takes demo_s1 demo_cred demo_hello r" for r
    by (simp add: session_takes_def demo_s1_eq demo_s0_def empty_server_def)
  have pk: "pick_session_id (sv_sessions demo_s1) (ev_ids demo_env) \<noteq> None"
    by (simp add: demo_s1_eq demo_s0_def empty_server_def)
  have mh: "marshal_hello demo_crypto demo_hello (ct_key demo_c0) = Inr demo_hello_payload"
    using demo_marshal by (simp add: demo_c0_def)
  have lo: "resolve_local_ip demo_lib (dl_addrs demo_dial) demo_path_config = Some AnyAddress" "dl_socket_ok demo_dial AnyAddress"
    by (simp_all add: resolve_local_ip_def demo_path_config_def demo_dial_def)
  have an: "answered demo_c0 demo_dial (sp_welcome_packet demo_path) demo_time"
    unfolding answered_def
    by (rule exI [of _ "[hd (dl_attempts demo_dial)]"], rule exI [of _ "dl_attempts demo_dial ! 1"], rule exI [of _ "[]"])
      (simp add: demo_dial_def demo_c0_def demo_cc_def duration_value_def second_def)
  show ?thesis
    using handshake_links_path [OF demo_reachable1 cr demo_client_hello wf mh, where e = demo_env and sn = "replicate 16 9"
        and remote = demo_addr and b = "sp_welcome_packet demo_path" and K = demo_lib
        and local = AnyAddress and now = demo_time] t no pk lo an st
    by auto
qed

section \<open>Bursts in both directions\<close>

text \<open>Two packets each way; the datagrams of a burst arrive in reverse order.\<close>

definition demo_ip2 :: bytes where
  "demo_ip2 = [0x45, 0, 0, 20, 0, 1, 0, 0, 64, 0, 0, 0, 10, 0, 0, 2, 10, 0, 0, 1]"

definition demo_ip2_down :: bytes where
  "demo_ip2_down = [0x45, 0, 0, 20, 0, 1, 0, 0, 64, 0, 0, 0, 10, 0, 0, 1, 10, 0, 0, 2]"

lemma demo_cp_fields:
  "cp_path_id demo_cp = 1" "cp_session_id demo_cp = 7" "cp_aead demo_cp = sp_aead demo_path" "cp_sequence demo_cp = 0"
  "cp_replay demo_cp = new_replay_window" "cp_config demo_cp = demo_path_config" "cp_healthy demo_cp"
  by (simp_all add: demo_cp_def)

lemma demo_cp_healthy: "client_path_healthy demo_time demo_cp"
proof -
  have "cp_last_seen demo_cp = unix_nano demo_time" "cp_health_timeout demo_cp = 8 * second" by (simp_all add: demo_cp_def)
  moreover have "time_sub demo_time (time_unix_nano (unix_nano demo_time)) \<le> 8 * second" by code_simp
  ultimately show ?thesis by (simp add: client_path_healthy_def demo_cp_fields)
qed

lemma demo_client_able:
  assumes "source_ip p = Some (Addr4 0x0A000002)" "length p \<le> MaxDataPayload"
  shows "client_able demo_crypto demo_client_env p demo_c1"
proof -
  have "client_inv demo_crypto demo_c1" using demo_client_reachable by (rule client_reachable_inv)
  then show ?thesis
    using assms demo_cp_healthy by (simp add: client_able_def demo_cc_def demo_path_config_def)
qed

lemma demo_path_healthy: "path_is_healthy demo_time demo_path"
proof -
  have "sp_healthy demo_path" "sp_last_seen demo_path = unix_nano demo_time" "sp_health_timeout demo_path = 10 * second"
    by (simp_all add: demo_path_def new_path_def)
  moreover have "time_sub demo_time (time_unix_nano (unix_nano demo_time)) \<le> 10 * second" by code_simp
  ultimately show ?thesis by (simp add: path_is_healthy_def)
qed

lemma demo_relay_able:
  assumes "destination_ip p = Some (Addr4 0x0A000002)" "length p \<le> MaxDataPayload"
  shows "relay_able demo_crypto 0 demo_env p demo_s2"
proof -
  have "server_inv demo_crypto demo_s2" using demo_reachable2 by (rule reachable_inv)
  moreover have "ip_of demo_session = Addr4 0x0A000002" by (simp add: demo_cred_def)
  ultimately show ?thesis using assms demo_path_healthy by (simp add: relay_able_def)
qed

lemma demo_windows: "represents new_replay_window {}"
  by (simp add: represents_def new_replay_window_def)

lemma demo_linked_up: "linked_up 0 demo_c1 demo_s2"
  using demo_windows by (auto simp: linked_up_def demo_cp_fields demo_cred_def)

lemma demo_linked_down: "linked_down 0 demo_s2 demo_c1"
  using demo_windows by (auto simp: linked_down_def relay_path_def demo_cp_fields demo_cred_def)

lemma demo_idle: "idle_buffer (new_buffer 512 (80 * millisecond))" "rb_expected (new_buffer 512 (80 * millisecond)) = 1"
  "rb_max_packets (new_buffer 512 (80 * millisecond)) = 512" "rb_max_delay (new_buffer 512 (80 * millisecond)) = 80000000"
  by (simp_all add: idle_buffer_def new_buffer_def wf_buffer_def keys_above_def keys_unique_def millisecond_def is_zero_def zero_time_def)

lemma demo_relay_buffer: "ss_reorder demo_session = new_buffer 512 (80 * millisecond)" "ss_data_seq demo_session = 0"
  by (simp_all add: demo_session_def put_path_def new_session_def demo_server_config_def duration_value_def)


text \<open>What the demo relay sends goes to the one path there is.\<close>

lemma demo_sent_arrives:
  assumes "relay_sealed demo_crypto 0 demo_s2 d"
  shows "arrives_at (demo_client_env, 0) (relay_wire 0 demo_s2 d) demo_c1"
proof -
  obtain p where p: "relay_path 0 demo_s2 (dg_path d) = Some p" "sealed_data demo_crypto ServerToClient (sp_aead p) 7 d"
    using assms by (auto simp: relay_sealed_def)
  have "dg_path d = 1" using p(1) by (auto simp: relay_path_def split: if_splits)
  then have "\<exists>h. parse_header (dg_bytes d) = Inr h \<and> h_path h = 1"
    using sealed_data_opens [OF gcm_laws_demo p(2)] by (auto simp: data_header_def)
  then show ?thesis by (simp add: arrives_at_def relay_wire_def demo_cp_fields)
qed


end
