(* ===== verification/Store.thy ===== *)
theory Store
  imports Protocol Config "HOL-Library.List_Lexorder"
begin

text \<open>
  \<open>internal/controlplane/store.go\<close>: the data base of activation codes and enrolled devices. The buckets of
  bbolt are association lists in key order; a value is what \<open>json.Unmarshal\<close> makes of it, \<^const>\<open>None\<close>
  when it cannot be decoded, and a value that was put decodes to what was put. An update transaction
  applies all its writes when its function returns no error and the commit succeeds, and none otherwise.
\<close>

section \<open>State\<close>

record activation =
  ac_user_id :: string
  ac_device_name :: string
  ac_created_at :: gotime
  ac_expires_at :: gotime
  ac_used_at :: "gotime option"
  ac_used_by :: string

record device =
  dv_client_id :: string
  dv_user_id :: string
  dv_name :: string
  dv_platform :: string
  dv_tunnel_address :: string
  dv_created_at :: gotime
  dv_updated_at :: gotime
  dv_last_seen_at :: "gotime option"
  dv_revoked_at :: "gotime option"

text \<open>\<open>storedDevice\<close> embeds a \<open>Device\<close>. (The field \<open>EncryptedPSK\<close> of \<open>Device\<close> itself is left out by JSON and
  never set.)\<close>

record stored_device = device +
  sd_encrypted_psk :: string

datatype audit_type = ActivationCreated | DeviceEnrolled | DeviceRevoked | DeviceKeyRotated

record audit_event =
  ae_type :: audit_type
  ae_subject_id :: string
  ae_user_id :: string
  ae_timestamp :: gotime

type_synonym 'v bucket = "(bytes \<times> 'v option) list"

record database =
  db_schema :: "string option"
  db_activations :: "activation bucket"
  db_devices :: "stored_device bucket"
  db_audit :: "audit_event bucket"
  db_audit_sequence :: u64

record store =
  st_key :: bytes
  st_pool :: prefix4
  st_reserved :: "addr list"
  st_db :: database

datatype store_error =
    ErrMasterKey | ErrPool | ErrFiles | ErrSchema
  | ErrUserID | ErrDeviceName | ErrTTL | ErrPlatform
  | ErrInvalidActivation | ErrDeviceNotFound | ErrPoolExhausted
  | ErrDecode | ErrCollision | ErrRevokedDevice | ErrStoredKey | ErrStoreRandom | ErrDatabase

text \<open>What an operation meets: the random bytes it draws (in the order of the fields), which entries the
  cursor passes over after a deletion, and whether the transaction can be committed.\<close>

record store_env =
  se_code :: "bytes option"
  se_client_id :: "bytes option"
  se_psk :: "bytes option"
  se_nonce :: "bytes option"
  se_skips :: "bytes \<Rightarrow> bool"
  se_commit :: bool

text \<open>The standard library's SHA-256 and \<open>strings.ToLower\<close>.\<close>

record store_lib =
  sl_sha256 :: "bytes \<Rightarrow> bytes"
  sl_to_lower :: "string \<Rightarrow> string"

section \<open>The data base\<close>

fun bucket_put :: "'v bucket \<Rightarrow> bytes \<Rightarrow> 'v \<Rightarrow> 'v bucket" where
  "bucket_put [] k v = [(k, Some v)]"
| "bucket_put ((j, u) # m) k v =
     (if k = j then (k, Some v) # m else if k < j then (k, Some v) # (j, u) # m else (j, u) # bucket_put m k v)"

definition update_tx ::
  "bool \<Rightarrow> (database \<Rightarrow> store_error + ('r \<times> database)) \<Rightarrow> store \<Rightarrow> (store_error + 'r) \<times> store" where
  "update_tx commit f s =
     (case f (st_db s) of
        Inl e \<Rightarrow> (Inl e, s)
      | Inr (r, db) \<Rightarrow> if commit then (Inr r, s\<lparr>st_db := db\<rparr>) else (Inl ErrDatabase, s))"

definition append_audit :: "audit_event \<Rightarrow> database \<Rightarrow> database" where
  "append_audit ev db =
     (let n = db_audit_sequence db + 1 in
      db\<lparr>db_audit_sequence := n, db_audit := bucket_put (db_audit db) (put_uint64 n) ev\<rparr>)"

definition device_key :: "string \<Rightarrow> bytes" where
  "device_key clientID = bytes_of_string clientID"

definition load_device :: "database \<Rightarrow> string \<Rightarrow> store_error + stored_device" where
  "load_device db clientID =
     (case map_get (db_devices db) (device_key clientID) of
        None \<Rightarrow> Inl ErrDeviceNotFound
      | Some None \<Rightarrow> Inl ErrDecode
      | Some (Some d) \<Rightarrow> Inr d)"

definition put_device :: "stored_device \<Rightarrow> database \<Rightarrow> database" where
  "put_device d db = db\<lparr>db_devices := bucket_put (db_devices db) (device_key (dv_client_id d)) d\<rparr>"

section \<open>Opening\<close>

text \<open>\<open>pool\<close> is \<^const>\<open>None\<close> for an IPv6 prefix; \<open>files\<close> is what is found in the data base file,
  \<^const>\<open>None\<close> if the file system refuses.\<close>

definition open_store ::
  "bytes \<Rightarrow> prefix4 option \<Rightarrow> addr list \<Rightarrow> database option \<Rightarrow> bool \<Rightarrow> store_error + store" where
  "open_store masterKey pool reserved files commit =
     (if length masterKey \<noteq> 32 then Inl ErrMasterKey
      else case pool of
        None \<Rightarrow> Inl ErrPool
      | Some p \<Rightarrow>
          if snd p < 16 \<or> 30 < snd p then Inl ErrPool
          else case files of
            None \<Rightarrow> Inl ErrFiles
          | Some db \<Rightarrow>
              (case db_schema db of
                 Some v \<Rightarrow> if v \<noteq> ''1'' then Inl ErrSchema else if \<not> commit then Inl ErrDatabase
                     else Inr \<lparr> st_key = masterKey, st_pool = prefix4_masked p, st_reserved = reserved, st_db = db \<rparr>
               | None \<Rightarrow> if \<not> commit then Inl ErrDatabase
                     else Inr \<lparr> st_key = masterKey, st_pool = prefix4_masked p, st_reserved = reserved,
                                st_db = db\<lparr>db_schema := Some ''1''\<rparr> \<rparr>))"

section \<open>Activation codes\<close>

definition activation_code :: "bytes \<Rightarrow> string" where
  "activation_code raw = ''lf_'' @ b64_encode url_alphabet False raw"

definition code_hash :: "store_lib \<Rightarrow> string \<Rightarrow> bytes" where
  "code_hash L code = sl_sha256 L (bytes_of_string code)"

text \<open>\<open>pruneActivations\<close>: the cursor may pass over the entry after a deleted one.\<close>

definition finished_at :: "activation \<Rightarrow> gotime" where
  "finished_at a = (case ac_used_at a of Some t \<Rightarrow> t | None \<Rightarrow> ac_expires_at a)"

fun prune_activations :: "(bytes \<Rightarrow> bool) \<Rightarrow> gotime \<Rightarrow> bool \<Rightarrow> activation bucket \<Rightarrow> activation bucket option" where
  "prune_activations skips cutoff deleted [] = Some []"
| "prune_activations skips cutoff deleted ((k, v) # m) =
     (if deleted \<and> skips k then map_option (Cons (k, v)) (prune_activations skips cutoff False m)
      else case v of
        None \<Rightarrow> None
      | Some a \<Rightarrow>
          if finished_at a < cutoff then prune_activations skips cutoff True m
          else map_option (Cons (k, v)) (prune_activations skips cutoff False m))"

definition create_activation ::
  "store_lib \<Rightarrow> store_env \<Rightarrow> string \<Rightarrow> string \<Rightarrow> duration \<Rightarrow> gotime \<Rightarrow> store
   \<Rightarrow> (store_error + (string \<times> activation)) \<times> store" where
  "create_activation L e userID0 deviceName0 ttl now s =
     (let userID = trim_space userID0; deviceName = trim_space deviceName0 in
      if userID = [] \<or> 128 < length userID then (Inl ErrUserID, s)
      else if deviceName = [] \<or> 128 < length deviceName then (Inl ErrDeviceName, s)
      else if ttl < minute \<or> 24 * hour < ttl then (Inl ErrTTL, s)
      else case se_code e of
        None \<Rightarrow> (Inl ErrStoreRandom, s)
      | Some raw \<Rightarrow>
          let code = activation_code raw; hash = code_hash L code;
              a = \<lparr> ac_user_id = userID, ac_device_name = deviceName, ac_created_at = now,
                    ac_expires_at = now + ttl, ac_used_at = None, ac_used_by = [] \<rparr> in
          update_tx (se_commit e)
            (\<lambda>db. case prune_activations (se_skips e) (now - 24 * hour) False (db_activations db) of
                None \<Rightarrow> Inl ErrDecode
              | Some m \<Rightarrow>
                  if map_get m hash \<noteq> None then Inl ErrCollision
                  else Inr ((code, a),
                    append_audit \<lparr> ae_type = ActivationCreated, ae_subject_id = [], ae_user_id = userID, ae_timestamp = now \<rparr>
                      (db\<lparr>db_activations := bucket_put m hash a\<rparr>))) s)"

section \<open>Tunnel addresses\<close>

text \<open>The addresses in use: those of all devices, revoked ones too; an entry that cannot be decoded or
  has no address is an error.\<close>

fun device_addresses :: "stored_device bucket \<Rightarrow> u32 list option" where
  "device_addresses [] = Some []"
| "device_addresses ((k, v) # m) =
     (case v of
        None \<Rightarrow> None
      | Some d \<Rightarrow>
          (case parse_prefix4 (dv_tunnel_address d) of
             None \<Rightarrow> None
           | Some p \<Rightarrow> map_option (Cons (fst p)) (device_addresses m)))"

text \<open>The loop; the last address of the pool, where it would leave it, is the broadcast address.\<close>

function first_free :: "prefix4 \<Rightarrow> (u32 \<Rightarrow> bool) \<Rightarrow> u32 \<Rightarrow> u32 option" where
  "first_free pool used a =
     (if \<not> prefix4_contains pool a then None
      else if a = - 1 \<or> \<not> prefix4_contains pool (a + 1) then None
      else if \<not> used a then Some a
      else first_free pool used (a + 1))"
  by pat_completeness auto

termination
proof (relation "measure (\<lambda>(pool, used, a). 2 ^ 32 - unat a)")
  fix pool and used :: "u32 \<Rightarrow> bool" and a :: u32
  assume "\<not> (a = - 1 \<or> \<not> prefix4_contains pool (a + 1))"
  then have "a < - 1" by (simp add: word_order.not_eq_extremum)
  then have "unat (a + 1) = Suc (unat a)" by (rule unat_Suc_no_wrap)
  moreover have "unat a < 2 ^ 32" using unsigned_less [of a, where ?'a = nat] by simp
  ultimately show "((pool, used, a + 1), (pool, used, a)) \<in> measure (\<lambda>(pool, used, a). 2 ^ 32 - unat a)" by simp
qed simp

declare first_free.simps [simp del]

definition allocate_address :: "store \<Rightarrow> database \<Rightarrow> store_error + u32" where
  "allocate_address s db =
     (case device_addresses (db_devices db) of
        None \<Rightarrow> Inl ErrDecode
      | Some as \<Rightarrow>
          if fst (st_pool s) = - 1 then Inl ErrPoolExhausted
          else case first_free (st_pool s) (\<lambda>a. Addr4 a \<in> set (st_reserved s) \<or> a \<in> set as) (fst (st_pool s) + 1) of
            None \<Rightarrow> Inl ErrPoolExhausted
          | Some a \<Rightarrow> Inr a)"

section \<open>Device keys\<close>

definition encrypt_psk :: "crypto \<Rightarrow> bytes \<Rightarrow> string \<Rightarrow> string \<Rightarrow> bytes option \<Rightarrow> store_error + string" where
  "encrypt_psk C key clientID psk rnd =
     (case rnd of
        None \<Rightarrow> Inl ErrStoreRandom
      | Some nonce \<Rightarrow> Inr (b64_encode std_alphabet False
          (nonce @ gcm_seal C key nonce (bytes_of_string psk) (bytes_of_string clientID))))"

definition decrypt_psk :: "crypto \<Rightarrow> bytes \<Rightarrow> string \<Rightarrow> string \<Rightarrow> store_error + string" where
  "decrypt_psk C key clientID encrypted =
     (case b64_decode std_alphabet False encrypted of
        None \<Rightarrow> Inl ErrStoredKey
      | Some sealed \<Rightarrow>
          if length sealed < 12 then Inl ErrStoredKey
          else case gcm_open C key (take 12 sealed) (drop 12 sealed) (bytes_of_string clientID) of
            None \<Rightarrow> Inl ErrStoredKey
          | Some plaintext \<Rightarrow>
              (case parse_key (string_of_bytes plaintext) of
                 Inl _ \<Rightarrow> Inl ErrStoredKey
               | Inr _ \<Rightarrow> Inr (string_of_bytes plaintext)))"

section \<open>Enrolling\<close>

definition enroll_tx ::
  "crypto \<Rightarrow> store_lib \<Rightarrow> store_env \<Rightarrow> store \<Rightarrow> string \<Rightarrow> string \<Rightarrow> string \<Rightarrow> gotime \<Rightarrow> database
   \<Rightarrow> store_error + ((stored_device \<times> string) \<times> database)" where
  "enroll_tx C L e s code requestedName platform now db =
     (let hash = code_hash L code in
      case map_get (db_activations db) hash of
        None \<Rightarrow> Inl ErrInvalidActivation
      | Some None \<Rightarrow> Inl ErrDecode
      | Some (Some a) \<Rightarrow>
          if ac_used_at a \<noteq> None \<or> ac_expires_at a \<le> now then Inl ErrInvalidActivation
          else case generate_client_id (se_client_id e) of
            Inl _ \<Rightarrow> Inl ErrStoreRandom
          | Inr clientID \<Rightarrow>
              (case generate_key (se_psk e) of
                 Inl _ \<Rightarrow> Inl ErrStoreRandom
               | Inr psk \<Rightarrow>
                   (case allocate_address s db of
                      Inl err \<Rightarrow> Inl err
                    | Inr address \<Rightarrow>
                        (case encrypt_psk C (st_key s) clientID psk (se_nonce e) of
                           Inl err \<Rightarrow> Inl err
                         | Inr encrypted \<Rightarrow>
                             let d = \<lparr> dv_client_id = clientID, dv_user_id = ac_user_id a,
                                       dv_name = (if requestedName = [] then ac_device_name a else requestedName),
                                       dv_platform = platform,
                                       dv_tunnel_address = prefix4_string (address, snd (st_pool s)),
                                       dv_created_at = now, dv_updated_at = now,
                                       dv_last_seen_at = None, dv_revoked_at = None, sd_encrypted_psk = encrypted \<rparr>;
                                 db1 = put_device d db;
                                 db2 = db1\<lparr>db_activations :=
                                   bucket_put (db_activations db1) hash (a\<lparr>ac_used_at := Some now, ac_used_by := clientID\<rparr>)\<rparr>
                             in Inr ((d, psk),
                                  append_audit \<lparr> ae_type = DeviceEnrolled, ae_subject_id = clientID,
                                                 ae_user_id = ac_user_id a, ae_timestamp = now \<rparr> db2)))))"

text \<open>The result is the device (\<open>result\<close> is the \<open>Device\<close> part of the stored record) with its key.\<close>

definition enroll ::
  "crypto \<Rightarrow> store_lib \<Rightarrow> store_env \<Rightarrow> string \<Rightarrow> string \<Rightarrow> string \<Rightarrow> gotime \<Rightarrow> store
   \<Rightarrow> (store_error + (device \<times> string)) \<times> store" where
  "enroll C L e code requestedName0 platform0 now s =
     (if \<not> has_prefix code ''lf_'' \<or> length code < 20 then (Inl ErrInvalidActivation, s)
      else
        let requestedName = trim_space requestedName0; platform = sl_to_lower L (trim_space platform0) in
        if 128 < length requestedName then (Inl ErrDeviceName, s)
        else if platform = [] \<or> 32 < length platform then (Inl ErrPlatform, s)
        else
          let (res, t) = update_tx (se_commit e) (enroll_tx C L e s code requestedName platform now) s
          in (map_sum id (\<lambda>(d, psk). (device.truncate d, psk)) res, t))"

section \<open>The other operations\<close>

fun credentials_of :: "crypto \<Rightarrow> bytes \<Rightarrow> stored_device bucket \<Rightarrow> store_error + client_credential list" where
  "credentials_of C key [] = Inr []"
| "credentials_of C key ((k, v) # m) =
     (case v of
        None \<Rightarrow> Inl ErrDecode
      | Some d \<Rightarrow>
          if dv_revoked_at d \<noteq> None then credentials_of C key m
          else case decrypt_psk C key (dv_client_id d) (sd_encrypted_psk d) of
            Inl e \<Rightarrow> Inl e
          | Inr psk \<Rightarrow> map_sum id
              (Cons \<lparr> cl_name = dv_name d, cl_client_id = dv_client_id d, cl_psk = psk, cl_psk_env = [],
                      cl_tunnel_address = dv_tunnel_address d \<rparr>) (credentials_of C key m))"

definition active_credentials :: "crypto \<Rightarrow> store \<Rightarrow> store_error + client_credential list" where
  "active_credentials C s = credentials_of C (st_key s) (db_devices (st_db s))"

fun devices_of :: "stored_device bucket \<Rightarrow> store_error + device list" where
  "devices_of [] = Inr []"
| "devices_of ((k, v) # m) =
     (case v of None \<Rightarrow> Inl ErrDecode | Some d \<Rightarrow> map_sum id (Cons (device.truncate d)) (devices_of m))"

definition list_devices :: "store \<Rightarrow> store_error + device list" where
  "list_devices s = devices_of (db_devices (st_db s))"

definition revoke_tx :: "string \<Rightarrow> gotime \<Rightarrow> database \<Rightarrow> store_error + (stored_device \<times> database)" where
  "revoke_tx clientID now db =
     (case load_device db clientID of
        Inl e \<Rightarrow> Inl e
      | Inr d \<Rightarrow>
          if dv_revoked_at d \<noteq> None then Inr (d, db)
          else
            let d1 = d\<lparr>dv_revoked_at := Some now, dv_updated_at := now\<rparr> in
            Inr (d1, append_audit \<lparr> ae_type = DeviceRevoked, ae_subject_id = clientID, ae_user_id = dv_user_id d,
                                    ae_timestamp = now \<rparr> (put_device d1 db)))"

definition revoke_device :: "bool \<Rightarrow> string \<Rightarrow> gotime \<Rightarrow> store \<Rightarrow> (store_error + device) \<times> store" where
  "revoke_device commit clientID now s =
     (let (res, t) = update_tx commit (revoke_tx clientID now) s in (map_sum id device.truncate res, t))"

definition rotate_tx ::
  "crypto \<Rightarrow> bytes \<Rightarrow> store_env \<Rightarrow> string \<Rightarrow> gotime \<Rightarrow> database \<Rightarrow> store_error + ((stored_device \<times> string) \<times> database)" where
  "rotate_tx C key e clientID now db =
     (case load_device db clientID of
        Inl err \<Rightarrow> Inl err
      | Inr d \<Rightarrow>
          if dv_revoked_at d \<noteq> None then Inl ErrRevokedDevice
          else case generate_key (se_psk e) of
            Inl _ \<Rightarrow> Inl ErrStoreRandom
          | Inr psk \<Rightarrow>
              (case encrypt_psk C key clientID psk (se_nonce e) of
                 Inl err \<Rightarrow> Inl err
               | Inr encrypted \<Rightarrow>
                   let d1 = d\<lparr>sd_encrypted_psk := encrypted, dv_updated_at := now\<rparr> in
                   Inr ((d1, psk),
                     append_audit \<lparr> ae_type = DeviceKeyRotated, ae_subject_id = clientID, ae_user_id = dv_user_id d,
                                    ae_timestamp = now \<rparr> (put_device d1 db))))"

definition rotate_key ::
  "crypto \<Rightarrow> store_env \<Rightarrow> string \<Rightarrow> gotime \<Rightarrow> store \<Rightarrow> (store_error + (device \<times> string)) \<times> store" where
  "rotate_key C e clientID now s =
     (let (res, t) = update_tx (se_commit e) (rotate_tx C (st_key s) e clientID now) s
      in (map_sum id (\<lambda>(d, psk). (device.truncate d, psk)) res, t))"

text \<open>\<open>Touch\<close>: a client of the static configuration is not a record of the data base.\<close>

definition touch_device :: "bool \<Rightarrow> string \<Rightarrow> gotime \<Rightarrow> store \<Rightarrow> (store_error + unit) \<times> store" where
  "touch_device commit clientID now s =
     update_tx commit
       (\<lambda>db. case load_device db clientID of
           Inl ErrDeviceNotFound \<Rightarrow> Inr ((), db)
         | Inl e \<Rightarrow> Inl e
         | Inr d \<Rightarrow> Inr ((), put_device (d\<lparr>dv_last_seen_at := Some now\<rparr>) db)) s"

section \<open>Steps\<close>

datatype store_event =
    CreateActivation store_env string string duration gotime
  | Enroll store_env string string string gotime
  | RevokeDevice bool string gotime
  | RotateKey store_env string gotime
  | TouchDevice bool string gotime

fun store_step :: "crypto \<Rightarrow> store_lib \<Rightarrow> store \<Rightarrow> store_event \<Rightarrow> store" where
  "store_step C L s (CreateActivation e u n ttl now) = snd (create_activation L e u n ttl now s)"
| "store_step C L s (Enroll e code n p now) = snd (enroll C L e code n p now s)"
| "store_step C L s (RevokeDevice commit i now) = snd (revoke_device commit i now s)"
| "store_step C L s (RotateKey e i now) = snd (rotate_key C e i now s)"
| "store_step C L s (TouchDevice commit i now) = snd (touch_device commit i now s)"

definition empty_database :: database where
  "empty_database =
     \<lparr> db_schema = None, db_activations = [], db_devices = [], db_audit = [], db_audit_sequence = 0 \<rparr>"

end
