(* ===== verification/Store_Facts.thy ===== *)
theory Store_Facts
  imports Store Config_Facts
begin

text \<open>
  What the control plane's data base keeps: every device has an address of the pool of its own, a code is
  redeemed once, a revoked device stays revoked, and the credentials that are loaded into the relay are those
  of the devices that are not revoked, with the keys that were handed out last.
\<close>

section \<open>Buckets\<close>

lemma bucket_get_put [simp]: "map_get (bucket_put m k v) j = (if j = k then Some (Some v) else map_get m j)"
  by (induction m k v rule: bucket_put.induct) auto

lemma bucket_put_keys: "fst ` set (bucket_put m k v) = insert k (fst ` set m)"
  by (induction m k v rule: bucket_put.induct) auto

lemma bucket_put_sorted: "sorted_wrt (<) (map fst m) \<Longrightarrow> sorted_wrt (<) (map fst (bucket_put m k v))"
proof (induction m k v rule: bucket_put.induct)
  case (2 j u m k v)
  have k: "set (map fst (bucket_put m k v)) = insert k (set (map fst m))" using bucket_put_keys [of m k v] by simp
  have "sorted_wrt (<) (map fst m)" "\<forall>x \<in> set (map fst m). j < x" using "2.prems" by simp_all
  then show ?case
    using "2.IH" k unfolding bucket_put.simps by (cases "k < j"; cases "k = j") (auto simp del: set_map)
qed simp

lemma bucket_mem:
  fixes m :: "'v bucket"
  assumes "sorted_wrt (<) (map fst m)" shows "(k, v) \<in> set m \<longleftrightarrow> map_get m k = Some v"
proof -
  have "distinct (map fst m)" using assms by (simp add: strict_sorted_iff)
  then show ?thesis by simp
qed

section \<open>Tunnel addresses\<close>

text \<open>The addresses of a pool that can be given to a device: all but its first (the network) and its last
  (the broadcast address).\<close>

definition pool_size :: "prefix4 \<Rightarrow> nat" where
  "pool_size p = 2 ^ (32 - snd p)"

definition pool_base :: "prefix4 \<Rightarrow> nat" where
  "pool_base p = unat (fst p) div pool_size p * pool_size p"

definition host_address :: "prefix4 \<Rightarrow> u32 \<Rightarrow> bool" where
  "host_address p a \<longleftrightarrow> pool_base p < unat a \<and> unat a + 1 < pool_base p + pool_size p"

lemma pool_size_pos [simp]: "0 < pool_size p"
  by (simp add: pool_size_def)

lemma div_block: "0 < n \<Longrightarrow> a div n = b div n \<longleftrightarrow> b div n * n \<le> a \<and> a < b div n * n + n" for a b n :: nat
  by (metis add.commute div_mult2_eq div_nat_eqI dividend_less_div_times mult.commute mult_Suc times_div_less_eq_dividend)

lemma contains_block: "prefix4_contains p a \<longleftrightarrow> pool_base p \<le> unat a \<and> unat a < pool_base p + pool_size p"
proof -
  have x: "drop_bit n (x XOR y) = 0 \<longleftrightarrow> drop_bit n y = drop_bit n x" for n and x y :: u32
    by (metis (no_types, lifting) drop_bit_xor xor.left_neutral xor.right_neutral xor_self_eq xor.assoc)
  have "prefix4_contains p a \<longleftrightarrow> unat a div pool_size p = unat (fst p) div pool_size p"
    unfolding prefix4_contains_def x pool_size_def
    unfolding word_unat_eq_iff unat_drop_bit_eq by (simp only: drop_bit_eq_div)
  then show ?thesis by (simp add: div_block pool_base_def)
qed

lemma masked_base: "unat (fst (prefix4_masked p)) = pool_base p"
proof -
  let ?k = "32 - snd p"
  have t: "unat (take_bit ?k (fst p)) = unat (fst p) mod pool_size p"
    unfolding unsigned_take_bit_eq pool_size_def by (rule take_bit_eq_mod)
  have "fst (prefix4_masked p) + take_bit ?k (fst p) = fst p"
    by (simp add: prefix4_masked_def bits_ident)
  then have "fst (prefix4_masked p) = fst p - take_bit ?k (fst p)" by (metis add_diff_cancel_right')
  moreover have "take_bit ?k (fst p) \<le> fst p" unfolding word_le_nat_alt t by simp
  ultimately have "unat (fst (prefix4_masked p)) = unat (fst p) - unat (fst p) mod pool_size p"
    using t by (simp add: unat_sub)
  then show ?thesis by (simp add: pool_base_def minus_mod_eq_div_mult)
qed

lemma snd_masked [simp]: "snd (prefix4_masked p) = snd p"
  by (simp add: prefix4_masked_def)

lemma host_masked: "host_address (prefix4_masked p) a = host_address p a"
proof -
  have "pool_size (prefix4_masked p) = pool_size p" by (simp add: pool_size_def prefix4_masked_def)
  then show ?thesis by (simp add: host_address_def pool_base_def masked_base)
qed

lemma unat_minus_1: "unat (- 1 :: u32) = 2 ^ 32 - 1"
  by (simp add: unsigned_minus_1_eq_mask mask_eq_exp_minus_1)

lemma unat_next: "a \<noteq> - 1 \<Longrightarrow> unat (a + 1) = Suc (unat a)" for a :: u32
  using unat_Suc_no_wrap [of a "- 1"] by (simp add: word_order.not_eq_extremum)

text \<open>The addresses at which the loop goes on, from a start inside the pool.\<close>

lemma loop_goes_on:
  assumes "pool_base p < unat a"
  shows "prefix4_contains p a \<and> \<not> (a = - 1 \<or> \<not> prefix4_contains p (a + 1)) \<longleftrightarrow> host_address p a"
proof (cases "a = - 1")
  case True
  have "unat (- 1 :: u32) + 1 = 2 ^ 32" by (simp add: unat_minus_1)
  moreover have "pool_base p + pool_size p \<le> 2 ^ 32"
  proof -
    have "unat (fst p) < pool_size p * 2 ^ (min 32 (snd p))"
      using unsigned_less [of "fst p", where ?'a = nat] by (simp add: pool_size_def min_def flip: power_add)
    then have "unat (fst p) div pool_size p < 2 ^ (min 32 (snd p))" by (simp add: less_mult_imp_div_less mult.commute)
    then have "Suc (unat (fst p) div pool_size p) * pool_size p \<le> 2 ^ (min 32 (snd p)) * pool_size p"
      by (intro mult_right_mono) simp_all
    also have "\<dots> = 2 ^ 32" by (simp add: pool_size_def min_def flip: power_add)
    finally show ?thesis by (simp add: pool_base_def)
  qed
  ultimately show ?thesis using True by (simp add: host_address_def)
next
  case False
  then show ?thesis using assms by (simp add: contains_block unat_next host_address_def) linarith
qed

lemma first_free_spec:
  assumes "pool_base p < unat a"
  shows "case first_free p used a of
      Some x \<Rightarrow> a \<le> x \<and> host_address p x \<and> \<not> used x \<and> (\<forall>y. a \<le> y \<and> y < x \<longrightarrow> used y)
    | None \<Rightarrow> \<forall>y. a \<le> y \<and> host_address p y \<longrightarrow> used y"
  using assms
proof (induction p used a rule: first_free.induct)
  case (1 p used a)
  show ?case
  proof (cases "host_address p a")
    case False
    then have "first_free p used a = None"
      using loop_goes_on [OF "1.prems"] by (subst first_free.simps) auto
    moreover have "\<not> host_address p y" if "a \<le> y" for y
      using False that "1.prems" by (auto simp: host_address_def word_le_nat_alt)
    ultimately show ?thesis by auto
  next
    case True
    then have on: "prefix4_contains p a" "\<not> (a = - 1 \<or> \<not> prefix4_contains p (a + 1))"
      using loop_goes_on [OF "1.prems"] by auto
    then have step: "first_free p used a = (if \<not> used a then Some a else first_free p used (a + 1))"
      by (subst first_free.simps) simp
    show ?thesis
    proof (cases "used a")
      case False
      then show ?thesis using step True by (auto dest: leD)
    next
      case u: True
      have n: "unat (a + 1) = Suc (unat a)" using unat_next on(2) by blast
      have le: "a \<le> y \<longleftrightarrow> y = a \<or> a + 1 \<le> y" for y
        by (auto simp: word_le_nat_alt n word_unat_eq_iff)
      have "case first_free p used (a + 1) of
          Some x \<Rightarrow> a + 1 \<le> x \<and> host_address p x \<and> \<not> used x \<and> (\<forall>y. a + 1 \<le> y \<and> y < x \<longrightarrow> used y)
        | None \<Rightarrow> \<forall>y. a + 1 \<le> y \<and> host_address p y \<longrightarrow> used y"
        using "1.IH" on u "1.prems" n by simp
      then show ?thesis unfolding step using u le by (auto split: option.splits)
    qed
  qed
qed

definition address_used :: "store \<Rightarrow> database \<Rightarrow> u32 \<Rightarrow> bool" where
  "address_used s db a \<longleftrightarrow>
     Addr4 a \<in> set (st_reserved s)
     \<or> (\<exists>k d n. (k, Some d) \<in> set (db_devices db) \<and> parse_prefix4 (dv_tunnel_address d) = Some (a, n))"

lemma device_addresses_all:
  "device_addresses m \<noteq> None \<longleftrightarrow> (\<forall>e \<in> set m. \<exists>d. snd e = Some d \<and> parse_prefix4 (dv_tunnel_address d) \<noteq> None)"
  by (induction m rule: device_addresses.induct) (auto split: option.splits)

lemma device_addresses_mem:
  "device_addresses m = Some as \<Longrightarrow>
   a \<in> set as \<longleftrightarrow> (\<exists>e \<in> set m. \<exists>d n. snd e = Some d \<and> parse_prefix4 (dv_tunnel_address d) = Some (a, n))"
proof (induction m arbitrary: as rule: device_addresses.induct)
  case (2 k v m)
  obtain d b n bs where d: "v = Some d" "parse_prefix4 (dv_tunnel_address d) = Some (b, n)" "device_addresses m = Some bs"
    "as = b # bs" using "2.prems" by (auto split: option.splits)
  have "a \<in> set bs \<longleftrightarrow> (\<exists>e \<in> set m. \<exists>d n. snd e = Some d \<and> parse_prefix4 (dv_tunnel_address d) = Some (a, n))"
    using "2.IH" d by auto
  then show ?case using d by auto
qed simp

lemma address_used_iff:
  "device_addresses (db_devices db) = Some as \<Longrightarrow> address_used s db a \<longleftrightarrow> Addr4 a \<in> set (st_reserved s) \<or> a \<in> set as"
  by (auto simp: address_used_def device_addresses_mem)

lemma allocate_address_spec:
  assumes "st_pool s = prefix4_masked p" and "device_addresses (db_devices db) \<noteq> None"
  shows "(\<forall>a. allocate_address s db = Inr a \<longleftrightarrow>
        host_address p a \<and> \<not> address_used s db a \<and> (\<forall>b. host_address p b \<and> b < a \<longrightarrow> address_used s db b))
    \<and> (allocate_address s db = Inl ErrPoolExhausted \<longleftrightarrow> (\<forall>a. host_address p a \<longrightarrow> address_used s db a))"
proof -
  let ?q = "prefix4_masked p"
  obtain as where as: "device_addresses (db_devices db) = Some as" using assms(2) by blast
  define used where "used = (\<lambda>a. Addr4 a \<in> set (st_reserved s) \<or> a \<in> set as)"
  have u: "used = address_used s db"
    using address_used_iff [OF as] by (simp add: fun_eq_iff used_def)
  have sz: "pool_size ?q = pool_size p" by (simp add: pool_size_def prefix4_masked_def)
  have q: "pool_base ?q = pool_base p"
    unfolding pool_base_def sz masked_base by (simp add: pool_base_def)
  note host = host_masked
  have al: "allocate_address s db = (if fst ?q = - 1 then Inl ErrPoolExhausted
      else case first_free ?q used (fst ?q + 1) of None \<Rightarrow> Inl ErrPoolExhausted | Some a \<Rightarrow> Inr a)"
    using as assms(1) by (simp add: allocate_address_def used_def)
  show ?thesis
  proof (cases "fst ?q = - 1")
    case True
    have "unat a \<le> pool_base p" for a :: u32
      using masked_base [of p] True unsigned_less [of a, where ?'a = nat] by (simp add: unat_minus_1)
    then have "\<not> host_address p a" for a by (metis host_address_def not_less)
    then show ?thesis using al True by simp
  next
    case False
    then have n: "unat (fst ?q + 1) = Suc (pool_base p)" using unat_next masked_base [of p] by simp
    have start: "fst ?q + 1 \<le> a \<longleftrightarrow> pool_base p < unat a" for a by (auto simp: word_le_nat_alt n)
    have hs: "fst ?q + 1 \<le> a" if "host_address p a" for a using that by (simp add: start host_address_def)
    note sp = first_free_spec [of ?q "fst ?q + 1" used, unfolded host q n, OF lessI]
    show ?thesis
    proof (cases "first_free ?q used (fst ?q + 1)")
      case None
      then have "\<forall>y. host_address p y \<longrightarrow> used y" using sp hs by simp
      moreover have "allocate_address s db = Inl ErrPoolExhausted" using al False None by simp
      ultimately show ?thesis unfolding u by auto
    next
      case (Some x)
      then have x: "host_address p x" "\<not> used x" "\<forall>y. host_address p y \<and> y < x \<longrightarrow> used y" using sp hs by auto
      have "allocate_address s db = Inr x" using al False Some by simp
      moreover have "a = x" if "host_address p a" "\<not> used a" "\<forall>b. host_address p b \<and> b < a \<longrightarrow> used b" for a
        using that x by (metis linorder_neqE)
      ultimately show ?thesis using x unfolding u by (metis Inr_inject sum.distinct(2))
    qed
  qed
qed

text \<open>C20: A new device gets the lowest address of the pool that is neither the network nor the broadcast
  address, nor reserved, nor was ever given to another device, revoked or not; enrolment runs out of
  addresses only when all of them are in use. The search ends for every pool, also at the end of the
  32-bit address space.\<close>

theorem allocates_lowest_free:
  assumes "st_pool s = prefix4_masked p" and "device_addresses (db_devices db) \<noteq> None"
  shows "(\<forall>a. allocate_address s db = Inr a \<longleftrightarrow>
        host_address p a \<and> \<not> address_used s db a \<and> (\<forall>b. host_address p b \<and> b < a \<longrightarrow> address_used s db b))
    \<and> (allocate_address s db = Inl ErrPoolExhausted \<longleftrightarrow> (\<forall>a. host_address p a \<longrightarrow> address_used s db a))"
  using assms by (rule allocate_address_spec)

section \<open>Keys\<close>

lemma decrypt_encrypt:
  assumes C: "gcm_laws C" and n: "length nonce = 12" and b: "length b = 32" and k: "generate_key (Some b) = Inr psk"
    and e: "encrypt_psk C key clientID psk (Some nonce) = Inr enc"
  shows "decrypt_psk C key clientID enc = Inr psk"
proof -
  define sealed where "sealed = gcm_seal C key nonce (bytes_of_string psk) (bytes_of_string clientID)"
  have enc: "enc = b64_encode std_alphabet False (nonce @ sealed)" using e by (simp add: encrypt_psk_def sealed_def)
  have psk: "psk = b64_encode std_alphabet True b" using k by (simp add: generate_key_def)
  have "parse_key psk = Inr b" using b by (auto simp: parse_key_def psk Let_def)
  moreover have "gcm_open C key nonce sealed (bytes_of_string clientID) = Some (bytes_of_string psk)"
    by (simp add: sealed_def gcm_open_seal [OF C])
  ultimately show ?thesis using n by (simp add: decrypt_psk_def enc)
qed

text \<open>A fresh key is printed so that the relay and the client read the same 32 bytes.\<close>

lemma generated_psk:
  "length b = 32 \<Longrightarrow> generate_key (Some b) = Inr psk \<Longrightarrow> parse_key psk = Inr b"
  by (auto simp: generate_key_def parse_key_def Let_def)

section \<open>The invariant\<close>

text \<open>What random sources deliver.\<close>

definition wf_store_env :: "store_env \<Rightarrow> bool" where
  "wf_store_env e \<longleftrightarrow>
     (\<forall>b. se_code e = Some b \<longrightarrow> length b = 24) \<and> (\<forall>b. se_client_id e = Some b \<longrightarrow> length b = 16)
     \<and> (\<forall>b. se_psk e = Some b \<longrightarrow> length b = 32) \<and> (\<forall>b. se_nonce e = Some b \<longrightarrow> length b = 12)"

fun wf_store_event :: "store_event \<Rightarrow> bool" where
  "wf_store_event (CreateActivation e u n ttl now) = wf_store_env e"
| "wf_store_event (Enroll e code n p now) = wf_store_env e"
| "wf_store_event (RotateKey e i now) = wf_store_env e"
| "wf_store_event ev = True"

definition device_ok :: "crypto \<Rightarrow> store \<Rightarrow> stored_device \<Rightarrow> bool" where
  "device_ok C s d \<longleftrightarrow>
     (\<exists>a. dv_tunnel_address d = prefix4_string (a, snd (st_pool s)) \<and> host_address (st_pool s) a
        \<and> Addr4 a \<notin> set (st_reserved s))
     \<and> (\<exists>i. length i = 16 \<and> dv_client_id d = client_id_string i)
     \<and> (\<exists>psk key. decrypt_psk C (st_key s) (dv_client_id d) (sd_encrypted_psk d) = Inr psk \<and> parse_key psk = Inr key)"

definition devices_ok :: "crypto \<Rightarrow> store \<Rightarrow> stored_device bucket \<Rightarrow> bool" where
  "devices_ok C s m \<longleftrightarrow>
     sorted_wrt (<) (map fst m)
     \<and> (\<forall>k v. map_get m k = Some v \<longrightarrow> (\<exists>d. v = Some d \<and> k = device_key (dv_client_id d) \<and> device_ok C s d))
     \<and> (\<forall>k d j c. map_get m k = Some (Some d) \<and> map_get m j = Some (Some c)
          \<and> dv_tunnel_address c = dv_tunnel_address d \<longrightarrow> k = j)"

definition store_inv :: "crypto \<Rightarrow> store \<Rightarrow> bool" where
  "store_inv C s \<longleftrightarrow>
     16 \<le> snd (st_pool s) \<and> snd (st_pool s) \<le> 30 \<and> st_pool s = prefix4_masked (st_pool s)
     \<and> devices_ok C s (db_devices (st_db s))
     \<and> sorted_wrt (<) (map fst (db_activations (st_db s))) \<and> None \<notin> snd ` set (db_activations (st_db s))"

lemma store_fields_db [simp]:
  "st_key (s\<lparr>st_db := db\<rparr>) = st_key s" "st_pool (s\<lparr>st_db := db\<rparr>) = st_pool s" "st_reserved (s\<lparr>st_db := db\<rparr>) = st_reserved s"
  "st_db (s\<lparr>st_db := db\<rparr>) = db"
  by simp_all

lemma device_ok_db [simp]: "device_ok C (s\<lparr>st_db := db\<rparr>) = device_ok C s" "devices_ok C (s\<lparr>st_db := db\<rparr>) = devices_ok C s"
  by (simp_all add: fun_eq_iff device_ok_def devices_ok_def)

lemma audit_fields [simp]:
  "db_devices (append_audit ev db) = db_devices db" "db_activations (append_audit ev db) = db_activations db"
  by (simp_all add: append_audit_def Let_def)

lemma put_device_fields [simp]:
  "db_devices (put_device d db) = bucket_put (db_devices db) (device_key (dv_client_id d)) d"
  "db_activations (put_device d db) = db_activations db"
  by (simp_all add: put_device_def)

lemma devices_ok_entry:
  "devices_ok C s m \<Longrightarrow> map_get m k = Some (Some d) \<Longrightarrow> k = device_key (dv_client_id d) \<and> device_ok C s d"
  unfolding devices_ok_def by blast

lemma devices_ok_put:
  assumes ok: "devices_ok C s m" and d: "device_ok C s d"
    and new: "\<And>k c. map_get m k = Some (Some c) \<Longrightarrow> k \<noteq> device_key (dv_client_id d) \<Longrightarrow> dv_tunnel_address c \<noteq> dv_tunnel_address d"
  shows "devices_ok C s (bucket_put m (device_key (dv_client_id d)) d)"
  unfolding devices_ok_def
proof (intro conjI allI impI)
  show "sorted_wrt (<) (map fst (bucket_put m (device_key (dv_client_id d)) d))"
    using ok by (simp add: devices_ok_def bucket_put_sorted)
  fix k v assume "map_get (bucket_put m (device_key (dv_client_id d)) d) k = Some v"
  then show "\<exists>d. v = Some d \<and> k = device_key (dv_client_id d) \<and> device_ok C s d"
    using ok d by (auto simp: devices_ok_def split: if_splits)
next
  fix k c j c'
  assume a: "map_get (bucket_put m (device_key (dv_client_id d)) d) k = Some (Some c)
    \<and> map_get (bucket_put m (device_key (dv_client_id d)) d) j = Some (Some c') \<and> dv_tunnel_address c' = dv_tunnel_address c"
  have old: "\<And>k c j c'. map_get m k = Some (Some c) \<Longrightarrow> map_get m j = Some (Some c')
      \<Longrightarrow> dv_tunnel_address c' = dv_tunnel_address c \<Longrightarrow> k = j"
    using ok unfolding devices_ok_def by blast
  let ?D = "device_key (dv_client_id d)"
  consider "k = ?D" "j = ?D" | "k = ?D" "j \<noteq> ?D" | "k \<noteq> ?D" "j = ?D" | "k \<noteq> ?D" "j \<noteq> ?D" by blast
  then show "k = j"
  proof cases
    case 2
    then show ?thesis using a new [of j c'] by simp
  next
    case 3
    then show ?thesis using a new [of k c] by simp
  next
    case 4
    then show ?thesis using a old [of k c j c'] by simp
  qed simp
qed

lemma load_device_entry: "load_device db i = Inr d \<longleftrightarrow> map_get (db_devices db) (device_key i) = Some (Some d)"
  by (auto simp: load_device_def split: option.splits)

text \<open>Changing a device but neither its identity nor its address.\<close>

lemma devices_ok_change:
  assumes ok: "devices_ok C s m" and g: "map_get m (device_key i) = Some (Some d)" and c: "device_ok C s c"
    and same: "dv_client_id c = dv_client_id d" "dv_tunnel_address c = dv_tunnel_address d"
  shows "devices_ok C s (bucket_put m (device_key (dv_client_id c)) c)"
proof (rule devices_ok_put [OF ok c])
  fix k b assume k: "map_get m k = Some (Some b)" "k \<noteq> device_key (dv_client_id c)"
  have "device_key i = device_key (dv_client_id c)" using devices_ok_entry [OF ok g] same by simp
  then show "dv_tunnel_address b \<noteq> dv_tunnel_address c"
    using ok g k same unfolding devices_ok_def by metis
qed

lemma devices_ok_addresses: "snd (st_pool s) \<le> 30 \<Longrightarrow> devices_ok C s m \<Longrightarrow> device_addresses m \<noteq> None"
proof -
  assume n: "snd (st_pool s) \<le> 30" and ok: "devices_ok C s m"
  have "\<exists>d. snd e = Some d \<and> parse_prefix4 (dv_tunnel_address d) \<noteq> None" if "e \<in> set m" for e
  proof -
    have "map_get m (fst e) = Some (snd e)" using ok that bucket_mem [of m "fst e" "snd e"] by (simp add: devices_ok_def)
    then obtain d where "snd e = Some d" "device_ok C s d" using ok unfolding devices_ok_def by blast
    then show ?thesis using n by (auto simp: device_ok_def)
  qed
  then show ?thesis unfolding device_addresses_all by blast
qed

section \<open>Every operation keeps it\<close>

lemma update_tx_cases:
  "update_tx commit f s = (res, t) \<Longrightarrow>
   (\<exists>r db. f (st_db s) = Inr (r, db) \<and> res = Inr r \<and> t = s\<lparr>st_db := db\<rparr> \<and> commit) \<or> (\<exists>e. res = Inl e) \<and> t = s"
  by (auto simp: update_tx_def split: sum.splits if_splits)

lemma store_inv_db:
  assumes "store_inv C s" "devices_ok C s (db_devices db)" "sorted_wrt (<) (map fst (db_activations db))"
    "None \<notin> snd ` set (db_activations db)"
  shows "store_inv C (s\<lparr>st_db := db\<rparr>)"
  using assms by (simp add: store_inv_def)

lemma bucket_put_decodes: "None \<notin> snd ` set m \<Longrightarrow> None \<notin> snd ` set (bucket_put m k v)"
  by (induction m k v rule: bucket_put.induct) auto

lemma prune_subset:
  "prune_activations skips cutoff deleted m = Some m' \<Longrightarrow>
   set m' \<subseteq> set m \<and> (sorted_wrt (<) (map fst m) \<longrightarrow> sorted_wrt (<) (map fst m'))"
proof (induction m arbitrary: deleted m')
  case (Cons e m)
  obtain k v where e: "e = (k, v)" by (cases e)
  consider (kept) m1 where "prune_activations skips cutoff False m = Some m1" "m' = (k, v) # m1"
    | (gone) "prune_activations skips cutoff True m = Some m'"
    using Cons.prems by (auto simp: e split: if_splits option.splits)
  then show ?case
  proof cases
    case kept
    then show ?thesis using Cons.IH [OF kept(1)] by (auto simp: e)
  next
    case gone
    then show ?thesis using Cons.IH [OF gone] by (auto simp: e)
  qed
qed simp

lemma create_activation_inv:
  assumes inv: "store_inv C s" and e: "create_activation L e u n ttl now s = (res, t)"
  shows "store_inv C t"
proof (cases "t = s")
  case False
  then obtain r db where r: "t = s\<lparr>st_db := db\<rparr>" "\<exists>m hash a ev. prune_activations (se_skips e) (now - 24 * hour) False (db_activations (st_db s)) = Some m
      \<and> db = append_audit ev ((st_db s)\<lparr>db_activations := bucket_put m hash a\<rparr>)"
    using e by (auto simp: create_activation_def Let_def update_tx_def split: if_splits option.splits)
  then obtain m hash a ev where m: "prune_activations (se_skips e) (now - 24 * hour) False (db_activations (st_db s)) = Some m"
    "db = append_audit ev ((st_db s)\<lparr>db_activations := bucket_put m hash a\<rparr>)" by blast
  have p: "set m \<subseteq> set (db_activations (st_db s))" "sorted_wrt (<) (map fst m)"
    using prune_subset [OF m(1)] inv by (auto simp: store_inv_def)
  show ?thesis unfolding r(1)
  proof (rule store_inv_db [OF inv])
    show "devices_ok C s (db_devices db)" using inv by (simp add: m(2) store_inv_def)
    show "sorted_wrt (<) (map fst (db_activations db))" using p(2) by (simp add: m(2) bucket_put_sorted)
    show "None \<notin> snd ` set (db_activations db)"
      using p(1) inv bucket_put_decodes [of m hash a] by (auto simp: m(2) store_inv_def)
  qed
qed (use inv in simp)

text \<open>What a successful enrolment has done.\<close>

lemma enroll_tx_success:
  assumes "enroll_tx C L e s code n p now db = Inr ((d, psk), db')"
  shows "\<exists>a b c nonce adr ev.
    map_get (db_activations db) (code_hash L code) = Some (Some a) \<and> ac_used_at a = None \<and> now < ac_expires_at a
    \<and> se_client_id e = Some b \<and> generate_client_id (Some b) = Inr (dv_client_id d)
    \<and> se_psk e = Some c \<and> generate_key (Some c) = Inr psk
    \<and> allocate_address s db = Inr adr \<and> dv_tunnel_address d = prefix4_string (adr, snd (st_pool s))
    \<and> se_nonce e = Some nonce \<and> encrypt_psk C (st_key s) (dv_client_id d) psk (Some nonce) = Inr (sd_encrypted_psk d)
    \<and> dv_revoked_at d = None \<and> dv_user_id d = ac_user_id a
    \<and> db' = append_audit ev ((put_device d db)\<lparr>db_activations := bucket_put (db_activations db) (code_hash L code)
           (a\<lparr>ac_used_at := Some now, ac_used_by := dv_client_id d\<rparr>)\<rparr>)"
proof -
  obtain a where a: "map_get (db_activations db) (code_hash L code) = Some (Some a)" "ac_used_at a = None" "now < ac_expires_at a"
    using assms by (auto simp: enroll_tx_def Let_def split: option.splits if_splits)
  have g: "\<not> (ac_used_at a \<noteq> None \<or> ac_expires_at a \<le> now)" using a by simp
  note u = assms [unfolded enroll_tx_def Let_def a(1) option.case if_not_P [OF g]]
  obtain cid where cid: "generate_client_id (se_client_id e) = Inr cid" using u by (auto split: sum.splits)
  obtain k where k: "generate_key (se_psk e) = Inr k" using u by (auto simp: cid split: sum.splits)
  obtain adr where adr: "allocate_address s db = Inr adr" using u by (auto simp: cid k split: sum.splits)
  obtain enc where enc: "encrypt_psk C (st_key s) cid k (se_nonce e) = Inr enc" using u by (auto simp: cid k adr split: sum.splits)
  obtain b c nonce where r: "se_client_id e = Some b" "se_psk e = Some c" "se_nonce e = Some nonce"
    using cid k enc by (auto simp: generate_client_id_def generate_key_def encrypt_psk_def split: option.splits)
  note v = u [unfolded cid k adr enc sum.case]
  have d: "dv_client_id d = cid" "psk = k" "dv_tunnel_address d = prefix4_string (adr, snd (st_pool s))"
    "sd_encrypted_psk d = enc" "dv_revoked_at d = None" "dv_user_id d = ac_user_id a"
    using v by auto
  show ?thesis
    by (intro exI [of _ a] exI [of _ b] exI [of _ c] exI [of _ nonce] exI [of _ adr])
      (use v a cid k adr enc r in \<open>auto simp: d\<close>)
qed

lemma enroll_cases:
  assumes "enroll C L e code n p now s = (res, t)"
  shows "(\<exists>st psk db n' p'. enroll_tx C L e s code n' p' now (st_db s) = Inr ((st, psk), db)
      \<and> res = Inr (device.truncate st, psk) \<and> t = s\<lparr>st_db := db\<rparr>)
    \<or> (\<exists>err. res = Inl err) \<and> t = s"
proof -
  define n' where "n' = trim_space n"
  define p' where "p' = sl_to_lower L (trim_space p)"
  obtain r u where u: "update_tx (se_commit e) (enroll_tx C L e s code n' p' now) s = (r, u)"
    by (cases "update_tx (se_commit e) (enroll_tx C L e s code n' p' now) s")
  have "(\<exists>err. res = Inl err) \<and> t = s \<or> res = map_sum id (\<lambda>(d, psk). (device.truncate d, psk)) r \<and> t = u"
    using assms u by (auto simp: enroll_def Let_def n'_def p'_def split: if_splits)
  then show ?thesis using update_tx_cases [OF u] by fastforce
qed

lemma enroll_success:
  assumes "enroll C L e code n p now s = (Inr (d, psk), t)"
  obtains st db n' p' where "enroll_tx C L e s code n' p' now (st_db s) = Inr ((st, psk), db)"
    "d = device.truncate st" "t = s\<lparr>st_db := db\<rparr>"
  using enroll_cases [OF assms] by blast

lemma allocated_fresh:
  assumes inv: "store_inv C s" and a: "allocate_address s (st_db s) = Inr a"
  shows "host_address (st_pool s) a \<and> Addr4 a \<notin> set (st_reserved s)
    \<and> (\<forall>k c. map_get (db_devices (st_db s)) k = Some (Some c) \<longrightarrow> dv_tunnel_address c \<noteq> prefix4_string (a, snd (st_pool s)))"
proof -
  have i: "st_pool s = prefix4_masked (st_pool s)" "snd (st_pool s) \<le> 30" "devices_ok C s (db_devices (st_db s))"
    using inv by (auto simp: store_inv_def)
  have d: "device_addresses (db_devices (st_db s)) \<noteq> None" by (rule devices_ok_addresses [OF i(2,3)])
  have f: "host_address (st_pool s) a" "\<not> address_used s (st_db s) a"
    using allocate_address_spec [OF i(1) d] a by blast+
  have "dv_tunnel_address c \<noteq> prefix4_string (a, snd (st_pool s))" if "map_get (db_devices (st_db s)) k = Some (Some c)" for k c
  proof
    assume "dv_tunnel_address c = prefix4_string (a, snd (st_pool s))"
    then have "parse_prefix4 (dv_tunnel_address c) = Some (a, snd (st_pool s))" using i(2) by simp
    moreover have "(k, Some c) \<in> set (db_devices (st_db s))" using that by (simp add: map_of_SomeD)
    ultimately show False using f(2) unfolding address_used_def by blast
  qed
  then show ?thesis using f unfolding address_used_def by blast
qed

lemma generated_client_id:
  "length b = 16 \<Longrightarrow> generate_client_id (Some b) = Inr cid \<Longrightarrow> \<exists>i. length i = 16 \<and> cid = client_id_string i"
  by (auto simp: generate_client_id_def Let_def client_id_string_def)

lemma enroll_inv:
  assumes C: "gcm_laws C" and inv: "store_inv C s" and w: "wf_store_env e" and e: "enroll C L e code n p now s = (res, t)"
  shows "store_inv C t"
proof (cases "t = s")
  case False
  obtain st psk db n' p' where tx: "enroll_tx C L e s code n' p' now (st_db s) = Inr ((st, psk), db)" and t: "t = s\<lparr>st_db := db\<rparr>"
    using enroll_cases [OF e] False by blast
  obtain a b c nonce adr ev where x: "se_client_id e = Some b" "generate_client_id (Some b) = Inr (dv_client_id st)"
    "se_psk e = Some c" "generate_key (Some c) = Inr psk" "allocate_address s (st_db s) = Inr adr"
    "dv_tunnel_address st = prefix4_string (adr, snd (st_pool s))" "se_nonce e = Some nonce"
    "encrypt_psk C (st_key s) (dv_client_id st) psk (Some nonce) = Inr (sd_encrypted_psk st)"
    "db = append_audit ev ((put_device st (st_db s))\<lparr>db_activations := bucket_put (db_activations (st_db s)) (code_hash L code)
           (a\<lparr>ac_used_at := Some now, ac_used_by := dv_client_id st\<rparr>)\<rparr>)"
    using enroll_tx_success [OF tx] by blast
  have len: "length b = 16" "length c = 32" "length nonce = 12" using w x(1,3,7) by (auto simp: wf_store_env_def)
  note fresh = allocated_fresh [OF inv x(5)]
  have ok: "devices_ok C s (db_devices (st_db s))" using inv by (simp add: store_inv_def)
  have d: "device_ok C s st"
    unfolding device_ok_def
    using fresh x(6) generated_client_id [OF len(1) x(2)] decrypt_encrypt [OF C len(3,2) x(4,8)] generated_psk [OF len(2) x(4)]
    by blast
  show ?thesis unfolding t
  proof (rule store_inv_db [OF inv])
    show "devices_ok C s (db_devices db)"
      using devices_ok_put [OF ok d] fresh x(6) by (simp add: x(9))
    show "sorted_wrt (<) (map fst (db_activations db))"
      using inv by (simp add: x(9) bucket_put_sorted store_inv_def)
    show "None \<notin> snd ` set (db_activations db)"
      using inv bucket_put_decodes [of "db_activations (st_db s)"] by (simp add: x(9) store_inv_def)
  qed
qed (use inv in simp)

text \<open>Revoking, rotating and touching change a device but neither its identity nor its address.\<close>

lemma change_inv:
  assumes inv: "store_inv C s" and g: "load_device (st_db s) i = Inr d" and c: "device_ok C s c"
    and same: "dv_client_id c = dv_client_id d" "dv_tunnel_address c = dv_tunnel_address d"
    and db: "db_devices db = bucket_put (db_devices (st_db s)) (device_key (dv_client_id c)) c"
      "db_activations db = db_activations (st_db s)"
  shows "store_inv C (s\<lparr>st_db := db\<rparr>)"
proof -
  have "devices_ok C s (db_devices db)"
    unfolding db(1) using inv g by (intro devices_ok_change [OF _ _ c same]) (auto simp: store_inv_def load_device_entry)
  then show ?thesis using inv db(2) by (intro store_inv_db) (auto simp: store_inv_def)
qed

lemma loaded_ok: "store_inv C s \<Longrightarrow> load_device (st_db s) i = Inr d \<Longrightarrow> device_ok C s d \<and> device_key i = device_key (dv_client_id d)"
  using devices_ok_entry by (auto simp: store_inv_def load_device_entry)

lemma device_key_inject [simp]: "device_key i = device_key j \<longleftrightarrow> i = j"
  by (simp add: device_key_def)

lemma revoke_cases:
  assumes "revoke_device commit i now s = (res, t)"
  shows "(\<exists>d. load_device (st_db s) i = Inr d \<and> dv_revoked_at d \<noteq> None \<and> t = s \<and> res = Inr (device.truncate d))
    \<or> (\<exists>d ev. load_device (st_db s) i = Inr d \<and> dv_revoked_at d = None
        \<and> res = Inr (device.truncate (d\<lparr>dv_revoked_at := Some now, dv_updated_at := now\<rparr>))
        \<and> t = s\<lparr>st_db := append_audit ev (put_device (d\<lparr>dv_revoked_at := Some now, dv_updated_at := now\<rparr>) (st_db s))\<rparr>)
    \<or> (\<exists>err. res = Inl err) \<and> t = s"
proof -
  obtain r u where u: "update_tx commit (revoke_tx i now) s = (r, u)" by (cases "update_tx commit (revoke_tx i now) s")
  have ru: "res = map_sum id device.truncate r" "t = u" using assms u by (simp_all add: revoke_device_def)
  show ?thesis
  proof (cases "\<exists>e. r = Inl e")
    case True
    then show ?thesis using update_tx_cases [OF u] ru by auto
  next
    case False
    then obtain d' db where d': "revoke_tx i now (st_db s) = Inr (d', db)" "r = Inr d'" "u = s\<lparr>st_db := db\<rparr>"
      using update_tx_cases [OF u] by blast
    obtain d where d: "load_device (st_db s) i = Inr d" using d'(1) by (auto simp: revoke_tx_def split: sum.splits)
    show ?thesis using d' ru d by (cases "dv_revoked_at d = None") (auto simp: revoke_tx_def Let_def)
  qed
qed

lemma rotate_cases:
  assumes "rotate_key C e i now s = (res, t)"
  shows "(\<exists>d b psk nonce enc ev. load_device (st_db s) i = Inr d \<and> dv_revoked_at d = None
        \<and> se_psk e = Some b \<and> generate_key (Some b) = Inr psk \<and> se_nonce e = Some nonce
        \<and> encrypt_psk C (st_key s) i psk (Some nonce) = Inr enc
        \<and> res = Inr (device.truncate (d\<lparr>sd_encrypted_psk := enc, dv_updated_at := now\<rparr>), psk)
        \<and> t = s\<lparr>st_db := append_audit ev (put_device (d\<lparr>sd_encrypted_psk := enc, dv_updated_at := now\<rparr>) (st_db s))\<rparr>)
    \<or> (\<exists>err. res = Inl err) \<and> t = s"
proof -
  obtain r u where u: "update_tx (se_commit e) (rotate_tx C (st_key s) e i now) s = (r, u)"
    by (cases "update_tx (se_commit e) (rotate_tx C (st_key s) e i now) s")
  have ru: "res = map_sum id (\<lambda>(d, psk). (device.truncate d, psk)) r" "t = u" using assms u by (simp_all add: rotate_key_def)
  show ?thesis
  proof (cases "\<exists>err. r = Inl err")
    case True
    then show ?thesis using update_tx_cases [OF u] ru by auto
  next
    case False
    then obtain d' psk db where d': "rotate_tx C (st_key s) e i now (st_db s) = Inr ((d', psk), db)" "r = Inr (d', psk)" "u = s\<lparr>st_db := db\<rparr>"
      using update_tx_cases [OF u] by auto
    obtain d where d: "load_device (st_db s) i = Inr d" "dv_revoked_at d = None"
      using d'(1) by (auto simp: rotate_tx_def split: sum.splits if_splits)
    note x = d'(1) [unfolded rotate_tx_def d(1) sum.case]
    obtain k where k: "generate_key (se_psk e) = Inr k" using x d(2) by (auto split: sum.splits)
    obtain enc where enc: "encrypt_psk C (st_key s) i k (se_nonce e) = Inr enc" using x d(2) by (auto simp: k split: sum.splits)
    obtain b nonce where bn: "se_psk e = Some b" "se_nonce e = Some nonce"
      using k enc by (auto simp: generate_key_def encrypt_psk_def split: option.splits)
    have "d' = d\<lparr>sd_encrypted_psk := enc, dv_updated_at := now\<rparr>" "psk = k"
      "\<exists>ev. db = append_audit ev (put_device (d\<lparr>sd_encrypted_psk := enc, dv_updated_at := now\<rparr>) (st_db s))"
      using x d(2) by (auto simp: k enc Let_def)
    then show ?thesis using d' ru d k enc bn by auto
  qed
qed

lemma touch_cases:
  assumes "touch_device commit i now s = (res, t)"
  shows "(\<exists>d. load_device (st_db s) i = Inr d \<and> t = s\<lparr>st_db := put_device (d\<lparr>dv_last_seen_at := Some now\<rparr>) (st_db s)\<rparr>) \<or> t = s"
  using assms by (auto simp: touch_device_def update_tx_def split: sum.splits store_error.splits if_splits)

lemma store_step_inv:
  assumes C: "gcm_laws C" and inv: "store_inv C s" and w: "wf_store_event ev"
  shows "store_inv C (store_step C L s ev)"
proof (cases ev)
  case (CreateActivation e u n ttl now)
  then show ?thesis using create_activation_inv [OF inv prod.collapse [symmetric], of L e u n ttl now] by simp
next
  case (Enroll e code n p now)
  then show ?thesis using enroll_inv [OF C inv _ prod.collapse [symmetric], of e L code n p now] w by simp
next
  case (RevokeDevice commit i now)
  obtain res t where r: "revoke_device commit i now s = (res, t)" by (cases "revoke_device commit i now s")
  have "store_inv C t"
    using revoke_cases [OF r]
  proof (elim disjE exE conjE)
    fix d a assume d: "load_device (st_db s) i = Inr d"
      and t: "t = s\<lparr>st_db := append_audit a (put_device (d\<lparr>dv_revoked_at := Some now, dv_updated_at := now\<rparr>) (st_db s))\<rparr>"
    show ?thesis unfolding t
      using loaded_ok [OF inv d]
      by (intro change_inv [OF inv d, of "d\<lparr>dv_revoked_at := Some now, dv_updated_at := now\<rparr>"]) (simp_all add: device_ok_def)
  qed (use inv in simp_all)
  then show ?thesis using RevokeDevice r by simp
next
  case (RotateKey e i now)
  obtain res t where r: "rotate_key C e i now s = (res, t)" by (cases "rotate_key C e i now s")
  have "store_inv C t"
    using rotate_cases [OF r]
  proof (elim disjE exE conjE)
    fix d b psk nonce enc a
    assume d: "load_device (st_db s) i = Inr d" and k: "se_psk e = Some b" "generate_key (Some b) = Inr psk" "se_nonce e = Some nonce"
        "encrypt_psk C (st_key s) i psk (Some nonce) = Inr enc"
      and t: "t = s\<lparr>st_db := append_audit a (put_device (d\<lparr>sd_encrypted_psk := enc, dv_updated_at := now\<rparr>) (st_db s))\<rparr>"
    have len: "length b = 32" "length nonce = 12" using w k(1,3) RotateKey by (auto simp: wf_store_env_def)
    have i: "dv_client_id d = i" using loaded_ok [OF inv d] by simp
    have "device_ok C s (d\<lparr>sd_encrypted_psk := enc, dv_updated_at := now\<rparr>)"
      using loaded_ok [OF inv d] decrypt_encrypt [OF C len(2,1) k(2,4)] generated_psk [OF len(1) k(2)]
      by (simp add: device_ok_def i)
    then show ?thesis unfolding t
      by (intro change_inv [OF inv d, of "d\<lparr>sd_encrypted_psk := enc, dv_updated_at := now\<rparr>"]) simp_all
  qed (use inv in simp_all)
  then show ?thesis using RotateKey r by simp
next
  case (TouchDevice commit i now)
  obtain res t where r: "touch_device commit i now s = (res, t)" by (cases "touch_device commit i now s")
  have "store_inv C t"
    using touch_cases [OF r]
  proof (elim disjE exE conjE)
    fix d assume d: "load_device (st_db s) i = Inr d" and t: "t = s\<lparr>st_db := put_device (d\<lparr>dv_last_seen_at := Some now\<rparr>) (st_db s)\<rparr>"
    show ?thesis unfolding t
      using loaded_ok [OF inv d]
      by (intro change_inv [OF inv d, of "d\<lparr>dv_last_seen_at := Some now\<rparr>"]) (simp_all add: device_ok_def)
  qed (use inv in simp)
  then show ?thesis using TouchDevice r by simp
qed

section \<open>Reachable states\<close>

text \<open>A data base that is created by the first start of the program, changed by the operations and opened
  again by later starts with the same settings.\<close>

inductive store_reachable :: "crypto \<Rightarrow> store_lib \<Rightarrow> bytes \<Rightarrow> prefix4 \<Rightarrow> addr list \<Rightarrow> store \<Rightarrow> bool"
  for C :: crypto and L :: store_lib and key :: bytes and pool :: prefix4 and reserved :: "addr list" where
  created: "open_store key (Some pool) reserved (Some empty_database) commit = Inr s
    \<Longrightarrow> store_reachable C L key pool reserved s"
| operation: "store_reachable C L key pool reserved s \<Longrightarrow> wf_store_event ev
    \<Longrightarrow> store_reachable C L key pool reserved (store_step C L s ev)"
| opened: "store_reachable C L key pool reserved s
    \<Longrightarrow> open_store key (Some pool) reserved (Some (st_db s)) commit = Inr t
    \<Longrightarrow> store_reachable C L key pool reserved t"

lemma open_store_fields:
  assumes "open_store key (Some pool) reserved (Some db) commit = Inr s"
  shows "st_key s = key" "st_pool s = prefix4_masked pool" "st_reserved s = reserved" "16 \<le> snd pool" "snd pool \<le> 30"
    "db_devices (st_db s) = db_devices db" "db_activations (st_db s) = db_activations db"
  using assms by (auto simp: open_store_def split: if_splits option.splits)

lemma store_step_static:
  "st_key (store_step C L s ev) = st_key s \<and> st_pool (store_step C L s ev) = st_pool s
   \<and> st_reserved (store_step C L s ev) = st_reserved s"
  by (cases ev)
    (auto simp: create_activation_def enroll_def revoke_device_def rotate_key_def touch_device_def update_tx_def Let_def
      split: sum.splits option.splits if_splits prod.splits)

lemma masked_twice: "snd p \<le> 32 \<Longrightarrow> prefix4_masked (prefix4_masked p) = prefix4_masked p"
  by (rule masked_masked)

lemma store_reachable_inv:
  assumes C: "gcm_laws C" and re: "store_reachable C L key pool reserved s"
  shows "store_inv C s \<and> st_key s = key \<and> st_pool s = prefix4_masked pool \<and> st_reserved s = reserved"
  using re
proof induction
  case (created commit s)
  note f = open_store_fields [OF created]
  have "st_pool s = prefix4_masked (st_pool s)" using f by (simp add: masked_twice)
  moreover have "snd (st_pool s) = snd pool" by (simp add: f(2) prefix4_masked_def)
  ultimately show ?case using f by (simp add: store_inv_def devices_ok_def empty_database_def)
next
  case (operation s ev)
  then show ?case using store_step_inv [OF C _ operation(2), of s L] store_step_static [of C L s ev] by simp
next
  case (opened s commit t)
  note f = open_store_fields [OF opened(2)]
  have "devices_ok C t (db_devices (st_db t)) = devices_ok C s (db_devices (st_db s))"
    using f(1-3,6) opened.IH by (simp add: devices_ok_def device_ok_def)
  then show ?case using f opened.IH by (simp add: store_inv_def)
qed

section \<open>What the operations promise\<close>

lemma devices_of_spec:
  assumes "\<forall>e \<in> set m. snd e \<noteq> None"
  shows "devices_of m = Inr (map (\<lambda>e. device.truncate (the (snd e))) m)"
  using assms by (induction m rule: devices_of.induct) auto

lemma devices_decode: "devices_ok C s m \<Longrightarrow> e \<in> set m \<Longrightarrow> \<exists>d. snd e = Some d \<and> map_get m (fst e) = Some (Some d)
    \<and> fst e = device_key (dv_client_id d) \<and> device_ok C s d"
  using bucket_mem [of m "fst e" "snd e"] unfolding devices_ok_def by force

text \<open>C19: At any time, whatever was enrolled, revoked and rotated and whenever the program was restarted, the
  data base can be listed; all devices, revoked ones included, have different client identifiers and
  different tunnel addresses, and every address is a host address of the configured pool that is not
  reserved for the relay or a client of the static configuration.\<close>

theorem devices_consistent:
  assumes "gcm_laws C" "store_reachable C L key pool reserved s"
  shows "\<exists>ds. list_devices s = Inr ds \<and> distinct (map dv_client_id ds) \<and> distinct (map dv_tunnel_address ds)
    \<and> (\<forall>d \<in> set ds. \<exists>a. dv_tunnel_address d = prefix4_string (a, snd pool) \<and> host_address pool a \<and> Addr4 a \<notin> set reserved)"
proof -
  let ?m = "db_devices (st_db s)"
  have inv: "store_inv C s" and f: "st_pool s = prefix4_masked pool" "st_reserved s = reserved"
    using store_reachable_inv [OF assms] by auto
  have ok: "devices_ok C s ?m" using inv by (simp add: store_inv_def)
  note e = devices_decode [OF ok]
  define ds where "ds = map (\<lambda>e. device.truncate (the (snd e))) ?m"
  have "list_devices s = Inr ds"
    unfolding list_devices_def ds_def using e by (intro devices_of_spec) force
  moreover have srt: "distinct (map fst ?m)" using ok by (simp add: devices_ok_def strict_sorted_iff)
  have "distinct (map dv_client_id ds)"
  proof -
    have "\<forall>x \<in> set ?m. device_key (dv_client_id (the (snd x))) = fst x" using e by force
    then have "map device_key (map dv_client_id ds) = map fst ?m"
      by (simp add: ds_def device.truncate_def)
    then show ?thesis using srt by (metis distinct_map)
  qed
  moreover have "distinct (map dv_tunnel_address ds)"
  proof -
    have "x = y" if "x \<in> set ?m" "y \<in> set ?m"
      "dv_tunnel_address (the (snd x)) = dv_tunnel_address (the (snd y))" for x y
    proof -
      note xy = that
      obtain d where d: "snd x = Some d" "map_get ?m (fst x) = Some (Some d)" using e [OF xy(1)] by blast
      obtain c where c: "snd y = Some c" "map_get ?m (fst y) = Some (Some c)" using e [OF xy(2)] by blast
      then have "fst y = fst x" using ok xy(3) d c unfolding devices_ok_def by (metis option.sel)
      then show ?thesis using d c by (metis option.inject prod_eqI)
    qed
    then have "inj_on (\<lambda>x. dv_tunnel_address (the (snd x))) (set ?m)" by (rule inj_onI)
    moreover have "distinct ?m" using srt by (simp add: distinct_map)
    ultimately show ?thesis by (simp add: ds_def distinct_map o_def device.truncate_def)
  qed
  moreover have "\<exists>a. dv_tunnel_address d = prefix4_string (a, snd pool) \<and> host_address pool a \<and> Addr4 a \<notin> set reserved"
    if d: "d \<in> set ds" for d
  proof -
    obtain x where x: "x \<in> set ?m" "d = device.truncate (the (snd x))" using d by (auto simp: ds_def)
    then obtain c where "snd x = Some c" "device_ok C s c" using e by blast
    then obtain a where "dv_tunnel_address d = prefix4_string (a, snd (st_pool s))" "host_address (st_pool s) a" "Addr4 a \<notin> set reserved"
      using x(2) f(2) by (auto simp: device_ok_def device.truncate_def)
    then show ?thesis using f(1) by (auto simp: host_masked)
  qed
  ultimately show ?thesis by blast
qed

end
