(* ===== verification/Store_Keys.thy ===== *)
theory Store_Keys
  imports Store_Facts
begin

text \<open>
  Credentials, codes and revocation over time: what \<open>ActiveCredentials\<close> of \<open>internal/controlplane/store.go\<close> returns after
  any run of the operations.
\<close>

section \<open>The credentials of the devices\<close>

lemma credentials_of_spec:
  assumes "\<forall>e \<in> set m. \<exists>d. snd e = Some d \<and> (\<exists>psk key. decrypt_psk C k (dv_client_id d) (sd_encrypted_psk d) = Inr psk \<and> parse_key psk = Inr key)"
  shows "\<exists>cs. credentials_of C k m = Inr cs
    \<and> map (\<lambda>c. (cl_client_id c, cl_name c, cl_tunnel_address c)) cs
        = map (\<lambda>d. (dv_client_id d, dv_name d, dv_tunnel_address d)) (filter (\<lambda>d. dv_revoked_at d = None) (map (\<lambda>e. the (snd e)) m))
    \<and> (\<forall>c \<in> set cs. \<exists>key. parse_key (cl_psk c) = Inr key)
    \<and> (\<forall>e \<in> set m. \<forall>d psk. snd e = Some d \<and> dv_revoked_at d = None \<and> decrypt_psk C k (dv_client_id d) (sd_encrypted_psk d) = Inr psk
         \<longrightarrow> (\<exists>c \<in> set cs. cl_client_id c = dv_client_id d \<and> cl_psk c = psk))"
  using assms
proof (induction m)
  case (Cons e m)
  obtain cs where cs: "credentials_of C k m = Inr cs"
    "map (\<lambda>c. (cl_client_id c, cl_name c, cl_tunnel_address c)) cs
        = map (\<lambda>d. (dv_client_id d, dv_name d, dv_tunnel_address d)) (filter (\<lambda>d. dv_revoked_at d = None) (map (\<lambda>e. the (snd e)) m))"
    "\<forall>c \<in> set cs. \<exists>key. parse_key (cl_psk c) = Inr key"
    "\<forall>e \<in> set m. \<forall>d psk. snd e = Some d \<and> dv_revoked_at d = None \<and> decrypt_psk C k (dv_client_id d) (sd_encrypted_psk d) = Inr psk
         \<longrightarrow> (\<exists>c \<in> set cs. cl_client_id c = dv_client_id d \<and> cl_psk c = psk)"
    using Cons.IH Cons.prems by auto
  obtain j d psk key where d: "e = (j, Some d)" "decrypt_psk C k (dv_client_id d) (sd_encrypted_psk d) = Inr psk" "parse_key psk = Inr key"
    using Cons.prems by (cases e) auto
  show ?case
  proof (cases "dv_revoked_at d = None")
    case True
    let ?c = "\<lparr> cl_name = dv_name d, cl_client_id = dv_client_id d, cl_psk = psk, cl_psk_env = [], cl_tunnel_address = dv_tunnel_address d \<rparr>"
    have "credentials_of C k (e # m) = Inr (?c # cs)" using True d cs(1) by simp
    then show ?thesis using True d cs(2-4) by (intro exI [of _ "?c # cs"]) simp
  next
    case False
    then show ?thesis using d cs by (intro exI [of _ cs]) auto
  qed
qed simp

lemma store_devices_good:
  assumes "store_inv C s"
  shows "\<forall>e \<in> set (db_devices (st_db s)). \<exists>d. snd e = Some d
    \<and> (\<exists>psk key. decrypt_psk C (st_key s) (dv_client_id d) (sd_encrypted_psk d) = Inr psk \<and> parse_key psk = Inr key)"
  using assms devices_decode [of C s "db_devices (st_db s)"] unfolding store_inv_def device_ok_def by blast

lemma store_list:
  assumes "store_inv C s"
  shows "list_devices s = Inr (map (\<lambda>e. device.truncate (the (snd e))) (db_devices (st_db s)))"
  unfolding list_devices_def using store_devices_good [OF assms] by (intro devices_of_spec) force

lemma stored_listed:
  assumes "store_inv C s" "list_devices s = Inr ds" "load_device (st_db s) i = Inr d"
  shows "device.truncate d \<in> set ds"
proof -
  have "(device_key i, Some d) \<in> set (db_devices (st_db s))"
    using assms(3) by (simp add: load_device_entry map_of_SomeD)
  then show ?thesis using store_list [OF assms(1)] assms(2) by force
qed

text \<open>All that the store promises of its credentials, from the invariant.\<close>

lemma credentials_spec:
  assumes inv: "store_inv C s"
  shows "\<exists>cs ds. active_credentials C s = Inr cs \<and> list_devices s = Inr ds
    \<and> map (\<lambda>c. (cl_client_id c, cl_name c, cl_tunnel_address c)) cs
        = map (\<lambda>d. (dv_client_id d, dv_name d, dv_tunnel_address d)) (filter (\<lambda>d. dv_revoked_at d = None) ds)
    \<and> (\<forall>c \<in> set cs. \<exists>key. parse_key (cl_psk c) = Inr key)
    \<and> (\<forall>i d psk. load_device (st_db s) i = Inr d \<and> dv_revoked_at d = None \<and> decrypt_psk C (st_key s) i (sd_encrypted_psk d) = Inr psk
         \<longrightarrow> (\<exists>c \<in> set cs. cl_client_id c = i \<and> cl_psk c = psk))"
proof -
  let ?m = "db_devices (st_db s)"
  obtain cs where cs: "credentials_of C (st_key s) ?m = Inr cs"
    "map (\<lambda>c. (cl_client_id c, cl_name c, cl_tunnel_address c)) cs
        = map (\<lambda>d. (dv_client_id d, dv_name d, dv_tunnel_address d)) (filter (\<lambda>d. dv_revoked_at d = None) (map (\<lambda>e. the (snd e)) ?m))"
    "\<forall>c \<in> set cs. \<exists>key. parse_key (cl_psk c) = Inr key"
    "\<forall>e \<in> set ?m. \<forall>d psk. snd e = Some d \<and> dv_revoked_at d = None \<and> decrypt_psk C (st_key s) (dv_client_id d) (sd_encrypted_psk d) = Inr psk
         \<longrightarrow> (\<exists>c \<in> set cs. cl_client_id c = dv_client_id d \<and> cl_psk c = psk)"
    using credentials_of_spec [OF store_devices_good [OF inv]] by blast
  have "map (\<lambda>d. (dv_client_id d, dv_name d, dv_tunnel_address d)) (filter (\<lambda>d. dv_revoked_at d = None) (map (\<lambda>e. the (snd e)) ?m))
    = map (\<lambda>d. (dv_client_id d, dv_name d, dv_tunnel_address d))
        (filter (\<lambda>d. dv_revoked_at d = None) (map (\<lambda>e. device.truncate (the (snd e))) ?m))"
    by (simp add: filter_map o_def device.truncate_def)
  moreover have "\<exists>c \<in> set cs. cl_client_id c = i \<and> cl_psk c = psk"
    if l: "load_device (st_db s) i = Inr d" "dv_revoked_at d = None" "decrypt_psk C (st_key s) i (sd_encrypted_psk d) = Inr psk" for i d psk
  proof -
    have "(device_key i, Some d) \<in> set ?m" using l(1) by (simp add: load_device_entry map_of_SomeD)
    moreover have "dv_client_id d = i" using loaded_ok [OF inv l(1)] by simp
    ultimately show ?thesis using cs(4) l(2,3) by force
  qed
  ultimately show ?thesis
    using cs(1-3) store_list [OF inv] unfolding active_credentials_def by (intro exI [of _ cs]) auto
qed

text \<open>C: The credentials that are loaded into the relay are exactly those of the devices that are not
  revoked: loading never fails, no revoked device is among them, no device is missing, and every key can be
  read by the relay.\<close>

theorem credentials_exact:
  assumes "gcm_laws C" "store_reachable C L key pool reserved s"
  shows "\<exists>cs ds. active_credentials C s = Inr cs \<and> list_devices s = Inr ds
    \<and> map (\<lambda>c. (cl_client_id c, cl_name c, cl_tunnel_address c)) cs
        = map (\<lambda>d. (dv_client_id d, dv_name d, dv_tunnel_address d)) (filter (\<lambda>d. dv_revoked_at d = None) ds)
    \<and> (\<forall>c \<in> set cs. \<exists>key. parse_key (cl_psk c) = Inr key)"
  using credentials_spec [of C s] store_reachable_inv [OF assms] by blast

section \<open>The key that was handed out\<close>

lemma enrolled_device:
  assumes C: "gcm_laws C" and inv: "store_inv C s" and w: "wf_store_env e" and r: "enroll C L e code n p now s = (Inr (d, psk), t)"
  shows "\<exists>st. load_device (st_db t) (dv_client_id d) = Inr st \<and> d = device.truncate st \<and> dv_revoked_at st = None
    \<and> decrypt_psk C (st_key t) (dv_client_id d) (sd_encrypted_psk st) = Inr psk"
proof -
  obtain st db n' p' where tx: "enroll_tx C L e s code n' p' now (st_db s) = Inr ((st, psk), db)" and d: "d = device.truncate st"
    and t: "t = s\<lparr>st_db := db\<rparr>" by (rule enroll_success [OF r])
  obtain a c nonce ev where x: "se_psk e = Some c" "generate_key (Some c) = Inr psk" "se_nonce e = Some nonce"
    "encrypt_psk C (st_key s) (dv_client_id st) psk (Some nonce) = Inr (sd_encrypted_psk st)" "dv_revoked_at st = None"
    "db = append_audit ev ((put_device st (st_db s))\<lparr>db_activations := bucket_put (db_activations (st_db s)) (code_hash L code)
           (a\<lparr>ac_used_at := Some now, ac_used_by := dv_client_id st\<rparr>)\<rparr>)"
    using enroll_tx_success [OF tx] by (elim exE conjE) (rule that)
  have len: "length c = 32" "length nonce = 12" using w x(1,3) by (auto simp: wf_store_env_def)
  have "dv_client_id d = dv_client_id st" by (simp add: d device.truncate_def)
  then show ?thesis
    using decrypt_encrypt [OF C len(2,1) x(2,4)] x(5) d by (intro exI [of _ st]) (simp add: t x(6) load_device_entry)
qed

lemma rotated_device:
  assumes C: "gcm_laws C" and inv: "store_inv C s" and w: "wf_store_env e" and r: "rotate_key C e i now s = (Inr (d, psk), t)"
  shows "\<exists>st. load_device (st_db t) i = Inr st \<and> d = device.truncate st \<and> dv_revoked_at st = None
    \<and> decrypt_psk C (st_key t) i (sd_encrypted_psk st) = Inr psk"
proof -
  obtain o' b nonce enc ev where x: "load_device (st_db s) i = Inr o'" "dv_revoked_at o' = None"
    "se_psk e = Some b" "generate_key (Some b) = Inr psk" "se_nonce e = Some nonce"
    "encrypt_psk C (st_key s) i psk (Some nonce) = Inr enc"
    "d = device.truncate (o'\<lparr>sd_encrypted_psk := enc, dv_updated_at := now\<rparr>)"
    "t = s\<lparr>st_db := append_audit ev (put_device (o'\<lparr>sd_encrypted_psk := enc, dv_updated_at := now\<rparr>) (st_db s))\<rparr>"
    using rotate_cases [OF r] by auto
  have len: "length b = 32" "length nonce = 12" using w x(3,5) by (auto simp: wf_store_env_def)
  have "dv_client_id o' = i" using loaded_ok [OF inv x(1)] by simp
  then show ?thesis
    using decrypt_encrypt [OF C len(2,1) x(4,6)] x(2,7,8) by (simp add: load_device_entry)
qed

lemma listed_distinct:
  assumes inv: "store_inv C s" and ds: "list_devices s = Inr ds"
  shows "distinct (map dv_client_id ds)"
proof -
  let ?m = "db_devices (st_db s)"
  have ok: "devices_ok C s ?m" using inv by (simp add: store_inv_def)
  have "ds = map (\<lambda>e. device.truncate (the (snd e))) ?m" using ds store_list [OF inv] by simp
  moreover have "\<forall>x \<in> set ?m. device_key (dv_client_id (the (snd x))) = fst x" using devices_decode [OF ok] by force
  ultimately have "map device_key (map dv_client_id ds) = map fst ?m" by (simp add: device.truncate_def)
  then show ?thesis using ok by (metis devices_ok_def strict_sorted_iff distinct_map)
qed

lemma credentials_distinct:
  assumes inv: "store_inv C s" and cs: "active_credentials C s = Inr cs"
  shows "distinct (map cl_client_id cs)"
proof -
  obtain ds where ds: "list_devices s = Inr ds"
    "map (\<lambda>c. (cl_client_id c, cl_name c, cl_tunnel_address c)) cs
        = map (\<lambda>d. (dv_client_id d, dv_name d, dv_tunnel_address d)) (filter (\<lambda>d. dv_revoked_at d = None) ds)"
    using credentials_spec [OF inv] cs by force
  have "map cl_client_id cs = map dv_client_id (filter (\<lambda>d. dv_revoked_at d = None) ds)"
    using arg_cong [OF ds(2), of "map fst"] by (simp add: o_def)
  then show ?thesis using listed_distinct [OF inv ds(1)] by (simp add: distinct_map_filter)
qed

lemma loaded_unique:
  assumes inv: "store_inv C s" and cs: "active_credentials C s = Inr cs"
    and st: "load_device (st_db s) i = Inr d" "dv_revoked_at d = None" "decrypt_psk C (st_key s) i (sd_encrypted_psk d) = Inr psk"
  shows "\<exists>c \<in> set cs. cl_client_id c = i \<and> cl_psk c = psk \<and> cl_tunnel_address c = dv_tunnel_address d
    \<and> (\<forall>c' \<in> set cs. cl_client_id c' = i \<longrightarrow> c' = c)"
proof -
  obtain ds where ds: "list_devices s = Inr ds"
    "map (\<lambda>c. (cl_client_id c, cl_name c, cl_tunnel_address c)) cs
        = map (\<lambda>d. (dv_client_id d, dv_name d, dv_tunnel_address d)) (filter (\<lambda>d. dv_revoked_at d = None) ds)"
    "\<exists>c \<in> set cs. cl_client_id c = i \<and> cl_psk c = psk"
    using credentials_spec [OF inv] cs st by force
  have dist: "distinct (map dv_client_id ds)" by (rule listed_distinct [OF inv ds(1)])
  have dcs: "distinct (map cl_client_id cs)" by (rule credentials_distinct [OF inv cs])
  obtain c where c: "c \<in> set cs" "cl_client_id c = i" "cl_psk c = psk" using ds(3) by blast
  have "(cl_client_id c, cl_name c, cl_tunnel_address c) \<in> set (map (\<lambda>d. (dv_client_id d, dv_name d, dv_tunnel_address d)) ds)"
    using c(1) ds(2) by (metis (no_types, lifting) filter_is_subset image_mono image_set list.set_map rev_image_eqI subsetD)
  then obtain d' where d': "d' \<in> set ds" "dv_client_id d' = i" "cl_tunnel_address c = dv_tunnel_address d'" using c(2) by auto
  have "dv_client_id (device.truncate d) = i" using loaded_ok [OF inv st(1)] by (simp add: device.truncate_def)
  then have "d' = device.truncate d"
    using dist stored_listed [OF inv ds(1) st(1)] d' by (metis distinct_map inj_on_contraD)
  then have "cl_tunnel_address c = dv_tunnel_address d" using d'(3) by (simp add: device.truncate_def)
  moreover have "\<forall>c' \<in> set cs. cl_client_id c' = i \<longrightarrow> c' = c"
    using dcs c(1,2) by (metis distinct_map inj_on_contraD)
  ultimately show ?thesis using c by blast
qed

text \<open>The key that is given to a device when it is enrolled, or when its key is rotated, is the one
  the relay gets: right after the operation the credentials hold exactly one entry of the device, with that
  key and with the tunnel address in the answer.\<close>

theorem issued_key_active:
  assumes C: "gcm_laws C" and re: "store_reachable C L key pool reserved s" and w: "wf_store_env e"
    and issued: "enroll C L e code n p now s = (Inr (d, psk), t) \<or> rotate_key C e (dv_client_id d) now s = (Inr (d, psk), t)"
  shows "\<exists>cs c. active_credentials C t = Inr cs \<and> c \<in> set cs \<and> cl_client_id c = dv_client_id d \<and> cl_psk c = psk
    \<and> cl_tunnel_address c = dv_tunnel_address d \<and> (\<forall>c' \<in> set cs. cl_client_id c' = dv_client_id d \<longrightarrow> c' = c)"
proof -
  have inv: "store_inv C s" using store_reachable_inv [OF C re] by simp
  have inv': "store_inv C t"
    using issued enroll_inv [OF C inv w] store_step_inv [OF C inv, of "RotateKey e (dv_client_id d) now" L] w by auto
  obtain st where st: "load_device (st_db t) (dv_client_id d) = Inr st" "d = device.truncate st" "dv_revoked_at st = None"
    "decrypt_psk C (st_key t) (dv_client_id d) (sd_encrypted_psk st) = Inr psk"
    using issued enrolled_device [OF C inv w, of L code n p now d psk t] rotated_device [OF C inv w, of "dv_client_id d" now d psk t] by blast
  obtain cs where cs: "active_credentials C t = Inr cs" using credentials_spec [OF inv'] by blast
  have "dv_tunnel_address st = dv_tunnel_address d" by (simp add: st(2) device.truncate_def)
  then show ?thesis using loaded_unique [OF inv' cs st(1,3,4)] cs by auto
qed

section \<open>Runs\<close>

text \<open>The operations of a run satisfy \<open>ok\<close>; between them the program may be restarted.\<close>

inductive store_run :: "crypto \<Rightarrow> store_lib \<Rightarrow> (store_event \<Rightarrow> bool) \<Rightarrow> store \<Rightarrow> store \<Rightarrow> bool"
  for C :: crypto and L :: store_lib and ok :: "store_event \<Rightarrow> bool" and s :: store where
  start: "store_run C L ok s s"
| operation: "store_run C L ok s t \<Longrightarrow> ok ev \<Longrightarrow> store_run C L ok s (store_step C L t ev)"
| restart: "store_run C L ok s t \<Longrightarrow> open_store key (Some pool) reserved (Some (st_db t)) commit = Inr u
    \<Longrightarrow> store_run C L ok s u"

text \<open>A property of the data base that every operation keeps holds after a run.\<close>

lemma store_run_keeps:
  assumes run: "store_run C L ok s t" and P: "P (st_db s)"
    and step: "\<And>t ev. P (st_db t) \<Longrightarrow> ok ev \<Longrightarrow> P (st_db (store_step C L t ev))"
    and schema: "\<And>db v. P db \<Longrightarrow> P (db\<lparr>db_schema := v\<rparr>)"
  shows "P (st_db t)"
  using run P step schema
  by induction (auto simp: open_store_def split: if_splits option.splits)

section \<open>A code is redeemed once\<close>

definition code_spent :: "bytes \<Rightarrow> database \<Rightarrow> bool" where
  "code_spent hash db \<longleftrightarrow> (\<forall>e \<in> set (db_activations db). fst e = hash \<longrightarrow> (\<exists>a. snd e = Some a \<and> ac_used_at a \<noteq> None))"

lemma bucket_put_subset: "set (bucket_put m k v) \<subseteq> insert (k, Some v) (set m)"
  by (induction m k v rule: bucket_put.induct) auto

lemma code_spent_put:
  assumes spent: "code_spent hash db" and sub: "set m \<subseteq> set (db_activations db)" and a: "k \<noteq> hash \<or> ac_used_at a \<noteq> None"
    and db': "db_activations db' = bucket_put m k a"
  shows "code_spent hash db'"
  unfolding code_spent_def db'
proof (intro ballI impI)
  fix y assume y: "y \<in> set (bucket_put m k a)" "fst y = hash"
  then consider "y = (k, Some a)" | "y \<in> set (db_activations db)" using sub bucket_put_subset [of m k a] by blast
  then show "\<exists>a. snd y = Some a \<and> ac_used_at a \<noteq> None"
    using spent a y(2) unfolding code_spent_def by cases auto
qed

lemma spent_rejected:
  assumes "code_spent (code_hash L code) db"
  shows "enroll_tx C L e s code n p now db = Inl ErrInvalidActivation"
proof (cases "map_get (db_activations db) (code_hash L code)")
  case (Some v)
  then have "(code_hash L code, v) \<in> set (db_activations db)" by (rule map_of_SomeD)
  then obtain a where "v = Some a" "ac_used_at a \<noteq> None" using assms unfolding code_spent_def by fastforce
  then show ?thesis using Some by (simp add: enroll_tx_def)
qed (simp add: enroll_tx_def)

lemma spent_enroll_fails:
  "code_spent (code_hash L code) (st_db s) \<Longrightarrow> \<exists>err. enroll C L e code n p now s = (Inl err, s)"
  by (auto simp: enroll_def Let_def update_tx_def spent_rejected)

lemma spent_step:
  assumes spent: "code_spent hash (st_db s)"
    and fresh: "\<And>e u n ttl now raw. ev = CreateActivation e u n ttl now \<Longrightarrow> se_code e = Some raw \<Longrightarrow> code_hash L (activation_code raw) \<noteq> hash"
  shows "code_spent hash (st_db (store_step C L s ev))"
proof (cases ev)
  case (CreateActivation e u n ttl now)
  show ?thesis
  proof (cases "store_step C L s ev = s")
    case False
    then obtain m raw a ev' where m: "prune_activations (se_skips e) (now - 24 * hour) False (db_activations (st_db s)) = Some m"
      "se_code e = Some raw" "st_db (store_step C L s ev)
        = append_audit ev' ((st_db s)\<lparr>db_activations := bucket_put m (code_hash L (activation_code raw)) a\<rparr>)"
      unfolding CreateActivation
      by (auto simp: create_activation_def Let_def update_tx_def split: if_splits option.splits)
    have "code_hash L (activation_code raw) \<noteq> hash" using fresh CreateActivation m(2) by blast
    then show ?thesis
      unfolding m(3) using prune_subset [OF m(1)]
      by (intro code_spent_put [OF spent, of m "code_hash L (activation_code raw)" a]) simp_all
  qed (use spent in simp)
next
  case (Enroll e code n p now)
  obtain res t where r: "enroll C L e code n p now s = (res, t)" by (cases "enroll C L e code n p now s")
  have "code_spent hash (st_db t)"
    using enroll_cases [OF r]
  proof (elim disjE exE conjE)
    fix st psk db n' p'
    assume tx: "enroll_tx C L e s code n' p' now (st_db s) = Inr ((st, psk), db)" and t: "t = s\<lparr>st_db := db\<rparr>"
    obtain a ev' where db: "db = append_audit ev' ((put_device st (st_db s))\<lparr>db_activations :=
        bucket_put (db_activations (st_db s)) (code_hash L code) (a\<lparr>ac_used_at := Some now, ac_used_by := dv_client_id st\<rparr>)\<rparr>)"
      using enroll_tx_success [OF tx] by (elim exE conjE) (rule that)
    show ?thesis unfolding t db
      by (rule code_spent_put [OF spent, of "db_activations (st_db s)" "code_hash L code"
          "a\<lparr>ac_used_at := Some now, ac_used_by := dv_client_id st\<rparr>"]) simp_all
  qed (use spent in simp)
  then show ?thesis using Enroll r by simp
next
  case (RevokeDevice commit i now)
  obtain res t where r: "revoke_device commit i now s = (res, t)" by (cases "revoke_device commit i now s")
  have "db_activations (st_db t) = db_activations (st_db s)" using revoke_cases [OF r] by auto
  then show ?thesis using spent RevokeDevice r by (simp add: code_spent_def)
next
  case (RotateKey e i now)
  obtain res t where r: "rotate_key C e i now s = (res, t)" by (cases "rotate_key C e i now s")
  have "db_activations (st_db t) = db_activations (st_db s)" using rotate_cases [OF r] by auto
  then show ?thesis using spent RotateKey r by (simp add: code_spent_def)
next
  case (TouchDevice commit i now)
  obtain res t where r: "touch_device commit i now s = (res, t)" by (cases "touch_device commit i now s")
  have "db_activations (st_db t) = db_activations (st_db s)" using touch_cases [OF r] by auto
  then show ?thesis using spent TouchDevice r by (simp add: code_spent_def)
qed

lemma enroll_spends:
  assumes srt: "sorted_wrt (<) (map fst (db_activations (st_db s)))" and r: "enroll C L e code n p now s = (Inr x, t)"
  shows "code_spent (code_hash L code) (st_db t)"
proof -
  obtain d psk where x: "x = (d, psk)" by (cases x)
  obtain st db n' p' where tx: "enroll_tx C L e s code n' p' now (st_db s) = Inr ((st, psk), db)" and t: "t = s\<lparr>st_db := db\<rparr>"
    using enroll_success [OF r [unfolded x]] by metis
  obtain a ev' where db: "db = append_audit ev' ((put_device st (st_db s))\<lparr>db_activations :=
      bucket_put (db_activations (st_db s)) (code_hash L code) (a\<lparr>ac_used_at := Some now, ac_used_by := dv_client_id st\<rparr>)\<rparr>)"
    using enroll_tx_success [OF tx] by (elim exE conjE) (rule that)
  let ?m = "db_activations db"
  have m: "?m = bucket_put (db_activations (st_db s)) (code_hash L code) (a\<lparr>ac_used_at := Some now, ac_used_by := dv_client_id st\<rparr>)"
    by (simp add: db)
  have "sorted_wrt (<) (map fst ?m)" unfolding m by (rule bucket_put_sorted [OF srt])
  then have "map_get ?m (fst y) = Some (snd y)" if "y \<in> set ?m" for y
    using bucket_mem [of ?m "fst y" "snd y"] that by simp
  then have "\<forall>y \<in> set ?m. fst y = code_hash L code \<longrightarrow> snd y = Some (a\<lparr>ac_used_at := Some now, ac_used_by := dv_client_id st\<rparr>)"
    unfolding m by fastforce
  then show ?thesis unfolding t code_spent_def by simp
qed

text \<open>C12: An activation code enrols one device only. Once it has been redeemed, no later enrolment with it
  succeeds or changes anything, however long the program runs, is restarted or deletes old codes, unless a
  new code with the same hash is created.\<close>

theorem code_redeemed_once:
  assumes "gcm_laws C" "store_reachable C L key pool reserved s" "enroll C L e code n p now s = (Inr x, t)"
    and run: "store_run C L (\<lambda>ev. \<forall>e' u n' ttl now' raw. ev = CreateActivation e' u n' ttl now' \<and> se_code e' = Some raw
        \<longrightarrow> code_hash L (activation_code raw) \<noteq> code_hash L code) t v"
  shows "\<exists>err. enroll C L e2 code n2 p2 now2 v = (Inl err, v)"
proof (rule spent_enroll_fails)
  have "sorted_wrt (<) (map fst (db_activations (st_db s)))"
    using store_reachable_inv [OF assms(1,2)] by (simp add: store_inv_def)
  then have "code_spent (code_hash L code) (st_db t)" using assms(3) by (rule enroll_spends)
  then show "code_spent (code_hash L code) (st_db v)"
  proof (rule store_run_keeps [OF run])
    fix db v assume "code_spent (code_hash L code) db"
    then show "code_spent (code_hash L code) (db\<lparr>db_schema := v\<rparr>)" by (simp add: code_spent_def)
  qed (rule spent_step, assumption, blast)
qed

section \<open>Revocation is final\<close>

definition device_revoked :: "string \<Rightarrow> database \<Rightarrow> bool" where
  "device_revoked i db \<longleftrightarrow>
     sorted_wrt (<) (map fst (db_devices db))
     \<and> (\<forall>k d. map_get (db_devices db) k = Some (Some d) \<longrightarrow> k = device_key (dv_client_id d))
     \<and> (\<exists>d. load_device db i = Inr d \<and> dv_revoked_at d \<noteq> None)"

lemma load_device_put: "db_devices db' = bucket_put (db_devices db) (device_key j) c \<Longrightarrow>
  load_device db' i = (if i = j then Inr c else load_device db i)"
  by (simp add: load_device_def)

lemma revoked_put:
  assumes rv: "device_revoked i db"
    and new: "dv_client_id c \<noteq> i \<or> dv_revoked_at c \<noteq> None"
    and db': "db_devices db' = bucket_put (db_devices db) (device_key (dv_client_id c)) c"
  shows "device_revoked i db'"
  using rv new unfolding device_revoked_def load_device_put [OF db'] unfolding db' by (auto intro: bucket_put_sorted)

lemma revoked_change:
  assumes rv: "device_revoked i (st_db s)" and d: "load_device (st_db s) j = Inr d"
    and same: "dv_client_id c = dv_client_id d" "dv_revoked_at c = dv_revoked_at d \<or> dv_revoked_at c \<noteq> None"
    and db': "db_devices db' = bucket_put (db_devices (st_db s)) (device_key (dv_client_id c)) c"
  shows "device_revoked i db'"
proof (rule revoked_put [OF rv _ db'])
  have j: "dv_client_id d = j" using rv d unfolding device_revoked_def load_device_entry by fastforce
  obtain b where b: "load_device (st_db s) i = Inr b" "dv_revoked_at b \<noteq> None" using rv unfolding device_revoked_def by blast
  show "dv_client_id c \<noteq> i \<or> dv_revoked_at c \<noteq> None"
  proof (cases "i = j")
    case True
    then have "b = d" using b(1) d by simp
    then show ?thesis using b(2) same(2) by auto
  qed (use same j in simp)
qed

lemma revoked_same: "device_revoked i db \<Longrightarrow> db_devices db' = db_devices db \<Longrightarrow> device_revoked i db'"
  by (simp add: device_revoked_def load_device_def)

lemma revoked_step:
  assumes rv: "device_revoked i (st_db s)"
    and fresh: "\<And>e code n p now. ev = Enroll e code n p now \<Longrightarrow> generate_client_id (se_client_id e) \<noteq> Inr i"
  shows "device_revoked i (st_db (store_step C L s ev))"
proof (cases ev)
  case (CreateActivation e u n ttl now)
  show ?thesis unfolding CreateActivation
    by (rule revoked_same [OF rv])
      (auto simp: create_activation_def Let_def update_tx_def split: if_splits option.splits)
next
  case (Enroll e code n p now)
  obtain res t where r: "enroll C L e code n p now s = (res, t)" by (cases "enroll C L e code n p now s")
  have "device_revoked i (st_db t)"
    using enroll_cases [OF r]
  proof (elim disjE exE conjE)
    fix st psk db n' p'
    assume tx: "enroll_tx C L e s code n' p' now (st_db s) = Inr ((st, psk), db)" and t: "t = s\<lparr>st_db := db\<rparr>"
    obtain a b ev' where x: "se_client_id e = Some b" "generate_client_id (Some b) = Inr (dv_client_id st)"
      "db = append_audit ev' ((put_device st (st_db s))\<lparr>db_activations :=
        bucket_put (db_activations (st_db s)) (code_hash L code) (a\<lparr>ac_used_at := Some now, ac_used_by := dv_client_id st\<rparr>)\<rparr>)"
      using enroll_tx_success [OF tx] by (elim exE conjE) (rule that)
    have "dv_client_id st \<noteq> i" using fresh [OF Enroll] x(1,2) by auto
    then show ?thesis unfolding t x(3) by (intro revoked_put [OF rv, of st]) simp_all
  qed (use rv in simp)
  then show ?thesis using Enroll r by simp
next
  case (RevokeDevice commit j now)
  obtain res t where r: "revoke_device commit j now s = (res, t)" by (cases "revoke_device commit j now s")
  have "device_revoked i (st_db t)"
    using revoke_cases [OF r]
  proof (elim disjE exE conjE)
    fix d a assume d: "load_device (st_db s) j = Inr d"
      and t: "t = s\<lparr>st_db := append_audit a (put_device (d\<lparr>dv_revoked_at := Some now, dv_updated_at := now\<rparr>) (st_db s))\<rparr>"
    show ?thesis unfolding t
      by (rule revoked_change [OF rv d, of "d\<lparr>dv_revoked_at := Some now, dv_updated_at := now\<rparr>"]) simp_all
  qed (use rv in simp_all)
  then show ?thesis using RevokeDevice r by simp
next
  case (RotateKey e j now)
  obtain res t where r: "rotate_key C e j now s = (res, t)" by (cases "rotate_key C e j now s")
  have "device_revoked i (st_db t)"
    using rotate_cases [OF r]
  proof (elim disjE exE conjE)
    fix d b psk nonce enc a
    assume d: "load_device (st_db s) j = Inr d"
      and t: "t = s\<lparr>st_db := append_audit a (put_device (d\<lparr>sd_encrypted_psk := enc, dv_updated_at := now\<rparr>) (st_db s))\<rparr>"
    show ?thesis unfolding t
      by (rule revoked_change [OF rv d, of "d\<lparr>sd_encrypted_psk := enc, dv_updated_at := now\<rparr>"]) simp_all
  qed (use rv in simp_all)
  then show ?thesis using RotateKey r by simp
next
  case (TouchDevice commit j now)
  obtain res t where r: "touch_device commit j now s = (res, t)" by (cases "touch_device commit j now s")
  have "device_revoked i (st_db t)"
    using touch_cases [OF r]
  proof (elim disjE exE conjE)
    fix d assume d: "load_device (st_db s) j = Inr d" and t: "t = s\<lparr>st_db := put_device (d\<lparr>dv_last_seen_at := Some now\<rparr>) (st_db s)\<rparr>"
    show ?thesis unfolding t by (rule revoked_change [OF rv d, of "d\<lparr>dv_last_seen_at := Some now\<rparr>"]) simp_all
  qed (use rv in simp)
  then show ?thesis using TouchDevice r by simp
qed

lemma store_inv_keyed:
  assumes "store_inv C s"
  shows "sorted_wrt (<) (map fst (db_devices (st_db s)))
    \<and> (\<forall>k d. map_get (db_devices (st_db s)) k = Some (Some d) \<longrightarrow> k = device_key (dv_client_id d))"
proof -
  have ok: "devices_ok C s (db_devices (st_db s))" using assms by (simp add: store_inv_def)
  then have "sorted_wrt (<) (map fst (db_devices (st_db s)))" unfolding devices_ok_def by blast
  then show ?thesis using devices_ok_entry [OF ok] by blast
qed

lemma revoke_revokes:
  assumes inv: "store_inv C s" and r: "revoke_device commit i now s = (Inr d, t)"
  shows "device_revoked i (st_db t)"
  using revoke_cases [OF r]
proof (elim disjE exE conjE)
  fix c assume c: "load_device (st_db s) i = Inr c" "dv_revoked_at c \<noteq> None" "t = s"
  then show ?thesis using store_inv_keyed [OF inv] unfolding device_revoked_def by blast
next
  fix c a assume c: "load_device (st_db s) i = Inr c"
    and t: "t = s\<lparr>st_db := append_audit a (put_device (c\<lparr>dv_revoked_at := Some now, dv_updated_at := now\<rparr>) (st_db s))\<rparr>"
  have "dv_client_id c = i" using loaded_ok [OF inv c] by simp
  then show ?thesis
    using store_inv_keyed [OF inv] unfolding device_revoked_def t
    by (auto simp: load_device_entry intro: bucket_put_sorted split: if_splits)
qed simp

lemma credentials_of_members:
  "credentials_of C k m = Inr cs \<Longrightarrow> c \<in> set cs \<Longrightarrow>
   cl_psk_env c = []
   \<and> (\<exists>e \<in> set m. \<exists>d. snd e = Some d \<and> dv_revoked_at d = None \<and> dv_client_id d = cl_client_id c
        \<and> dv_tunnel_address d = cl_tunnel_address c)"
proof (induction m arbitrary: cs)
  case (Cons e m)
  obtain j d where d: "e = (j, Some d)" using Cons.prems by (cases e) (auto split: option.splits)
  show ?case
  proof (cases "dv_revoked_at d = None")
    case False
    then show ?thesis using Cons d by auto
  next
    case True
    then obtain psk cs' where x: "credentials_of C k m = Inr cs'"
      "cs = \<lparr> cl_name = dv_name d, cl_client_id = dv_client_id d, cl_psk = psk, cl_psk_env = [],
              cl_tunnel_address = dv_tunnel_address d \<rparr> # cs'"
      using Cons.prems(1) d
      by (cases "credentials_of C k m"; cases "decrypt_psk C k (dv_client_id d) (sd_encrypted_psk d)") auto
    then show ?thesis using Cons.IH [OF x(1)] Cons.prems(2) True d by auto
  qed
qed simp

lemma revoked_not_active:
  assumes rv: "device_revoked i (st_db s)" and cs: "active_credentials C s = Inr cs"
  shows "i \<notin> cl_client_id ` set cs"
proof
  assume "i \<in> cl_client_id ` set cs"
  then obtain c where c: "c \<in> set cs" "cl_client_id c = i" by blast
  let ?m = "db_devices (st_db s)"
  obtain e d where e: "e \<in> set ?m" "snd e = Some d" "dv_revoked_at d = None" "dv_client_id d = i"
    using credentials_of_members [OF cs [unfolded active_credentials_def] c(1)] c(2) by blast
  have k: "\<forall>k d. map_get ?m k = Some (Some d) \<longrightarrow> k = device_key (dv_client_id d)" "sorted_wrt (<) (map fst ?m)"
    using rv unfolding device_revoked_def by blast+
  have "(fst e, Some d) \<in> set ?m" using e(1,2) by (metis prod.collapse)
  then have g: "map_get ?m (fst e) = Some (Some d)" by (simp add: bucket_mem [OF k(2)])
  moreover have "fst e = device_key i" using k(1) g e(4) by blast
  ultimately have "load_device (st_db s) i = Inr d" by (simp add: load_device_entry)
  then show False using rv e(3) unfolding device_revoked_def by simp
qed

text \<open>C13: Revocation is final. After a device has been revoked no operation brings it back, restarts of the
  program included, unless an enrolment draws the same 128-bit identifier: its credential is never loaded
  again, its key cannot be rotated, and revoking it again changes nothing.\<close>

theorem revoked_stays_revoked:
  assumes "gcm_laws C" "store_reachable C L key pool reserved s" "revoke_device commit i now s = (Inr d, t)"
    and run: "store_run C L (\<lambda>ev. \<forall>e code n p now'. ev = Enroll e code n p now' \<longrightarrow> generate_client_id (se_client_id e) \<noteq> Inr i) t v"
  shows "(\<forall>cs. active_credentials C v = Inr cs \<longrightarrow> i \<notin> cl_client_id ` set cs)
    \<and> (\<exists>err. rotate_key C e2 i now2 v = (Inl err, v)) \<and> snd (revoke_device commit2 i now2 v) = v"
proof -
  have "store_inv C s" using store_reachable_inv [OF assms(1,2)] by simp
  then have "device_revoked i (st_db t)" using assms(3) by (rule revoke_revokes)
  then have rv: "device_revoked i (st_db v)"
  proof (rule store_run_keeps [OF run])
    fix db v assume "device_revoked i db"
    then show "device_revoked i (db\<lparr>db_schema := v\<rparr>)" by (rule revoked_same) simp
  qed (rule revoked_step, assumption, blast)
  then obtain c where c: "load_device (st_db v) i = Inr c" "dv_revoked_at c \<noteq> None" unfolding device_revoked_def by blast
  then have "\<exists>err. rotate_key C e2 i now2 v = (Inl err, v)" "snd (revoke_device commit2 i now2 v) = v"
    by (auto simp: rotate_key_def rotate_tx_def revoke_device_def revoke_tx_def update_tx_def)
  then show ?thesis using revoked_not_active [OF rv] by blast
qed

end
