(* ===== verification/Store_Demo.thy ===== *)
theory Store_Demo
  imports Store_Keys Demo
begin

text \<open>
  One run of the data base of the control plane: a code is created and redeemed, the key of the device is
  rotated and the device revoked. The closed examples of the properties of the store are read off it.
\<close>

definition demo_store_lib :: store_lib where
  "demo_store_lib = \<lparr> sl_sha256 = (\<lambda>b. b), sl_to_lower = (\<lambda>s. s) \<rparr>"

definition demo_pool :: prefix4 where
  "demo_pool = (0x0A4D0000, 24)"

definition demo_reserved :: "addr list" where
  "demo_reserved = [Addr4 0x0A4D0001]"

definition demo_store_env :: store_env where
  "demo_store_env = \<lparr> se_code = Some (replicate 24 7), se_client_id = Some demo_id, se_psk = Some demo_key,
     se_nonce = Some (replicate 12 3), se_skips = (\<lambda>_. False), se_commit = True \<rparr>"

definition demo_code :: string where
  "demo_code = activation_code (replicate 24 7)"

definition demo_st0 :: store where
  "demo_st0 = \<lparr> st_key = replicate 32 1, st_pool = demo_pool, st_reserved = demo_reserved,
     st_db = empty_database\<lparr>db_schema := Some ''1''\<rparr> \<rparr>"

definition demo_create :: store_event where
  "demo_create = CreateActivation demo_store_env ''u'' ''phone'' hour demo_time"

definition demo_activation :: activation where
  "demo_activation = \<lparr> ac_user_id = ''u'', ac_device_name = ''phone'', ac_created_at = demo_time,
     ac_expires_at = demo_time + hour, ac_used_at = None, ac_used_by = [] \<rparr>"

definition demo_st1 :: store where
  "demo_st1 = \<lparr> st_key = replicate 32 1, st_pool = demo_pool, st_reserved = demo_reserved,
     st_db = \<lparr> db_schema = Some ''1'', db_activations = [(bytes_of_string demo_code, Some demo_activation)],
       db_devices = [],
       db_audit = [(put_uint64 1, Some \<lparr> ae_type = ActivationCreated, ae_subject_id = [], ae_user_id = ''u'', ae_timestamp = demo_time \<rparr>)],
       db_audit_sequence = 1 \<rparr> \<rparr>"

lemma demo_create_step: "store_step demo_crypto demo_store_lib demo_st0 demo_create = demo_st1"
  by code_simp

definition demo_device :: device where
  "demo_device = \<lparr> dv_client_id = ''0102030405064708890a0b0c0d0e0f10'', dv_user_id = ''u'', dv_name = ''phone'',
     dv_platform = ''android'', dv_tunnel_address = ''10.77.0.2/24'', dv_created_at = demo_time, dv_updated_at = demo_time,
     dv_last_seen_at = None, dv_revoked_at = None \<rparr>"

definition demo_psk :: string where
  "demo_psk = ''AQIDBAUGBwgJCgsMDQ4PEBESExQVFhcYGRobHB0eHyA=''"

definition demo_st2 :: store where
  "demo_st2 = demo_st1\<lparr>st_db := \<lparr> db_schema = Some ''1'',
       db_activations = [(bytes_of_string demo_code, Some (demo_activation
         \<lparr>ac_used_at := Some demo_time, ac_used_by := ''0102030405064708890a0b0c0d0e0f10''\<rparr>))],
       db_devices = [(device_key ''0102030405064708890a0b0c0d0e0f10'', Some (device.extend demo_device
         \<lparr> sd_encrypted_psk = ''AwMDAwMDAwMDAwMDQVFJREJBVUdCd2dKQ2dzTURRNFBFQkVTRXhRVkZoY1lHUm9iSEIwZUh5QT0BAQEBAQEBAQEBAQEBAQEB'' \<rparr>))],
       db_audit = [(put_uint64 1, Some \<lparr> ae_type = ActivationCreated, ae_subject_id = [], ae_user_id = ''u'', ae_timestamp = demo_time \<rparr>),
         (put_uint64 2, Some \<lparr> ae_type = DeviceEnrolled, ae_subject_id = ''0102030405064708890a0b0c0d0e0f10'', ae_user_id = ''u'', ae_timestamp = demo_time \<rparr>)],
       db_audit_sequence = 2 \<rparr>\<rparr>"

lemma demo_enrolled: "enroll demo_crypto demo_store_lib demo_store_env demo_code [] ''android'' demo_time demo_st1
  = (Inr (demo_device, demo_psk), demo_st2)"
  by code_simp

lemma demo_store_env_wf [simp]: "wf_store_env demo_store_env"
  by (simp add: wf_store_env_def demo_store_env_def demo_id_def demo_key_def)

lemma demo_store0: "store_reachable demo_crypto demo_store_lib (replicate 32 1) demo_pool demo_reserved demo_st0"
proof (rule store_reachable.created [of _ _ _ True])
  show "open_store (replicate 32 1) (Some demo_pool) demo_reserved (Some empty_database) True = Inr demo_st0"
    by code_simp
qed

lemma demo_store1: "store_reachable demo_crypto demo_store_lib (replicate 32 1) demo_pool demo_reserved demo_st1"
  using store_reachable.operation [OF demo_store0, of demo_create] demo_create_step by (simp add: demo_create_def)

lemma demo_store2: "store_reachable demo_crypto demo_store_lib (replicate 32 1) demo_pool demo_reserved demo_st2"
proof -
  have "store_step demo_crypto demo_store_lib demo_st1 (Enroll demo_store_env demo_code [] ''android'' demo_time) = demo_st2"
    by (simp add: demo_enrolled)
  then show ?thesis using store_reachable.operation [OF demo_store1, of "Enroll demo_store_env demo_code [] ''android'' demo_time"]
    by (simp del: store_step.simps)
qed

theorem allocates_lowest_free_witness:
  "allocate_address demo_st2 (st_db demo_st2) = Inr 0x0A4D0003
   \<and> host_address demo_pool 0x0A4D0003 \<and> \<not> address_used demo_st2 (st_db demo_st2) 0x0A4D0003
   \<and> address_used demo_st2 (st_db demo_st2) 0x0A4D0002"
proof -
  have p: "st_pool demo_st2 = prefix4_masked demo_pool" by code_simp
  have d: "device_addresses (db_devices (st_db demo_st2)) \<noteq> None" by code_simp
  have a: "allocate_address demo_st2 (st_db demo_st2) = Inr 0x0A4D0003" by code_simp
  have h: "host_address demo_pool 0x0A4D0002" by (simp add: host_address_def pool_base_def pool_size_def demo_pool_def)
  have "(0x0A4D0002 :: u32) < 0x0A4D0003" by simp
  then show ?thesis using conjunct1 [OF allocates_lowest_free [OF p d], THEN spec, THEN iffD1, OF a] a h by blast
qed

theorem devices_consistent_witness:
  "\<exists>ds. list_devices demo_st2 = Inr ds \<and> distinct (map dv_client_id ds) \<and> distinct (map dv_tunnel_address ds)"
  using devices_consistent [OF gcm_laws_demo demo_store2] by blast

theorem credentials_exact_witness:
  "\<exists>cs ds. active_credentials demo_crypto demo_st2 = Inr cs \<and> list_devices demo_st2 = Inr ds
    \<and> map (\<lambda>c. (cl_client_id c, cl_name c, cl_tunnel_address c)) cs
        = map (\<lambda>d. (dv_client_id d, dv_name d, dv_tunnel_address d)) (filter (\<lambda>d. dv_revoked_at d = None) ds)
    \<and> (\<forall>c \<in> set cs. \<exists>key. parse_key (cl_psk c) = Inr key)"
  by (rule credentials_exact [OF gcm_laws_demo demo_store2])

theorem issued_key_active_witness:
  "\<exists>cs c. active_credentials demo_crypto demo_st2 = Inr cs \<and> c \<in> set cs
    \<and> cl_client_id c = ''0102030405064708890a0b0c0d0e0f10'' \<and> cl_psk c = demo_psk \<and> cl_tunnel_address c = ''10.77.0.2/24''"
  using issued_key_active [OF gcm_laws_demo demo_store1 demo_store_env_wf disjI1 [OF demo_enrolled]]
  by (auto simp: demo_device_def)

theorem code_redeemed_once_witness:
  "\<exists>err. enroll demo_crypto demo_store_lib demo_store_env demo_code ''other'' ''ios'' (demo_time + second) demo_st2 = (Inl err, demo_st2)"
  by (rule code_redeemed_once [OF gcm_laws_demo demo_store1 demo_enrolled store_run.start])

definition demo_st3 :: store where
  "demo_st3 = snd (revoke_device True ''0102030405064708890a0b0c0d0e0f10'' (demo_time + minute) demo_st2)"

lemma demo_revoked: "revoke_device True ''0102030405064708890a0b0c0d0e0f10'' (demo_time + minute) demo_st2
  = (Inr (demo_device\<lparr>dv_revoked_at := Some (demo_time + minute), dv_updated_at := demo_time + minute\<rparr>), demo_st3)"
proof -
  have "fst (revoke_device True ''0102030405064708890a0b0c0d0e0f10'' (demo_time + minute) demo_st2)
    = Inr (demo_device\<lparr>dv_revoked_at := Some (demo_time + minute), dv_updated_at := demo_time + minute\<rparr>)"
    by code_simp
  then show ?thesis by (simp add: demo_st3_def prod_eq_iff)
qed

theorem revoked_stays_revoked_witness:
  "''0102030405064708890a0b0c0d0e0f10''
      \<notin> cl_client_id ` set (case active_credentials demo_crypto demo_st3 of Inr cs \<Rightarrow> cs | Inl err \<Rightarrow> [])
   \<and> (\<exists>err. rotate_key demo_crypto demo_store_env ''0102030405064708890a0b0c0d0e0f10'' (demo_time + hour) demo_st3 = (Inl err, demo_st3))
   \<and> snd (revoke_device True ''0102030405064708890a0b0c0d0e0f10'' (demo_time + hour) demo_st3) = demo_st3"
proof -
  note r = revoked_stays_revoked [OF gcm_laws_demo demo_store2 demo_revoked store_run.start,
      where ?e2.0 = demo_store_env and ?now2.0 = "demo_time + hour" and ?commit2.0 = True]
  have "''0102030405064708890a0b0c0d0e0f10''
      \<notin> cl_client_id ` set (case active_credentials demo_crypto demo_st3 of Inr cs \<Rightarrow> cs | Inl err \<Rightarrow> [])"
  proof (cases "active_credentials demo_crypto demo_st3")
    case (Inr cs)
    then show ?thesis using r by simp
  qed simp
  then show ?thesis using r by blast
qed

end
