(* ===== verification/Service.thy ===== *)
theory Service
  imports Store Server
begin

text \<open>
  \<open>internal/controlplane/service.go\<close>: the HTTP interface of the control plane, its rate limiter, and (from
  \<open>runServer\<close> of \<open>cmd/linkforge/main.go\<close>) how it is connected to the relay. The handlers are given the
  request as \<open>net/http\<close> has read it: the path that \<open>ServeMux\<close> has cleaned, the headers the code looks
  at, and what \<open>decodeJSON\<close> makes of the body. The relay is reached through the two hooks only.
\<close>

section \<open>The rate limiter\<close>

record rate_window =
  rw_start :: gotime
  rw_count :: int

type_synonym rate_limiter = "(string \<times> rate_window) list"

definition zero_window :: rate_window where
  "zero_window = \<lparr> rw_start = zero_time, rw_count = 0 \<rparr>"

definition window_of :: "rate_limiter \<Rightarrow> string \<Rightarrow> rate_window" where
  "window_of r key = (case map_get r key of Some w \<Rightarrow> w | None \<Rightarrow> zero_window)"

definition drop_expired :: "duration \<Rightarrow> gotime \<Rightarrow> rate_limiter \<Rightarrow> rate_limiter" where
  "drop_expired d now r = filter (\<lambda>(k, w). time_sub now (rw_start w) < d) r"

definition allow :: "string \<Rightarrow> int \<Rightarrow> duration \<Rightarrow> gotime \<Rightarrow> rate_limiter \<Rightarrow> bool \<times> rate_limiter" where
  "allow key maximum d now r0 =
     (let r = (if 4096 \<le> length r0 then drop_expired d now r0 else r0); w = window_of r key in
      if 4096 \<le> length r0 \<and> map_get r key = None \<and> 4096 \<le> length r then (False, r)
      else if is_zero (rw_start w) \<or> d \<le> time_sub now (rw_start w)
        then (True, map_put r key \<lparr> rw_start = now, rw_count = 1 \<rparr>)
      else if maximum \<le> rw_count w then (False, r)
      else (True, map_put r key (w\<lparr>rw_count := rw_count w + 1\<rparr>)))"

section \<open>Requests and answers\<close>

record enrollment_request =
  er_code :: string
  er_device_name :: string
  er_platform :: string

record activation_request =
  ar_user_id :: string
  ar_device_name :: string
  ar_expires_in :: string

text \<open>\<open>rq_enrollment\<close> and \<open>rq_activation\<close>: what \<open>decodeJSON\<close> makes of the body, \<^const>\<open>None\<close> if it is not
  exactly one JSON object of that type with known fields only, or larger than 64 KiB.\<close>

record http_request =
  rq_method :: string
  rq_path :: string
  rq_remote :: string
  rq_authorization :: string
  rq_forwarded :: string
  rq_enrollment :: "enrollment_request option"
  rq_activation :: "activation_request option"

datatype reply_body =
    HealthBody
  | ErrorText string
  | StoreErrorText store_error
  | ActivationBody string gotime
  | DevicesBody "device list"
  | RevokedBody
  | ProfileBody client_config

record http_reply =
  rp_status :: nat
  rp_headers :: "(string \<times> string) list"
  rp_body :: reply_body

text \<open>What the standard library makes of texts: \<open>net.ParseIP\<close> (its second component the canonical text),
  \<open>time.ParseDuration\<close>.\<close>

record service_lib = store_lib +
  vl_split_host :: "string \<Rightarrow> string option"
  vl_parse_ip :: "string \<Rightarrow> (bool \<times> string) option"
  vl_parse_duration :: "string \<Rightarrow> duration option"

record service_env =
  ve_now :: gotime
  ve_store :: store_env
  ve_store_now :: gotime
  ve_revoke_now :: gotime
  ve_revoke_commit :: bool

record service =
  sr_settings :: management_config
  sr_store :: store
  sr_admin_token :: string
  sr_limiter :: rate_limiter

text \<open>The hooks act on a relay of any type.\<close>

record 'r hooks =
  hk_authorize :: "client_credential \<Rightarrow> 'r \<Rightarrow> bool \<times> 'r"
  hk_revoke :: "string \<Rightarrow> 'r \<Rightarrow> 'r"

type_synonym 'r served = "http_reply \<times> service \<times> 'r"

definition new_service :: "management_config \<Rightarrow> store \<Rightarrow> string \<Rightarrow> service option" where
  "new_service settings st adminToken =
     (if length adminToken < 32 then None
      else Some \<lparr> sr_settings = settings, sr_store = st, sr_admin_token = adminToken, sr_limiter = [] \<rparr>)"

fun authorize_stored :: "'r hooks \<Rightarrow> client_credential list \<Rightarrow> 'r \<Rightarrow> bool \<times> 'r" where
  "authorize_stored H [] relay = (True, relay)"
| "authorize_stored H (c # cs) relay =
     (let (ok, relay1) = hk_authorize H c relay in if ok then authorize_stored H cs relay1 else (False, relay1))"

definition load_credentials :: "crypto \<Rightarrow> 'r hooks \<Rightarrow> service \<Rightarrow> 'r \<Rightarrow> bool \<times> 'r" where
  "load_credentials C H s relay =
     (case active_credentials C (sr_store s) of Inl e \<Rightarrow> (False, relay) | Inr cs \<Rightarrow> authorize_stored H cs relay)"

section \<open>Answers\<close>

definition reply :: "nat \<Rightarrow> (string \<times> string) list \<Rightarrow> reply_body \<Rightarrow> http_reply" where
  "reply status headers body =
     \<lparr> rp_status = status, rp_headers = headers @ [(''Content-Type'', ''application/json'')], rp_body = body \<rparr>"

definition no_store :: "string \<times> string" where
  "no_store = (''Cache-Control'', ''no-store'')"

definition method_not_allowed :: "string \<Rightarrow> http_reply" where
  "method_not_allowed m = reply 405 [(''Allow'', m)] (ErrorText ''method not allowed'')"

definition client_address :: "service_lib \<Rightarrow> http_request \<Rightarrow> string" where
  "client_address V rq =
     (case vl_split_host V (rq_remote rq) of
        None \<Rightarrow> rq_remote rq
      | Some host \<Rightarrow>
          (case vl_parse_ip V host of
             Some (True, _) \<Rightarrow>
               let forwarded = trim_space (takeWhile (\<lambda>c. c \<noteq> CHR '','') (rq_forwarded rq)) in
               (case (if forwarded = [] then None else vl_parse_ip V forwarded) of
                  Some (_, text) \<Rightarrow> text
                | None \<Rightarrow> host)
           | _ \<Rightarrow> host))"

definition credential_for :: "device \<Rightarrow> string \<Rightarrow> client_credential" where
  "credential_for d psk =
     \<lparr> cl_name = dv_name d, cl_client_id = dv_client_id d, cl_psk = psk, cl_psk_env = [],
       cl_tunnel_address = dv_tunnel_address d \<rparr>"

definition profile_for :: "management_config \<Rightarrow> device \<Rightarrow> string \<Rightarrow> client_config" where
  "profile_for m d psk =
     \<lparr> cc_server = mg_public_relay m, cc_client_id = dv_client_id d, cc_psk = psk, cc_psk_env = [],
       cc_tunnel_name = ''LinkForge'', cc_tunnel_address = dv_tunnel_address d, cc_mtu = 1280, cc_paths = [],
       cc_auto_discover = True, cc_routes = [], cc_traffic_mode = ''all'', cc_configure_interface = True,
       cc_health_interval = 2 * second, cc_stats_interval = 15 * second, cc_handshake_timeout = 8 * second,
       cc_reorder_delay = 80 * millisecond, cc_reorder_window = 512,
       cc_logging = \<lparr> lc_level = ''info'', lc_format = ''json'' \<rparr>, cc_metrics_listen = ''127.0.0.1:9090'' \<rparr>"

section \<open>Handlers\<close>

definition health :: "http_request \<Rightarrow> http_reply" where
  "health rq = (if rq_method rq \<noteq> ''GET'' then method_not_allowed ''GET'' else reply 200 [] HealthBody)"

definition create_activation_handler :: "service_lib \<Rightarrow> service_env \<Rightarrow> http_request \<Rightarrow> service \<Rightarrow> http_reply \<times> service" where
  "create_activation_handler V e rq s =
     (if rq_method rq \<noteq> ''POST'' then (method_not_allowed ''POST'', s)
      else case rq_activation rq of
        None \<Rightarrow> (reply 400 [] (ErrorText ''invalid JSON''), s)
      | Some input \<Rightarrow>
          (case (if ar_expires_in input = [] then Some (duration_value (mg_activation_ttl (sr_settings s)) (15 * minute))
                 else vl_parse_duration V (ar_expires_in input)) of
             None \<Rightarrow> (reply 400 [] (ErrorText ''expires_in must be a duration such as 15m''), s)
           | Some ttl \<Rightarrow>
               (case create_activation (store_lib.truncate V) (ve_store e) (ar_user_id input) (ar_device_name input) ttl
                       (ve_store_now e) (sr_store s) of
                  (Inl err, st) \<Rightarrow> (reply 400 [] (StoreErrorText err), s\<lparr>sr_store := st\<rparr>)
                | (Inr (code, a), st) \<Rightarrow>
                    (reply 201 [no_store] (ActivationBody code (ac_expires_at a)), s\<lparr>sr_store := st\<rparr>))))"

definition enroll_handler ::
  "crypto \<Rightarrow> service_lib \<Rightarrow> 'r hooks \<Rightarrow> service_env \<Rightarrow> http_request \<Rightarrow> service \<Rightarrow> 'r \<Rightarrow> 'r served" where
  "enroll_handler C V H e rq s relay =
     (if rq_method rq \<noteq> ''POST'' then (method_not_allowed ''POST'', s, relay)
      else
        let (ok, limiter) = allow (client_address V rq) 20 minute (ve_now e) (sr_limiter s);
            s1 = s\<lparr>sr_limiter := limiter\<rparr> in
        if \<not> ok then (reply 429 [(''Retry-After'', ''60'')] (ErrorText ''too many enrollment attempts''), s1, relay)
        else case rq_enrollment rq of
          None \<Rightarrow> (reply 400 [] (ErrorText ''invalid JSON''), s1, relay)
        | Some input \<Rightarrow>
            (case enroll C (store_lib.truncate V) (ve_store e) (er_code input) (er_device_name input) (er_platform input)
                    (ve_store_now e) (sr_store s1) of
               (Inl ErrInvalidActivation, st) \<Rightarrow>
                 (reply 401 [] (StoreErrorText ErrInvalidActivation), s1\<lparr>sr_store := st\<rparr>, relay)
             | (Inl err, st) \<Rightarrow> (reply 500 [] (ErrorText ''enrollment failed''), s1\<lparr>sr_store := st\<rparr>, relay)
             | (Inr (d, psk), st) \<Rightarrow>
                 (case hk_authorize H (credential_for d psk) relay of
                    (False, relay1) \<Rightarrow>
                      (reply 500 [] (ErrorText ''device authorization failed''),
                       s1\<lparr>sr_store := snd (revoke_device (ve_revoke_commit e) (dv_client_id d) (ve_revoke_now e) st)\<rparr>, relay1)
                  | (True, relay1) \<Rightarrow>
                      (reply 201 [no_store] (ProfileBody (profile_for (sr_settings s) d psk)), s1\<lparr>sr_store := st\<rparr>, relay1))))"

text \<open>\<open>sort.Slice\<close> leaves devices that were created at the same time in an order of its own.\<close>

definition list_devices_handler :: "http_request \<Rightarrow> service \<Rightarrow> http_reply" where
  "list_devices_handler rq s =
     (if rq_method rq \<noteq> ''GET'' then method_not_allowed ''GET''
      else case list_devices (sr_store s) of
        Inl e \<Rightarrow> reply 500 [] (ErrorText ''could not list devices'')
      | Inr ds \<Rightarrow> reply 200 [] (DevicesBody (sort_key dv_created_at ds)))"

definition trim_char :: "char \<Rightarrow> string \<Rightarrow> string" where
  "trim_char c s = rev (dropWhile (\<lambda>x. x = c) (rev (dropWhile (\<lambda>x. x = c) s)))"

definition trim_prefix :: "string \<Rightarrow> string \<Rightarrow> string" where
  "trim_prefix s p = (if has_prefix s p then drop (length p) s else s)"

definition device_action ::
  "crypto \<Rightarrow> 'r hooks \<Rightarrow> service_env \<Rightarrow> http_request \<Rightarrow> service \<Rightarrow> 'r \<Rightarrow> 'r served" where
  "device_action C H e rq s relay =
     (let parts = split_on CHR ''/'' (trim_char CHR ''/'' (trim_prefix (rq_path rq) ''/v1/admin/devices/'')) in
      case parts of
        [] \<Rightarrow> (reply 404 [] (ErrorText ''device not found''), s, relay)
      | clientID # rest \<Rightarrow>
          if clientID = [] then (reply 404 [] (ErrorText ''device not found''), s, relay)
          else if rest = [] \<and> rq_method rq = ''DELETE'' then
            (case revoke_device (ve_revoke_commit e) clientID (ve_revoke_now e) (sr_store s) of
               (Inl ErrDeviceNotFound, st) \<Rightarrow> (reply 404 [] (StoreErrorText ErrDeviceNotFound), s\<lparr>sr_store := st\<rparr>, relay)
             | (Inl err, st) \<Rightarrow> (reply 500 [] (ErrorText ''could not revoke device''), s\<lparr>sr_store := st\<rparr>, relay)
             | (Inr d, st) \<Rightarrow> (reply 200 [] RevokedBody, s\<lparr>sr_store := st\<rparr>, hk_revoke H clientID relay))
          else if rest = [''rotate-key''] \<and> rq_method rq = ''POST'' then
            (case rotate_key C (ve_store e) clientID (ve_store_now e) (sr_store s) of
               (Inl ErrDeviceNotFound, st) \<Rightarrow> (reply 404 [] (StoreErrorText ErrDeviceNotFound), s\<lparr>sr_store := st\<rparr>, relay)
             | (Inl err, st) \<Rightarrow> (reply 400 [] (StoreErrorText err), s\<lparr>sr_store := st\<rparr>, relay)
             | (Inr (d, psk), st) \<Rightarrow>
                 (case hk_authorize H (credential_for d psk) relay of
                    (False, relay1) \<Rightarrow> (reply 500 [] (ErrorText ''could not activate rotated key''), s\<lparr>sr_store := st\<rparr>, relay1)
                  | (True, relay1) \<Rightarrow>
                      (reply 200 [no_store] (ProfileBody (profile_for (sr_settings s) d psk)), s\<lparr>sr_store := st\<rparr>, relay1)))
          else (reply 405 [(''Allow'', if rest = [] then ''DELETE'' else ''POST'')] (ErrorText ''method not allowed''), s, relay))"

section \<open>The routes\<close>

definition require_admin :: "http_request \<Rightarrow> ('r served) \<Rightarrow> service \<Rightarrow> 'r \<Rightarrow> 'r served" where
  "require_admin rq handled s relay =
     (let header = rq_authorization rq in
      if \<not> has_prefix header ''Bearer '' \<or> trim_prefix header ''Bearer '' \<noteq> sr_admin_token s
      then (reply 401 [no_store, (''WWW-Authenticate'', ''Bearer realm=\"linkforge-admin\"'')]
              (ErrorText ''admin authorization required''), s, relay)
      else case handled of (rp, s1, relay1) \<Rightarrow> (rp\<lparr>rp_headers := no_store # filter (\<lambda>h. fst h \<noteq> fst no_store) (rp_headers rp)\<rparr>, s1, relay1))"

text \<open>\<open>ServeMux\<close>: the exact patterns, then the subtree of a pattern that ends in a slash.\<close>

definition route ::
  "crypto \<Rightarrow> service_lib \<Rightarrow> 'r hooks \<Rightarrow> service_env \<Rightarrow> http_request \<Rightarrow> service \<Rightarrow> 'r \<Rightarrow> 'r served" where
  "route C V H e rq s relay =
     (if rq_path rq = ''/v1/healthz'' then (health rq, s, relay)
      else if rq_path rq = ''/v1/enroll'' then enroll_handler C V H e rq s relay
      else if rq_path rq = ''/v1/admin/activations'' then
        require_admin rq (let (rp, s1) = create_activation_handler V e rq s in (rp, s1, relay)) s relay
      else if rq_path rq = ''/v1/admin/devices'' then require_admin rq (list_devices_handler rq s, s, relay) s relay
      else if has_prefix (rq_path rq) ''/v1/admin/devices/'' then require_admin rq (device_action C H e rq s relay) s relay
      else (\<lparr> rp_status = 404, rp_headers = [(''Content-Type'', ''text/plain; charset=utf-8'')], rp_body = ErrorText ''404 page not found'' \<rparr>, s, relay))"

definition security_headers :: "(string \<times> string) list" where
  "security_headers =
     [(''Content-Security-Policy'', ''default-src '' @ [CHR 0x27] @ ''none'' @ [CHR 0x27]), (''X-Content-Type-Options'', ''nosniff''), (''Referrer-Policy'', ''no-referrer'')]"

definition serve ::
  "crypto \<Rightarrow> service_lib \<Rightarrow> 'r hooks \<Rightarrow> service_env \<Rightarrow> http_request \<Rightarrow> service \<Rightarrow> 'r \<Rightarrow> 'r served" where
  "serve C V H e rq s relay =
     (case route C V H e rq s relay of
        (rp, s1, relay1) \<Rightarrow> (rp\<lparr>rp_headers := security_headers @ rp_headers rp\<rparr>, s1, relay1))"

section \<open>The relay with its control plane\<close>

record app =
  ap_server :: server
  ap_service :: service

definition relay_hooks :: "net_lib \<Rightarrow> server hooks" where
  "relay_hooks L = \<lparr> hk_authorize = authorize_client L, hk_revoke = revoke_client \<rparr>"

text \<open>From \<open>runServer\<close>, for a configuration with a management section. The parse errors of the addresses are
  ignored by the code, the configuration was validated when it was loaded; \<open>ready\<close> is whether the tunnel
  device was opened and configured.\<close>

definition reserved_addresses :: "server_config \<Rightarrow> addr list" where
  "reserved_addresses c =
     Addr4 (fst (server_prefix c))
     # map (\<lambda>cl. case parse_prefix4 (cl_tunnel_address cl) of Some p \<Rightarrow> Addr4 (fst p) | None \<Rightarrow> Addr4 0) (sc_clients c)"

definition start_app ::
  "crypto \<Rightarrow> net_lib \<Rightarrow> server_config \<Rightarrow> database option \<Rightarrow> bool \<Rightarrow> bool \<Rightarrow> registry \<Rightarrow> app option" where
  "start_app C L c files commit ready registry =
     (case sc_management c of
        None \<Rightarrow> None
      | Some m \<Rightarrow>
          (case management_secrets L m of
             Inl e \<Rightarrow> None
           | Inr (token, masterKey) \<Rightarrow>
               (case open_store masterKey (parse_prefix4 (mg_tunnel_pool m)) (reserved_addresses c) files commit of
                  Inl e \<Rightarrow> None
                | Inr st \<Rightarrow>
                    if \<not> ready then None
                    else case new_server L c registry of
                      None \<Rightarrow> None
                    | Some server \<Rightarrow>
                        (case new_service m st token of
                           None \<Rightarrow> None
                         | Some service \<Rightarrow>
                             (case load_credentials C (relay_hooks L) service (set_client_seen_hook True server) of
                                (False, _) \<Rightarrow> None
                              | (True, server1) \<Rightarrow> Some \<lparr> ap_server = server1, ap_service = service \<rparr>)))))"

datatype app_event =
    HttpRequest service_env http_request
  | RelayStep env server_event
  | ClientSeenHook bool string gotime

definition app_step :: "crypto \<Rightarrow> net_lib \<Rightarrow> service_lib \<Rightarrow> app \<Rightarrow> app_event \<Rightarrow> app" where
  "app_step C L V a ev =
     (case ev of
        HttpRequest e rq \<Rightarrow>
          (case serve C V (relay_hooks L) e rq (ap_service a) (ap_server a) of
             (rp, s, relay) \<Rightarrow> \<lparr> ap_server = relay, ap_service = s \<rparr>)
      | RelayStep e sev \<Rightarrow> a\<lparr>ap_server := snd (server_step C L e (ap_server a) sev)\<rparr>
      | ClientSeenHook commit clientID now \<Rightarrow>
          a\<lparr>ap_service := (ap_service a)\<lparr>sr_store := snd (touch_device commit clientID now (sr_store (ap_service a)))\<rparr>\<rparr>)"

end
