(* ===== verification/Service_Limit.thy ===== *)
theory Service_Limit
  imports Service
begin

text \<open>
  The rate limiter of \<open>internal/controlplane/service.go\<close> counts in windows that start with the first request; what
  that promises for any interval of time, and the size of its table.
\<close>

section \<open>Runs\<close>

fun allowed_calls :: "int \<Rightarrow> duration \<Rightarrow> (string \<times> gotime) list \<Rightarrow> rate_limiter \<Rightarrow> (string \<times> gotime) list \<times> rate_limiter" where
  "allowed_calls maximum d [] r = ([], r)"
| "allowed_calls maximum d ((key, now) # calls) r =
     (let (ok, r1) = allow key maximum d now r; (passed, r2) = allowed_calls maximum d calls r1
      in (if ok then (key, now) # passed else passed, r2))"

definition times_of :: "string \<Rightarrow> (string \<times> gotime) list \<Rightarrow> gotime list" where
  "times_of key calls = map snd (filter (\<lambda>c. fst c = key) calls)"

abbreviation count_in :: "gotime \<Rightarrow> gotime \<Rightarrow> gotime list \<Rightarrow> nat" where
  "count_in lo hi ts \<equiv> length (filter (\<lambda>t. lo \<le> t \<and> t < hi) ts)"

section \<open>The table\<close>

lemma allow_unique: "keys_unique r \<Longrightarrow> keys_unique (snd (allow key m d now r))"
  by (auto simp: allow_def Let_def drop_expired_def)

lemma allow_length: "length r \<le> 4096 \<Longrightarrow> length (snd (allow key m d now r)) \<le> 4096"
proof -
  assume r: "length r \<le> 4096"
  let ?r = "if 4096 \<le> length r then drop_expired d now r else r"
  have le: "length ?r \<le> 4096"
  proof (cases "4096 \<le> length r")
    case True
    have "length (drop_expired d now r) \<le> length r" unfolding drop_expired_def by (rule length_filter_le)
    then show ?thesis using r by simp
  qed (use r in simp)
  have "map_get ?r key \<noteq> None \<or> length ?r < 4096 \<or> (4096 \<le> length r \<and> map_get ?r key = None \<and> 4096 \<le> length ?r)"
    by auto
  then have "length (map_put ?r key w) \<le> 4096 \<or> (4096 \<le> length r \<and> map_get ?r key = None \<and> 4096 \<le> length ?r)" for w
    using le by (auto simp: length_map_put map_get_None_iff)
  then show ?thesis using le by (auto simp: allow_def Let_def)
qed

section \<open>One key\<close>

text \<open>\<open>ts\<close> are the times at which calls of the key were allowed, \<open>st\<close> the start of its last window (which may
  have been deleted) and \<open>c\<close> the number of calls in it.\<close>

definition rate_inv :: "nat \<Rightarrow> duration \<Rightarrow> string \<Rightarrow> gotime list \<Rightarrow> gotime \<Rightarrow> rate_limiter \<Rightarrow> gotime \<Rightarrow> nat \<Rightarrow> bool" where
  "rate_inv m d key ts now r st c \<longleftrightarrow>
     keys_unique r
     \<and> (map_get r key = Some \<lparr> rw_start = st, rw_count = int c \<rparr> \<and> st \<noteq> 0 \<or> map_get r key = None \<and> st + d \<le> now)
     \<and> st \<le> now \<and> c \<le> m \<and> length (filter (\<lambda>t. st \<le> t) ts) \<le> c
     \<and> (\<forall>t \<in> set ts. t < st + d \<and> t \<le> now) \<and> count_in (st - d + 1) st ts \<le> m
     \<and> (\<forall>x. count_in x (x + d) ts \<le> 2 * m)"

lemma time_sub_ge: "d \<le> max_duration \<Longrightarrow> min_duration < d \<Longrightarrow> d \<le> time_sub now t \<longleftrightarrow> d \<le> now - t"
  by (auto simp: time_sub_def)

lemma filter_mono_length: "(\<And>x. x \<in> set xs \<Longrightarrow> P x \<Longrightarrow> Q x) \<Longrightarrow> length (filter P xs) \<le> length (filter Q xs)"
  by (induction xs) auto

lemma count_split: "count_in lo hi ts \<le> count_in lo mid ts + length (filter (\<lambda>t. mid \<le> t) ts)"
  by (induction ts) auto

text \<open>Another call counts against the window that is open, or opens one.\<close>

lemma rate_inv_same_window:
  assumes inv: "rate_inv m d key ts now0 r st c" and d: "0 < d" and c: "c < m" and now: "now0 \<le> now" "now < st + d"
    and r': "keys_unique r'" "map_get r' key = Some \<lparr> rw_start = st, rw_count = int (Suc c) \<rparr>" and st: "st \<noteq> 0"
  shows "rate_inv m d key (ts @ [now]) now r' st (Suc c)"
proof -
  have le: "st \<le> now" using inv now by (simp add: rate_inv_def)
  have "count_in x (x + d) (ts @ [now]) \<le> 2 * m" for x
  proof (cases "x \<le> now \<and> now < x + d")
    case True
    have "count_in x (x + d) ts \<le> count_in x st ts + length (filter (\<lambda>t. st \<le> t) ts)" by (rule count_split)
    moreover have "count_in x st ts \<le> count_in (st - d + 1) st ts"
      using True le by (intro filter_mono_length) auto
    ultimately show ?thesis using inv c True by (simp add: rate_inv_def)
  next
    case False
    then show ?thesis using inv by (auto simp: rate_inv_def)
  qed
  then show ?thesis using inv r' st le now d c by (auto simp: rate_inv_def)
qed

lemma rate_inv_new_window:
  assumes inv: "rate_inv m d key ts now0 r st c" and d: "0 < d" and m: "0 < m" and now: "now0 \<le> now" "st + d \<le> now" "now \<noteq> 0"
    and r': "keys_unique r'" "map_get r' key = Some \<lparr> rw_start = now, rw_count = 1 \<rparr>"
  shows "rate_inv m d key (ts @ [now]) now r' now 1"
proof -
  have none: "filter (\<lambda>t. now \<le> t) ts = []" using inv now by (auto simp: rate_inv_def filter_empty_conv)
  have prev: "count_in lo now ts \<le> m" if "now - d < lo" for lo
  proof -
    have "count_in lo now ts \<le> length (filter (\<lambda>t. st \<le> t) ts)"
      using that now by (intro filter_mono_length) auto
    then show ?thesis using inv by (simp add: rate_inv_def)
  qed
  have "count_in x (x + d) (ts @ [now]) \<le> 2 * m" for x
  proof (cases "x \<le> now \<and> now < x + d")
    case True
    have "count_in x (x + d) ts \<le> count_in x now ts + length (filter (\<lambda>t. now \<le> t) ts)" by (rule count_split)
    then show ?thesis using prev [of x] True none m by simp
  next
    case False
    then show ?thesis using inv by (auto simp: rate_inv_def)
  qed
  moreover have "\<forall>t \<in> set ts. t < now + d \<and> t \<le> now" using inv now d by (auto simp: rate_inv_def)
  moreover have "count_in (now - d + 1) now (ts @ [now]) \<le> m" using prev [of "now - d + 1"] by simp
  ultimately show ?thesis using none r' now m d by (auto simp: rate_inv_def)
qed

text \<open>Deleting expired windows.\<close>

lemma rate_inv_drop:
  assumes inv: "rate_inv m d key ts now0 r st c" and now: "now0 \<le> now" and d: "0 < d" "d \<le> max_duration"
  shows "rate_inv m d key ts now (drop_expired d now r) st c"
proof -
  have u: "keys_unique r" using inv by (simp add: rate_inv_def)
  have "map_get (drop_expired d now r) key
    = (case map_get r key of Some w \<Rightarrow> if time_sub now (rw_start w) < d then Some w else None | None \<Rightarrow> None)"
    unfolding drop_expired_def by (simp add: map_get_filter [OF u] split: option.splits)
  moreover have "time_sub now st < d \<longleftrightarrow> now < st + d"
    using time_sub_ge [of d now st] d by (auto simp: min_duration_def)
  ultimately show ?thesis
    using inv now by (auto simp: rate_inv_def drop_expired_def)
qed

lemma rate_inv_later:
  "rate_inv m d key ts now0 r st c \<Longrightarrow> now0 \<le> now \<Longrightarrow> rate_inv m d key ts now r st c"
  by (auto simp: rate_inv_def)

lemma rate_inv_other:
  "rate_inv m d key ts now r st c \<Longrightarrow> k \<noteq> key \<Longrightarrow> rate_inv m d key ts now (map_put r k w) st c"
  by (auto simp: rate_inv_def map_get_put)

lemma allow_cases:
  fixes r d now
  defines "r1 \<equiv> if 4096 \<le> length r then drop_expired d now r else r"
  assumes a: "allow k mx d now r = (ok, r')"
  shows "ok = False \<and> r' = r1
    \<or> ok \<and> (is_zero (rw_start (window_of r1 k)) \<or> d \<le> time_sub now (rw_start (window_of r1 k)))
        \<and> r' = map_put r1 k \<lparr> rw_start = now, rw_count = 1 \<rparr>
    \<or> ok \<and> \<not> (is_zero (rw_start (window_of r1 k)) \<or> d \<le> time_sub now (rw_start (window_of r1 k)))
        \<and> rw_count (window_of r1 k) < mx
        \<and> r' = map_put r1 k ((window_of r1 k)\<lparr>rw_count := rw_count (window_of r1 k) + 1\<rparr>)"
proof -
  define full where "full \<longleftrightarrow> 4096 \<le> length r \<and> map_get r1 k = None \<and> 4096 \<le> length r1"
  define reset where "reset \<longleftrightarrow> is_zero (rw_start (window_of r1 k)) \<or> d \<le> time_sub now (rw_start (window_of r1 k))"
  have "(ok, r') = (if full then (False, r1)
      else if reset then (True, map_put r1 k \<lparr> rw_start = now, rw_count = 1 \<rparr>)
      else if mx \<le> rw_count (window_of r1 k) then (False, r1)
      else (True, map_put r1 k ((window_of r1 k)\<lparr>rw_count := rw_count (window_of r1 k) + 1\<rparr>)))"
    unfolding a [symmetric] allow_def Let_def full_def reset_def r1_def ..
  then show ?thesis unfolding reset_def [symmetric] by (simp split: if_splits)
qed

lemma rate_inv_allow:
  assumes inv: "rate_inv m d key ts now0 r st c" and now: "now0 \<le> now" "0 < now" and d: "0 < d" "d \<le> max_duration" and m: "0 < m"
    and a: "allow k (int m) d now r = (ok, r')"
  shows "\<exists>st' c'. rate_inv m d key (if ok \<and> k = key then ts @ [now] else ts) now r' st' c'"
proof -
  define r1 where "r1 = (if 4096 \<le> length r then drop_expired d now r else r)"
  have inv1: "rate_inv m d key ts now r1 st c"
    using rate_inv_drop [OF inv now(1) d] rate_inv_later [OF inv now(1)] by (simp add: r1_def)
  have u: "keys_unique r1" using inv1 by (simp add: rate_inv_def)
  consider (full) "ok = False" "r' = r1" | (other) "k \<noteq> key" "\<exists>w. r' = map_put r1 k w"
    | (fresh) "ok" "k = key" "is_zero (rw_start (window_of r1 key)) \<or> d \<le> time_sub now (rw_start (window_of r1 key))"
        "r' = map_put r1 key \<lparr> rw_start = now, rw_count = 1 \<rparr>"
    | (again) "ok" "k = key" "\<not> (is_zero (rw_start (window_of r1 key)) \<or> d \<le> time_sub now (rw_start (window_of r1 key)))"
        "rw_count (window_of r1 key) < int m"
        "r' = map_put r1 key ((window_of r1 key)\<lparr>rw_count := rw_count (window_of r1 key) + 1\<rparr>)"
    using allow_cases [OF a] unfolding r1_def [symmetric] by (cases "k = key") blast+
  then show ?thesis
  proof cases
    case full
    then show ?thesis using inv1 by auto
  next
    case other
    then show ?thesis using rate_inv_other [OF inv1] by auto
  next
    case fresh
    have "st + d \<le> now"
    proof (cases "map_get r1 key")
      case None
      then show ?thesis using inv1 by (auto simp: rate_inv_def)
    next
      case (Some w)
      then have "rw_start (window_of r1 key) = st" "st \<noteq> 0" using inv1 by (auto simp: rate_inv_def window_of_def)
      then show ?thesis using fresh(3) d by (auto simp: is_zero_def zero_time_def time_sub_ge min_duration_def)
    qed
    then have "rate_inv m d key (ts @ [now]) now r' now 1"
      using now u by (intro rate_inv_new_window [OF inv1 d(1) m]) (simp_all add: fresh(4) map_get_put)
    then show ?thesis using fresh(1,2) by auto
  next
    case again
    have "map_get r1 key \<noteq> None" using again(3) by (auto simp: window_of_def zero_window_def is_zero_def split: option.splits)
    then have w: "window_of r1 key = \<lparr> rw_start = st, rw_count = int c \<rparr>" "st \<noteq> 0"
      using inv1 by (auto simp: rate_inv_def window_of_def)
    have "now < st + d" "c < m" using again(3,4) d by (auto simp: w(1) time_sub_ge min_duration_def)
    then have "rate_inv m d key (ts @ [now]) now r' st (Suc c)"
      using u w by (intro rate_inv_same_window [OF inv1 d(1)]) (simp_all add: again(5) map_get_put)
    then show ?thesis using again(1,2) by auto
  qed
qed

lemma rate_inv_run:
  assumes d: "0 < d" "d \<le> max_duration" and m: "0 < m"
  shows "rate_inv m d key ts now0 r st c \<Longrightarrow> sorted (map snd calls) \<Longrightarrow> \<forall>x \<in> set calls. now0 \<le> snd x \<and> 0 < snd x \<Longrightarrow>
    count_in x (x + d) (ts @ times_of key (fst (allowed_calls (int m) d calls r))) \<le> 2 * m"
proof (induction calls arbitrary: ts now0 r st c)
  case Nil
  then show ?case by (auto simp: rate_inv_def times_of_def)
next
  case (Cons call calls)
  obtain k now where call: "call = (k, now)" by (cases call)
  obtain ok r1 where a: "allow k (int m) d now r = (ok, r1)" by (cases "allow k (int m) d now r")
  obtain st' c' where inv: "rate_inv m d key (if ok \<and> k = key then ts @ [now] else ts) now r1 st' c'"
    using rate_inv_allow [OF Cons.prems(1) _ _ d m a] Cons.prems(3) call by auto
  have "\<forall>x \<in> set calls. now \<le> snd x \<and> 0 < snd x" using Cons.prems(2,3) by (auto simp: call)
  then have "count_in x (x + d) ((if ok \<and> k = key then ts @ [now] else ts) @ times_of key (fst (allowed_calls (int m) d calls r1))) \<le> 2 * m"
    using Cons.IH [OF inv] Cons.prems(2) by simp
  moreover have "ts @ times_of key (fst (allowed_calls (int m) d (call # calls) r))
    = (if ok \<and> k = key then ts @ [now] else ts) @ times_of key (fst (allowed_calls (int m) d calls r1))"
    by (simp add: call a times_of_def split: prod.splits)
  ultimately show ?case by simp
qed

lemma limiter_length:
  "length r \<le> 4096 \<Longrightarrow> length (snd (allowed_calls m d calls r)) \<le> 4096"
proof (induction calls arbitrary: r)
  case (Cons call calls)
  obtain k now where call: "call = (k, now)" by (cases call)
  have "length (snd (allow k m d now r)) \<le> 4096" by (rule allow_length [OF Cons.prems])
  then have "length (snd (allowed_calls m d calls (snd (allow k m d now r)))) \<le> 4096" by (rule Cons.IH)
  then show ?case
    by (cases "allow k m d now r"; cases "allowed_calls m d calls (snd (allow k m d now r))") (simp add: call)
qed simp

text \<open>C21: However requests arrive, no address passes the rate limiter of the enrolment interface more than
  40 times in any minute, and the table never holds more than 4096 addresses.\<close>

theorem enrollment_rate_bounded:
  assumes "sorted (map snd calls)" and "\<forall>c \<in> set calls. 0 < snd c"
  shows "count_in x (x + minute) (times_of key (fst (allowed_calls 20 minute calls []))) \<le> 40
    \<and> length (snd (allowed_calls 20 minute calls [])) \<le> 4096"
proof
  have d: "0 < minute" "minute \<le> max_duration" by (simp_all add: minute_def max_duration_def)
  have m: "0 < (20 :: nat)" by simp
  define now0 :: gotime where "now0 = 0"
  have "rate_inv 20 minute key [] now0 [] (now0 - minute) 0" using d by (simp add: rate_inv_def)
  from rate_inv_run [OF d m this assms(1), of x] assms(2)
  show "count_in x (x + minute) (times_of key (fst (allowed_calls 20 minute calls []))) \<le> 40"
    by (simp add: now0_def less_imp_le)
  show "length (snd (allowed_calls 20 minute calls [])) \<le> 4096" by (rule limiter_length) simp
qed

theorem enrollment_rate_bounded_witness:
  "count_in 7 (7 + minute) (times_of ''a'' (fst (allowed_calls 20 minute [(''a'', 5), (''b'', 6), (''a'', 7)] []))) \<le> 40
    \<and> length (snd (allowed_calls 20 minute [(''a'', 5), (''b'', 6), (''a'', 7)] [])) \<le> 4096"
  by (rule enrollment_rate_bounded) simp_all

end
