(* ===== verification/Server_Access.thy ===== *)
theory Server_Access
  imports Server_Handshake Store_Keys
begin

text \<open>
  Who may use the relay: the table of credentials changes by \<open>AuthorizeClient\<close> and \<open>RevokeClient\<close> only
  (\<open>internal/engine/server.go\<close>). The control plane knows the relay by these two operations; the locale
  \<open>relay_access\<close> states what it relies on, and the relay provides it.
\<close>

section \<open>The table changes by the hooks only\<close>

abbreviation same_credentials :: "server \<Rightarrow> server \<Rightarrow> bool" where
  "same_credentials s t \<equiv> sv_credentials t = sv_credentials s \<and> sv_config t = sv_config s"

lemma detach_credentials: "same_credentials s (detach_session r s)"
  by (simp add: detach_session_def Let_def)

lemma mark_credentials: "same_credentials s (mark_closing r s)"
  by (simp add: mark_closing_def)

lemma retire_credentials: "same_credentials s (retire_paths r s)"
  by (simp add: retire_paths_def)

lemmas end_credentials = detach_credentials mark_credentials retire_credentials

lemma terminate_credentials:
  "same_credentials s (terminate_client_session n s)" "same_credentials s (terminate_if_current r s)"
  by (simp_all add: terminate_client_session_def terminate_if_current_def end_credentials split: option.splits)

lemma create_credentials: "same_credentials s (snd (snd (get_or_create_session e cred h s)))"
  by (auto simp: get_or_create_session_def Let_def end_credentials split: option.splits)

lemma write_error_credentials: "same_credentials s (record_write_error r p s)"
  by (simp add: record_write_error_def)

lemma remove_path_credentials: "same_credentials s (snd (remove_path r p s))"
  by (simp add: remove_path_def Let_def)

lemma repeat_credentials: "same_credentials s (snd (repeat_welcome e remote r p s))"
  by (simp add: repeat_welcome_def write_error_credentials)

lemma register_credentials: "same_credentials s (snd (register_path C e remote cred h r s))"
proof -
  have t: "same_credentials u (snd (let (empty, v) = remove_path r p (record_write_error r p u)
      in ([] :: server_output list, if empty then terminate_if_current r v else v)))" for p u
    using remove_path_credentials [where s = "record_write_error r p u" and r = r and p = p]
    by (auto simp: terminate_credentials write_error_credentials split: prod.splits)
  show ?thesis
    unfolding register_path_def Let_def [of "ss_next_path_id (session_at s r) + 1"]
    by (auto simp: Let_def t [unfolded Let_def] split: sum.splits if_splits)
qed

lemma hello_credentials: "same_credentials s (snd (handle_hello C e remote packet s))"
proof -
  have "same_credentials s (snd (case get_or_create_session e cred h s of
      (None, outs, s1) \<Rightarrow> (outs, s1)
    | (Some r, outs, s1) \<Rightarrow>
        let (outs', s2) = (case path_for_nonce (session_at s1 r) (hello_nonce h) of
              Some p \<Rightarrow> repeat_welcome e remote r p s1
            | None \<Rightarrow> register_path C e remote cred h r s1)
        in (outs @ outs', s2)))" for cred h
  proof -
    obtain ro outs s1 where g: "get_or_create_session e cred h s = (ro, outs, s1)" by (cases "get_or_create_session e cred h s")
    have s1: "same_credentials s s1" using create_credentials [where s = s and e = e and cred = cred and h = h] by (simp add: g)
    show ?thesis
      using s1 repeat_credentials [where s = s1] register_credentials [where s = s1]
      by (auto simp: g split: option.splits prod.splits) (metis snd_conv)+
  qed
  then show ?thesis
    by (auto simp: handle_hello_def split: sum.splits option.splits)
qed

lemma send_credentials: "same_credentials s (snd (snd (send_or_record C e r p t payload s)))"
  by (auto simp: send_or_record_def send_path_def Let_def write_error_credentials split: sum.splits option.splits)

lemma write_credentials: "same_credentials s (snd (write_packets ok i ps s))"
proof (induction ok i ps s rule: write_packets.induct)
  case (2 ok i p ps s)
  then show ?case by (auto simp: Let_def split: prod.splits)
qed simp

lemma deliver_credentials: "same_credentials s (snd (deliver e r res s))"
  unfolding deliver_def using write_credentials by simp

lemma encrypted_credentials: "same_credentials s (snd (handle_encrypted C e remote h packet s))"
proof -
  have p: "same_credentials u (snd (handle_payload C e r p t payload u))" for r p t payload u
    using remove_path_credentials [where s = u and r = r and p = p] deliver_credentials send_credentials
    by (auto simp: handle_payload_def Let_def terminate_credentials split: sum.splits prod.splits)
  show ?thesis
    by (auto simp: handle_encrypted_def Let_def p split: option.splits sum.splits prod.splits)
qed

lemma tun_credentials: "same_credentials s (snd (tun_packet C e packet s))"
proof -
  have "same_credentials u (snd (let (ok, outs, s3) = send_or_record C e r p TypeData payload u
      in (outs, if ok then update_metrics (count_sent n) s3 else s3)))" for u r p payload n
    using send_credentials [where s = u and C = C and e = e and r = r and p = p and t = TypeData and payload = payload] by (auto split: prod.splits)
  then show ?thesis
    by (auto simp: tun_packet_def Let_def split: option.splits sum.splits prod.splits)
qed

lemma flush_credentials: "same_credentials s (snd (flush_sessions e now rs s))"
proof (induction rs arbitrary: s)
  case (Cons r rs)
  let ?f = "flush_expired (ss_reorder (session_at s r)) now (ev_clock e r)"
  let ?u = "update_session r (\<lambda>ss. ss\<lparr>ss_reorder := snd ?f\<rparr>) s"
  have "same_credentials s (snd (deliver e r (fst ?f) ?u))"
    using deliver_credentials [where s = ?u and e = e and r = r and res = "fst ?f"] by simp
  then show ?case using Cons.IH [where s = "snd (deliver e r (fst ?f) ?u)"] by (auto split: prod.splits)
qed simp

lemma janitor_credentials: "same_credentials s (janitor_tick now s)"
proof -
  have "same_credentials u (expire_session now u x)" for u x
    by (cases x) (simp add: expire_session_def Let_def expire_paths_def)
  then have "same_credentials s (foldl (expire_session now) s xs)" for xs
    by (induction xs arbitrary: s) auto
  then show ?thesis by (simp add: janitor_tick_def)
qed

definition own_step :: "server_event \<Rightarrow> bool" where
  "own_step ev \<longleftrightarrow> (case ev of Authorize c \<Rightarrow> False | Revoke i \<Rightarrow> False | SetHook b \<Rightarrow> False | _ \<Rightarrow> True)"

lemma own_step_credentials: "own_step ev \<Longrightarrow> same_credentials s (snd (server_step C L e s ev))"
  by (cases ev)
    (auto simp: own_step_def receive_datagram_def hello_credentials encrypted_credentials tun_credentials
      reorder_tick_def flush_credentials janitor_credentials split: sum.splits)

end
