(* ===== verification/Service_Contract.thy ===== *)
theory Service_Contract
  imports Service Server_Access
begin

text \<open>
  What the control plane relies on when it calls the hooks of \<open>internal/controlplane/service.go\<close>, as the locale
  \<open>relay_access\<close>, and what follows for its handlers: data base and relay stay in step. The relay of
  \<open>internal/engine/server.go\<close> provides it.
\<close>

section \<open>In step\<close>

text \<open>For every identifier: an active device of the data base is admitted with its tunnel address, a revoked
  one is not, and an identifier the data base does not know is admitted if the configuration names it.\<close>

definition ip_of_text :: "string \<Rightarrow> u32 option" where
  "ip_of_text s = map_option fst (parse_prefix4 s)"

definition slot_ok :: "bool \<Rightarrow> (bytes \<times> addr) option \<Rightarrow> store_error + stored_device \<Rightarrow> bool" where
  "slot_ok static access slot \<longleftrightarrow>
     (case slot of
        Inl e \<Rightarrow> access \<noteq> None \<longleftrightarrow> static
      | Inr d \<Rightarrow> \<not> static
          \<and> (if dv_revoked_at d = None
             then \<exists>key a. access = Some (key, Addr4 a) \<and> ip_of_text (dv_tunnel_address d) = Some a
             else access = None))"

definition in_step :: "(string \<Rightarrow> (bytes \<times> addr) option) \<Rightarrow> string set \<Rightarrow> store \<Rightarrow> bool" where
  "in_step adm static st \<longleftrightarrow> (\<forall>i. slot_ok (i \<in> static) (adm i) (load_device (st_db st) i))"

definition active_device :: "store \<Rightarrow> string \<Rightarrow> bool" where
  "active_device st i \<longleftrightarrow> (\<exists>d. load_device (st_db st) i = Inr d \<and> dv_revoked_at d = None)"

lemma in_step_admitted: "in_step adm static st \<Longrightarrow> adm i \<noteq> None \<longleftrightarrow> i \<in> static \<or> active_device st i"
proof -
  assume "in_step adm static st"
  then have "slot_ok (i \<in> static) (adm i) (load_device (st_db st) i)" by (simp add: in_step_def)
  then show ?thesis
    by (cases "load_device (st_db st) i") (auto simp: slot_ok_def active_device_def split: if_splits)
qed

lemma in_step_update:
  assumes "in_step adm static st" and "\<And>j. load_device (st_db st') j = (if j = i then slot else load_device (st_db st) j)"
    and "slot_ok (i \<in> static) access slot"
  shows "in_step (adm(i := access)) static st'"
  using assms by (auto simp: in_step_def)

lemma in_step_store:
  assumes "in_step adm static st" and "\<And>j. load_device (st_db st') j = (if j = i then slot else load_device (st_db st) j)"
    and "slot_ok (i \<in> static) (adm i) slot"
  shows "in_step adm static st'"
  using assms by (auto simp: in_step_def)

lemma in_step_same: "in_step adm static st \<Longrightarrow> db_devices (st_db st') = db_devices (st_db st) \<Longrightarrow> in_step adm static st'"
  by (simp add: in_step_def load_device_def)

section \<open>What a stored device looks like to the relay\<close>

definition good_credential :: "client_credential \<Rightarrow> bool" where
  "good_credential c \<longleftrightarrow>
     (\<exists>i. length i = 16 \<and> cl_client_id c = client_id_string i) \<and> cl_psk_env c = []
     \<and> (\<exists>key. parse_key (cl_psk c) = Inr key) \<and> (\<exists>a. ip_of_text (cl_tunnel_address c) = Some a)"

lemma device_ok_address: "store_inv C s \<Longrightarrow> device_ok C s d \<Longrightarrow> \<exists>a. ip_of_text (dv_tunnel_address d) = Some a"
  by (auto simp: store_inv_def device_ok_def ip_of_text_def)

lemma device_credential:
  assumes "store_inv C s" "load_device (st_db s) i = Inr d" "dv_client_id e = dv_client_id d" "dv_tunnel_address e = dv_tunnel_address d"
    and "parse_key psk = Inr key"
  shows "good_credential (credential_for e psk) \<and> cl_client_id (credential_for e psk) = i"
proof -
  have d: "device_ok C s d" "i = dv_client_id d" using loaded_ok [OF assms(1,2)] by auto
  then show ?thesis
    using device_ok_address [OF assms(1) d(1)] assms(3-5) by (auto simp: good_credential_def credential_for_def device_ok_def)
qed

section \<open>What the handlers do\<close>

text \<open>Answers that tell nothing but an error or the program's health.\<close>

fun plain_body :: "reply_body \<Rightarrow> bool" where
  "plain_body HealthBody = True"
| "plain_body (ErrorText t) = True"
| "plain_body (StoreErrorText e) = True"
| "plain_body (ActivationBody code t) = False"
| "plain_body (DevicesBody ds) = False"
| "plain_body RevokedBody = False"
| "plain_body (ProfileBody p) = False"

lemma enroll_fails_same: "enroll C L e code n p now s = (Inl err, t) \<Longrightarrow> t = s"
  using enroll_cases by blast

lemma rotate_fails_same: "rotate_key C e i now s = (Inl err, t) \<Longrightarrow> t = s"
  using rotate_cases by blast

lemma revoke_fails_same: "revoke_device commit i now s = (Inl err, t) \<Longrightarrow> t = s"
  using revoke_cases by blast

lemma enroll_handler_cases:
  assumes "enroll_handler C V H e rq s r = (rp, s', r')"
  shows "(\<exists>lm. s' = s\<lparr>sr_limiter := lm\<rparr> \<and> r' = r \<and> rp_status rp \<noteq> 201 \<and> plain_body (rp_body rp))
    \<or> (\<exists>lm input d psk st ok. rq_method rq = ''POST'' \<and> rq_enrollment rq = Some input
        \<and> enroll C (store_lib.truncate V) (ve_store e) (er_code input) (er_device_name input) (er_platform input)
            (ve_store_now e) (sr_store s) = (Inr (d, psk), st)
        \<and> hk_authorize H (credential_for d psk) r = (ok, r')
        \<and> (ok \<and> rp = reply 201 [no_store] (ProfileBody (profile_for (sr_settings s) d psk))
               \<and> s' = s\<lparr>sr_limiter := lm, sr_store := st\<rparr>
           \<or> \<not> ok \<and> rp_status rp = 500 \<and> plain_body (rp_body rp)
               \<and> s' = s\<lparr>sr_limiter := lm, sr_store := snd (revoke_device (ve_revoke_commit e) (dv_client_id d) (ve_revoke_now e) st)\<rparr>))"
proof (cases "rq_method rq = ''POST''")
  case post: True
  obtain ok lm where l: "allow (client_address V rq) 20 minute (ve_now e) (sr_limiter s) = (ok, lm)"
    by (cases "allow (client_address V rq) 20 minute (ve_now e) (sr_limiter s)")
  show ?thesis
  proof (cases "ok \<and> rq_enrollment rq \<noteq> None")
    case False
    then show ?thesis using assms post l
      by (intro disjI1 exI [of _ lm]) (auto simp: enroll_handler_def Let_def reply_def split: if_splits option.splits)
  next
    case True
    then obtain input where i: "ok" "rq_enrollment rq = Some input" by blast
    obtain res st where x: "enroll C (store_lib.truncate V) (ve_store e) (er_code input) (er_device_name input) (er_platform input)
        (ve_store_now e) (sr_store s) = (res, st)" by (rule prod.exhaust)
    show ?thesis
    proof (cases res)
      case (Inl err)
      have "st = sr_store s" using enroll_fails_same x Inl by blast
      then show ?thesis using assms post l i x Inl
        by (intro disjI1 exI [of _ lm]) (auto simp: enroll_handler_def Let_def reply_def split: store_error.splits)
    next
      case (Inr y)
      obtain d psk where y: "y = (d, psk)" by (cases y)
      obtain ok2 r1 where a: "hk_authorize H (credential_for d psk) r = (ok2, r1)" by (cases "hk_authorize H (credential_for d psk) r")
      show ?thesis using assms post l i x Inr y a
        by (intro disjI2 exI [of _ lm] exI [of _ input] exI [of _ d] exI [of _ psk] exI [of _ st] exI [of _ ok2])
          (cases ok2; auto simp: enroll_handler_def Let_def reply_def)
    qed
  qed
next
  case False
  then show ?thesis using assms
    by (intro disjI1 exI [of _ "sr_limiter s"]) (auto simp: enroll_handler_def Let_def method_not_allowed_def reply_def)
qed

text \<open>Of the device routes, only a revocation and a rotation that the data base has accepted change anything.\<close>

lemma device_action_cases:
  assumes "device_action C H e rq s r = (rp, s', r')"
  shows "(s' = s \<and> r' = r \<and> rp_status rp \<notin> {200, 201} \<and> plain_body (rp_body rp))
    \<or> (\<exists>i d st. revoke_device (ve_revoke_commit e) i (ve_revoke_now e) (sr_store s) = (Inr d, st)
        \<and> s' = s\<lparr>sr_store := st\<rparr> \<and> r' = hk_revoke H i r \<and> rp = reply 200 [] RevokedBody
        \<and> split_on CHR ''/'' (trim_char CHR ''/'' (trim_prefix (rq_path rq) ''/v1/admin/devices/'')) = [i])
    \<or> (\<exists>i d psk st ok. rotate_key C (ve_store e) i (ve_store_now e) (sr_store s) = (Inr (d, psk), st)
        \<and> s' = s\<lparr>sr_store := st\<rparr> \<and> hk_authorize H (credential_for d psk) r = (ok, r')
        \<and> (ok \<longrightarrow> rp = reply 200 [no_store] (ProfileBody (profile_for (sr_settings s) d psk))) \<and> (\<not> ok \<longrightarrow> rp_status rp = 500 \<and> plain_body (rp_body rp)))"
proof -
  define parts where "parts = split_on CHR ''/'' (trim_char CHR ''/'' (trim_prefix (rq_path rq) ''/v1/admin/devices/''))"
  note run = assms [unfolded device_action_def Let_def, folded parts_def]
  consider (none) "parts = [] \<or> hd parts = []"
    | (delete) i where "parts = [i]" "i \<noteq> []" "rq_method rq = ''DELETE''"
    | (rotate) i where "parts = [i, ''rotate-key'']" "i \<noteq> []" "rq_method rq = ''POST''"
    | (other) i rest where "parts = i # rest" "i \<noteq> []" "\<not> (rest = [] \<and> rq_method rq = ''DELETE'')"
        "\<not> (rest = [''rotate-key''] \<and> rq_method rq = ''POST'')"
    by (cases parts) fastforce+
  then show ?thesis
  proof cases
    case none
    then show ?thesis using run by (cases parts) (auto simp: reply_def)
  next
    case delete
    obtain res st where x: "revoke_device (ve_revoke_commit e) i (ve_revoke_now e) (sr_store s) = (res, st)" by (rule prod.exhaust)
    show ?thesis
    proof (cases res)
      case (Inl err)
      have "st = sr_store s" using revoke_fails_same x Inl by blast
      then show ?thesis using run delete x Inl by (auto simp: reply_def split: store_error.splits)
    next
      case (Inr d)
      then show ?thesis using run delete x unfolding parts_def [symmetric] by (intro disjI2 disjI1) auto
    qed
  next
    case rotate
    obtain res st where x: "rotate_key C (ve_store e) i (ve_store_now e) (sr_store s) = (res, st)" by (rule prod.exhaust)
    show ?thesis
    proof (cases res)
      case (Inl err)
      have "st = sr_store s" using rotate_fails_same x Inl by blast
      then show ?thesis using run rotate x Inl by (auto simp: reply_def split: store_error.splits)
    next
      case (Inr y)
      obtain d psk where y: "y = (d, psk)" by (cases y)
      obtain ok r1 where a: "hk_authorize H (credential_for d psk) r = (ok, r1)" by (cases "hk_authorize H (credential_for d psk) r")
      show ?thesis using run rotate x Inr y a by (intro disjI2 exI [of _ i] exI [of _ d] exI [of _ psk] exI [of _ st] exI [of _ ok]) (cases ok; auto simp: reply_def)
    qed
  next
    case other
    then show ?thesis using run by (auto simp: reply_def)
  qed
qed

text \<open>A request of the administration interface without the token changes nothing; what is left of a
  request that gets through.\<close>

lemma require_admin_cases:
  assumes "require_admin rq handled s r = (rp, s', r')"
  shows "(s' = s \<and> r' = r \<and> rp_status rp = 401 \<and> plain_body (rp_body rp))
    \<or> (rq_authorization rq = ''Bearer '' @ sr_admin_token s \<and> (\<exists>rp0. handled = (rp0, s', r') \<and> rp_status rp = rp_status rp0 \<and> rp_body rp = rp_body rp0))"
proof -
  have pre: "rq_authorization rq = ''Bearer '' @ trim_prefix (rq_authorization rq) ''Bearer ''" if "has_prefix (rq_authorization rq) ''Bearer ''"
    by (metis append_take_drop_id has_prefix_def trim_prefix_def that)
  obtain rp0 s0 r0 where h: "handled = (rp0, s0, r0)" by (cases handled)
  show ?thesis
  proof (cases "has_prefix (rq_authorization rq) ''Bearer '' \<and> trim_prefix (rq_authorization rq) ''Bearer '' = sr_admin_token s")
    case True
    then have "rq_authorization rq = ''Bearer '' @ sr_admin_token s" using pre by metis
    then show ?thesis using assms True h by (intro disjI2) (auto simp: require_admin_def Let_def)
  next
    case False
    then show ?thesis using assms by (intro disjI1) (auto simp: require_admin_def Let_def reply_def split: if_splits)
  qed
qed

lemma serve_cases:
  assumes "serve C V H e rq s r = (rp, s', r')"
  obtains (none) "s' = s" "r' = r" "rp_status rp \<noteq> 201"
      "plain_body (rp_body rp) \<or> rq_authorization rq = ''Bearer '' @ sr_admin_token s \<and> (\<exists>ds. rp_body rp = DevicesBody ds)"
  | (enrolling) rp0 where "rq_path rq = ''/v1/enroll''" "enroll_handler C V H e rq s r = (rp0, s', r')"
      "rp_status rp = rp_status rp0" "rp_body rp = rp_body rp0"
  | (activating) rp0 where "rq_path rq = ''/v1/admin/activations''" "rq_authorization rq = ''Bearer '' @ sr_admin_token s"
      "create_activation_handler V e rq s = (rp0, s')" "r' = r" "rp_body rp = rp_body rp0"
  | (acting) rp0 where "has_prefix (rq_path rq) ''/v1/admin/devices/''" "rq_authorization rq = ''Bearer '' @ sr_admin_token s"
      "device_action C H e rq s r = (rp0, s', r')" "rp_status rp = rp_status rp0" "rp_body rp = rp_body rp0"
proof -
  obtain rp0 where rt: "route C V H e rq s r = (rp0, s', r')" "rp_status rp = rp_status rp0" "rp_body rp = rp_body rp0"
    using assms by (auto simp: serve_def split: prod.splits)
  consider (h) "rq_path rq = ''/v1/healthz''" | (e) "rq_path rq = ''/v1/enroll''"
    | (a) "rq_path rq = ''/v1/admin/activations''" | (l) "rq_path rq = ''/v1/admin/devices''"
    | (d) "has_prefix (rq_path rq) ''/v1/admin/devices/''"
        "rq_path rq \<notin> {''/v1/healthz'', ''/v1/enroll'', ''/v1/admin/activations'', ''/v1/admin/devices''}"
    | (o) "\<not> has_prefix (rq_path rq) ''/v1/admin/devices/''"
        "rq_path rq \<notin> {''/v1/healthz'', ''/v1/enroll'', ''/v1/admin/activations'', ''/v1/admin/devices''}"
    by blast
  then show thesis
  proof cases
    case h
    then show thesis using rt by (intro none) (auto simp: route_def health_def method_not_allowed_def reply_def split: if_splits)
  next
    case e
    then show thesis using rt by (intro enrolling) (auto simp: route_def)
  next
    case a
    obtain rp1 s1 where c: "create_activation_handler V e rq s = (rp1, s1)" by (cases "create_activation_handler V e rq s")
    have "require_admin rq (rp1, s1, r) s r = (rp0, s', r')" using rt(1) a c by (simp add: route_def)
    then show thesis using require_admin_cases [of rq "(rp1, s1, r)"] none activating a c rt(2,3) by fastforce
  next
    case l
    have "require_admin rq (list_devices_handler rq s, s, r) s r = (rp0, s', r')" using rt(1) l by (simp add: route_def)
    then have "s' = s \<and> r' = r \<and> (rp_status rp0 = 401 \<and> plain_body (rp_body rp0)
        \<or> rq_authorization rq = ''Bearer '' @ sr_admin_token s \<and> rp_status rp0 = rp_status (list_devices_handler rq s)
          \<and> rp_body rp0 = rp_body (list_devices_handler rq s))"
      using require_admin_cases by fastforce
    moreover have "rp_status (list_devices_handler rq s) \<noteq> 201
        \<and> (plain_body (rp_body (list_devices_handler rq s)) \<or> (\<exists>ds. rp_body (list_devices_handler rq s) = DevicesBody ds))"
      by (auto simp: list_devices_handler_def method_not_allowed_def reply_def split: sum.splits)
    ultimately show thesis using none rt(2,3) by auto
  next
    case d
    have "require_admin rq (device_action C H e rq s r) s r = (rp0, s', r')" using rt(1) d by (simp add: route_def)
    then show thesis
      using require_admin_cases [of rq "device_action C H e rq s r" s r rp0 s' r'] none acting d(1) rt(2,3) by fastforce
  next
    case o
    then show thesis using rt by (intro none) (auto simp: route_def)
  qed
qed

section \<open>The device that an operation changes\<close>

lemma enrolled_slot:
  assumes C: "gcm_laws C" and inv: "store_inv C s" and w: "wf_store_env e" and r: "enroll C L e code n p now s = (Inr (d, psk), t)"
  shows "\<exists>c. (\<forall>j. load_device (st_db t) j = (if j = dv_client_id d then Inr c else load_device (st_db s) j))
    \<and> good_credential (credential_for d psk) \<and> dv_revoked_at c = None \<and> dv_tunnel_address c = dv_tunnel_address d
    \<and> generate_client_id (se_client_id e) = Inr (dv_client_id d) \<and> store_inv C t"
proof -
  obtain c db n' p' where tx: "enroll_tx C L e s code n' p' now (st_db s) = Inr ((c, psk), db)" and d: "d = device.truncate c"
    and t: "t = s\<lparr>st_db := db\<rparr>" by (rule enroll_success [OF r])
  obtain a b ev where x: "se_client_id e = Some b" "generate_client_id (Some b) = Inr (dv_client_id c)"
    "dv_revoked_at c = None" "db = append_audit ev ((put_device c (st_db s))\<lparr>db_activations := bucket_put (db_activations (st_db s)) (code_hash L code)
           (a\<lparr>ac_used_at := Some now, ac_used_by := dv_client_id c\<rparr>)\<rparr>)"
    using enroll_tx_success [OF tx] by (elim exE conjE) (rule that)
  have inv': "store_inv C t" by (rule enroll_inv [OF C inv w r])
  have l: "load_device (st_db t) j = (if j = dv_client_id c then Inr c else load_device (st_db s) j)" for j
    unfolding t store_fields_db by (rule load_device_put) (simp add: x(4))
  have same: "dv_client_id d = dv_client_id c" "dv_tunnel_address d = dv_tunnel_address c" by (simp_all add: d device.truncate_def)
  have "load_device (st_db t) (dv_client_id c) = Inr c" by (simp add: l)
  moreover have "\<exists>key. parse_key psk = Inr key"
    using enrolled_device [OF C inv w r] loaded_ok [OF inv' calculation] calculation same(1) by (auto simp: device_ok_def)
  ultimately have "good_credential (credential_for d psk)" using device_credential [OF inv' _ same] by blast
  then show ?thesis using l same x(1-3) inv' by auto
qed

lemma rotated_slot:
  assumes C: "gcm_laws C" and inv: "store_inv C s" and w: "wf_store_env e" and r: "rotate_key C e i now s = (Inr (d, psk), t)"
  shows "\<exists>c c'. load_device (st_db s) i = Inr c \<and> dv_revoked_at c = None
    \<and> (\<forall>j. load_device (st_db t) j = (if j = i then Inr c' else load_device (st_db s) j))
    \<and> dv_revoked_at c' = None \<and> dv_tunnel_address c' = dv_tunnel_address c
    \<and> good_credential (credential_for d psk) \<and> dv_client_id d = i \<and> dv_tunnel_address d = dv_tunnel_address c \<and> store_inv C t"
proof -
  obtain c enc ev where x: "load_device (st_db s) i = Inr c" "dv_revoked_at c = None"
    "d = device.truncate (c\<lparr>sd_encrypted_psk := enc, dv_updated_at := now\<rparr>)"
    "t = s\<lparr>st_db := append_audit ev (put_device (c\<lparr>sd_encrypted_psk := enc, dv_updated_at := now\<rparr>) (st_db s))\<rparr>"
    using rotate_cases [OF r] by auto
  let ?c = "c\<lparr>sd_encrypted_psk := enc, dv_updated_at := now\<rparr>"
  have inv': "store_inv C t"
    using store_step_inv [OF C inv, where ev = "RotateKey e i now"] w r by simp
  have i: "dv_client_id c = i" using loaded_ok [OF inv x(1)] by simp
  have l: "load_device (st_db t) j = (if j = i then Inr ?c else load_device (st_db s) j)" for j
    unfolding x(4) store_fields_db by (rule load_device_put) (simp add: i)
  have same: "dv_client_id d = dv_client_id ?c" "dv_tunnel_address d = dv_tunnel_address ?c" by (simp_all add: x(3) device.truncate_def)
  have c': "load_device (st_db t) i = Inr ?c" by (simp add: l)
  moreover have "\<exists>key. parse_key psk = Inr key"
    using rotated_device [OF C inv w r] loaded_ok [OF inv' c'] c' i by (auto simp: device_ok_def)
  ultimately have "good_credential (credential_for d psk)" using device_credential [OF inv' _ same] by blast
  then show ?thesis using l same x(1,2) i inv' by (intro exI [of _ c] exI [of _ ?c]) simp
qed

lemma revoked_slot:
  assumes inv: "store_inv C s" and r: "revoke_device commit i now s = (Inr d, t)"
  shows "\<exists>c. (\<forall>j. load_device (st_db t) j = (if j = i then Inr c else load_device (st_db s) j)) \<and> dv_revoked_at c \<noteq> None
    \<and> (\<exists>c. load_device (st_db s) i = Inr c) \<and> (\<exists>k. length k = 16 \<and> i = client_id_string k)"
  using revoke_cases [OF r]
proof (elim disjE exE conjE)
  fix c assume c: "load_device (st_db s) i = Inr c" "dv_revoked_at c \<noteq> None" "t = s"
  then show ?thesis using loaded_ok [OF inv c(1)] by (intro exI [of _ c]) (auto simp: device_ok_def)
next
  fix c ev assume c: "load_device (st_db s) i = Inr c"
    and t: "t = s\<lparr>st_db := append_audit ev (put_device (c\<lparr>dv_revoked_at := Some now, dv_updated_at := now\<rparr>) (st_db s))\<rparr>"
  have i: "i = dv_client_id c" "device_ok C s c" using loaded_ok [OF inv c] by auto
  have "load_device (st_db t) j = (if j = i then Inr (c\<lparr>dv_revoked_at := Some now, dv_updated_at := now\<rparr>) else load_device (st_db s) j)" for j
    unfolding t store_fields_db by (rule load_device_put) (simp add: i(1))
  then show ?thesis using c i by (intro exI [of _ "c\<lparr>dv_revoked_at := Some now, dv_updated_at := now\<rparr>"]) (auto simp: device_ok_def)
qed simp

section \<open>Requests keep the data base well formed\<close>

definition request_ok :: "string set \<Rightarrow> store \<Rightarrow> service_env \<Rightarrow> http_request \<Rightarrow> bool" where
  "request_ok static st e rq \<longleftrightarrow>
     wf_store_env (ve_store e)
     \<and> (rq_path rq = ''/v1/enroll'' \<longrightarrow>
          ve_revoke_commit e
          \<and> (\<forall>i. generate_client_id (se_client_id (ve_store e)) = Inr i \<longrightarrow> i \<notin> static \<and> (\<forall>d. load_device (st_db st) i \<noteq> Inr d)))"

lemma create_handler_step:
  assumes "create_activation_handler V e rq s = (rp, s')"
  shows "s' = s \<or> (\<exists>u n ttl. s' = s\<lparr>sr_store := snd (create_activation (store_lib.truncate V) (ve_store e) u n ttl (ve_store_now e) (sr_store s))\<rparr>)"
  using assms by (auto simp: create_activation_handler_def split: if_splits option.splits sum.splits prod.splits) (metis snd_conv)+

lemma create_handler_body:
  "create_activation_handler V e rq s = (rp, s') \<Longrightarrow> plain_body (rp_body rp) \<or> (\<exists>code t. rp_body rp = ActivationBody code t)"
  by (auto simp: create_activation_handler_def method_not_allowed_def reply_def split: if_splits option.splits sum.splits prod.splits)

lemma create_handler_devices:
  assumes "create_activation_handler V e rq s = (rp, s')"
  shows "db_devices (st_db (sr_store s')) = db_devices (st_db (sr_store s))"
proof -
  have "db_devices (st_db (snd (create_activation L f u n ttl now t))) = db_devices (st_db t)" for L f u n ttl now t
    by (auto simp: create_activation_def Let_def update_tx_def split: if_splits option.splits)
  then show ?thesis using create_handler_step [OF assms] by auto
qed

text \<open>The settings and the key, pool and reserved addresses of the data base do not change.\<close>

definition service_static :: "service \<Rightarrow> service \<Rightarrow> bool" where
  "service_static s t \<longleftrightarrow>
     sr_settings t = sr_settings s \<and> sr_admin_token t = sr_admin_token s \<and> st_key (sr_store t) = st_key (sr_store s)
     \<and> st_pool (sr_store t) = st_pool (sr_store s) \<and> st_reserved (sr_store t) = st_reserved (sr_store s)"

lemma static_store:
  "service_static s (s\<lparr>sr_limiter := lm, sr_store := t\<rparr>) \<longleftrightarrow>
     st_key t = st_key (sr_store s) \<and> st_pool t = st_pool (sr_store s) \<and> st_reserved t = st_reserved (sr_store s)"
  "service_static s (s\<lparr>sr_store := t\<rparr>) \<longleftrightarrow>
     st_key t = st_key (sr_store s) \<and> st_pool t = st_pool (sr_store s) \<and> st_reserved t = st_reserved (sr_store s)"
  "service_static s (s\<lparr>sr_limiter := lm\<rparr>)" "service_static s s"
  by (simp_all add: service_static_def)

lemma store_op_keeps:
  assumes C: "gcm_laws C" and inv: "store_inv C s" and w: "wf_store_event ev" and t: "store_step C L s ev = t"
  shows "store_inv C t \<and> st_key t = st_key s \<and> st_pool t = st_pool s \<and> st_reserved t = st_reserved s"
  using store_step_inv [OF C inv w] store_step_static t by blast

lemma serve_keeps:
  assumes C: "gcm_laws C" and inv: "store_inv C (sr_store s)" and w: "wf_store_env (ve_store e)"
    and run: "serve C V H e rq s r = (rp, s', r')"
  shows "store_inv C (sr_store s') \<and> service_static s s'"
  using run
proof (cases rule: serve_cases)
  case none
  then show ?thesis using inv by (simp add: static_store)
next
  case (enrolling rp0)
  from enroll_handler_cases [OF enrolling(2)] show ?thesis
  proof (elim disjE exE conjE)
    fix lm assume "s' = s\<lparr>sr_limiter := lm\<rparr>"
    then show ?thesis using inv by (simp add: static_store)
  next
    fix lm input d psk t ok
    assume en: "enroll C (store_lib.truncate V) (ve_store e) (er_code input) (er_device_name input) (er_platform input)
      (ve_store_now e) (sr_store s) = (Inr (d, psk), t)" and s': "s' = s\<lparr>sr_limiter := lm, sr_store := t\<rparr>"
    show ?thesis
      using store_op_keeps [OF C inv, where ev = "Enroll (ve_store e) (er_code input) (er_device_name input) (er_platform input) (ve_store_now e)"
          and L = "store_lib.truncate V"] en w by (simp add: s' static_store)
  next
    fix lm input d psk t ok
    assume en: "enroll C (store_lib.truncate V) (ve_store e) (er_code input) (er_device_name input) (er_platform input)
      (ve_store_now e) (sr_store s) = (Inr (d, psk), t)"
      and s': "s' = s\<lparr>sr_limiter := lm, sr_store := snd (revoke_device (ve_revoke_commit e) (dv_client_id d) (ve_revoke_now e) t)\<rparr>"
    have t: "store_inv C t \<and> st_key t = st_key (sr_store s) \<and> st_pool t = st_pool (sr_store s) \<and> st_reserved t = st_reserved (sr_store s)"
      using store_op_keeps [OF C inv, where ev = "Enroll (ve_store e) (er_code input) (er_device_name input) (er_platform input) (ve_store_now e)"
          and L = "store_lib.truncate V"] en w by simp
    then show ?thesis
      using store_op_keeps [OF C, where s = t and ev = "RevokeDevice (ve_revoke_commit e) (dv_client_id d) (ve_revoke_now e)"]
      by (simp add: s' static_store)
  qed
next
  case (activating rp0)
  from create_handler_step [OF activating(3)] show ?thesis
  proof (elim disjE exE)
    fix u n ttl assume s': "s' = s\<lparr>sr_store := snd (create_activation (store_lib.truncate V) (ve_store e) u n ttl (ve_store_now e) (sr_store s))\<rparr>"
    show ?thesis
      using store_op_keeps [OF C inv, where ev = "CreateActivation (ve_store e) u n ttl (ve_store_now e)" and L = "store_lib.truncate V"] w
      by (simp add: s' static_store)
  qed (use inv in \<open>simp add: static_store\<close>)
next
  case (acting rp0)
  from device_action_cases [OF acting(3)] show ?thesis
  proof (elim disjE exE conjE)
    fix i d t assume "revoke_device (ve_revoke_commit e) i (ve_revoke_now e) (sr_store s) = (Inr d, t)" "s' = s\<lparr>sr_store := t\<rparr>"
    then show ?thesis
      using store_op_keeps [OF C inv, where ev = "RevokeDevice (ve_revoke_commit e) i (ve_revoke_now e)"] by (simp add: static_store)
  next
    fix i d psk t ok assume "rotate_key C (ve_store e) i (ve_store_now e) (sr_store s) = (Inr (d, psk), t)" "s' = s\<lparr>sr_store := t\<rparr>"
    then show ?thesis
      using store_op_keeps [OF C inv, where ev = "RotateKey (ve_store e) i (ve_store_now e)"] w by (simp add: static_store)
  qed (use inv in \<open>simp add: static_store\<close>)
qed

section \<open>The interface\<close>

locale relay_access =
  fixes authorize :: "client_credential \<Rightarrow> 'r \<Rightarrow> bool \<times> 'r"
    and revoke :: "string \<Rightarrow> 'r \<Rightarrow> 'r"
    and admitted :: "'r \<Rightarrow> string \<Rightarrow> (bytes \<times> addr) option"
  assumes refused: "authorize c r = (False, r') \<Longrightarrow> admitted r' = admitted r"
    and granted: "authorize c r = (True, r') \<Longrightarrow> length i = 16 \<Longrightarrow> cl_client_id c = client_id_string i \<Longrightarrow> cl_psk_env c = []
      \<Longrightarrow> parse_key (cl_psk c) = Inr key \<Longrightarrow> ip_of_text (cl_tunnel_address c) = Some a
      \<Longrightarrow> admitted r' = (admitted r)(client_id_string i \<mapsto> (key, Addr4 a))"
    and withdrawn: "length i = 16 \<Longrightarrow> admitted (revoke (client_id_string i) r) = (admitted r)(client_id_string i := None)"
begin

abbreviation links :: "'r hooks" where
  "links \<equiv> \<lparr> hk_authorize = authorize, hk_revoke = revoke \<rparr>"

lemma granted_good:
  assumes "authorize c r = (True, r')" "good_credential c"
  shows "\<exists>key a. admitted r' = (admitted r)(cl_client_id c \<mapsto> (key, Addr4 a))
    \<and> parse_key (cl_psk c) = Inr key \<and> ip_of_text (cl_tunnel_address c) = Some a"
proof -
  obtain i key a where c: "length i = 16" "cl_client_id c = client_id_string i" "cl_psk_env c = []"
    "parse_key (cl_psk c) = Inr key" "ip_of_text (cl_tunnel_address c) = Some a"
    using assms(2) by (auto simp: good_credential_def)
  show ?thesis using granted [OF assms(1) c] c(2,4,5) by auto
qed

text \<open>Loading: all credentials of the list are admitted, nothing else changes.\<close>

lemma loaded:
  assumes "authorize_stored links cs r = (True, r')" "\<forall>c \<in> set cs. good_credential c" "distinct (map cl_client_id cs)"
  shows "(\<forall>c \<in> set cs. \<exists>key a. admitted r' (cl_client_id c) = Some (key, Addr4 a) \<and> ip_of_text (cl_tunnel_address c) = Some a)
    \<and> (\<forall>i. i \<notin> cl_client_id ` set cs \<longrightarrow> admitted r' i = admitted r i)"
  using assms
proof (induction cs arbitrary: r)
  case (Cons c cs)
  obtain r1 where r1: "authorize c r = (True, r1)" "authorize_stored links cs r1 = (True, r')"
    using Cons.prems(1) by (cases "authorize c r") (auto split: if_splits)
  obtain key a where g: "admitted r1 = (admitted r)(cl_client_id c \<mapsto> (key, Addr4 a))" "ip_of_text (cl_tunnel_address c) = Some a"
    using granted_good [OF r1(1)] Cons.prems(2) by force
  note ih = Cons.IH [OF r1(2)]
  have "admitted r' (cl_client_id c) = Some (key, Addr4 a)"
    using ih Cons.prems(2,3) by (auto simp: g(1))
  then show ?case using ih Cons.prems(2,3) g by auto
qed simp

text \<open>Each handler keeps data base and relay in step.\<close>

lemma enroll_in_step:
  assumes C: "gcm_laws C" and inv: "store_inv C (sr_store s)" and st: "in_step (admitted r) static (sr_store s)"
    and w: "wf_store_env (ve_store e)" and commit: "ve_revoke_commit e"
    and fresh: "\<And>i. generate_client_id (se_client_id (ve_store e)) = Inr i \<Longrightarrow> i \<notin> static \<and> (\<forall>d. load_device (st_db (sr_store s)) i \<noteq> Inr d)"
    and run: "enroll_handler C V links e rq s r = (rp, s', r')"
  shows "in_step (admitted r') static (sr_store s')"
  using enroll_handler_cases [OF run]
proof (elim disjE exE conjE)
  fix lm assume "s' = s\<lparr>sr_limiter := lm\<rparr>" "r' = r"
  then show ?thesis using st by simp
next
  fix lm input d psk t ok
  assume en: "enroll C (store_lib.truncate V) (ve_store e) (er_code input) (er_device_name input) (er_platform input)
      (ve_store_now e) (sr_store s) = (Inr (d, psk), t)"
    and a: "hk_authorize links (credential_for d psk) r = (ok, r')" and ok: ok
    and s': "s' = s\<lparr>sr_limiter := lm, sr_store := t\<rparr>"
  obtain c where c: "\<And>j. load_device (st_db t) j = (if j = dv_client_id d then Inr c else load_device (st_db (sr_store s)) j)"
    "good_credential (credential_for d psk)" "dv_revoked_at c = None" "dv_tunnel_address c = dv_tunnel_address d"
    "dv_client_id d \<notin> static"
    using enrolled_slot [OF C inv w en] fresh by blast
  obtain key adr where g: "admitted r' = (admitted r)(dv_client_id d \<mapsto> (key, Addr4 adr))" "ip_of_text (dv_tunnel_address d) = Some adr"
    using granted_good [of "credential_for d psk" r r'] a ok c(2) by (auto simp: credential_for_def)
  have "in_step (admitted r') static t"
    unfolding g(1) using g(2) c(3-5) by (intro in_step_update [OF st c(1)]) (simp add: slot_ok_def)
  then show ?thesis by (simp add: s')
next
  fix lm input d psk t ok
  assume en: "enroll C (store_lib.truncate V) (ve_store e) (er_code input) (er_device_name input) (er_platform input)
      (ve_store_now e) (sr_store s) = (Inr (d, psk), t)"
    and a: "hk_authorize links (credential_for d psk) r = (ok, r')" and ok: "\<not> ok"
    and s': "s' = s\<lparr>sr_limiter := lm, sr_store := snd (revoke_device (ve_revoke_commit e) (dv_client_id d) (ve_revoke_now e) t)\<rparr>"
  obtain c where c: "\<And>j. load_device (st_db t) j = (if j = dv_client_id d then Inr c else load_device (st_db (sr_store s)) j)"
    "dv_revoked_at c = None" "generate_client_id (se_client_id (ve_store e)) = Inr (dv_client_id d)" "store_inv C t"
    using enrolled_slot [OF C inv w en] by blast
  have new: "dv_client_id d \<notin> static" "\<forall>c. load_device (st_db (sr_store s)) (dv_client_id d) \<noteq> Inr c" using fresh [OF c(3)] by auto
  obtain d' u where rv: "revoke_device True (dv_client_id d) (ve_revoke_now e) t = (Inr d', u)"
    using c(1) [of "dv_client_id d"] c(2)
    by (auto simp: revoke_device_def update_tx_def revoke_tx_def Let_def)
  obtain c' where c': "\<And>j. load_device (st_db u) j = (if j = dv_client_id d then Inr c' else load_device (st_db t) j)" "dv_revoked_at c' \<noteq> None"
    using revoked_slot [OF c(4) rv] by blast
  have "slot_ok False (admitted r (dv_client_id d)) (load_device (st_db (sr_store s)) (dv_client_id d))"
    using st new(1) unfolding in_step_def by metis
  then have "admitted r (dv_client_id d) = None"
    using new(2)
    by (cases "load_device (st_db (sr_store s)) (dv_client_id d)"; cases "admitted r (dv_client_id d)") (auto simp: slot_ok_def)
  moreover have "admitted r' = admitted r" using refused a ok by simp
  ultimately have "in_step (admitted r') static u"
    using st c(1) c' new(1) by (intro in_step_store [of "admitted r'" static "sr_store s" u "dv_client_id d" "Inr c'"]) (auto simp: slot_ok_def)
  then show ?thesis using rv commit by (simp add: s')
qed

lemma action_in_step:
  assumes C: "gcm_laws C" and inv: "store_inv C (sr_store s)" and st: "in_step (admitted r) static (sr_store s)"
    and w: "wf_store_env (ve_store e)" and run: "device_action C links e rq s r = (rp, s', r')"
  shows "in_step (admitted r') static (sr_store s')"
  using device_action_cases [OF run]
proof (elim disjE exE conjE)
  fix i d t assume rv: "revoke_device (ve_revoke_commit e) i (ve_revoke_now e) (sr_store s) = (Inr d, t)"
    and s': "s' = s\<lparr>sr_store := t\<rparr>" and r': "r' = hk_revoke links i r"
  obtain c k where c: "\<And>j. load_device (st_db t) j = (if j = i then Inr c else load_device (st_db (sr_store s)) j)"
    "dv_revoked_at c \<noteq> None" "\<exists>c. load_device (st_db (sr_store s)) i = Inr c" "length k = 16" "i = client_id_string k"
    using revoked_slot [OF inv rv] by blast
  have "i \<notin> static" using st c(3) by (fastforce simp: in_step_def slot_ok_def dest: spec [of _ i])
  moreover have "admitted r' = (admitted r)(i := None)" using withdrawn [OF c(4)] c(5) r' by simp
  ultimately show ?thesis unfolding s'
    using c(2) by simp (intro in_step_update [OF st c(1)], simp add: slot_ok_def)
next
  fix i d psk t ok
  assume ro: "rotate_key C (ve_store e) i (ve_store_now e) (sr_store s) = (Inr (d, psk), t)" and s': "s' = s\<lparr>sr_store := t\<rparr>"
    and a: "hk_authorize links (credential_for d psk) r = (ok, r')"
  obtain c c' where c: "load_device (st_db (sr_store s)) i = Inr c" "dv_revoked_at c = None"
    "\<And>j. load_device (st_db t) j = (if j = i then Inr c' else load_device (st_db (sr_store s)) j)"
    "dv_revoked_at c' = None" "dv_tunnel_address c' = dv_tunnel_address c" "good_credential (credential_for d psk)"
    "dv_client_id d = i" "dv_tunnel_address d = dv_tunnel_address c"
    using rotated_slot [OF C inv w ro] by blast
  have old: "i \<notin> static" "\<exists>key adr. admitted r i = Some (key, Addr4 adr) \<and> ip_of_text (dv_tunnel_address c) = Some adr"
    using st c(1,2) unfolding in_step_def slot_ok_def by (auto dest!: spec [of _ i])
  have "in_step (admitted r') static t"
  proof (cases ok)
    case True
    obtain key adr where g: "admitted r' = (admitted r)(i \<mapsto> (key, Addr4 adr))" "ip_of_text (dv_tunnel_address d) = Some adr"
      using granted_good [of "credential_for d psk" r r'] a True c(6,7) by (auto simp: credential_for_def)
    show ?thesis unfolding g(1)
      using g(2) c(4,5,8) old(1) by (intro in_step_update [OF st c(3)]) (simp add: slot_ok_def)
  next
    case False
    then have "admitted r' = admitted r" using refused a by simp
    then show ?thesis using old c(4,5) by (intro in_step_store [OF _ c(3)]) (use st in \<open>auto simp: slot_ok_def\<close>)
  qed
  then show ?thesis by (simp add: s')
qed (use st in simp_all)

text \<open>A whole request. The identifiers that are drawn are new, and the compensating revocation of a failed
  enrolment can be committed.\<close>

lemma serve_in_step:
  assumes C: "gcm_laws C" and inv: "store_inv C (sr_store s)" and st: "in_step (admitted r) static (sr_store s)"
    and rq: "request_ok static (sr_store s) e rq" and run: "serve C V links e rq s r = (rp, s', r')"
  shows "in_step (admitted r') static (sr_store s')"
  using run
proof (cases rule: serve_cases)
  case none
  then show ?thesis using st by simp
next
  case (enrolling rp0)
  then show ?thesis using rq by (intro enroll_in_step [OF C inv st _ _ _ enrolling(2)]) (auto simp: request_ok_def)
next
  case (activating rp0)
  then show ?thesis using in_step_same [OF st] create_handler_devices [OF activating(3)] by simp
next
  case (acting rp0)
  then show ?thesis using rq by (intro action_in_step [OF C inv st _ acting(3)]) (simp add: request_ok_def)
qed

end

end
