(* ===== verification/Service_Facts.thy ===== *)
theory Service_Facts
  imports Service_Contract Service_Limit
begin

text \<open>
  The relay together with its control plane: the relay provides \<open>relay_access\<close>, and the states that the
  program reaches (from \<open>runServer\<close> of \<open>cmd/linkforge/main.go\<close>), with requests handled one after another.
\<close>

section \<open>The relay provides the interface\<close>

definition access_of :: "server_credential \<Rightarrow> bytes \<times> addr" where
  "access_of c = (cr_key c, cr_tunnel_ip c)"

definition admitted :: "server \<Rightarrow> string \<Rightarrow> (bytes \<times> addr) option" where
  "admitted s i = map_option access_of (map_get (sv_credentials s) i)"

lemma authorize_cases:
  "authorize_client L c s = (ok, s') \<Longrightarrow>
   (\<not> ok \<and> s' = s)
   \<or> (ok \<and> (\<exists>i key p. parse_client_id (cl_client_id c) = Inr i \<and> credential_key L c = Inr key
        \<and> parse_prefix4 (cl_tunnel_address c) = Some p
        \<and> sv_credentials s' = map_put (sv_credentials s) (client_id_string i)
            \<lparr> cr_name = cl_name c, cr_client_id = i, cr_key = key, cr_tunnel_ip = Addr4 (fst p) \<rparr>))"
  by (auto simp: authorize_client_def Let_def terminate_credentials split: sum.splits option.splits if_splits)

lemma admitted_put:
  "sv_credentials s' = map_put (sv_credentials s) i c \<Longrightarrow> admitted s' = (admitted s)(i \<mapsto> access_of c)"
  by (auto simp: admitted_def map_get_put)

interpretation relay: relay_access "authorize_client L" revoke_client admitted for L
proof unfold_locales
  fix c s s' assume "authorize_client L c s = (False, s')"
  then show "admitted s' = admitted s" using authorize_cases [of L c s False s'] by simp
next
  fix c s s' i key a
  assume a: "authorize_client L c s = (True, s')" and c: "length i = 16" "cl_client_id c = client_id_string i" "cl_psk_env c = []"
    "parse_key (cl_psk c) = Inr key" "ip_of_text (cl_tunnel_address c) = Some a"
  have "credential_key L c = Inr key" using c(3,4) by (simp add: credential_key_def resolve_key_def)
  then have "sv_credentials s' = map_put (sv_credentials s) (client_id_string i)
      \<lparr> cr_name = cl_name c, cr_client_id = i, cr_key = key, cr_tunnel_ip = Addr4 a \<rparr>"
    using authorize_cases [OF a] c by (auto simp: ip_of_text_def)
  from admitted_put [OF this] show "admitted s' = (admitted s)(client_id_string i \<mapsto> (key, Addr4 a))"
    by (simp add: access_of_def)
next
  fix i :: bytes and s assume "length i = 16"
  then have "sv_credentials (revoke_client (client_id_string i) s) = map_del (sv_credentials s) (client_id_string i)"
    by (simp add: revoke_client_def Let_def terminate_credentials)
  then show "admitted (revoke_client (client_id_string i) s) = (admitted s)(client_id_string i := None)"
    by (auto simp: admitted_def map_get_del)
qed

lemma hooks_relay: "relay_hooks L = \<lparr> hk_authorize = authorize_client L, hk_revoke = revoke_client \<rparr>"
  by (simp add: relay_hooks_def)

section \<open>The clients of the configuration\<close>

definition static_ids :: "server_config \<Rightarrow> string set" where
  "static_ids c = {client_id_string i | i cl. cl \<in> set (sc_clients c) \<and> parse_client_id (cl_client_id cl) = Inr i}"

lemma authorize_all_admits:
  "authorize_all L cs s = Some s' \<Longrightarrow>
   admitted s' i \<noteq> None \<longleftrightarrow> admitted s i \<noteq> None \<or> (\<exists>cl \<in> set cs. \<exists>k. parse_client_id (cl_client_id cl) = Inr k \<and> i = client_id_string k)"
proof (induction cs arbitrary: s)
  case (Cons c cs)
  obtain s1 where s1: "authorize_client L c s = (True, s1)" "authorize_all L cs s1 = Some s'"
    using Cons.prems by (cases "authorize_client L c s") (auto split: if_splits)
  obtain k cred where k: "parse_client_id (cl_client_id c) = Inr k" "sv_credentials s1 = map_put (sv_credentials s) (client_id_string k) cred"
    using authorize_cases [OF s1(1)] by auto
  have "admitted s1 i \<noteq> None \<longleftrightarrow> admitted s i \<noteq> None \<or> i = client_id_string k"
    by (simp add: admitted_put [OF k(2)])
  then show ?case using Cons.IH [OF s1(2)] k(1) by auto
qed simp

lemma new_server_admits: "new_server L c m = Some s \<Longrightarrow> admitted s i \<noteq> None \<longleftrightarrow> i \<in> static_ids c"
  unfolding new_server_def static_ids_def
  by (drule authorize_all_admits [where i = i]) (auto simp: admitted_def empty_server_def)

lemma authorize_all_reachable:
  "reachable C L c s \<Longrightarrow> authorize_all L cs s = Some s' \<Longrightarrow> reachable C L c s'"
proof (induction cs arbitrary: s)
  case (Cons cl cs)
  obtain s1 where s1: "authorize_client L cl s = (True, s1)" "authorize_all L cs s1 = Some s'"
    using Cons.prems(2) by (cases "authorize_client L cl s") (auto split: if_splits)
  have "reachable C L c s1"
    using reachable.step [OF Cons.prems(1), where ev = "Authorize cl"] s1(1) by simp
  then show ?case using Cons.IH s1(2) by blast
qed simp

lemma authorize_stored_reachable:
  "reachable C L c s \<Longrightarrow> reachable C L c (snd (authorize_stored (relay_hooks L) cs s))"
proof (induction cs arbitrary: s)
  case (Cons cl cs)
  obtain ok s1 where s1: "authorize_client L cl s = (ok, s1)" by (cases "authorize_client L cl s")
  have "reachable C L c s1"
    using reachable.step [OF Cons.prems, where ev = "Authorize cl"] s1 by simp
  then show ?case using Cons.IH s1 by (simp add: relay_hooks_def)
qed simp

text \<open>Whatever a request does to the relay is a step of the relay.\<close>

lemma serve_reachable:
  assumes re: "reachable C L c r" and run: "serve C V (relay_hooks L) e rq s r = (rp, s', r')"
  shows "reachable C L c r'"
proof -
  have a: "reachable C L c r1" if "hk_authorize (relay_hooks L) cl r = (ok, r1)" for cl ok r1
    using reachable.step [OF re, where ev = "Authorize cl"] that by (simp add: relay_hooks_def)
  have b: "reachable C L c (hk_revoke (relay_hooks L) i r)" for i
    using reachable.step [OF re, where ev = "Revoke i"] by (simp add: relay_hooks_def)
  show ?thesis
    using run
  proof (cases rule: serve_cases)
    case (enrolling rp0)
    then show ?thesis using enroll_handler_cases [OF enrolling(2)] re a by auto
  next
    case (acting rp0)
    then show ?thesis using device_action_cases [OF acting(3)] re a b by auto
  qed (use re in simp_all)
qed

section \<open>The states of the program\<close>

text \<open>The program is started with a validated configuration on a new data base, serves requests and the relay's
  own steps one after another, and is started again with the same configuration.\<close>

inductive app_reachable :: "crypto \<Rightarrow> net_lib \<Rightarrow> service_lib \<Rightarrow> server_config \<Rightarrow> app \<Rightarrow> bool"
  for C :: crypto and L :: net_lib and V :: service_lib and c :: server_config where
  started: "start_app C L c (Some empty_database) commit True m = Some a \<Longrightarrow> mt_active_sessions m = 0
    \<Longrightarrow> app_reachable C L V c a"
| request: "app_reachable C L V c a \<Longrightarrow> request_ok (static_ids c) (sr_store (ap_service a)) e rq
    \<Longrightarrow> app_reachable C L V c (app_step C L V a (HttpRequest e rq))"
| relay_step: "app_reachable C L V c a \<Longrightarrow> own_step ev \<Longrightarrow> app_reachable C L V c (app_step C L V a (RelayStep e ev))"
| seen: "app_reachable C L V c a \<Longrightarrow> app_reachable C L V c (app_step C L V a (ClientSeenHook commit i now))"
| restarted: "app_reachable C L V c a \<Longrightarrow> start_app C L c (Some (st_db (sr_store (ap_service a)))) commit True m = Some b
    \<Longrightarrow> mt_active_sessions m = 0 \<Longrightarrow> app_reachable C L V c b"

definition started_with :: "net_lib \<Rightarrow> server_config \<Rightarrow> service \<Rightarrow> bool" where
  "started_with L c s \<longleftrightarrow>
     (\<exists>m token key. sc_management c = Some m \<and> management_secrets L m = Inr (token, key) \<and> sr_settings s = m
        \<and> sr_admin_token s = token \<and> st_key (sr_store s) = key
        \<and> (\<exists>pool. parse_prefix4 (mg_tunnel_pool m) = Some pool \<and> st_pool (sr_store s) = prefix4_masked pool)
        \<and> st_reserved (sr_store s) = reserved_addresses c)"

definition app_inv :: "crypto \<Rightarrow> net_lib \<Rightarrow> server_config \<Rightarrow> app \<Rightarrow> bool" where
  "app_inv C L c a \<longleftrightarrow>
     store_inv C (sr_store (ap_service a)) \<and> started_with L c (ap_service a) \<and> reachable C L c (ap_server a)
     \<and> in_step (admitted (ap_server a)) (static_ids c) (sr_store (ap_service a))"

lemma start_app_parts:
  assumes "start_app C L c (Some db) commit True m = Some a"
  shows "\<exists>mg token key pool st sv. sc_management c = Some mg \<and> management_secrets L mg = Inr (token, key)
    \<and> parse_prefix4 (mg_tunnel_pool mg) = Some pool
    \<and> open_store key (Some pool) (reserved_addresses c) (Some db) commit = Inr st
    \<and> new_server L c m = Some sv
    \<and> ap_service a = \<lparr> sr_settings = mg, sr_store = st, sr_admin_token = token, sr_limiter = [] \<rparr>
    \<and> load_credentials C (relay_hooks L) (ap_service a) (set_client_seen_hook True sv) = (True, ap_server a)"
proof -
  obtain mg where mg: "sc_management c = Some mg" using assms by (cases "sc_management c") (auto simp: start_app_def)
  obtain token key where tk: "management_secrets L mg = Inr (token, key)"
    using assms mg by (cases "management_secrets L mg") (auto simp: start_app_def)
  obtain st where st: "open_store key (parse_prefix4 (mg_tunnel_pool mg)) (reserved_addresses c) (Some db) commit = Inr st"
    using assms mg tk by (cases "open_store key (parse_prefix4 (mg_tunnel_pool mg)) (reserved_addresses c) (Some db) commit") (auto simp: start_app_def)
  obtain pool where pool: "parse_prefix4 (mg_tunnel_pool mg) = Some pool"
    using st by (cases "parse_prefix4 (mg_tunnel_pool mg)") (auto simp: open_store_def split: if_splits)
  obtain sv where sv: "new_server L c m = Some sv"
    using assms mg tk st by (cases "new_server L c m") (auto simp: start_app_def)
  obtain service where ns: "new_service mg st token = Some service"
    using assms mg tk st sv by (cases "new_service mg st token") (auto simp: start_app_def)
  obtain ok sv1 where l: "load_credentials C (relay_hooks L) service (set_client_seen_hook True sv) = (ok, sv1)"
    by (cases "load_credentials C (relay_hooks L) service (set_client_seen_hook True sv)")
  have a: "ok" "a = \<lparr> ap_server = sv1, ap_service = service \<rparr>"
    using assms mg tk st sv ns l by (auto simp: start_app_def split: bool.splits)
  have "service = \<lparr> sr_settings = mg, sr_store = st, sr_admin_token = token, sr_limiter = [] \<rparr>"
    using ns by (auto simp: new_service_def split: if_splits)
  then show ?thesis
    using mg tk st pool sv l a
    by (intro exI [of _ mg] exI [of _ token] exI [of _ key] exI [of _ pool] exI [of _ st] exI [of _ sv]) simp
qed

lemma active_entries:
  assumes inv: "store_inv C s" and cs: "active_credentials C s = Inr cs"
  shows "(\<forall>x \<in> set cs. good_credential x
        \<and> (\<exists>d. load_device (st_db s) (cl_client_id x) = Inr d \<and> dv_revoked_at d = None \<and> dv_tunnel_address d = cl_tunnel_address x))
    \<and> (\<forall>i. active_device s i \<longrightarrow> i \<in> cl_client_id ` set cs)"
proof (intro conjI ballI allI impI)
  fix x assume x: "x \<in> set cs"
  let ?m = "db_devices (st_db s)"
  have ok: "devices_ok C s ?m" using inv by (simp add: store_inv_def)
  obtain e d where e: "cl_psk_env x = []" "e \<in> set ?m" "snd e = Some d" "dv_revoked_at d = None"
    "dv_client_id d = cl_client_id x" "dv_tunnel_address d = cl_tunnel_address x"
    using credentials_of_members [OF cs [unfolded active_credentials_def] x] by blast
  have d: "map_get ?m (fst e) = Some (Some d)" "fst e = device_key (dv_client_id d)" "device_ok C s d"
    using devices_decode [OF ok e(2)] e(3) by auto
  have l: "load_device (st_db s) (cl_client_id x) = Inr d" using d(1,2) e(5) by (simp add: load_device_entry)
  then show "\<exists>d. load_device (st_db s) (cl_client_id x) = Inr d \<and> dv_revoked_at d = None \<and> dv_tunnel_address d = cl_tunnel_address x"
    using e(4,6) by blast
  have "\<exists>key. parse_key (cl_psk x) = Inr key" using credentials_spec [OF inv] cs x by fastforce
  moreover have "\<exists>a. ip_of_text (cl_tunnel_address x) = Some a" using device_ok_address [OF inv d(3)] e(6) by simp
  moreover have "\<exists>i. length i = 16 \<and> cl_client_id x = client_id_string i" using d(3) e(5) by (simp add: device_ok_def)
  ultimately show "good_credential x" using e(1) by (simp add: good_credential_def)
next
  fix i assume "active_device s i"
  then obtain d where d: "load_device (st_db s) i = Inr d" "dv_revoked_at d = None" unfolding active_device_def by blast
  have "device_ok C s d" "i = dv_client_id d" using loaded_ok [OF inv d(1)] by auto
  then obtain psk where "decrypt_psk C (st_key s) i (sd_encrypted_psk d) = Inr psk" by (auto simp: device_ok_def)
  then have "\<exists>c \<in> set cs. cl_client_id c = i \<and> cl_psk c = psk" using credentials_spec [OF inv] cs d by force
  then show "i \<in> cl_client_id ` set cs" by auto
qed

text \<open>Loading puts relay and data base in step.\<close>

lemma start_in_step:
  assumes start: "start_app C L c (Some db) commit True m = Some a"
    and inv: "store_inv C (sr_store (ap_service a))"
    and apart: "\<And>i d. load_device (st_db (sr_store (ap_service a))) i = Inr d \<Longrightarrow> i \<notin> static_ids c"
  shows "in_step (admitted (ap_server a)) (static_ids c) (sr_store (ap_service a))"
proof -
  let ?st = "sr_store (ap_service a)"
  obtain sv where sv: "new_server L c m = Some sv"
    and l: "load_credentials C (relay_hooks L) (ap_service a) (set_client_seen_hook True sv) = (True, ap_server a)"
    using start_app_parts [OF start] by blast
  obtain cs where cs: "active_credentials C ?st = Inr cs" using credentials_spec [OF inv] by blast
  have "authorize_stored (relay_hooks L) cs (set_client_seen_hook True sv) = (True, ap_server a)"
    using l cs by (simp add: load_credentials_def)
  note ld = relay.loaded [OF this [unfolded hooks_relay]]
  have base: "admitted (set_client_seen_hook True sv) i \<noteq> None \<longleftrightarrow> i \<in> static_ids c" for i
    using new_server_admits [OF sv, of i] by (simp add: admitted_def set_client_seen_hook_def)
  note en = active_entries [OF inv cs]
  have l: "(\<forall>x \<in> set cs. \<exists>key adr. admitted (ap_server a) (cl_client_id x) = Some (key, Addr4 adr) \<and> ip_of_text (cl_tunnel_address x) = Some adr)
    \<and> (\<forall>i. i \<notin> cl_client_id ` set cs \<longrightarrow> admitted (ap_server a) i = admitted (set_client_seen_hook True sv) i)"
    using en by (intro ld credentials_distinct [OF inv cs]) blast
  show ?thesis unfolding in_step_def
  proof
    fix i
    show "slot_ok (i \<in> static_ids c) (admitted (ap_server a) i) (load_device (st_db ?st) i)"
    proof (cases "i \<in> cl_client_id ` set cs")
      case True
      then obtain x where x: "x \<in> set cs" "i = cl_client_id x" by blast
      obtain d where d: "load_device (st_db ?st) i = Inr d" "dv_revoked_at d = None" "dv_tunnel_address d = cl_tunnel_address x"
        using en x by blast
      then show ?thesis using l x apart [OF d(1)] by (auto simp: slot_ok_def)
    next
      case False
      then have na: "\<not> active_device ?st i" using en by blast
      have ad: "admitted (ap_server a) i \<noteq> None \<longleftrightarrow> i \<in> static_ids c" using l False base by simp
      show ?thesis
      proof (cases "load_device (st_db ?st) i")
        case (Inl e)
        then show ?thesis using ad by (simp add: slot_ok_def)
      next
        case (Inr d)
        then have "dv_revoked_at d \<noteq> None" "i \<notin> static_ids c" using na apart by (auto simp: active_device_def)
        then show ?thesis using ad Inr by (cases "admitted (ap_server a) i") (auto simp: slot_ok_def)
      qed
    qed
  qed
qed

lemma start_inv:
  assumes start: "start_app C L c (Some db) commit True m = Some a" and m: "mt_active_sessions m = 0"
  shows "started_with L c (ap_service a) \<and> reachable C L c (ap_server a)
    \<and> db_devices (st_db (sr_store (ap_service a))) = db_devices db
    \<and> db_activations (st_db (sr_store (ap_service a))) = db_activations db"
proof -
  obtain mg token key pool st sv where p: "sc_management c = Some mg" "management_secrets L mg = Inr (token, key)"
    "parse_prefix4 (mg_tunnel_pool mg) = Some pool" "open_store key (Some pool) (reserved_addresses c) (Some db) commit = Inr st"
    "new_server L c m = Some sv" "ap_service a = \<lparr> sr_settings = mg, sr_store = st, sr_admin_token = token, sr_limiter = [] \<rparr>"
    "load_credentials C (relay_hooks L) (ap_service a) (set_client_seen_hook True sv) = (True, ap_server a)"
    using start_app_parts [OF start] by (elim exE conjE) (rule that)
  note f = open_store_fields [OF p(4)]
  have "started_with L c (ap_service a)"
    unfolding started_with_def
    by (intro exI [of _ mg] exI [of _ token] exI [of _ key] conjI exI [of _ pool]) (simp_all add: p(1-3,6) f)
  moreover have "reachable C L c sv"
    using authorize_all_reachable [OF reachable.start [OF m]] p(5) by (simp add: new_server_def)
  then have "reachable C L c (set_client_seen_hook True sv)"
    using reachable.step [where ev = "SetHook True"] by simp
  then have "reachable C L c (ap_server a)"
    using p(7) authorize_stored_reachable [of C L c "set_client_seen_hook True sv"]
    by (auto simp: load_credentials_def split: sum.splits) (metis snd_conv)
  ultimately show ?thesis using f by (simp add: p(6))
qed

lemma store_inv_restart:
  assumes inv: "store_inv C s" and same: "st_key t = st_key s" "st_pool t = st_pool s" "st_reserved t = st_reserved s"
    "db_devices (st_db t) = db_devices (st_db s)" "db_activations (st_db t) = db_activations (st_db s)"
  shows "store_inv C t"
proof -
  have "device_ok C t = device_ok C s" using same by (simp add: fun_eq_iff device_ok_def)
  then show ?thesis using inv same by (simp add: store_inv_def devices_ok_def)
qed

lemma app_reachable_inv:
  assumes C: "gcm_laws C" and re: "app_reachable C L V c a"
  shows "app_inv C L c a"
  using re
proof induction
  case (started commit m a)
  note s = start_inv [OF started]
  obtain mg token key pool st where o: "open_store key (Some pool) (reserved_addresses c) (Some empty_database) commit = Inr st"
    "sr_store (ap_service a) = st" using start_app_parts [OF started(1)] by (elim exE conjE) (rule that, assumption, simp)
  have "store_inv C (sr_store (ap_service a))"
    using store_reachable_inv [OF C store_reachable.created [OF o(1)]] o(2) by simp
  moreover have "in_step (admitted (ap_server a)) (static_ids c) (sr_store (ap_service a))"
    using calculation s by (intro start_in_step [OF started(1)]) (auto simp: load_device_entry empty_database_def)
  ultimately show ?case using s by (simp add: app_inv_def)
next
  case (request a e rq)
  obtain rp sv r where x: "serve C V (relay_hooks L) e rq (ap_service a) (ap_server a) = (rp, sv, r)" by (rule prod_cases3)
  have inv: "app_inv C L c a" by (rule request.IH)
  have old: "store_inv C (sr_store (ap_service a))" "in_step (admitted (ap_server a)) (static_ids c) (sr_store (ap_service a))"
    using inv by (simp_all add: app_inv_def)
  have "wf_store_env (ve_store e)" using request.hyps(2) by (simp add: request_ok_def)
  note k = serve_keeps [OF C old(1) this x]
  have "in_step (admitted r) (static_ids c) (sr_store sv)"
    by (rule relay.serve_in_step [OF C old request.hyps(2) x [unfolded hooks_relay]])
  moreover have "started_with L c sv" using inv k by (auto simp: app_inv_def started_with_def service_static_def)
  moreover have "reachable C L c r" using inv by (intro serve_reachable [OF _ x]) (simp add: app_inv_def)
  ultimately show ?case using k by (simp add: app_inv_def app_step_def x)
next
  case (relay_step a ev e)
  have "admitted (snd (server_step C L e (ap_server a) ev)) = admitted (ap_server a)"
    using own_step_credentials [OF relay_step.hyps(2)] by (simp add: fun_eq_iff admitted_def)
  moreover have "reachable C L c (snd (server_step C L e (ap_server a) ev))"
    using relay_step.IH reachable.step [where s = "ap_server a" and ev = ev and e = e] by (simp add: app_inv_def) (metis prod.collapse)
  ultimately show ?case using relay_step.IH by (simp add: app_inv_def app_step_def)
next
  case (seen a commit i now)
  let ?s = "sr_store (ap_service a)"
  obtain res t where t: "touch_device commit i now ?s = (res, t)" by (cases "touch_device commit i now ?s")
  have inv: "store_inv C ?s" "in_step (admitted (ap_server a)) (static_ids c) ?s" using seen.IH by (auto simp: app_inv_def)
  have k: "store_inv C t \<and> st_key t = st_key ?s \<and> st_pool t = st_pool ?s \<and> st_reserved t = st_reserved ?s"
    using store_op_keeps [OF C inv(1), where ev = "TouchDevice commit i now"] t by simp
  have "in_step (admitted (ap_server a)) (static_ids c) t"
    using touch_cases [OF t]
  proof (elim disjE exE conjE)
    fix d assume d: "load_device (st_db ?s) i = Inr d" and t: "t = ?s\<lparr>st_db := put_device (d\<lparr>dv_last_seen_at := Some now\<rparr>) (st_db ?s)\<rparr>"
    have "i = dv_client_id d" using loaded_ok [OF inv(1) d] by simp
    then have "load_device (st_db t) j = (if j = i then Inr (d\<lparr>dv_last_seen_at := Some now\<rparr>) else load_device (st_db ?s) j)" for j
      unfolding t store_fields_db by (intro load_device_put) simp
    moreover have "slot_ok (i \<in> static_ids c) (admitted (ap_server a) i) (Inr d)" using inv(2) d unfolding in_step_def by metis
    ultimately show ?thesis by (intro in_step_store [OF inv(2)]) (auto simp: slot_ok_def)
  qed (use inv in simp)
  then show ?case using seen.IH k t by (simp add: app_inv_def app_step_def started_with_def)
next
  case (restarted a commit m b)
  let ?s = "sr_store (ap_service a)"
  note s = start_inv [OF restarted.hyps(2,3)]
  have w: "started_with L c (ap_service a)" "store_inv C ?s" "in_step (admitted (ap_server a)) (static_ids c) ?s"
    using restarted.IH by (auto simp: app_inv_def)
  have "st_key (sr_store (ap_service b)) = st_key ?s" "st_pool (sr_store (ap_service b)) = st_pool ?s"
    "st_reserved (sr_store (ap_service b)) = st_reserved ?s"
    using s w(1) by (auto simp: started_with_def)
  then have inv: "store_inv C (sr_store (ap_service b))" using s by (intro store_inv_restart [OF w(2)]) auto
  have "in_step (admitted (ap_server b)) (static_ids c) (sr_store (ap_service b))"
  proof (rule start_in_step [OF restarted.hyps(2) inv])
    fix i d assume "load_device (st_db (sr_store (ap_service b))) i = Inr d"
    then have "load_device (st_db ?s) i = Inr d" using s by (simp add: load_device_def)
    then show "i \<notin> static_ids c" using w(3) unfolding in_step_def slot_ok_def by (auto dest!: spec [of _ i])
  qed
  then show ?case using inv s by (simp add: app_inv_def)
qed

section \<open>Who may use the relay\<close>

text \<open>C10: As long as requests are handled one after another, new devices get unused identifiers and the revocation
  that undoes a refused enrollment commits, data base and relay agree between any two requests, also after restarts:
  the relay admits exactly the clients of the configuration and the enrolled devices that are not revoked, each
  device under the tunnel address it was given, and no live session belongs to anybody else.\<close>

theorem access_exact:
  assumes "gcm_laws C" "app_reachable C L V c a"
  shows "(\<forall>i. admitted (ap_server a) i \<noteq> None \<longleftrightarrow> i \<in> static_ids c \<or> active_device (sr_store (ap_service a)) i)
    \<and> (\<forall>i d. load_device (st_db (sr_store (ap_service a))) i = Inr d \<and> dv_revoked_at d = None \<longrightarrow>
         (\<exists>key ip. admitted (ap_server a) i = Some (key, Addr4 ip) \<and> ip_of_text (dv_tunnel_address d) = Some ip))
    \<and> (\<forall>r. live (ap_server a) r \<longrightarrow>
         (let i = client_of (session_at (ap_server a) r) in i \<in> static_ids c \<or> active_device (sr_store (ap_service a)) i))"
proof -
  have inv: "app_inv C L c a" by (rule app_reachable_inv [OF assms])
  then have st: "in_step (admitted (ap_server a)) (static_ids c) (sr_store (ap_service a))" by (simp add: app_inv_def)
  note adm = in_step_admitted [OF st]
  have "\<exists>key ip. admitted (ap_server a) i = Some (key, Addr4 ip) \<and> ip_of_text (dv_tunnel_address d) = Some ip"
    if "load_device (st_db (sr_store (ap_service a))) i = Inr d" "dv_revoked_at d = None" for i d
    using st that unfolding in_step_def slot_ok_def by (auto dest!: spec [of _ i])
  moreover have "client_of (session_at (ap_server a) r) \<in> static_ids c \<or> active_device (sr_store (ap_service a)) (client_of (session_at (ap_server a) r))"
    if "live (ap_server a) r" for r
  proof -
    have "server_inv C (ap_server a)" using inv reachable_inv by (auto simp: app_inv_def)
    then have "authorized (sv_credentials (ap_server a)) (ss_credential (session_at (ap_server a) r))"
      using that by (auto simp: server_inv_def sessions_ok_def)
    then have "admitted (ap_server a) (client_of (session_at (ap_server a) r)) \<noteq> None"
      by (auto simp: authorized_def admitted_def)
    then show ?thesis using adm by blast
  qed
  ultimately show ?thesis using adm by (auto simp: Let_def)
qed

section \<open>Requests\<close>

text \<open>A profile is only given out for a device that was enrolled and authorized.\<close>

lemma enroll_created:
  assumes run: "enroll_handler C V H e rq s r = (rp, s', r')" and created: "rp_status rp = 201" "rp_body rp = ProfileBody p"
  shows "\<exists>(input :: enrollment_request) d psk t.
    enroll C (store_lib.truncate V) (ve_store e) (er_code input) (er_device_name input) (er_platform input)
      (ve_store_now e) (sr_store s) = (Inr (d, psk), t)
    \<and> hk_authorize H (credential_for d psk) r = (True, r') \<and> p = profile_for (sr_settings s) d psk"
  using enroll_handler_cases [OF run]
proof (elim disjE exE conjE)
  fix lm d psk t ok and input :: enrollment_request
  assume en: "enroll C (store_lib.truncate V) (ve_store e) (er_code input) (er_device_name input) (er_platform input)
      (ve_store_now e) (sr_store s) = (Inr (d, psk), t)"
    and au: "hk_authorize H (credential_for d psk) r = (ok, r')" and ok: ok
    and rp: "rp = reply 201 [no_store] (ProfileBody (profile_for (sr_settings s) d psk))"
  have "p = profile_for (sr_settings s) d psk" using created(2) by (simp add: rp reply_def)
  moreover have "hk_authorize H (credential_for d psk) r = (True, r')" using au ok by simp
  ultimately show ?thesis using en by blast
qed (use created(1) in simp_all)

lemma profile_valid:
  assumes "nl_resolve_udp L (mg_public_relay m)" "good_credential (credential_for d psk)"
  shows "validate_client L (profile_for m d psk) = None
    \<and> (\<exists>key. client_key L (profile_for m d psk) = Inr key \<and> parse_key psk = Inr key)"
proof -
  obtain i key a where c: "length i = 16" "dv_client_id d = client_id_string i" "parse_key psk = Inr key" "ip_of_text (dv_tunnel_address d) = Some a"
    using assms(2) by (auto simp: good_credential_def credential_for_def)
  have k: "client_key L (profile_for m d psk) = Inr key" using c(3) by (simp add: client_key_def resolve_key_def profile_for_def)
  have "parse_client_id (dv_client_id d) = Inr i" using c(1,2) by simp
  moreover obtain p where "parse_prefix4 (dv_tunnel_address d) = Some p" using c(4) by (auto simp: ip_of_text_def)
  moreover have "validate_logging \<lparr> lc_level = ''info'', lc_format = ''json'' \<rparr> = None" by code_simp
  ultimately have "validate_client L (profile_for m d psk) = None"
    using k assms(1)
    by (simp add: validate_client_def profile_for_def validate_tunnel_def validate_duration_def
        millisecond_def second_def minute_def hour_def)
  then show ?thesis using k c(3) by blast
qed

lemma created_profile_usable:
  assumes C: "gcm_laws C" and re: "app_reachable C L V c a" and mgc: "sc_management c = Some mgt" and relay_ok: "nl_resolve_udp L' (mg_public_relay mgt)"
    and rq: "request_ok (static_ids c) (sr_store (ap_service a)) e rq"
    and run: "serve C V (relay_hooks L) e rq (ap_service a) (ap_server a) = (rp, s', r')"
    and created: "rp_status rp = 201" "rp_body rp = ProfileBody p"
  shows "validate_client L' p = None \<and> Some (cc_server p) = map_option mg_public_relay (sc_management c)
    \<and> (\<exists>key ip. client_key L' p = Inr key \<and> ip_of_text (cc_tunnel_address p) = Some ip
         \<and> admitted r' (cc_client_id p) = Some (key, Addr4 ip))"
  using run
proof (cases rule: serve_cases)
  case none
  then show ?thesis using created by simp
next
  case (activating rp0)
  have "rp_body rp0 = ProfileBody p" using created(2) activating(5) by simp
  then show ?thesis using create_handler_body [OF activating(3)] by simp
next
  case (acting rp0)
  then show ?thesis using created device_action_cases [OF acting(3)] by (auto simp: reply_def)
next
  case (enrolling rp0)
  let ?s = "ap_service a"
  have inv: "app_inv C L c a" by (rule app_reachable_inv [OF C re])
  have w: "wf_store_env (ve_store e)" "store_inv C (sr_store ?s)" using rq inv by (simp_all add: request_ok_def app_inv_def)
  obtain mg where mg: "sc_management c = Some mg" "sr_settings ?s = mg" using inv by (auto simp: app_inv_def started_with_def)
  have "mg = mgt" using mg(1) mgc by simp
  obtain d psk t and input :: enrollment_request where en: "enroll C (store_lib.truncate V) (ve_store e) (er_code input) (er_device_name input) (er_platform input)
      (ve_store_now e) (sr_store ?s) = (Inr (d, psk), t)"
    and au: "hk_authorize (relay_hooks L) (credential_for d psk) (ap_server a) = (True, r')"
    and p: "p = profile_for mg d psk"
    using enroll_created [OF enrolling(2)] created enrolling(3,4) mg(2) by metis
  have good: "good_credential (credential_for d psk)" using enrolled_slot [OF C w(2,1) en] by blast
  have "authorize_client L (credential_for d psk) (ap_server a) = (True, r')" using au by (simp add: relay_hooks_def)
  from relay.granted_good [OF this good] obtain key ip where g: "admitted r' = (admitted (ap_server a))(dv_client_id d \<mapsto> (key, Addr4 ip))"
    "parse_key psk = Inr key" "ip_of_text (dv_tunnel_address d) = Some ip" by (auto simp: credential_for_def)
  have "cc_client_id p = dv_client_id d" "cc_tunnel_address p = dv_tunnel_address d" "cc_server p = mg_public_relay mg"
    by (simp_all add: p profile_for_def)
  then show ?thesis
    using profile_valid [OF relay_ok good] g mg(1) p \<open>mg = mgt\<close> by auto
qed

text \<open>A device that is enrolled gets a profile it can use: the client accepts the profile as it is, the
  relay admits the profile's client identifier under exactly the key and the tunnel address in the profile,
  and the profile points to the public address of the relay.\<close>

theorem enrolled_profile_usable:
  assumes C: "gcm_laws C" and re: "app_reachable C L V c a" and valid: "validate_server L c = None"
    and rq: "request_ok (static_ids c) (sr_store (ap_service a)) e rq"
    and run: "serve C V (relay_hooks L) e rq (ap_service a) (ap_server a) = (rp, s', r')"
    and created: "rp_status rp = 201" "rp_body rp = ProfileBody p"
  shows "validate_client L p = None \<and> Some (cc_server p) = map_option mg_public_relay (sc_management c)
    \<and> (\<exists>key ip. client_key L p = Inr key \<and> ip_of_text (cc_tunnel_address p) = Some ip
         \<and> admitted r' (cc_client_id p) = Some (key, Addr4 ip))"
proof -
  obtain mg where mg: "sc_management c = Some mg"
    using app_reachable_inv [OF C re] by (auto simp: app_inv_def started_with_def)
  have "nl_resolve_udp L (mg_public_relay mg)"
    using valid mg by (simp add: validate_server_def validate_management_def)
  from created_profile_usable [OF C re mg this rq run created] show ?thesis .
qed

text \<open>C11: Revocation takes effect at once: when a revocation has been confirmed, the relay no longer admits the
  device that the path names, has no live session of it, and the data base has it revoked.\<close>

theorem revocation_immediate:
  assumes C: "gcm_laws C" and re: "app_reachable C L V c a" and rq: "request_ok (static_ids c) (sr_store (ap_service a)) e rq"
    and run: "serve C V (relay_hooks L) e rq (ap_service a) (ap_server a) = (rp, s', r')" and confirmed: "rp_body rp = RevokedBody"
  shows "\<exists>i. split_on CHR ''/'' (trim_char CHR ''/'' (trim_prefix (rq_path rq) ''/v1/admin/devices/'')) = [i]
    \<and> admitted r' i = None \<and> \<not> active_device (sr_store s') i \<and> (\<forall>r. live r' r \<longrightarrow> client_of (session_at r' r) \<noteq> i)"
  using run
proof (cases rule: serve_cases)
  case (acting rp0)
  let ?s = "ap_service a"
  have inv: "store_inv C (sr_store ?s)" "in_step (admitted (ap_server a)) (static_ids c) (sr_store ?s)" "reachable C L c (ap_server a)"
    using app_reachable_inv [OF C re] by (simp_all add: app_inv_def)
  obtain i d t where i: "split_on CHR ''/'' (trim_char CHR ''/'' (trim_prefix (rq_path rq) ''/v1/admin/devices/'')) = [i]"
    and rv: "revoke_device (ve_revoke_commit e) i (ve_revoke_now e) (sr_store ?s) = (Inr d, t)" and s': "s' = ?s\<lparr>sr_store := t\<rparr>"
    using device_action_cases [OF acting(3)] confirmed acting(5) by (auto simp: reply_def)
  have st: "in_step (admitted r') (static_ids c) (sr_store s')"
    by (rule relay.serve_in_step [OF C inv(1,2) rq run [unfolded hooks_relay]])
  obtain x where x: "load_device (st_db t) i = Inr x" "dv_revoked_at x \<noteq> None"
    using revoked_slot [OF inv(1) rv] by metis
  have na: "\<not> active_device (sr_store s') i" using x by (simp add: s' active_device_def)
  have none: "admitted r' i = None"
    using st x unfolding in_step_def slot_ok_def by (auto simp: s' dest!: spec [of _ i])
  have "client_of (session_at r' q) \<noteq> i" if "live r' q" for q
  proof
    assume i: "client_of (session_at r' q) = i"
    have "server_inv C r'" using serve_reachable [OF inv(3) run] reachable_inv by blast
    then have "authorized (sv_credentials r') (ss_credential (session_at r' q))" using that by (auto simp: server_inv_def sessions_ok_def)
    then show False using none i by (auto simp: authorized_def admitted_def)
  qed
  then show ?thesis using i na none by blast
next
  case (enrolling rp0)
  then show ?thesis using enroll_handler_cases [OF enrolling(2)] confirmed by (auto simp: reply_def)
next
  case (activating rp0)
  have "rp_body rp0 = RevokedBody" using confirmed activating(5) by simp
  then show ?thesis using create_handler_body [OF activating(3)] by simp
qed (use confirmed in auto)

lemma redeemable:
  assumes "enroll C L e code n p now s = (Inr (d, psk), t)"
  shows "\<exists>a. map_get (db_activations (st_db s)) (code_hash L code) = Some (Some a) \<and> ac_used_at a = None \<and> now < ac_expires_at a"
proof -
  obtain c db n' p' where tx: "enroll_tx C L e s code n' p' now (st_db s) = Inr ((c, psk), db)" by (rule enroll_success [OF assms])
  show ?thesis using enroll_tx_success [OF tx] by (elim exE conjE) blast
qed

text \<open>C14: Without the administrator's token a request can change the data base or the relay in one way only,
  by redeeming an activation code that has not been used and has not expired; and nobody else is told the
  devices, a new code or a rotated key.\<close>

theorem changes_need_token_or_code:
  assumes run: "serve C V H e rq s r = (rp, s', r')" and no_token: "rq_authorization rq \<noteq> ''Bearer '' @ sr_admin_token s"
  shows "sr_store s' = sr_store s \<and> r' = r \<and> (\<forall>p. rp_body rp \<noteq> ProfileBody p)
        \<and> (\<forall>ds. rp_body rp \<noteq> DevicesBody ds) \<and> (\<forall>code t. rp_body rp \<noteq> ActivationBody code t)
    \<or> (rq_path rq = ''/v1/enroll'' \<and> rq_method rq = ''POST'' \<and> (\<exists>input code.
          rq_enrollment rq = Some input
          \<and> map_get (db_activations (st_db (sr_store s))) (code_hash (store_lib.truncate V) (er_code input)) = Some (Some code)
          \<and> ac_used_at code = None \<and> ve_store_now e < ac_expires_at code))"
  using run
proof (cases rule: serve_cases)
  case none
  then show ?thesis using no_token by (intro disjI1) auto
next
  case (enrolling rp0)
  show ?thesis
    using enroll_handler_cases [OF enrolling(2)]
  proof (elim disjE exE conjE)
    fix lm assume "s' = s\<lparr>sr_limiter := lm\<rparr>" "r' = r" "plain_body (rp_body rp0)"
    then show ?thesis using enrolling(4) by (intro disjI1) auto
  next
    fix lm input d psk st ok
    assume q: "rq_method rq = ''POST''" "rq_enrollment rq = Some input"
      and en: "enroll C (store_lib.truncate V) (ve_store e) (er_code input) (er_device_name input) (er_platform input)
        (ve_store_now e) (sr_store s) = (Inr (d, psk), st)"
    show ?thesis using redeemable [OF en] q enrolling(1) by (intro disjI2) blast
  next
    fix lm input d psk st ok
    assume q: "rq_method rq = ''POST''" "rq_enrollment rq = Some input"
      and en: "enroll C (store_lib.truncate V) (ve_store e) (er_code input) (er_device_name input) (er_platform input)
        (ve_store_now e) (sr_store s) = (Inr (d, psk), st)"
    show ?thesis using redeemable [OF en] q enrolling(1) by (intro disjI2) blast
  qed
next
  case (activating rp0)
  then show ?thesis using no_token by simp
next
  case (acting rp0)
  then show ?thesis using no_token by simp
qed

section \<open>Two requests at once\<close>

text \<open>The handlers do not exclude each other: when a revocation is handled between the two halves of a
  rotation, the rotated key is authorized after the relay has forgotten the device, and the relay admits a
  device that the data base has as revoked.\<close>

lemma rotate_revoke_race:
  assumes C: "gcm_laws C" and inv: "store_inv C s" and w: "wf_store_env e"
    and rotated: "rotate_key C e i now s = (Inr (d, psk), s1)"
    and revoked: "revoke_device commit i now' s1 = (Inr d', s2)"
    and authorized: "authorize_client L (credential_for d psk) (revoke_client i r) = (True, r')"
  shows "admitted r' i \<noteq> None \<and> \<not> active_device s2 i"
proof -
  have r: "good_credential (credential_for d psk)" "dv_client_id d = i" "store_inv C s1"
    using rotated_slot [OF C inv w rotated] by blast+
  obtain x where x: "load_device (st_db s2) i = Inr x" "dv_revoked_at x \<noteq> None"
    using revoked_slot [OF r(3) revoked] by metis
  have "admitted r' (cl_client_id (credential_for d psk)) \<noteq> None"
    using relay.granted_good [OF authorized r(1)] by auto
  then show ?thesis using x r(2) by (simp add: active_device_def credential_for_def)
qed

end
