(* ===== verification/Service_Demo.thy ===== *)
theory Service_Demo
  imports Service_Facts Store_Demo
begin

text \<open>
  One run of a relay with its control plane: it is started, a code is created, a device is enrolled with it
  and revoked. The closed examples of the properties of the service are read off it.
\<close>

definition demo_management :: management_config where
  "demo_management = \<lparr> mg_listen = ''127.0.0.1:8443'', mg_database_path = ''control.db'', mg_public_relay = ''relay:4430'',
     mg_tunnel_pool = ''10.0.0.0/24'', mg_admin_token_env = ''T'', mg_master_key_env = ''K'', mg_activation_ttl = 15 * minute \<rparr>"

definition demo_managed_config :: server_config where
  "demo_managed_config = demo_server_config\<lparr>sc_management := Some demo_management\<rparr>"

definition demo_token :: string where
  "demo_token = replicate 32 CHR ''x''"

definition demo_managed_lib :: net_lib where
  "demo_managed_lib = demo_lib\<lparr>nl_getenv := (\<lambda>v. if v = ''T'' then demo_token else b64_encode std_alphabet True (replicate 32 1))\<rparr>"

definition demo_service_lib :: service_lib where
  "demo_service_lib = store_lib.extend demo_store_lib
     \<lparr> vl_split_host = (\<lambda>s. Some s), vl_parse_ip = (\<lambda>s. None), vl_parse_duration = (\<lambda>s. None) \<rparr>"

definition demo_service_env :: service_env where
  "demo_service_env = \<lparr> ve_now = demo_time, ve_store = demo_store_env\<lparr>se_psk := Some (replicate 32 9)\<rparr>, ve_store_now = demo_time, ve_revoke_now = demo_time + minute,
     ve_revoke_commit = True \<rparr>"

definition demo_request :: http_request where
  "demo_request = \<lparr> rq_method = ''POST'', rq_path = ''/v1/admin/activations'', rq_remote = ''h'',
     rq_authorization = ''Bearer '' @ demo_token, rq_forwarded = [], rq_enrollment = None,
     rq_activation = Some \<lparr> ar_user_id = ''u'', ar_device_name = ''phone'', ar_expires_in = [] \<rparr> \<rparr>"

definition demo_database0 :: database where
  "demo_database0 = empty_database\<lparr>db_schema := Some ''1''\<rparr>"

definition demo_service :: "database \<Rightarrow> service" where
  "demo_service db = \<lparr> sr_settings = demo_management,
     sr_store = \<lparr> st_key = replicate 32 1, st_pool = (0x0A000000, 24), st_reserved = [Addr4 0x0A000001, Addr4 0x0A000002], st_db = db \<rparr>,
     sr_admin_token = demo_token, sr_limiter = [] \<rparr>"

definition demo_relay :: server where
  "demo_relay = (empty_server demo_managed_config demo_registry)
     \<lparr>sv_credentials := [(client_id_string demo_id, demo_cred)], sv_hook := True\<rparr>"

definition demo_app0 :: app where
  "demo_app0 = \<lparr> ap_server = demo_relay, ap_service = demo_service demo_database0 \<rparr>"

lemma demo_start: "start_app demo_crypto demo_managed_lib demo_managed_config (Some empty_database) True True demo_registry = Some demo_app0"
  by code_simp

definition demo_database1 :: database where
  "demo_database1 = \<lparr> db_schema = Some ''1'', db_activations = [(bytes_of_string demo_code, Some (demo_activation\<lparr>ac_expires_at := demo_time + 15 * minute\<rparr>))],
     db_devices = [],
     db_audit = [(put_uint64 1, Some \<lparr> ae_type = ActivationCreated, ae_subject_id = [], ae_user_id = ''u'', ae_timestamp = demo_time \<rparr>)],
     db_audit_sequence = 1 \<rparr>"

definition demo_app1 :: app where
  "demo_app1 = \<lparr> ap_server = demo_relay, ap_service = demo_service demo_database1 \<rparr>"

lemma demo_created:
  "app_step demo_crypto demo_managed_lib demo_service_lib demo_app0 (HttpRequest demo_service_env demo_request) = demo_app1"
  by code_simp

lemma demo_app_reachable: "app_reachable demo_crypto demo_managed_lib demo_service_lib demo_managed_config demo_app1"
proof -
  have s: "app_reachable demo_crypto demo_managed_lib demo_service_lib demo_managed_config demo_app0"
    by (rule app_reachable.started [OF demo_start]) (simp add: demo_registry_def new_registry_def)
  have "wf_store_env (demo_store_env\<lparr>se_psk := Some (replicate 32 9)\<rparr>)"
    by (simp add: wf_store_env_def demo_store_env_def demo_id_def)
  then have "request_ok (static_ids demo_managed_config) (sr_store (ap_service demo_app0)) demo_service_env demo_request"
    by (simp add: request_ok_def demo_service_env_def demo_request_def)
  from app_reachable.request [OF s this] show ?thesis unfolding demo_created .
qed

theorem access_exact_witness:
  "(admitted (ap_server demo_app1) (client_id_string demo_id) \<noteq> None
      \<longleftrightarrow> client_id_string demo_id \<in> static_ids demo_managed_config \<or> active_device (sr_store (ap_service demo_app1)) (client_id_string demo_id))
   \<and> admitted (ap_server demo_app1) (client_id_string demo_id) \<noteq> None"
proof -
  have "admitted (ap_server demo_app1) (client_id_string demo_id) \<noteq> None"
    by (simp add: demo_app1_def demo_relay_def admitted_def)
  then show ?thesis using access_exact [OF gcm_laws_demo demo_app_reachable] by blast
qed

section \<open>Enrolling\<close>

definition demo_enrollment :: http_request where
  "demo_enrollment = \<lparr> rq_method = ''POST'', rq_path = ''/v1/enroll'', rq_remote = ''h'', rq_authorization = [], rq_forwarded = [],
     rq_enrollment = Some \<lparr> er_code = demo_code, er_device_name = [], er_platform = ''android'' \<rparr>, rq_activation = None \<rparr>"

definition demo_device2 :: device where
  "demo_device2 = demo_device\<lparr>dv_tunnel_address := ''10.0.0.3/24''\<rparr>"

definition demo_profile :: client_config where
  "demo_profile = profile_for demo_management demo_device2 (b64_encode std_alphabet True (replicate 32 9))"

definition demo_database2 :: database where
  "demo_database2 = \<lparr> db_schema = Some ''1'',
     db_activations = [(bytes_of_string demo_code, Some (demo_activation
       \<lparr>ac_expires_at := demo_time + 15 * minute, ac_used_at := Some demo_time, ac_used_by := ''0102030405064708890a0b0c0d0e0f10''\<rparr>))],
     db_devices = [(device_key ''0102030405064708890a0b0c0d0e0f10'', Some (device.extend demo_device2
       \<lparr> sd_encrypted_psk = ''AwMDAwMDAwMDAwMDQ1FrSkNRa0pDUWtKQ1FrSkNRa0pDUWtKQ1FrSkNRa0pDUWtKQ1FrSkNRaz0BAQEBAQEBAQEBAQEBAQEB'' \<rparr>))],
     db_audit = [(put_uint64 1, Some \<lparr> ae_type = ActivationCreated, ae_subject_id = [], ae_user_id = ''u'', ae_timestamp = demo_time \<rparr>),
       (put_uint64 2, Some \<lparr> ae_type = DeviceEnrolled, ae_subject_id = ''0102030405064708890a0b0c0d0e0f10'', ae_user_id = ''u'', ae_timestamp = demo_time \<rparr>)],
     db_audit_sequence = 2 \<rparr>"

definition demo_app2 :: app where
  "demo_app2 = \<lparr>
     ap_server = demo_relay\<lparr>sv_credentials := [(client_id_string demo_id, demo_cred),
       (''0102030405064708890a0b0c0d0e0f10'', \<lparr> cr_name = ''phone'', cr_client_id = [1, 2, 3, 4, 5, 6, 71, 8, 137, 10, 11, 12, 13, 14, 15, 16],
          cr_key = replicate 32 9, cr_tunnel_ip = Addr4 0x0A000003 \<rparr>)]\<rparr>,
     ap_service = (demo_service demo_database2)\<lparr>sr_limiter := [(''h'', \<lparr> rw_start = demo_time, rw_count = 1 \<rparr>)]\<rparr> \<rparr>"

definition demo_answer :: http_reply where
  "demo_answer = \<lparr> rp_status = 201, rp_headers = security_headers @ [no_store, (''Content-Type'', ''application/json'')],
     rp_body = ProfileBody demo_profile \<rparr>"

lemma demo_enroll2: "enroll demo_crypto demo_store_lib (demo_store_env\<lparr>se_psk := Some (replicate 32 9)\<rparr>) demo_code [] ''android'' demo_time
    (sr_store (demo_service demo_database1))
  = (Inr (demo_device2, b64_encode std_alphabet True (replicate 32 9)), sr_store (demo_service demo_database2))"
  by code_simp

lemma demo_authorize2: "authorize_client demo_managed_lib (credential_for demo_device2 (b64_encode std_alphabet True (replicate 32 9))) demo_relay
  = (True, ap_server demo_app2)"
  by code_simp

lemma demo_allow: "client_address demo_service_lib demo_enrollment = ''h''"
  "allow ''h'' 20 minute demo_time [] = (True, [(''h'', \<lparr> rw_start = demo_time, rw_count = 1 \<rparr>)])"
  by code_simp+

lemma demo_truncate: "store_lib.truncate demo_service_lib = demo_store_lib"
  by (simp add: demo_service_lib_def store_lib.defs)

lemma demo_served: "serve demo_crypto demo_service_lib (relay_hooks demo_managed_lib) demo_service_env demo_enrollment
    (ap_service demo_app1) (ap_server demo_app1) = (demo_answer, ap_service demo_app2, ap_server demo_app2)"
proof -
  have "enroll_handler demo_crypto demo_service_lib (relay_hooks demo_managed_lib) demo_service_env demo_enrollment
      (demo_service demo_database1) demo_relay
    = (reply 201 [no_store] (ProfileBody demo_profile), ap_service demo_app2, ap_server demo_app2)"
    unfolding enroll_handler_def Let_def demo_allow(1)
    using demo_allow(2) demo_enroll2 demo_authorize2
    by (simp add: demo_enrollment_def demo_service_env_def demo_truncate relay_hooks_def demo_service_def demo_app2_def demo_profile_def)
  then show ?thesis
    by (simp add: serve_def route_def demo_app1_def demo_answer_def reply_def demo_enrollment_def)
qed

lemma demo_fresh: "request_ok (static_ids demo_managed_config) (sr_store (ap_service demo_app1)) demo_service_env demo_enrollment"
proof -
  have w: "wf_store_env (demo_store_env\<lparr>se_psk := Some (replicate 32 9)\<rparr>)"
    by (simp add: wf_store_env_def demo_store_env_def demo_id_def)
  have "generate_client_id (Some demo_id) = Inr ''0102030405064708890a0b0c0d0e0f10''" by code_simp
  moreover have "static_ids demo_managed_config = {client_id_string demo_id}"
    by (auto simp: static_ids_def demo_managed_config_def demo_server_config_def demo_parsed)
  moreover have "client_id_string demo_id \<noteq> ''0102030405064708890a0b0c0d0e0f10''" by code_simp
  moreover have "load_device (st_db (sr_store (ap_service demo_app1))) i \<noteq> Inr d" for i d
    by (simp add: demo_app1_def demo_service_def demo_database1_def load_device_def)
  ultimately show ?thesis
    using w by (auto simp: request_ok_def demo_service_env_def demo_store_env_def)
qed

lemma demo_app2_reachable: "app_reachable demo_crypto demo_managed_lib demo_service_lib demo_managed_config demo_app2"
proof -
  have "app_step demo_crypto demo_managed_lib demo_service_lib demo_app1 (HttpRequest demo_service_env demo_enrollment) = demo_app2"
    by (simp add: app_step_def demo_served)
  then show ?thesis using app_reachable.request [OF demo_app_reachable demo_fresh] by simp
qed

lemma demo_valid: "validate_server demo_managed_lib demo_managed_config = None"
proof -
  have p: "server_prefix demo_managed_config = (0x0A000001, 24)"
    using demo_parsed(4) by (simp add: server_prefix_def demo_managed_config_def)
  have "validate_tunnel (sc_tunnel_address demo_managed_config) (sc_mtu demo_managed_config) = None"
    using demo_parsed(4) by (simp add: validate_tunnel_def demo_managed_config_def) (simp add: demo_server_config_def model_defs)
  moreover have "validate_clients demo_managed_lib (0x0A000001, 24) [] [] [] (sc_clients demo_managed_config) = None"
  proof -
    have "credential_key demo_managed_lib demo_client = Inr demo_key"
      using demo_parsed(2) by (simp add: credential_key_def resolve_key_def demo_client_def)
    then show ?thesis
      using demo_parsed by (simp add: demo_managed_config_def demo_server_config_def)
  qed
  moreover have "validate_management demo_managed_lib (0x0A000001, 24) demo_management = None" by code_simp
  moreover have "validate_logging (sc_logging demo_managed_config) = None" by code_simp
  moreover have "sc_management demo_managed_config = Some demo_management" "nl_resolve_udp demo_managed_lib x"
      "sc_clients demo_managed_config \<noteq> []" "sc_reorder_window demo_managed_config = 512" "sc_reorder_delay demo_managed_config = 0"
      "sc_session_timeout demo_managed_config = 0" "sc_stats_interval demo_managed_config = 0" for x
    by (simp_all add: demo_managed_config_def demo_server_config_def demo_managed_lib_def demo_lib_def)
  ultimately show ?thesis
    by (simp add: validate_server_def p validate_duration_def)
qed

theorem enrolled_profile_usable_witness:
  "validate_client demo_managed_lib demo_profile = None \<and> cc_server demo_profile = ''relay:4430''
   \<and> (\<exists>key ip. client_key demo_managed_lib demo_profile = Inr key \<and> ip_of_text (cc_tunnel_address demo_profile) = Some ip
        \<and> admitted (ap_server demo_app2) (cc_client_id demo_profile) = Some (key, Addr4 ip))"
proof -
  have v: "validate_server demo_managed_lib demo_managed_config = None" by (rule demo_valid)
  have "cc_server demo_profile = ''relay:4430''" by (simp add: demo_profile_def profile_for_def demo_management_def)
  then show ?thesis
    using enrolled_profile_usable [OF gcm_laws_demo demo_app_reachable v demo_fresh demo_served] by (simp add: demo_answer_def)
qed

section \<open>Revoking\<close>

definition demo_deletion :: http_request where
  "demo_deletion = demo_request\<lparr>rq_method := ''DELETE'', rq_path := ''/v1/admin/devices/0102030405064708890a0b0c0d0e0f10''\<rparr>"

definition demo_answer3 :: "http_reply \<times> service \<times> server" where
  "demo_answer3 = serve demo_crypto demo_service_lib (relay_hooks demo_managed_lib) demo_service_env demo_deletion
     (ap_service demo_app2) (ap_server demo_app2)"

lemma demo_answer3_ok: "rp_body (fst demo_answer3) = RevokedBody"
  by code_simp

theorem revocation_immediate_witness:
  "admitted (snd (snd demo_answer3)) ''0102030405064708890a0b0c0d0e0f10'' = None
   \<and> \<not> active_device (sr_store (fst (snd demo_answer3))) ''0102030405064708890a0b0c0d0e0f10''"
proof -
  have rq: "request_ok (static_ids demo_managed_config) (sr_store (ap_service demo_app2)) demo_service_env demo_deletion"
    using demo_fresh by (simp add: request_ok_def demo_deletion_def)
  have run: "serve demo_crypto demo_service_lib (relay_hooks demo_managed_lib) demo_service_env demo_deletion
      (ap_service demo_app2) (ap_server demo_app2) = (fst demo_answer3, fst (snd demo_answer3), snd (snd demo_answer3))"
    by (simp add: demo_answer3_def)
  have "split_on CHR ''/'' (trim_char CHR ''/'' (trim_prefix (rq_path demo_deletion) ''/v1/admin/devices/'')) = [''0102030405064708890a0b0c0d0e0f10'']"
    by code_simp
  then show ?thesis
    using revocation_immediate [OF gcm_laws_demo demo_app2_reachable rq run demo_answer3_ok] by auto
qed

theorem changes_need_token_or_code_witness:
  "\<exists>input code. rq_enrollment demo_enrollment = Some input
     \<and> map_get (db_activations (st_db (sr_store (ap_service demo_app1)))) (code_hash demo_store_lib (er_code input)) = Some (Some code)
     \<and> ac_used_at code = None"
proof -
  have nt: "rq_authorization demo_enrollment \<noteq> ''Bearer '' @ sr_admin_token (ap_service demo_app1)"
    by (simp add: demo_enrollment_def)
  show ?thesis
    using changes_need_token_or_code [OF demo_served nt] by (auto simp: demo_answer_def demo_truncate)
qed

end
