(* ===== verification/Netconfig.thy ===== *)
theory Netconfig
  imports Config
begin

text \<open>
  \<open>internal/netconfig/netconfig.go\<close>: the commands that set up the tunnel interface and the routes that keep the
  encrypted packets out of the tunnel. What a command does is up to the operating system: the runner is a
  function of the commands run before and the command, its result whether it succeeded and what
  it printed.
\<close>

section \<open>Commands\<close>

type_synonym argv = "string list"

type_synonym runner = "argv list \<Rightarrow> argv \<Rightarrow> bool \<times> string"

datatype target_os = Linux | Windows | OtherOS

datatype net_error =
    ErrRelayAddress | ErrResolveRelay | ErrNoIPv4 | ErrUnsupportedOS
  | ErrPathFields | ErrNoInterface | ErrNoDefaultRoute | ErrCommand argv | ErrTunnelAddress

text \<open>What the standard library says of hosts and interfaces: \<open>net.SplitHostPort\<close>, \<open>net.LookupIP\<close> (the IPv4
  form of every address, where it has one) and \<open>net.InterfaceByName\<close> (the index).\<close>

record os_lib =
  ol_os :: target_os
  ol_split_host :: "string \<Rightarrow> string option"
  ol_lookup :: "string \<Rightarrow> u32 option list option"
  ol_interface :: "string \<Rightarrow> nat option"

record physical_path =
  pp_name :: string
  pp_interface :: string
  pp_local_address :: string

record route_guard =
  rg_closed :: bool
  rg_cleanup :: "argv list"

definition itoa :: "int \<Rightarrow> string" where
  "itoa n = (if n < 0 then ''-'' @ decimal (nat (- n)) else decimal (nat n))"

text \<open>\<open>strings.Fields\<close>\<close>

function fields_from :: "string \<Rightarrow> string \<Rightarrow> string list" where
  "fields_from cur s =
     (case leading_space unicode_spaces s of
        Some w \<Rightarrow> (if cur = [] then [] else [rev cur]) @ fields_from [] (drop (length w) s)
      | None \<Rightarrow>
          (case s of
             [] \<Rightarrow> if cur = [] then [] else [rev cur]
           | c # cs \<Rightarrow> fields_from (c # cur) cs))"
  by pat_completeness auto
termination
proof (relation "measure (\<lambda>(cur, s). length s)")
  fix cur s w
  assume "leading_space unicode_spaces s = Some w"
  then have "w \<noteq> []" "take (length w) s = w"
    by (auto simp: leading_space_def find_Some_iff)
  then have "s \<noteq> []" by auto
  with \<open>w \<noteq> []\<close> show "(([], drop (length w) s), (cur, s)) \<in> measure (\<lambda>(cur, s). length s)"
    by (simp add: length_greater_0_conv [symmetric] diff_less del: length_greater_0_conv)
qed simp_all

declare fields_from.simps [simp del]

definition fields :: "string \<Rightarrow> string list" where
  "fields s = fields_from [] s"

fun token_after :: "string list \<Rightarrow> string \<Rightarrow> string" where
  "token_after (a # b # r) t = (if a = t then b else token_after (b # r) t)"
| "token_after ts t = []"

definition has_infix :: "string \<Rightarrow> string \<Rightarrow> bool" where
  "has_infix s part \<longleftrightarrow> list_ex (\<lambda>i. take (length part) (drop i s) = part) [0..<Suc (length s)]"

section \<open>The tunnel interface\<close>

text \<open>The commands one after the other, up to the first that fails.\<close>

fun run_commands :: "runner \<Rightarrow> argv list \<Rightarrow> argv list \<Rightarrow> net_error option \<times> argv list" where
  "run_commands R [] hist = (None, hist)"
| "run_commands R (c # cs) hist =
     (if fst (R hist c) then run_commands R cs (hist @ [c]) else (Some (ErrCommand c), hist @ [c]))"

text \<open>The bits of the mask are set one by one; the index is out of range (a panic) for more than 32 bits.\<close>

definition set_mask_bit :: "byte list option \<Rightarrow> nat \<Rightarrow> byte list option" where
  "set_mask_bit raw i =
     (case raw of
        None \<Rightarrow> None
      | Some bs \<Rightarrow> if length bs \<le> i div 8 then None
                  else Some (bs[i div 8 := (bs ! (i div 8)) OR push_bit (7 - i mod 8) 1]))"

definition netmask :: "nat \<Rightarrow> string option" where
  "netmask bits = map_option (\<lambda>raw. addr4_string (get_uint32 raw)) (foldl set_mask_bit (Some [0, 0, 0, 0]) [0..<bits])"

definition setup_linux_commands :: "string \<Rightarrow> string \<Rightarrow> int \<Rightarrow> string list \<Rightarrow> argv list" where
  "setup_linux_commands interfaceName address mtu routes =
     [[''ip'', ''link'', ''set'', ''dev'', interfaceName, ''mtu'', itoa mtu, ''up''],
      [''ip'', ''address'', ''replace'', address, ''dev'', interfaceName]]
     @ map (\<lambda>route. [''ip'', ''route'', ''replace'', route, ''dev'', interfaceName]) routes"

definition setup_windows_commands :: "string \<Rightarrow> prefix4 \<Rightarrow> string \<Rightarrow> int \<Rightarrow> string list \<Rightarrow> argv list" where
  "setup_windows_commands interfaceName pfx msk mtu routes =
     [[''netsh'', ''interface'', ''ipv4'', ''set'', ''address'', ''name='' @ interfaceName, ''source=static'',
       ''address='' @ addr4_string (fst pfx), ''mask='' @ msk, ''gateway=none'', ''store=active''],
      [''netsh'', ''interface'', ''ipv4'', ''set'', ''subinterface'', interfaceName, ''mtu='' @ itoa mtu, ''store=active'']]
     @ map (\<lambda>route. [''netsh'', ''interface'', ''ipv4'', ''add'', ''route'', route, interfaceName, ''nexthop=0.0.0.0'', ''store=active'']) routes"

text \<open>\<open>setup\<close>. The address is IPv4, as the validation of the configuration has made sure.\<close>

definition setup_interface ::
  "os_lib \<Rightarrow> runner \<Rightarrow> string \<Rightarrow> string \<Rightarrow> int \<Rightarrow> string list \<Rightarrow> argv list \<Rightarrow> net_error option \<times> argv list" where
  "setup_interface L R interfaceName address mtu routes hist =
     (case ol_os L of
        Linux \<Rightarrow> run_commands R (setup_linux_commands interfaceName address mtu routes) hist
      | Windows \<Rightarrow>
          (case parse_prefix4 address of
             None \<Rightarrow> (Some ErrTunnelAddress, hist)
           | Some pfx \<Rightarrow>
               (case netmask (snd pfx) of
                  None \<Rightarrow> (Some ErrTunnelAddress, hist)
                | Some msk \<Rightarrow> run_commands R (setup_windows_commands interfaceName pfx msk mtu routes) hist))
      | OtherOS \<Rightarrow> (Some ErrUnsupportedOS, hist))"

section \<open>The routes around the tunnel\<close>

definition path_key :: "physical_path \<Rightarrow> string" where
  "path_key p = pp_interface p @ ''/'' @ pp_local_address p"

definition show_default :: "string \<Rightarrow> argv" where
  "show_default interface = [''ip'', ''-4'', ''route'', ''show'', ''default'', ''dev'', interface]"

definition delete_rule :: "string \<Rightarrow> argv" where
  "delete_rule priority = [''ip'', ''rule'', ''del'', ''priority'', priority]"

definition flush_table :: "string \<Rightarrow> argv" where
  "flush_table tab = [''ip'', ''route'', ''flush'', ''table'', tab]"

definition replace_route :: "string \<Rightarrow> string \<Rightarrow> physical_path \<Rightarrow> argv" where
  "replace_route tab gateway p =
     [''ip'', ''route'', ''replace'', ''table'', tab, ''default''] @ (if gateway \<noteq> [] then [''via'', gateway] else [])
     @ [''dev'', pp_interface p, ''src'', pp_local_address p] @ (if gateway \<noteq> [] then [''onlink''] else [])"

definition add_rule :: "string \<Rightarrow> physical_path \<Rightarrow> argv" where
  "add_rule number p =
     [''ip'', ''rule'', ''add'', ''priority'', number, ''from'', pp_local_address p @ ''/32'', ''table'', number]"

text \<open>The number that the routing table and the rule of an interface share.\<close>

definition table_number :: "nat \<Rightarrow> string" where
  "table_number index = decimal (20000 + index)"

text \<open>One turn of \<open>protectLinux\<close> for a path that was not seen; the state is the guard and the commands run.\<close>

definition protect_path ::
  "os_lib \<Rightarrow> runner \<Rightarrow> physical_path \<Rightarrow> route_guard \<Rightarrow> argv list \<Rightarrow> net_error option \<times> route_guard \<times> argv list" where
  "protect_path L R p g hist =
     (case ol_interface L (pp_interface p) of
        None \<Rightarrow> (Some ErrNoInterface, g, hist)
      | Some index \<Rightarrow>
          let number = table_number index;
              (ok, out) = R hist (show_default (pp_interface p)); hist1 = hist @ [show_default (pp_interface p)] in
          if \<not> ok \<or> trim_space out = [] then (Some ErrNoDefaultRoute, g, hist1)
          else
            let gateway = token_after (fields out) ''via'';
                hist2 = hist1 @ [delete_rule number, flush_table number];
                hist3 = hist2 @ [replace_route number gateway p] in
            if \<not> fst (R hist2 (replace_route number gateway p))
            then (Some (ErrCommand (replace_route number gateway p)), g, hist3)
            else
              let hist4 = hist3 @ [add_rule number p] in
              if \<not> fst (R hist3 (add_rule number p)) then (Some (ErrCommand (add_rule number p)), g, hist4)
              else (None, g\<lparr>rg_cleanup := rg_cleanup g @ [delete_rule number, flush_table number]\<rparr>, hist4))"

fun protect_linux ::
  "os_lib \<Rightarrow> runner \<Rightarrow> string list \<Rightarrow> physical_path list \<Rightarrow> route_guard \<Rightarrow> argv list
   \<Rightarrow> net_error option \<times> route_guard \<times> argv list" where
  "protect_linux L R seen [] g hist = (None, g, hist)"
| "protect_linux L R seen (p # ps) g hist =
     (if pp_interface p = [] \<or> pp_local_address p = [] then (Some ErrPathFields, g, hist)
      else if path_key p \<in> set seen then protect_linux L R seen ps g hist
      else case protect_path L R p g hist of
        (Some e, g1, hist1) \<Rightarrow> (Some e, g1, hist1)
      | (None, g1, hist1) \<Rightarrow> protect_linux L R (path_key p # seen) ps g1 hist1)"

definition powershell :: "string \<Rightarrow> argv" where
  "powershell script = [''powershell.exe'', ''-NoProfile'', ''-NonInteractive'', ''-Command'', script]"

definition gateway_script :: "nat \<Rightarrow> string" where
  "gateway_script index = ''(Get-NetIPConfiguration -InterfaceIndex '' @ decimal index @ '').IPv4DefaultGateway.NextHop''"

definition quoted :: "string \<Rightarrow> string" where
  "quoted s = [CHR 0x27] @ s @ [CHR 0x27]"

definition create_script :: "string \<Rightarrow> nat \<Rightarrow> string \<Rightarrow> string" where
  "create_script relay index gateway =
     ''if (-not (Get-NetRoute -DestinationPrefix '' @ quoted (relay @ ''/32'') @ '' -InterfaceIndex '' @ decimal index
     @ '' -ErrorAction SilentlyContinue)) { New-NetRoute -DestinationPrefix '' @ quoted (relay @ ''/32'') @ '' -InterfaceIndex ''
     @ decimal index @ '' -NextHop '' @ quoted gateway
     @ '' -RouteMetric 1 -PolicyStore ActiveStore -ErrorAction Stop | Out-Null; '' @ quoted ''created'' @ '' }''"

definition remove_script :: "string \<Rightarrow> nat \<Rightarrow> string" where
  "remove_script relay index =
     ''Remove-NetRoute -DestinationPrefix '' @ quoted (relay @ ''/32'') @ '' -InterfaceIndex '' @ decimal index
     @ '' -Confirm:$false -ErrorAction SilentlyContinue''"

fun protect_relays ::
  "runner \<Rightarrow> nat \<Rightarrow> string \<Rightarrow> string list \<Rightarrow> route_guard \<Rightarrow> argv list \<Rightarrow> net_error option \<times> route_guard \<times> argv list" where
  "protect_relays R index gateway [] g hist = (None, g, hist)"
| "protect_relays R index gateway (relay # relays) g hist =
     (let c = powershell (create_script relay index gateway); (ok, out) = R hist c; hist1 = hist @ [c] in
      if \<not> ok then (Some (ErrCommand c), g, hist1)
      else protect_relays R index gateway relays
        (if has_infix out ''created'' then g\<lparr>rg_cleanup := rg_cleanup g @ [powershell (remove_script relay index)]\<rparr> else g) hist1)"

fun protect_windows ::
  "os_lib \<Rightarrow> runner \<Rightarrow> string list \<Rightarrow> physical_path list \<Rightarrow> route_guard \<Rightarrow> argv list
   \<Rightarrow> net_error option \<times> route_guard \<times> argv list" where
  "protect_windows L R relays [] g hist = (None, g, hist)"
| "protect_windows L R relays (p # ps) g hist =
     (if pp_interface p = [] then (Some ErrPathFields, g, hist)
      else case ol_interface L (pp_interface p) of
        None \<Rightarrow> (Some ErrNoInterface, g, hist)
      | Some index \<Rightarrow>
          let c = powershell (gateway_script index); (ok, out) = R hist c; hist1 = hist @ [c] in
          if \<not> ok \<or> trim_space out = [] then (Some ErrNoDefaultRoute, g, hist1)
          else case protect_relays R index (trim_space out) relays g hist1 of
            (Some e, g1, hist2) \<Rightarrow> (Some e, g1, hist2)
          | (None, g1, hist2) \<Rightarrow> protect_windows L R relays ps g1 hist2)"

text \<open>\<open>Close\<close>: the errors of the commands are logged only.\<close>

definition close_guard :: "route_guard \<Rightarrow> argv list \<Rightarrow> route_guard \<times> argv list" where
  "close_guard g hist = (if rg_closed g then (g, hist) else (g\<lparr>rg_closed := True\<rparr>, hist @ rev (rg_cleanup g)))"

fun first_occurrences :: "string list \<Rightarrow> string list \<Rightarrow> string list" where
  "first_occurrences seen [] = []"
| "first_occurrences seen (x # xs) =
     (if x \<in> set seen then first_occurrences seen xs else x # first_occurrences (x # seen) xs)"

text \<open>The distinct IPv4 addresses of the relay, and the branch of the operating system.\<close>

definition relay_addresses :: "u32 option list \<Rightarrow> string list" where
  "relay_addresses addresses = first_occurrences [] (map (\<lambda>a. addr4_string (the a)) (filter (\<lambda>a. a \<noteq> None) addresses))"

definition new_guard :: route_guard where
  "new_guard = \<lparr> rg_closed = False, rg_cleanup = [] \<rparr>"

definition protect_paths ::
  "os_lib \<Rightarrow> runner \<Rightarrow> string list \<Rightarrow> physical_path list \<Rightarrow> argv list \<Rightarrow> (net_error option \<times> route_guard \<times> argv list) option" where
  "protect_paths L R relays paths hist =
     (case ol_os L of
        Linux \<Rightarrow> Some (protect_linux L R [] paths new_guard hist)
      | Windows \<Rightarrow> Some (protect_windows L R relays paths new_guard hist)
      | OtherOS \<Rightarrow> None)"

definition protect_relay ::
  "os_lib \<Rightarrow> runner \<Rightarrow> string \<Rightarrow> physical_path list \<Rightarrow> argv list \<Rightarrow> (net_error + route_guard) \<times> argv list" where
  "protect_relay L R server paths hist =
     (case ol_split_host L server of
        None \<Rightarrow> (Inl ErrRelayAddress, hist)
      | Some host \<Rightarrow>
          (case ol_lookup L host of
             None \<Rightarrow> (Inl ErrResolveRelay, hist)
           | Some addresses \<Rightarrow>
               if relay_addresses addresses = [] then (Inl ErrNoIPv4, hist)
               else
                 (case protect_paths L R (relay_addresses addresses) paths hist of
                    None \<Rightarrow> (Inl ErrUnsupportedOS, hist)
                  | Some (Some e, g, hist1) \<Rightarrow> (Inl e, snd (close_guard g hist1))
                  | Some (None, g, hist1) \<Rightarrow> (Inr g, hist1))))"

end
