(* ===== verification/Netconfig_Facts.thy ===== *)
theory Netconfig_Facts
  imports Netconfig
begin

text \<open>
  What the route guard keeps: every change of the routing is undone by \<open>Close\<close> or by the error path, and the
  rule of a path stays in place while the others are set up.
\<close>

section \<open>Texts\<close>

lemma append_sep_eq:
  assumes "c \<notin> set r" "c \<notin> set r'" "r @ c # x = r' @ c # y"
  shows "r = r' \<and> x = y"
proof -
  have "takeWhile (\<lambda>d. d \<noteq> c) (r @ c # x) = r" "takeWhile (\<lambda>d. d \<noteq> c) (r' @ c # y) = r'"
    using assms(1,2) by (auto simp: takeWhile_append)
  with assms(3) show ?thesis by simp
qed

lemma decimal_inj [simp]: "decimal a = decimal b \<longleftrightarrow> a = b"
  by (metis decimal_value_decimal)

lemma decimal_no_space: "CHR '' '' \<notin> set (decimal n)"
  using decimal_digits [of n] by (auto simp: is_digit_def)

lemma addr4_string_no_slash: "CHR ''/'' \<notin> set (addr4_string a)"
  using decimal_digits by (auto simp: addr4_string_def is_digit_def)

lemma table_number_inj [simp]: "table_number a = table_number b \<longleftrightarrow> a = b"
  by (simp add: table_number_def)

lemma create_script_inj:
  assumes "create_script r i g = create_script r' i' g'" "CHR ''/'' \<notin> set r" "CHR ''/'' \<notin> set r'"
  shows "r = r' \<and> i = i'"
proof -
  obtain x where x: "create_script r i g =
      ''if (-not (Get-NetRoute -DestinationPrefix '' @ [CHR 0x27] @ r @ CHR ''/'' # ''32'' @ [CHR 0x27]
      @ '' -InterfaceIndex '' @ decimal i @ CHR '' '' # x"
    by (simp add: create_script_def quoted_def)
  obtain y where y: "create_script r' i' g' =
      ''if (-not (Get-NetRoute -DestinationPrefix '' @ [CHR 0x27] @ r' @ CHR ''/'' # ''32'' @ [CHR 0x27]
      @ '' -InterfaceIndex '' @ decimal i' @ CHR '' '' # y"
    by (simp add: create_script_def quoted_def)
  from x y assms(1) have "r @ CHR ''/'' # (''32'' @ [CHR 0x27] @ '' -InterfaceIndex '' @ decimal i @ CHR '' '' # x)
      = r' @ CHR ''/'' # (''32'' @ [CHR 0x27] @ '' -InterfaceIndex '' @ decimal i' @ CHR '' '' # y)" by simp
  from append_sep_eq [OF assms(2,3) this]
  have "r = r'" "decimal i @ CHR '' '' # x = decimal i' @ CHR '' '' # y" by simp_all
  with append_sep_eq [OF decimal_no_space decimal_no_space this(2)] show ?thesis by simp
qed

lemma remove_not_create: "remove_script relay index \<noteq> create_script relay' index' gateway"
  by (simp add: remove_script_def create_script_def)

section \<open>The mask\<close>

definition prefix_mask :: "nat \<Rightarrow> u32" where
  "prefix_mask n = fst (prefix4_masked (- 1, n))"

lemma netmask_table:
  "list_all (\<lambda>n. foldl set_mask_bit (Some [0, 0, 0, 0]) [0..<n] = Some (put_uint32 (prefix_mask n))) [0..<33]"
  by code_simp

lemma netmask_prefix: "n \<le> 32 \<Longrightarrow> netmask n = Some (addr4_string (prefix_mask n))"
  using netmask_table by (auto simp: list_all_iff netmask_def simp del: upt_Suc)

lemma bit_prefix_mask: "bit (prefix_mask n) i \<longleftrightarrow> 32 - n \<le> i \<and> i < 32"
  by (auto simp: prefix_mask_def prefix4_masked_def bit_push_bit_iff bit_drop_bit_eq bit_mask_iff)

lemma masked_and: "fst (prefix4_masked (a, n)) = a AND prefix_mask n"
  by (rule bit_word_eqI)
    (auto simp: bit_prefix_mask prefix4_masked_def bit_push_bit_iff bit_drop_bit_eq bit_and_iff)

lemma contains_masked:
  assumes "n \<le> 32"
  shows "prefix4_contains (a, n) b \<longleftrightarrow> a AND prefix_mask n = b AND prefix_mask n"
proof -
  have high: "\<not> bit w i" if "32 \<le> i" for w :: u32 and i
    using that by (auto dest: bit_imp_le_length)
  have "prefix4_contains (a, n) b \<longleftrightarrow> (\<forall>j < 32. bit a (32 - n + j) = bit b (32 - n + j))"
    by (simp add: prefix4_contains_def bit_eq_iff bit_drop_bit_eq bit_xor_iff)
  also have "\<dots> \<longleftrightarrow> (\<forall>j. bit a (32 - n + j) = bit b (32 - n + j))"
    by (metis high not_less trans_le_add2)
  also have "\<dots> \<longleftrightarrow> (\<forall>i. 32 - n \<le> i \<longrightarrow> bit a i = bit b i)"
    by (metis le_add1 le_add_diff_inverse)
  also have "\<dots> \<longleftrightarrow> (\<forall>i. 32 - n \<le> i \<longrightarrow> i < 32 \<longrightarrow> bit a i = bit b i)"
    using high by (meson not_less)
  finally have "prefix4_contains (a, n) b \<longleftrightarrow> (\<forall>i. 32 - n \<le> i \<longrightarrow> i < 32 \<longrightarrow> bit a i = bit b i)" .
  moreover have "a AND prefix_mask n = b AND prefix_mask n \<longleftrightarrow> (\<forall>i. 32 - n \<le> i \<longrightarrow> i < 32 \<longrightarrow> bit a i = bit b i)"
    by (auto simp: bit_eq_iff bit_and_iff bit_prefix_mask)
  ultimately show ?thesis by simp
qed

section \<open>What a command leaves to undo\<close>

text \<open>A rule that was added owes its deletion and the flush of its table; a Windows route that was created owes its
  removal.\<close>

definition owes :: "runner \<Rightarrow> argv list \<Rightarrow> argv \<Rightarrow> argv \<Rightarrow> bool" where
  "owes R hist c u \<longleftrightarrow> fst (R hist c) \<and>
     ((\<exists>n p. c = add_rule n p \<and> u \<in> {delete_rule n, flush_table n})
      \<or> (\<exists>relay index gateway. c = powershell (create_script relay index gateway) \<and> CHR ''/'' \<notin> set relay
           \<and> has_infix (snd (R hist c)) ''created'' \<and> u = powershell (remove_script relay index)))"

lemmas command_defs = show_default_def delete_rule_def flush_table_def replace_route_def add_rule_def powershell_def

lemma owes_other [simp]:
  "\<not> owes R hist (show_default i) u" "\<not> owes R hist (delete_rule n) u" "\<not> owes R hist (flush_table n) u"
  "\<not> owes R hist (replace_route n gateway p) u"
  "\<not> owes R hist (powershell (remove_script relay index)) u"
  "\<not> owes R hist (powershell (gateway_script index)) u"
  by (auto simp: owes_def command_defs remove_not_create)
    (auto simp: gateway_script_def create_script_def)

lemma owes_add [simp]:
  "owes R hist (add_rule n p) u \<longleftrightarrow> fst (R hist (add_rule n p)) \<and> u \<in> {delete_rule n, flush_table n}"
  by (auto simp: owes_def command_defs)

lemma owes_create:
  "CHR ''/'' \<notin> set relay \<Longrightarrow> owes R hist (powershell (create_script relay index gateway)) u \<longleftrightarrow>
     fst (R hist (powershell (create_script relay index gateway)))
     \<and> has_infix (snd (R hist (powershell (create_script relay index gateway)))) ''created''
     \<and> u = powershell (remove_script relay index)"
  by (auto simp: owes_def command_defs dest: create_script_inj)

text \<open>Every debt of a run of commands is paid later in it or by the commands that are still to come.\<close>

fun settled :: "runner \<Rightarrow> argv list \<Rightarrow> argv list \<Rightarrow> argv list \<Rightarrow> bool" where
  "settled R hist [] later = True"
| "settled R hist (c # cs) later =
     ((\<forall>u. owes R hist c u \<longrightarrow> u \<in> set cs \<union> set later) \<and> settled R (hist @ [c]) cs later)"

lemma settled_append:
  "settled R hist (xs @ ys) later \<longleftrightarrow> settled R hist xs (ys @ later) \<and> settled R (hist @ xs) ys later"
  by (induction xs arbitrary: hist) auto

lemma settled_mono: "settled R hist xs l \<Longrightarrow> set l \<subseteq> set l' \<Longrightarrow> settled R hist xs l'"
  by (induction xs arbitrary: hist) auto

lemma settled_quiet: "(\<And>c h u. c \<in> set xs \<Longrightarrow> \<not> owes R h c u) \<Longrightarrow> settled R hist xs l"
  by (induction xs arbitrary: hist) auto

lemma settled_run:
  assumes "settled R hist xs l" "settled R (hist @ xs) ys l'" "set l \<subseteq> set l'"
  shows "settled R hist (xs @ ys) l'"
proof -
  have "settled R hist xs (ys @ l')" by (rule settled_mono [OF assms(1)]) (use assms(3) in auto)
  with assms(2) show ?thesis by (simp add: settled_append)
qed

text \<open>What every step of the guard keeps: it runs some commands, its list of undo commands grows and pays for them.\<close>

definition guard_step :: "runner \<Rightarrow> route_guard \<Rightarrow> argv list \<Rightarrow> route_guard \<Rightarrow> argv list \<Rightarrow> bool" where
  "guard_step R g hist g1 hist1 \<longleftrightarrow>
     (\<exists>cs. hist1 = hist @ cs \<and> settled R hist cs (rg_cleanup g1)) \<and> set (rg_cleanup g) \<subseteq> set (rg_cleanup g1)
     \<and> rg_closed g1 = rg_closed g
     \<and> (\<forall>u \<in> set (rg_cleanup g1) - set (rg_cleanup g). \<forall>h v. \<not> owes R h u v)"

lemma guard_step_refl [simp]: "guard_step R g hist g hist"
  by (auto simp: guard_step_def)

lemma guard_step_trans:
  assumes "guard_step R g hist g1 hist1" "guard_step R g1 hist1 g2 hist2"
  shows "guard_step R g hist g2 hist2"
proof -
  from assms obtain cs ds where "hist1 = hist @ cs" "settled R hist cs (rg_cleanup g1)"
    "hist2 = hist1 @ ds" "settled R hist1 ds (rg_cleanup g2)" "set (rg_cleanup g1) \<subseteq> set (rg_cleanup g2)"
    by (auto simp: guard_step_def)
  then have "hist2 = hist @ (cs @ ds)" "settled R hist (cs @ ds) (rg_cleanup g2)"
    by (auto intro: settled_run)
  with assms show ?thesis unfolding guard_step_def by blast
qed

lemma guard_step_quiet: "(\<And>c h u. c \<in> set cs \<Longrightarrow> \<not> owes R h c u) \<Longrightarrow> guard_step R g hist g (hist @ cs)"
  by (auto simp: guard_step_def intro: settled_quiet)

lemma guard_step_fail:
  "\<not> fst (R hist c) \<Longrightarrow> guard_step R g hist g (hist @ [c])"
  by (auto simp: guard_step_def owes_def)

lemma protect_path_step:
  assumes "protect_path L R p g hist = (e, g1, hist1)"
  shows "guard_step R g hist g1 hist1"
proof (cases "ol_interface L (pp_interface p)")
  case None
  with assms show ?thesis by (simp add: protect_path_def)
next
  case (Some index)
  define n where "n = table_number index"
  obtain ok out where shown: "R hist (show_default (pp_interface p)) = (ok, out)" by fastforce
  define route where "route = replace_route n (token_after (fields out) ''via'') p"
  have g0: "guard_step R g hist g (hist @ [show_default (pp_interface p)])" by (rule guard_step_quiet) auto
  have g1: "guard_step R g hist g (hist @ [show_default (pp_interface p), delete_rule n, flush_table n, route])"
    by (rule guard_step_quiet) (auto simp: route_def)
  have g2: "guard_step R g (hist @ [show_default (pp_interface p), delete_rule n, flush_table n, route])
      (g\<lparr>rg_cleanup := rg_cleanup g @ [delete_rule n, flush_table n]\<rparr>)
      (hist @ [show_default (pp_interface p), delete_rule n, flush_table n, route] @ [add_rule n p])"
    by (auto simp: guard_step_def)
  from assms Some shown show ?thesis
    using g0 g1 guard_step_trans [OF g1 g2]
      guard_step_trans [OF g1 guard_step_fail [where c = "add_rule n p"]]
    by (auto simp: protect_path_def Let_def n_def [symmetric] route_def [symmetric] split: if_splits)
qed

lemma protect_linux_step:
  "protect_linux L R seen ps g hist = (e, g1, hist1) \<Longrightarrow> guard_step R g hist g1 hist1"
proof (induction L R seen ps g hist arbitrary: e g1 hist1 rule: protect_linux.induct)
  case (1 L R seen g hist)
  then show ?case by simp
next
  case (2 L R seen p ps g hist)
  show ?case
  proof (cases "pp_interface p = [] \<or> pp_local_address p = [] \<or> path_key p \<in> set seen")
    case True
    with 2 show ?thesis by (auto split: if_splits)
  next
    case False
    obtain e2 g2 hist2 where path: "protect_path L R p g hist = (e2, g2, hist2)" by (metis prod_cases3)
    with False 2 show ?thesis
      by (auto dest: protect_path_step intro: guard_step_trans split: option.splits)
  qed
qed

lemma protect_relays_step:
  "protect_relays R index gateway relays g hist = (e, g1, hist1) \<Longrightarrow> \<forall>r \<in> set relays. CHR ''/'' \<notin> set r
   \<Longrightarrow> guard_step R g hist g1 hist1"
proof (induction R index gateway relays g hist arbitrary: e g1 hist1 rule: protect_relays.induct)
  case (1 R index gateway g hist)
  then show ?case by simp
next
  case (2 R index gateway relay relays g hist)
  define c where "c = powershell (create_script relay index gateway)"
  define g2 where "g2 = (if has_infix (snd (R hist c)) ''created''
    then g\<lparr>rg_cleanup := rg_cleanup g @ [powershell (remove_script relay index)]\<rparr> else g)"
  have step: "guard_step R g hist g2 (hist @ [c])"
    using 2(3) by (auto simp: guard_step_def g2_def c_def owes_create)
  show ?case
  proof (cases "fst (R hist c)")
    case False
    with 2(2) show ?thesis
      by (auto simp: c_def [symmetric] Let_def split: prod.splits intro: guard_step_fail)
  next
    case True
    with 2(2) have "protect_relays R index gateway relays g2 (hist @ [c]) = (e, g1, hist1)"
      by (cases "has_infix (snd (R hist c)) ''created''")
        (simp_all add: c_def [symmetric] g2_def Let_def split: prod.splits)
    with 2(1) [OF c_def refl, of "fst (R hist c)" "snd (R hist c)" "hist @ [c]"] True 2(3)
    have "guard_step R g2 (hist @ [c]) g1 hist1" by (simp add: g2_def c_def)
    with step show ?thesis by (rule guard_step_trans)
  qed
qed

lemma protect_windows_step:
  "protect_windows L R relays ps g hist = (e, g1, hist1) \<Longrightarrow> \<forall>r \<in> set relays. CHR ''/'' \<notin> set r
   \<Longrightarrow> guard_step R g hist g1 hist1"
proof (induction ps arbitrary: g hist)
  case Nil
  then show ?case by simp
next
  case (Cons p ps)
  show ?case
  proof (cases "ol_interface L (pp_interface p)")
    case None
    with Cons.prems show ?thesis by (auto split: if_splits)
  next
    case (Some index)
    define c where "c = powershell (gateway_script index)"
    obtain ok out where out: "R hist c = (ok, out)" by fastforce
    obtain e2 g2 hist2 where relays: "protect_relays R index (trim_space out) relays g (hist @ [c]) = (e2, g2, hist2)"
      by (metis prod_cases3)
    have "guard_step R g hist g (hist @ [c])" by (rule guard_step_quiet) (auto simp: c_def)
    moreover from relays Cons.prems have "guard_step R g (hist @ [c]) g2 hist2" by (auto intro: protect_relays_step)
    ultimately have "guard_step R g hist g2 hist2" "guard_step R g hist g (hist @ [c])"
      by (auto intro: guard_step_trans)
    with Cons Some out relays show ?thesis
      by (auto simp: c_def [symmetric] Let_def split: if_splits option.splits intro: guard_step_trans)
  qed
qed

section \<open>Nothing is left behind\<close>

lemma settled_nth:
  "settled R hist xs l \<Longrightarrow> xs = as @ c # bs \<Longrightarrow> owes R (hist @ as) c u \<Longrightarrow> u \<in> set bs \<union> set l"
  by (induction as arbitrary: hist xs) auto

lemma first_occurrences_set: "set (first_occurrences seen xs) \<subseteq> set xs"
  by (induction xs arbitrary: seen) auto

text \<open>What the guard has done when protecting the relay ended, with or without an error.\<close>

definition released :: "(net_error + route_guard) \<times> argv list \<Rightarrow> argv list" where
  "released r = (case fst r of Inl e \<Rightarrow> snd r | Inr g \<Rightarrow> snd (close_guard g (snd r)))"

lemma close_settles:
  assumes "guard_step R new_guard hist g hist1"
  shows "\<exists>cs. snd (close_guard g hist1) = hist @ cs \<and> settled R hist cs []"
proof -
  from assms obtain cs where cs: "hist1 = hist @ cs" "settled R hist cs (rg_cleanup g)"
    and fresh: "\<not> rg_closed g" and quiet: "\<And>u h v. u \<in> set (rg_cleanup g) \<Longrightarrow> \<not> owes R h u v"
    by (auto simp: guard_step_def new_guard_def)
  have "settled R hist (cs @ rev (rg_cleanup g)) []"
    using settled_mono [OF cs(2), of "rev (rg_cleanup g)"] quiet by (auto simp: settled_append intro: settled_quiet)
  with cs fresh show ?thesis by (simp add: close_guard_def)
qed

lemma relay_addresses_plain: "\<forall>r \<in> set (relay_addresses as). CHR ''/'' \<notin> set r"
  using first_occurrences_set addr4_string_no_slash unfolding relay_addresses_def by fastforce

lemma protect_paths_step:
  assumes "protect_paths L R (relay_addresses as) paths hist = Some (e, g, h)"
  shows "guard_step R new_guard hist g h"
  using assms protect_linux_step protect_windows_step [OF _ relay_addresses_plain]
  by (fastforce simp: protect_paths_def split: target_os.splits)

lemma protect_relay_settles:
  "\<exists>cs. released (protect_relay L R server paths hist) = hist @ cs \<and> settled R hist cs []"
  by (auto simp: protect_relay_def released_def split: option.splits prod.splits dest!: protect_paths_step close_settles)

text \<open>C23: When the protection of the relay is over, whether setting it up failed somewhere or the guard was closed
  at the end, every rule that was added has been deleted and its table flushed after it, and every Windows route
  that was created has been removed, whatever the commands answered.\<close>

theorem routes_are_undone:
  assumes "released (protect_relay L R server paths hist) = hist @ as @ c # bs" "owes R (hist @ as) c u"
  shows "u \<in> set bs"
  using protect_relay_settles [of L R server paths hist] assms settled_nth [of R hist "as @ c # bs" "[]" as c bs u]
  by auto

section \<open>The contract with those who set up a tunnel\<close>

text \<open>Whoever sets up a tunnel protects the relay, configures the interface, and closes what protecting gave. \<open>clean h h'\<close>:
  all that was done between \<open>h\<close> and \<open>h'\<close> is undone; \<open>pending g h h'\<close>: closing \<open>g\<close> would undo it.\<close>

locale route_service =
  fixes protect :: "'p \<Rightarrow> 'h \<Rightarrow> ('e + 'g) \<times> 'h"
    and configure :: "'q \<Rightarrow> 'h \<Rightarrow> 'f option \<times> 'h"
    and release :: "'g \<Rightarrow> 'h \<Rightarrow> 'h"
    and clean :: "'h \<Rightarrow> 'h \<Rightarrow> bool"
    and pending :: "'g \<Rightarrow> 'h \<Rightarrow> 'h \<Rightarrow> bool"
  assumes protect_fails: "protect p h = (Inl e, h1) \<Longrightarrow> clean h h1"
    and protect_succeeds: "protect p h = (Inr g, h1) \<Longrightarrow> pending g h h1"
    and configure_keeps: "pending g h h1 \<Longrightarrow> configure q h1 = (failure, h2) \<Longrightarrow> pending g h h2"
    and release_cleans: "pending g h h1 \<Longrightarrow> clean h (release g h1)"
begin

lemma released_early: "protect p h = (Inr g, h1) \<Longrightarrow> clean h (release g h1)"
  by (rule release_cleans [OF protect_succeeds])

lemma released_configured: "protect p h = (Inr g, h1) \<Longrightarrow> configure q h1 = (failure, h2) \<Longrightarrow> clean h (release g h2)"
  by (rule release_cleans [OF configure_keeps [OF protect_succeeds]])

end

definition undone :: "runner \<Rightarrow> argv list \<Rightarrow> argv list \<Rightarrow> bool" where
  "undone R hist hist1 \<longleftrightarrow> (\<exists>cs. hist1 = hist @ cs \<and> settled R hist cs [])"

lemma undone_nth:
  assumes "undone R hist (hist @ as @ c # bs)" "owes R (hist @ as) c u"
  shows "u \<in> set bs"
  using assms settled_nth [of R hist "as @ c # bs" "[]" as c bs u] by (auto simp: undone_def)

section \<open>Rules stay in place\<close>

definition path_commands :: "string \<Rightarrow> string \<Rightarrow> physical_path \<Rightarrow> argv list" where
  "path_commands n gateway p =
     [show_default (pp_interface p), delete_rule n, flush_table n, replace_route n gateway p, add_rule n p]"

lemma protect_path_ok:
  assumes "protect_path L R p g hist = (None, g1, hist1)"
  obtains index gateway where "ol_interface L (pp_interface p) = Some index"
    "hist1 = hist @ path_commands (table_number index) gateway p"
    "fst (R (hist @ take 4 (path_commands (table_number index) gateway p)) (add_rule (table_number index) p))"
  using assms that
  by (auto simp: protect_path_def path_commands_def Let_def split: option.splits prod.splits if_splits)

text \<open>The commands that take the rule or the routes of a number away.\<close>

definition clears :: "string \<Rightarrow> argv \<Rightarrow> bool" where
  "clears n c \<longleftrightarrow> c = delete_rule n \<or> c = flush_table n"

lemma clears_simps [simp]:
  "\<not> clears n (show_default i)" "\<not> clears n (replace_route m gateway p)" "\<not> clears n (add_rule m p)"
  "clears n (delete_rule m) \<longleftrightarrow> n = m" "clears n (flush_table m) \<longleftrightarrow> n = m"
  by (auto simp: clears_def command_defs)

lemma protect_linux_clears:
  "protect_linux L R seen ps g hist = (None, g1, hist1) \<Longrightarrow>
   \<exists>cs. hist1 = hist @ cs \<and> (\<forall>n c. c \<in> set cs \<longrightarrow> clears n c \<longrightarrow>
     (\<exists>q i. q \<in> set ps \<and> path_key q \<notin> set seen \<and> ol_interface L (pp_interface q) = Some i \<and> n = table_number i))"
proof (induction L R seen ps g hist arbitrary: g1 hist1 rule: protect_linux.induct)
  case (1 L R seen g hist)
  then show ?case by simp
next
  case (2 L R seen p ps g hist)
  show ?case
  proof (cases "path_key p \<in> set seen")
    case True
    with 2 show ?thesis by (auto split: if_splits) blast
  next
    case False
    from 2(3) False obtain g2 hist2 where path: "protect_path L R p g hist = (None, g2, hist2)"
      and rest: "protect_linux L R (path_key p # seen) ps g2 hist2 = (None, g1, hist1)"
      by (auto split: if_splits option.splits prod.splits)
    from path obtain i gateway where i: "ol_interface L (pp_interface p) = Some i"
      and h2: "hist2 = hist @ path_commands (table_number i) gateway p" by (rule protect_path_ok)
    from 2(2) [OF _ False path [symmetric] _ refl] rest 2(3) obtain cs where cs: "hist1 = hist2 @ cs"
      "\<forall>n c. c \<in> set cs \<longrightarrow> clears n c \<longrightarrow>
       (\<exists>q i. q \<in> set ps \<and> path_key q \<notin> set (path_key p # seen) \<and> ol_interface L (pp_interface q) = Some i \<and> n = table_number i)"
      by (auto split: if_splits)
    have own: "\<forall>c n. c \<in> set (path_commands (table_number i) gateway p) \<longrightarrow> clears n c \<longrightarrow> n = table_number i"
      by (auto simp: path_commands_def)
    show ?thesis
      by (rule exI [of _ "path_commands (table_number i) gateway p @ cs"])
        (use h2 cs own i False in \<open>auto; blast\<close>)
  qed
qed

text \<open>The routes and the rule of a path are in place from some point of the commands on.\<close>

definition routed :: "os_lib \<Rightarrow> runner \<Rightarrow> argv list \<Rightarrow> argv list \<Rightarrow> physical_path \<Rightarrow> bool" where
  "routed L R hist hist1 p \<longleftrightarrow>
     (\<exists>i gateway cs ds. ol_interface L (pp_interface p) = Some i
        \<and> hist1 = hist @ cs @ [replace_route (table_number i) gateway p, add_rule (table_number i) p] @ ds
        \<and> fst (R (hist @ cs @ [replace_route (table_number i) gateway p]) (add_rule (table_number i) p))
        \<and> (\<forall>d \<in> set ds. \<not> clears (table_number i) d))"

lemma routed_own:
  assumes "ol_interface L (pp_interface p) = Some i"
    "fst (R (hist @ take 4 (path_commands (table_number i) gateway p)) (add_rule (table_number i) p))"
    "\<forall>d \<in> set ds. \<not> clears (table_number i) d"
  shows "routed L R hist (hist @ path_commands (table_number i) gateway p @ ds) p"
proof -
  define cs where "cs = [show_default (pp_interface p), delete_rule (table_number i), flush_table (table_number i)]"
  have "path_commands (table_number i) gateway p
      = cs @ [replace_route (table_number i) gateway p, add_rule (table_number i) p]"
    by (simp add: path_commands_def cs_def)
  moreover have "take 4 (path_commands (table_number i) gateway p) = cs @ [replace_route (table_number i) gateway p]"
    by (simp add: path_commands_def cs_def)
  ultimately have "hist @ path_commands (table_number i) gateway p @ ds
      = hist @ cs @ [replace_route (table_number i) gateway p, add_rule (table_number i) p] @ ds"
    "fst (R (hist @ cs @ [replace_route (table_number i) gateway p]) (add_rule (table_number i) p))"
    using assms(2) by simp_all
  with assms(1,3) show ?thesis unfolding routed_def by blast
qed

lemma routed_later: "routed L R (hist @ cs) hist1 p \<Longrightarrow> routed L R hist hist1 p"
  unfolding routed_def by (metis append.assoc)

lemma routed_cong:
  "routed L R hist hist1 p \<Longrightarrow> pp_interface q = pp_interface p \<Longrightarrow> pp_local_address q = pp_local_address p
   \<Longrightarrow> routed L R hist hist1 q"
  by (simp add: routed_def replace_route_def add_rule_def)

lemma path_key_eq:
  assumes "path_key p = path_key q" "CHR ''/'' \<notin> set (pp_interface p)" "CHR ''/'' \<notin> set (pp_interface q)"
  shows "pp_interface q = pp_interface p \<and> pp_local_address q = pp_local_address p"
  using append_sep_eq [OF assms(2,3), of "pp_local_address p" "pp_local_address q"] assms(1)
  by (simp add: path_key_def)

definition one_source :: "os_lib \<Rightarrow> physical_path list \<Rightarrow> bool" where
  "one_source L ps \<longleftrightarrow>
     (\<forall>p \<in> set ps. CHR ''/'' \<notin> set (pp_interface p)
        \<and> (\<forall>q \<in> set ps. ol_interface L (pp_interface p) = ol_interface L (pp_interface q) \<longrightarrow> path_key p = path_key q))"

lemma one_source_tail: "one_source L (q # ps) \<Longrightarrow> one_source L ps"
  unfolding one_source_def by (meson list.set_intros(2))

lemma one_source_plain: "one_source L ps \<Longrightarrow> p \<in> set ps \<Longrightarrow> CHR ''/'' \<notin> set (pp_interface p)"
  unfolding one_source_def by blast

lemma protect_linux_routes:
  "protect_linux L R seen ps g hist = (None, g1, hist1) \<Longrightarrow> one_source L ps \<Longrightarrow> p \<in> set ps
   \<Longrightarrow> path_key p \<notin> set seen \<Longrightarrow> routed L R hist hist1 p"
proof (induction L R seen ps g hist arbitrary: g1 hist1 rule: protect_linux.induct)
  case (1 L R seen g hist)
  then show ?case by simp
next
  case (2 L R seen q ps g hist)
  from 2(4) have sub: "one_source L ps" by (rule one_source_tail)
  show ?case
  proof (cases "path_key q \<in> set seen")
    case True
    with 2 sub show ?thesis by (auto split: if_splits)
  next
    case False
    from 2(3) False obtain g2 hist2 where path: "protect_path L R q g hist = (None, g2, hist2)"
      and rest: "protect_linux L R (path_key q # seen) ps g2 hist2 = (None, g1, hist1)"
      and set_fields: "\<not> (pp_interface q = [] \<or> pp_local_address q = [])"
      by (auto split: if_splits option.splits prod.splits)
    from path obtain i gateway where i: "ol_interface L (pp_interface q) = Some i"
      and h2: "hist2 = hist @ path_commands (table_number i) gateway q"
      and ok: "fst (R (hist @ take 4 (path_commands (table_number i) gateway q)) (add_rule (table_number i) q))"
      by (rule protect_path_ok)
    show ?thesis
    proof (cases "path_key p = path_key q")
      case False
      with 2(5,6) have "p \<in> set ps" "path_key p \<notin> set (path_key q # seen)" by auto
      with 2(2) [OF set_fields \<open>path_key q \<notin> set seen\<close> path [symmetric] refl refl rest sub]
      have "routed L R hist2 hist1 p" by simp
      with h2 show ?thesis by (auto intro: routed_later)
    next
      case True
      from protect_linux_clears [OF rest] obtain ds where ds: "hist1 = hist2 @ ds"
        "\<forall>n c. c \<in> set ds \<longrightarrow> clears n c \<longrightarrow>
          (\<exists>r j. r \<in> set ps \<and> path_key r \<notin> set (path_key q # seen) \<and> ol_interface L (pp_interface r) = Some j
             \<and> n = table_number j)"
        by blast
      have "\<forall>d \<in> set ds. \<not> clears (table_number i) d"
        using ds(2) i 2(4) unfolding one_source_def by (metis list.set_intros table_number_inj)
      with routed_own [where R = R and hist = hist and gateway = gateway and p = q and ds = ds, OF i ok] h2 ds(1) have "routed L R hist hist1 q" by simp
      moreover have "pp_interface p = pp_interface q \<and> pp_local_address p = pp_local_address q"
        using path_key_eq [of q p] True one_source_plain [OF 2(4)] 2(5) by simp
      ultimately show ?thesis by (simp add: routed_cong)
    qed
  qed
qed

text \<open>C22: On Linux, when every interface has one source address, the protection of the relay that succeeds has for
  every path filled the routing table of its interface and added the rule that sends the path's source address
  there, and no later command takes them away.\<close>

theorem source_rules_stay:
  assumes "ol_os L = Linux" "protect_relay L R server paths hist = (Inr g, hist1)" "one_source L paths" "p \<in> set paths"
  shows "routed L R hist hist1 p"
  using assms protect_linux_routes [of L R "[]" paths new_guard hist g hist1 p]
  by (auto simp: protect_relay_def protect_paths_def split: option.splits if_splits prod.splits)

section \<open>Where protection is lost\<close>

text \<open>C31: Two source addresses on one interface share the number of table and rule: when every command succeeds, the
  protection of the second path deletes the rule of the first and does not add it again, and reports success.\<close>

theorem shared_interface_loses_rule:
  assumes "\<And>h c. fst (R h c)" "\<And>h. trim_space (snd (R h (show_default ifc))) \<noteq> []" "ol_interface L ifc = Some i"
    "ifc \<noteq> []" "a \<noteq> []" "b \<noteq> []" "a \<noteq> b"
    "p = \<lparr> pp_name = n, pp_interface = ifc, pp_local_address = a \<rparr>"
    "q = \<lparr> pp_name = m, pp_interface = ifc, pp_local_address = b \<rparr>"
  shows "\<exists>g cs ds. protect_linux L R [] [p, q] new_guard hist = (None, g, hist @ cs @ [add_rule (table_number i) p] @ ds)
    \<and> delete_rule (table_number i) \<in> set ds \<and> add_rule (table_number i) p \<notin> set ds"
proof -
  have differ: "path_key q \<noteq> path_key p" using assms by (simp add: path_key_def)
  obtain gw where path: "protect_path L R r g h =
      (None, g\<lparr>rg_cleanup := rg_cleanup g @ [delete_rule (table_number i), flush_table (table_number i)]\<rparr>,
       h @ path_commands (table_number i) (gw h) r)" if "pp_interface r = ifc" for r g h
  proof
    fix r :: physical_path and g h
    assume "pp_interface r = ifc"
    with assms(1-3) show "protect_path L R r g h =
      (None, g\<lparr>rg_cleanup := rg_cleanup g @ [delete_rule (table_number i), flush_table (table_number i)]\<rparr>,
       h @ path_commands (table_number i) (token_after (fields (snd (R h (show_default ifc)))) ''via'') r)"
      by (simp add: protect_path_def path_commands_def Let_def split: prod.splits) (metis fst_conv snd_conv)
  qed
  define cs where "cs = take 4 (path_commands (table_number i) (gw hist) p)"
  define ds where "ds = path_commands (table_number i) (gw (hist @ path_commands (table_number i) (gw hist) p)) q"
  obtain g where "protect_linux L R [] [p, q] new_guard hist = (None, g, hist @ path_commands (table_number i) (gw hist) p @ ds)"
    using assms(4-6,8,9) differ by (simp add: path ds_def)
  moreover have "path_commands (table_number i) (gw hist) p = cs @ [add_rule (table_number i) p]"
    by (simp add: cs_def path_commands_def)
  moreover have "delete_rule (table_number i) \<in> set ds" "add_rule (table_number i) p \<notin> set ds"
    using assms(7-9) by (auto simp: ds_def path_commands_def command_defs)
  ultimately show ?thesis by (intro exI [of _ g] exI [of _ cs] exI [of _ ds]) (simp del: protect_linux.simps)
qed

text \<open>The undo commands are recorded after the rule was added: when adding it fails, the table that was filled
  before stays behind.\<close>

lemma failed_rule_keeps_table:
  assumes "R hist (show_default (pp_interface p)) = (True, out)" "trim_space out \<noteq> []"
    "ol_interface L (pp_interface p) = Some i" "pp_interface p \<noteq> []" "pp_local_address p \<noteq> []"
    "\<And>h gw. fst (R h (replace_route (table_number i) gw p))" "\<And>h. \<not> fst (R h (add_rule (table_number i) p))"
  shows "\<exists>gw g. protect_linux L R [] (p # ps) new_guard hist =
      (Some (ErrCommand (add_rule (table_number i) p)), g, hist @ path_commands (table_number i) gw p)
    \<and> snd (close_guard g (hist @ path_commands (table_number i) gw p)) = hist @ path_commands (table_number i) gw p"
  using assms by (auto simp: protect_path_def Let_def path_commands_def new_guard_def close_guard_def)

text \<open>C: The mask written for a prefix of a length up to 32 selects exactly the addresses of the prefix.\<close>

theorem netmask_selects:
  assumes "n \<le> 32"
  shows "\<exists>m. netmask n = Some (addr4_string m) \<and> (\<forall>a b. prefix4_contains (a, n) b = (a AND m = b AND m))"
  using assms netmask_prefix contains_masked by blast

section \<open>A machine with two uplinks\<close>

definition two_uplinks :: os_lib where
  "two_uplinks = \<lparr> ol_os = Linux, ol_split_host = (\<lambda>s. Some ''relay.example''), ol_lookup = (\<lambda>h. Some [Some 0xC0000201]),
     ol_interface = (\<lambda>s. if s = ''eth0'' then Some 2 else if s = ''wlan0'' then Some 3 else None) \<rparr>"

definition obedient :: runner where
  "obedient h c = (True, if take 4 c = [''ip'', ''-4'', ''route'', ''show''] then ''via 10.0.0.1'' else [])"

definition stubborn :: runner where
  "stubborn h c = (take 4 c \<noteq> [''ip'', ''rule'', ''add'', ''priority''] \<or> c ! 4 = table_number 2, snd (obedient h c))"

definition eth :: physical_path where
  "eth = \<lparr> pp_name = ''eth'', pp_interface = ''eth0'', pp_local_address = ''192.168.1.7'' \<rparr>"

definition wlan :: physical_path where
  "wlan = \<lparr> pp_name = ''wlan'', pp_interface = ''wlan0'', pp_local_address = ''192.168.2.9'' \<rparr>"

lemma leading_space_head:
  assumes "plain_char c" "\<And>w. w \<in> set sps \<Longrightarrow> \<not> plain_char (hd w)"
  shows "leading_space sps (c # s) = None"
proof -
  have "\<not> (w \<noteq> [] \<and> take (length w) (c # s) = w)" if "w \<in> set sps" for w
    using assms(1) assms(2) [OF that] by (cases w) auto
  then show ?thesis by (auto simp: leading_space_def find_None_iff)
qed

lemma fields_from_plain: "plain_char c \<Longrightarrow> fields_from cur (c # s) = fields_from (c # cur) s"
  using leading_space_head [of c unicode_spaces s] spaces_not_plain by (simp add: fields_from.simps [of cur "c # s"])

lemma fields_from_blank: "fields_from cur (CHR '' '' # s) = (if cur = [] then [] else [rev cur]) @ fields_from [] s"
proof -
  have "leading_space unicode_spaces (CHR '' '' # s) = Some '' ''" by (simp add: leading_space_def unicode_spaces_def)
  then show ?thesis by (simp add: fields_from.simps [of cur "CHR '' '' # s"])
qed

lemma fields_from_end: "fields_from cur [] = (if cur = [] then [] else [rev cur])"
proof -
  have "leading_space unicode_spaces [] = None" by (auto simp: leading_space_def find_None_iff)
  then show ?thesis by (simp add: fields_from.simps [of cur "[]"])
qed

lemma trim_space_framed:
  assumes "plain_char c" "plain_char e"
  shows "trim_space (c # s @ [e]) = c # s @ [e]"
proof -
  have "leading_space unicode_spaces (c # s @ [e]) = None"
    by (rule leading_space_head) (use assms(1) spaces_not_plain in blast)+
  moreover have "leading_space (map rev unicode_spaces) (e # rev s @ [c]) = None"
  proof (rule leading_space_head [OF assms(2)])
    fix w assume "w \<in> set (map rev unicode_spaces)"
    then obtain v where "v \<in> set unicode_spaces" "w = rev v" by auto
    then show "\<not> plain_char (hd w)" using spaces_not_plain [of v] by (simp add: hd_rev)
  qed
  ultimately show ?thesis by (simp add: trim_space_def trim_left_of_id Let_def)
qed

lemma route_text: "trim_space ''via 10.0.0.1'' \<noteq> []" "token_after (fields ''via 10.0.0.1'') ''via'' = ''10.0.0.1''"
proof -
  have "trim_space ''via 10.0.0.1'' = ''via 10.0.0.1''"
    using trim_space_framed [of "CHR ''v''" "CHR ''1''" "''ia 10.0.0.''"] by (simp add: plain_char_def)
  then show "trim_space ''via 10.0.0.1'' \<noteq> []" by simp
  have "fields ''via 10.0.0.1'' = [''via'', ''10.0.0.1'']"
    by (simp add: fields_def fields_from_plain fields_from_blank fields_from_end plain_char_def)
  then show "token_after (fields ''via 10.0.0.1'') ''via'' = ''10.0.0.1''" by simp
qed

lemma obedient_simps [simp]:
  "fst (obedient h c)" "obedient h (show_default i) = (True, ''via 10.0.0.1'')"
  by (simp_all add: obedient_def show_default_def)

lemma stubborn_simps [simp]:
  "stubborn h (show_default i) = (True, ''via 10.0.0.1'')"
  "fst (stubborn h (replace_route n gw p))" "fst (stubborn h (add_rule n p)) \<longleftrightarrow> n = table_number 2"
  by (auto simp: stubborn_def obedient_def command_defs)

lemma two_uplinks_simps [simp]:
  "ol_os two_uplinks = Linux" "ol_interface two_uplinks ''eth0'' = Some 2" "ol_interface two_uplinks ''wlan0'' = Some 3"
  by (simp_all add: two_uplinks_def)

lemma uplink_fields [simp]:
  "pp_interface eth = ''eth0''" "pp_interface wlan = ''wlan0''" "pp_local_address eth \<noteq> []" "pp_local_address wlan \<noteq> []"
  "path_key wlan \<noteq> path_key eth"
  by (simp_all add: eth_def wlan_def path_key_def)

lemma demo_protect:
  "protect_relay two_uplinks R ''relay:51820'' paths [] =
     (case protect_linux two_uplinks R [] paths new_guard [] of
        (Some e, g, hist1) \<Rightarrow> (Inl e, snd (close_guard g hist1)) | (None, g, hist1) \<Rightarrow> (Inr g, hist1))"
  by (simp add: protect_relay_def protect_paths_def two_uplinks_def relay_addresses_def)

lemma demo_protected_obtain:
  obtains g hist1 where "protect_relay two_uplinks obedient ''relay:51820'' [eth, wlan] [] = (Inr g, hist1)"
  using that by (simp add: demo_protect protect_path_def Let_def route_text)

lemma demo_one_source: "one_source two_uplinks [eth, wlan]"
  by (auto simp: one_source_def)

theorem source_rules_stay_witness:
  "routed two_uplinks obedient [] (snd (protect_relay two_uplinks obedient ''relay:51820'' [eth, wlan] [])) eth"
proof -
  obtain g hist1 where "protect_relay two_uplinks obedient ''relay:51820'' [eth, wlan] [] = (Inr g, hist1)"
    by (rule demo_protected_obtain)
  with source_rules_stay [where L = two_uplinks and p = eth, OF _ this demo_one_source] show ?thesis
    by (simp add: two_uplinks_def)
qed

text \<open>The rule of the second path cannot be added: the first is undone.\<close>

lemma demo_released:
  "released (protect_relay two_uplinks stubborn ''relay:51820'' [eth, wlan] []) =
     [] @ [show_default ''eth0'', delete_rule (table_number 2), flush_table (table_number 2), replace_route (table_number 2) ''10.0.0.1'' eth]
     @ add_rule (table_number 2) eth #
     [show_default ''wlan0'', delete_rule (table_number 3), flush_table (table_number 3), replace_route (table_number 3) ''10.0.0.1'' wlan,
      add_rule (table_number 3) wlan, flush_table (table_number 2), delete_rule (table_number 2)]"
  by (simp add: demo_protect released_def protect_path_def Let_def route_text new_guard_def close_guard_def)

theorem routes_are_undone_witness:
  "delete_rule (table_number 2) \<in> set [show_default ''wlan0'', delete_rule (table_number 3), flush_table (table_number 3),
     replace_route (table_number 3) ''10.0.0.1'' wlan, add_rule (table_number 3) wlan, flush_table (table_number 2), delete_rule (table_number 2)]"
proof (rule routes_are_undone [OF demo_released])
  show "owes stubborn ([] @ [show_default ''eth0'', delete_rule (table_number 2), flush_table (table_number 2), replace_route (table_number 2) ''10.0.0.1'' eth])
      (add_rule (table_number 2) eth) (delete_rule (table_number 2))" by simp
qed

theorem shared_interface_loses_rule_witness:
  "\<exists>g cs ds. protect_linux two_uplinks obedient [] [eth, eth\<lparr>pp_local_address := ''192.168.1.8''\<rparr>] new_guard []
       = (None, g, [] @ cs @ [add_rule (table_number 2) eth] @ ds)
     \<and> delete_rule (table_number 2) \<in> set ds \<and> add_rule (table_number 2) eth \<notin> set ds"
proof (rule shared_interface_loses_rule [where ifc = "''eth0''" and a = "''192.168.1.7''" and b = "''192.168.1.8''"])
  show "trim_space (snd (obedient h (show_default ''eth0''))) \<noteq> []" for h
    by (simp add: route_text)
qed (simp_all add: eth_def)

theorem netmask_selects_witness:
  "\<exists>m. netmask 24 = Some (addr4_string m) \<and> (\<forall>a b. prefix4_contains (a, 24) b = (a AND m = b AND m))"
  by (rule netmask_selects) simp

end
