(* ===== verification/Tun.thy ===== *)
theory Tun
  imports Byte_Order
begin

text \<open>
  \<open>internal/tun/device.go\<close>: the adapter between the batched tunnel device of the WireGuard library and the packet
  at a time that the engines read and write, and the in-memory device. The library's device is a parameter: what
  one \<open>Read\<close> answers, and which \<open>Write\<close> fails. \<open>Read\<close> fills at most the buffers it is given.
\<close>

section \<open>The native device\<close>

definition packet_offset :: nat where "packet_offset = 16"

datatype tun_error = TunEOF | TunDeviceError | TunEmptyBatch | TunMalformedBatch

text \<open>An error of the device (end of file or another), or the number of packets, the sizes and the buffers.\<close>

datatype device_read = DeviceError bool | DeviceBatch nat "int list" "bytes list"

record native =
  nt_name :: string
  nt_mtu :: nat
  nt_pending :: "bytes list"

text \<open>\<open>Open\<close>: the device comes with its actual name, or there is none.\<close>

definition open_native :: "string option option \<Rightarrow> nat \<Rightarrow> native option" where
  "open_native created mtu =
     (case created of
        Some (Some actualName) \<Rightarrow> Some \<lparr> nt_name = actualName, nt_mtu = mtu, nt_pending = [] \<rparr>
      | _ \<Rightarrow> None)"

text \<open>The packets of a batch: a size that is not positive or does not fit is skipped.\<close>

fun batch_packets :: "nat \<Rightarrow> int list \<Rightarrow> bytes list \<Rightarrow> bytes list" where
  "batch_packets (Suc n) (sz # sizes) (buffer # buffers) =
     (if sz \<le> 0 \<or> int (length buffer) - int packet_offset < sz then []
      else [take (nat sz) (drop packet_offset buffer)]) @ batch_packets n sizes buffers"
| "batch_packets n sizes buffers = []"

definition native_read :: "device_read \<Rightarrow> native \<Rightarrow> (tun_error + bytes) \<times> native" where
  "native_read r d =
     (case nt_pending d of
        packet # rest \<Rightarrow> (Inr packet, d\<lparr>nt_pending := rest\<rparr>)
      | [] \<Rightarrow>
          (case r of
             DeviceError eof \<Rightarrow> (Inl (if eof then TunEOF else TunDeviceError), d)
           | DeviceBatch count sizes buffers \<Rightarrow>
               if count < 1 then (Inl TunEmptyBatch, d)
               else
                 (case batch_packets count sizes buffers of
                    [] \<Rightarrow> (Inl TunMalformedBatch, d)
                  | packet # rest \<Rightarrow> (Inr packet, d\<lparr>nt_pending := rest\<rparr>))))"

text \<open>The number of buffers that \<open>Read\<close> is given and their size.\<close>

definition read_buffers :: "int \<Rightarrow> native \<Rightarrow> nat \<times> nat" where
  "read_buffers batchSize d = (nat (max 1 batchSize), nt_mtu d + packet_offset)"

text \<open>What the device is asked to write, and at which offset.\<close>

definition native_write :: "bytes \<Rightarrow> bytes list \<times> nat" where
  "native_write packet = ([replicate packet_offset 0 @ packet], packet_offset)"

text \<open>A run of reads: the device is only asked when nothing is pending.\<close>

fun read_all :: "nat \<Rightarrow> device_read list \<Rightarrow> native \<Rightarrow> (tun_error + bytes) list \<times> native \<times> device_read list" where
  "read_all 0 rs d = ([], d, rs)"
| "read_all (Suc n) rs d =
     (if nt_pending d \<noteq> [] then
        let (x, d1) = native_read (DeviceError True) d; (xs, d2, rs1) = read_all n rs d1 in (x # xs, d2, rs1)
      else case rs of
        [] \<Rightarrow> ([], d, [])
      | r # rs0 \<Rightarrow> let (x, d1) = native_read r d; (xs, d2, rs1) = read_all n rs0 d1 in (x # xs, d2, rs1))"

section \<open>The in-memory device\<close>

record memory =
  mm_name :: string
  mm_capacity :: nat
  mm_outbound :: "bytes list"
  mm_inbound :: "bytes list"
  mm_closed :: bool

definition new_memory :: "string \<Rightarrow> nat \<Rightarrow> memory" where
  "new_memory name capacity =
     \<lparr> mm_name = name, mm_capacity = capacity, mm_outbound = [], mm_inbound = [], mm_closed = False \<rparr>"

text \<open>A \<open>select\<close> with two ready cases takes either; \<^const>\<open>None\<close> is a call that blocks. \<open>pick\<close> is the choice.\<close>

definition memory_read :: "bool \<Rightarrow> memory \<Rightarrow> ((tun_error + bytes) \<times> memory) option" where
  "memory_read pick m =
     (case mm_outbound m of
        packet # rest \<Rightarrow>
          if mm_closed m \<and> \<not> pick then Some (Inl TunEOF, m) else Some (Inr packet, m\<lparr>mm_outbound := rest\<rparr>)
      | [] \<Rightarrow> if mm_closed m then Some (Inl TunEOF, m) else None)"

definition memory_write :: "bool \<Rightarrow> bytes \<Rightarrow> memory \<Rightarrow> (tun_error option \<times> memory) option" where
  "memory_write pick packet m =
     (if length (mm_inbound m) < mm_capacity m \<and> (pick \<or> \<not> mm_closed m)
      then Some (None, m\<lparr>mm_inbound := mm_inbound m @ [packet]\<rparr>)
      else if mm_closed m then Some (Some TunEOF, m) else None)"

definition memory_inject :: "bool \<Rightarrow> bytes \<Rightarrow> memory \<Rightarrow> (tun_error option \<times> memory) option" where
  "memory_inject pick packet m =
     (if length (mm_outbound m) < mm_capacity m \<and> (pick \<or> \<not> mm_closed m)
      then Some (None, m\<lparr>mm_outbound := mm_outbound m @ [packet]\<rparr>)
      else if mm_closed m then Some (Some TunEOF, m) else None)"

definition memory_close :: "memory \<Rightarrow> memory" where
  "memory_close m = m\<lparr>mm_closed := True\<rparr>"

definition memory_receive :: "memory \<Rightarrow> (bytes \<times> memory) option" where
  "memory_receive m = (case mm_inbound m of [] \<Rightarrow> None | p # ps \<Rightarrow> Some (p, m\<lparr>mm_inbound := ps\<rparr>))"

section \<open>Packets in order\<close>

text \<open>What the device means by an answer, apart from how the adapter reads it: in each of the buffers, which are \<open>mtu\<close>
  bytes and a headroom of 16 bytes long, the packet stands behind the headroom, and its length is the size; a packet
  may be empty. A device that fails gives no packets.\<close>

definition holds_packet :: "nat \<Rightarrow> int \<Rightarrow> bytes \<Rightarrow> bytes \<Rightarrow> bool" where
  "holds_packet mtu sz buffer p \<longleftrightarrow>
     sz = int (length p) \<and> length buffer = mtu + 16 \<and> (\<exists>headroom unused. buffer = headroom @ p @ unused \<and> length headroom = 16)"

definition device_gives :: "nat \<Rightarrow> device_read \<Rightarrow> bytes list \<Rightarrow> bool" where
  "device_gives mtu r ps \<longleftrightarrow>
     (case r of
        DeviceError eof \<Rightarrow> ps = []
      | DeviceBatch count sizes buffers \<Rightarrow>
          count = length ps \<and> count \<le> length sizes \<and> count \<le> length buffers
          \<and> (\<forall>i < count. holds_packet mtu (sizes ! i) (buffers ! i) (ps ! i)))"

abbreviation nonempty_packets :: "bytes list \<Rightarrow> bytes list" where
  "nonempty_packets \<equiv> filter (\<lambda>p. p \<noteq> [])"

definition delivered_packets :: "(tun_error + bytes) list \<Rightarrow> bytes list" where
  "delivered_packets xs = concat (map (\<lambda>x. case x of Inl e \<Rightarrow> [] | Inr p \<Rightarrow> [p]) xs)"

lemma holds_packet_length: "holds_packet mtu sz buffer p \<Longrightarrow> length p \<le> mtu"
  by (auto simp: holds_packet_def)

lemma batch_packet:
  "holds_packet mtu sz buffer p \<Longrightarrow>
     batch_packets (Suc n) (sz # sizes) (buffer # buffers) = (if p = [] then [] else [p]) @ batch_packets n sizes buffers"
  by (auto simp: holds_packet_def packet_offset_def)

lemma batch_gives:
  assumes "length ps \<le> length sizes" "length ps \<le> length buffers"
    "\<forall>i < length ps. holds_packet mtu (sizes ! i) (buffers ! i) (ps ! i)"
  shows "batch_packets (length ps) sizes buffers = nonempty_packets ps"
  using assms
proof (induction ps arbitrary: sizes buffers)
  case (Cons p ps)
  obtain sz sizes' buffer buffers' where s: "sizes = sz # sizes'" "buffers = buffer # buffers'"
    using Cons.prems(1,2) by (cases sizes; cases buffers) auto
  have "holds_packet mtu sz buffer p" using Cons.prems(3) s by (auto dest: spec [of _ 0])
  moreover have "batch_packets (length ps) sizes' buffers' = nonempty_packets ps"
    using Cons.prems s by (intro Cons.IH) auto
  ultimately show ?case by (simp add: s batch_packet del: batch_packets.simps)
qed simp

lemma gives_sizes: "device_gives mtu r ps \<Longrightarrow> p \<in> set ps \<Longrightarrow> length p \<le> mtu"
  by (auto simp: device_gives_def in_set_conv_nth dest!: holds_packet_length split: device_read.splits)

lemma native_read_gives:
  assumes "native_read r d = (x, d1)" "nt_pending d = []" "device_gives mtu r ps"
  shows "delivered_packets [x] @ nt_pending d1 = nonempty_packets ps \<and> (isl x \<longleftrightarrow> nonempty_packets ps = [])"
proof (cases r)
  case (DeviceError eof)
  with assms show ?thesis by (auto simp: native_read_def device_gives_def delivered_packets_def)
next
  case (DeviceBatch count sizes buffers)
  with assms(3) have "count = length ps" "batch_packets count sizes buffers = nonempty_packets ps"
    by (auto simp: device_gives_def intro!: batch_gives)
  with assms(1,2) DeviceBatch show ?thesis
    by (cases "nonempty_packets ps") (auto simp: native_read_def delivered_packets_def split: if_splits)
qed

lemma native_read_pending:
  "nt_pending d = p # ps \<Longrightarrow> native_read r d = (Inr p, d\<lparr>nt_pending := ps\<rparr>)"
  by (simp add: native_read_def)

lemma delivered_cons: "delivered_packets (x # xs) = delivered_packets [x] @ delivered_packets xs"
  by (simp add: delivered_packets_def)

text \<open>A run of reads used the first \<open>k\<close> answers of the device, which gave \<open>pss\<close>.\<close>

definition run_delivers ::
  "nat \<Rightarrow> bytes list \<Rightarrow> bytes list list \<Rightarrow> nat \<Rightarrow> (tun_error + bytes) list \<Rightarrow> bytes list \<Rightarrow> bool" where
  "run_delivers n before pss k xs after \<longleftrightarrow>
     delivered_packets xs @ after = before @ nonempty_packets (concat (take k pss))
     \<and> length (filter isl xs) = length (filter (\<lambda>ps. nonempty_packets ps = []) (take k pss))
     \<and> (length xs = n \<or> k = length pss \<and> after = [])"

lemma read_all_delivers:
  assumes "list_all2 (device_gives mtu) rs pss" "read_all n rs d = (xs, d1, rs1)"
  shows "\<exists>k \<le> length rs. rs1 = drop k rs \<and> run_delivers n (nt_pending d) pss k xs (nt_pending d1)"
  using assms
proof (induction n arbitrary: rs pss d xs)
  case 0
  then show ?case by (auto simp: run_delivers_def delivered_packets_def intro!: exI [of _ 0])
next
  case (Suc n)
  show ?case
  proof (cases "nt_pending d")
    case (Cons p ps)
    then obtain ys where ys: "xs = Inr p # ys" "read_all n rs (d\<lparr>nt_pending := ps\<rparr>) = (ys, d1, rs1)"
      using Suc.prems(2) by (auto simp: native_read_pending split: prod.splits)
    from Suc.IH [OF Suc.prems(1) ys(2)] obtain k where
      "k \<le> length rs" "rs1 = drop k rs" "run_delivers n ps pss k ys (nt_pending d1)" by auto
    with Cons ys(1) show ?thesis by (auto simp: run_delivers_def delivered_packets_def)
  next
    case Nil
    note idle = this
    show ?thesis
    proof (cases rs)
      case Nil
      with Suc.prems idle show ?thesis by (auto simp: run_delivers_def delivered_packets_def)
    next
      case (Cons r rs0)
      with Suc.prems(1) obtain ps pss0 where pss: "pss = ps # pss0" "device_gives mtu r ps" "list_all2 (device_gives mtu) rs0 pss0"
        by (auto simp: list_all2_Cons1)
      obtain x d2 where x: "native_read r d = (x, d2)" by fastforce
      then obtain ys where ys: "xs = x # ys" "read_all n rs0 d2 = (ys, d1, rs1)"
        using Suc.prems(2) Cons idle by (auto split: prod.splits)
      from Suc.IH [OF pss(3) ys(2)] obtain k where k: "k \<le> length rs0" "rs1 = drop k rs0"
        "run_delivers n (nt_pending d2) pss0 k ys (nt_pending d1)" by auto
      note r = native_read_gives [OF x idle pss(2)]
      have "delivered_packets xs @ nt_pending d1 = nonempty_packets ps @ nonempty_packets (concat (take k pss0))"
        using k(3) r ys(1) unfolding run_delivers_def by (metis append.assoc delivered_cons)
      then have "run_delivers (Suc n) (nt_pending d) pss (Suc k) xs (nt_pending d1)"
        using k(3) r by (auto simp: run_delivers_def idle pss(1) ys(1))
      with k(1,2) Cons show ?thesis by (intro exI [of _ "Suc k"]) simp
    qed
  qed
qed

text \<open>C32: A run of reads delivers the packets that the device gave, except empty ones: none lost, none twice, each byte
  for byte and in the order of the device; those of the answers used so far that are not yet delivered are pending.
  Each has between 1 and MTU bytes. As many reads fail as answers were used that give no packet, and the run only
  stops early when the device has no more answers and nothing is pending.\<close>

theorem tun_reads_in_order:
  assumes "open_native (Some (Some name)) mtu = Some d" "list_all2 (device_gives mtu) rs pss"
    "read_all n rs d = (xs, d1, rs1)"
  shows "(\<exists>k \<le> length rs. rs1 = drop k rs
      \<and> delivered_packets xs @ nt_pending d1 = nonempty_packets (concat (take k pss))
      \<and> length (filter isl xs) = length (filter (\<lambda>ps. nonempty_packets ps = []) (take k pss))
      \<and> (length xs = n \<or> k = length pss \<and> nt_pending d1 = []))
    \<and> (\<forall>p \<in> set (delivered_packets xs). 1 \<le> length p \<and> length p \<le> mtu)"
proof -
  have "nt_pending d = []" using assms(1) by (auto simp: open_native_def)
  with read_all_delivers [OF assms(2,3)] obtain k where k: "k \<le> length rs" "rs1 = drop k rs"
    "run_delivers n [] pss k xs (nt_pending d1)" by auto
  have "1 \<le> length p \<and> length p \<le> mtu" if "p \<in> set (delivered_packets xs)" for p
  proof -
    have "p \<in> set (nonempty_packets (concat (take k pss)))"
      using that k(3) unfolding run_delivers_def by (metis Un_iff append_Nil set_append)
    then obtain ps where ps: "ps \<in> set pss" "p \<in> set ps" "p \<noteq> []" by (auto dest: in_set_takeD)
    from ps(1) assms(2) obtain r where "device_gives mtu r ps" by (metis list_all2_conv_all_nth in_set_conv_nth)
    from gives_sizes [OF this ps(2)] ps(3) show ?thesis by (simp add: Suc_le_eq)
  qed
  with k show ?thesis unfolding run_delivers_def by auto
qed

text \<open>Two reads take a batch of an empty packet and one of two bytes, and then the end of the device.\<close>

theorem tun_reads_in_order_witness:
  "\<exists>k \<le> 2. delivered_packets [Inr [8, 9], Inl TunEOF] @ [] = nonempty_packets (concat (take k [[[], [8, 9]], []]))
     \<and> length (filter isl [Inr [8, 9], Inl TunEOF]) = length (filter (\<lambda>ps. nonempty_packets ps = []) (take k [[[], [8, 9]], []]))"
proof -
  define d where "d = \<lparr> nt_name = ''lf0'', nt_mtu = 2, nt_pending = [] \<rparr>"
  let ?a = "replicate 16 0 @ [7, 0] :: bytes" and ?b = "replicate 16 0 @ [8, 9] :: bytes"
  let ?rs = "[DeviceBatch 2 [0, 2] [?a, ?b], DeviceError True]"
  have "holds_packet 2 0 ?a []" unfolding holds_packet_def
    by (intro conjI exI [of _ "replicate 16 0"] exI [of _ "[7, 0]"]) simp_all
  moreover have "holds_packet 2 2 ?b [8, 9]" unfolding holds_packet_def
    by (intro conjI exI [of _ "replicate 16 0"] exI [of _ "[]"]) simp_all
  ultimately have "device_gives 2 (DeviceBatch 2 [0, 2] [?a, ?b]) [[], [8, 9]]"
    unfolding device_gives_def by (simp del: append.simps replicate.simps add: All_less_Suc2 numeral_2_eq_2)
  then have g: "list_all2 (device_gives 2) ?rs [[[], [8, 9]], []]" by (simp add: device_gives_def)
  have "read_all 2 ?rs d = ([Inr [8, 9], Inl TunEOF], d, [])"
    by (simp add: d_def native_read_def packet_offset_def numeral_2_eq_2)
  from tun_reads_in_order [OF _ g this, of "''lf0''"] show ?thesis
    by (auto simp: d_def open_native_def numeral_2_eq_2)
qed

end
