(* ===== verification/Manager.thy ===== *)
theory Manager
  imports Client Netconfig Tun
begin

text \<open>
  \<open>internal/clientapp/manager.go\<close>: the manager behind the control panel of the client. \<open>Start\<close> discovers and
  calibrates the paths, sets up the routes, the tunnel device and the engine; \<open>Stop\<close> ends it. The state is under
  a lock that \<open>Start\<close> takes several times, so a start is modelled as the steps between which other calls can come
  (storing the calibrated paths and leaving the state \<open>calibrating\<close> are one step).
\<close>

section \<open>State\<close>

datatype app_state = AppStopped | AppCalibrating | AppStarting | AppRunning | AppStopping | AppError

datatype app_error =
    NoUsablePath | CalibrationClient client_error | CalibrationFailed | NoCalibrationTraffic
  | RouteError net_error | TunnelError | SetupError net_error | EngineError client_error

text \<open>\<open>mn_cancel\<close> names the running client that \<open>Stop\<close> ends (the functions \<open>cancel\<close> and \<open>done\<close>).\<close>

record manager =
  mn_state :: app_state
  mn_error :: "app_error option"
  mn_cancel :: "nat option"
  mn_cached :: "path_config list"

definition new_manager :: manager where
  "new_manager = \<lparr> mn_state = AppStopped, mn_error = None, mn_cancel = None, mn_cached = [] \<rparr>"

definition manager_state :: "bool \<Rightarrow> manager \<Rightarrow> app_state \<times> app_error option" where
  "manager_state ready m = (if mn_state m = AppStarting \<and> ready then AppRunning else mn_state m, mn_error m)"

definition start_begin :: "manager \<Rightarrow> manager option" where
  "start_begin m =
     (if mn_state m \<in> {AppStarting, AppRunning, AppStopping} then None
      else Some (m\<lparr>mn_state := AppCalibrating, mn_error := None\<rparr>))"

definition start_failed :: "app_error \<Rightarrow> manager \<Rightarrow> manager" where
  "start_failed e m = m\<lparr>mn_state := AppError, mn_error := Some e\<rparr>"

definition start_calibrated :: "path_config list \<Rightarrow> manager \<Rightarrow> manager" where
  "start_calibrated paths m = m\<lparr>mn_cached := paths, mn_state := AppStarting\<rparr>"

definition start_activated :: "nat \<Rightarrow> manager \<Rightarrow> manager" where
  "start_activated n m = m\<lparr>mn_cancel := Some n\<rparr>"

text \<open>The end of the goroutine that ran the engine; \<open>failed\<close> is an error that was not caused by \<open>cancel\<close>.\<close>

definition run_ended :: "app_error option \<Rightarrow> manager \<Rightarrow> manager" where
  "run_ended failed m =
     m\<lparr>mn_state := (if failed = None then AppStopped else AppError), mn_error := failed, mn_cancel := None\<rparr>"

definition stop_begin :: "manager \<Rightarrow> (nat \<times> manager) option" where
  "stop_begin m = (case mn_cancel m of None \<Rightarrow> None | Some n \<Rightarrow> Some (n, m\<lparr>mn_state := AppStopping\<rparr>))"

section \<open>Calibration\<close>

definition app_path_key :: "path_config \<Rightarrow> string" where
  "app_path_key p = pt_interface p @ ''/'' @ pt_local_address p"

definition same_path_set :: "path_config list \<Rightarrow> path_config list \<Rightarrow> bool" where
  "same_path_set a b \<longleftrightarrow> a \<noteq> [] \<and> length a = length b \<and> (\<forall>p \<in> set b. app_path_key p \<in> app_path_key ` set a)"

definition measured :: "path_diagnostic list \<Rightarrow> path_diagnostic list" where
  "measured ps = filter (\<lambda>p. pd_healthy p \<and> 0 < pd_received p) ps"

definition by_name :: "path_diagnostic list \<Rightarrow> (string \<times> path_diagnostic) list" where
  "by_name ps = foldl (\<lambda>m p. map_put m (pd_name p) p) [] (measured ps)"

definition minimum_received :: "path_diagnostic list \<Rightarrow> u64" where
  "minimum_received ps = foldl (\<lambda>m p. if pd_received p < m then pd_received p else m) (- 1) (measured ps)"

text \<open>\<open>math.Round\<close> of a value that is not negative.\<close>

definition round_half_up :: "rat \<Rightarrow> int" where
  "round_half_up x = \<lfloor>x + 1 / 2\<rfloor>"

definition float_of_u64 :: "u64 \<Rightarrow> rat" where
  "float_of_u64 w = fl64 (of_nat (unat w))"

definition calibrated_weight :: "u64 \<Rightarrow> u64 \<Rightarrow> rat" where
  "calibrated_weight received least =
     (let weight = fl64 (float_of_u64 received / float_of_u64 least) in
      fl64 (of_int (round_half_up (fl64 (min (max weight 1) 100 * 10))) / 10))"

definition calibrate_paths :: "path_diagnostic list \<Rightarrow> path_config list \<Rightarrow> path_config list option" where
  "calibrate_paths ps discovered =
     (let names = by_name ps; least = minimum_received ps in
      if names = [] \<or> least = - 1 then None
      else Some (concat (map (\<lambda>p. case map_get names (pt_name p) of
             None \<Rightarrow> [] | Some d \<Rightarrow> [p\<lparr>pt_weight := calibrated_weight (pd_received d) least\<rparr>]) discovered)))"

text \<open>What the outside answers during one start: the interfaces, the random numbers of the two clients, what the
  diagnostic run finds, the operating system and its commands, the device.\<close>

record start_env =
  te_lib :: net_lib
  te_interfaces :: "net_interface list option"
  te_defaults :: "string list"
  te_calibration_nonce :: "bytes option"
  te_diagnose :: "client \<Rightarrow> diagnostic_result option"
  te_os :: os_lib
  te_runner :: runner
  te_device :: "string option option"
  te_engine_nonce :: "bytes option"
  te_registry :: registry

definition calibrate :: "start_env \<Rightarrow> client_config \<Rightarrow> path_config list \<Rightarrow> path_config list \<Rightarrow> app_error + path_config list" where
  "calibrate E profile discovered cached =
     (if same_path_set cached discovered then Inr cached
      else case new_client (te_lib E) profile False (new_registry ''calibration'' zero_time) (te_calibration_nonce E) of
        Inl e \<Rightarrow> Inl (CalibrationClient e)
      | Inr client \<Rightarrow>
          (case te_diagnose E client of
             None \<Rightarrow> Inl CalibrationFailed
           | Some result \<Rightarrow>
               (case calibrate_paths (dr_paths result) discovered of
                  None \<Rightarrow> Inl NoCalibrationTraffic
                | Some paths \<Rightarrow> Inr paths)))"

section \<open>Bringing the tunnel up\<close>

definition physical_paths :: "path_config list \<Rightarrow> physical_path list" where
  "physical_paths paths =
     map (\<lambda>p. \<lparr> pp_name = pt_name p, pp_interface = pt_interface p, pp_local_address = pt_local_address p \<rparr>) paths"

definition close_guard_option :: "route_guard option \<Rightarrow> argv list \<Rightarrow> argv list" where
  "close_guard_option g hist = (case g of None \<Rightarrow> hist | Some g \<Rightarrow> snd (close_guard g hist))"

datatype device_call = OpenDevice | CloseDevice

definition guard_relay :: "start_env \<Rightarrow> client_config \<Rightarrow> argv list \<Rightarrow> (net_error + route_guard option) \<times> argv list" where
  "guard_relay E profile hist =
     (if cc_traffic_mode profile = ''all'' then
        (case protect_relay (te_os E) (te_runner E) (cc_server profile) (physical_paths (cc_paths profile)) hist of
           (Inl e, hist1) \<Rightarrow> (Inl e, hist1)
         | (Inr g, hist1) \<Rightarrow> (Inr (Some g), hist1))
      else (Inr None, hist))"

definition configure_device :: "start_env \<Rightarrow> client_config \<Rightarrow> string \<Rightarrow> argv list \<Rightarrow> net_error option \<times> argv list" where
  "configure_device E profile name hist =
     (if cc_configure_interface profile
      then setup_interface (te_os E) (te_runner E) name (cc_tunnel_address profile) (cc_mtu profile) (effective_routes profile) hist
      else (None, hist))"

text \<open>The result, what was done with the device, and the commands. \<open>profile\<close> has the calibrated paths.\<close>

definition bring_up ::
  "start_env \<Rightarrow> client_config \<Rightarrow> argv list
   \<Rightarrow> (app_error + route_guard option \<times> native \<times> client) \<times> device_call list \<times> argv list" where
  "bring_up E profile hist =
     (case guard_relay E profile hist of
        (Inl e, hist1) \<Rightarrow> (Inl (RouteError e), [], hist1)
      | (Inr guard, hist1) \<Rightarrow>
          (case open_native (te_device E) (nat (cc_mtu profile)) of
             None \<Rightarrow> (Inl TunnelError, [], close_guard_option guard hist1)
           | Some device \<Rightarrow>
               (case configure_device E profile (nt_name device) hist1 of
                  (Some e, hist2) \<Rightarrow> (Inl (SetupError e), [OpenDevice, CloseDevice], close_guard_option guard hist2)
                | (None, hist2) \<Rightarrow>
                    (case new_client (te_lib E) profile True (te_registry E) (te_engine_nonce E) of
                       Inl e \<Rightarrow> (Inl (EngineError e), [OpenDevice, CloseDevice], close_guard_option guard hist2)
                     | Inr client \<Rightarrow> (Inr (guard, device, client), [OpenDevice], hist2)))))"

text \<open>\<open>Start\<close> when no other call comes between, up to the start of the engine as the client \<open>n\<close>.\<close>

definition start ::
  "start_env \<Rightarrow> client_config \<Rightarrow> nat \<Rightarrow> manager \<Rightarrow> argv list
   \<Rightarrow> (app_error option + route_guard option \<times> native \<times> client) \<times> manager \<times> device_call list \<times> argv list" where
  "start E profile n m hist =
     (case start_begin m of
        None \<Rightarrow> (Inl None, m, [], hist)
      | Some m1 \<Rightarrow>
          (case discover_paths profile (te_interfaces E) (te_defaults E) of
             None \<Rightarrow> (Inl (Some NoUsablePath), start_failed NoUsablePath m1, [], hist)
           | Some paths \<Rightarrow>
               if paths = [] then (Inl (Some NoUsablePath), start_failed NoUsablePath m1, [], hist)
               else
                 (let profile1 = profile\<lparr>cc_paths := paths, cc_auto_discover := False\<rparr> in
                  case calibrate E profile1 paths (mn_cached m1) of
                    Inl e \<Rightarrow> (Inl (Some e), start_failed e m1, [], hist)
                  | Inr calibrated \<Rightarrow>
                      (let m2 = start_calibrated calibrated m1;
                           (r, calls, hist1) = bring_up E (profile1\<lparr>cc_paths := calibrated\<rparr>) hist in
                       case r of
                         Inl e \<Rightarrow> (Inl (Some e), start_failed e m2, calls, hist1)
                       | Inr x \<Rightarrow> (Inr x, start_activated n m2, calls, hist1)))))"

section \<open>Interleaved calls\<close>

text \<open>A call of \<open>Start\<close> that is under way is calibrating or opening; a running client has a name and may have been
  cancelled.\<close>

datatype start_phase = Calibrating | Opening

record app_world =
  aw_manager :: manager
  aw_starts :: "start_phase list"
  aw_clients :: "(nat \<times> bool) list"
  aw_next :: nat

definition new_world :: app_world where
  "new_world = \<lparr> aw_manager = new_manager, aw_starts = [], aw_clients = [], aw_next = 0 \<rparr>"

definition drop_nth :: "nat \<Rightarrow> 'a list \<Rightarrow> 'a list" where
  "drop_nth i xs = take i xs @ drop (Suc i) xs"

datatype manager_event =
    CallStart
  | Calibrated nat "path_config list"
  | StartFails nat app_error
  | ClientStarts nat
  | ClientEnds nat "app_error option"
  | CallStop

text \<open>\<open>Stop\<close>: the client that \<open>cancel\<close> belongs to is told to end; without one the call is refused.\<close>

definition call_stop :: "app_world \<Rightarrow> app_world" where
  "call_stop w =
     (case stop_begin (aw_manager w) of
        None \<Rightarrow> w
      | Some (n, m) \<Rightarrow> w\<lparr>aw_manager := m, aw_clients := map (\<lambda>c. if fst c = n then (n, True) else c) (aw_clients w)\<rparr>)"

text \<open>One locked section. An event that cannot happen changes nothing.\<close>

fun manager_step :: "app_world \<Rightarrow> manager_event \<Rightarrow> app_world" where
  "manager_step w CallStart =
     (case start_begin (aw_manager w) of
        None \<Rightarrow> w
      | Some m \<Rightarrow> w\<lparr>aw_manager := m, aw_starts := aw_starts w @ [Calibrating]\<rparr>)"
| "manager_step w (Calibrated i paths) =
     (if i < length (aw_starts w) \<and> aw_starts w ! i = Calibrating
      then w\<lparr>aw_manager := start_calibrated paths (aw_manager w), aw_starts := (aw_starts w)[i := Opening]\<rparr> else w)"
| "manager_step w (StartFails i e) =
     (if i < length (aw_starts w)
      then w\<lparr>aw_manager := start_failed e (aw_manager w), aw_starts := drop_nth i (aw_starts w)\<rparr> else w)"
| "manager_step w (ClientStarts i) =
     (if i < length (aw_starts w) \<and> aw_starts w ! i = Opening
      then w\<lparr>aw_manager := start_activated (aw_next w) (aw_manager w), aw_starts := drop_nth i (aw_starts w),
             aw_clients := aw_clients w @ [(aw_next w, False)], aw_next := Suc (aw_next w)\<rparr> else w)"
| "manager_step w (ClientEnds n failed) =
     (case map_get (aw_clients w) n of
        None \<Rightarrow> w
      | Some cancelled \<Rightarrow>
          w\<lparr>aw_manager := run_ended (if cancelled then None else failed) (aw_manager w),
            aw_clients := filter (\<lambda>c. fst c \<noteq> n) (aw_clients w)\<rparr>)"
| "manager_step w CallStop = call_stop w"

end
