(* ===== verification/Manager_Facts.thy ===== *)
theory Manager_Facts
  imports Manager Netconfig_Facts
begin

text \<open>
  What the manager keeps: weights in their range, nothing left behind by a start that fails, and at most one
  running client as long as no start is called while another calibrates; and the client that is lost otherwise.
\<close>

section \<open>Weights\<close>

lemma round_half_up_mono: "x \<le> y \<Longrightarrow> round_half_up x \<le> round_half_up y"
  unfolding round_half_up_def by (rule floor_mono) simp

lemma round_half_up_int [simp]: "round_half_up (of_int i) = i"
  unfolding round_half_up_def by linarith

lemma round_half_up_bounds:
  assumes "of_int a \<le> x" "x \<le> of_int b"
  shows "a \<le> round_half_up x \<and> round_half_up x \<le> b"
  using round_half_up_mono [OF assms(1)] round_half_up_mono [OF assms(2)] by simp

lemma fl64_int_bounds:
  assumes "of_int a \<le> x" "x \<le> of_int b" "\<bar>a\<bar> < 2 ^ 53" "\<bar>b\<bar> < 2 ^ 53"
  shows "of_int a \<le> fl64 x \<and> fl64 x \<le> of_int b"
  using assms fl64_ge_float is_float64_of_int fl64_le_float by blast

text \<open>A weight is a number of tenths between 1 and 100, rounded to a \<open>float64\<close>.\<close>

lemma calibrated_weight_tenths:
  obtains k where "calibrated_weight r m = fl64 (of_int k / 10)" "10 \<le> k" "k \<le> 1000"
proof -
  define w where "w = min (max (fl64 (float_of_u64 r / float_of_u64 m)) 1) 100 * 10"
  have "of_int 10 \<le> w" "w \<le> of_int 1000" by (simp_all add: w_def)
  then have "of_int 10 \<le> fl64 w \<and> fl64 w \<le> of_int 1000" by (rule fl64_int_bounds) simp_all
  then have "10 \<le> round_half_up (fl64 w) \<and> round_half_up (fl64 w) \<le> 1000" by (intro round_half_up_bounds) auto
  then show ?thesis by (intro that [of "round_half_up (fl64 w)"]) (auto simp: calibrated_weight_def w_def Let_def)
qed

lemma calibrated_weight_bounds: "1 \<le> calibrated_weight r m \<and> calibrated_weight r m \<le> 100"
proof -
  obtain k where k: "calibrated_weight r m = fl64 (of_int k / 10)" "10 \<le> k" "k \<le> 1000"
    by (rule calibrated_weight_tenths)
  have "(of_int 1 :: rat) \<le> of_int k / 10" "(of_int k :: rat) / 10 \<le> of_int 100" using k(2,3) by simp_all
  then show ?thesis using fl64_int_bounds [of 1 "of_int k / 10" 100] k(1) by simp
qed

lemma calibrated_weight_least: "0 < m \<Longrightarrow> calibrated_weight m m = 1"
proof -
  assume "0 < m"
  then have "1 \<le> unat m" by (simp add: Suc_le_eq unat_gt_0)
  then have "of_int 1 \<le> (of_nat (unat m) :: rat)" by (metis of_int_1 of_nat_1 of_nat_le_iff)
  then have "(1 :: rat) \<le> float_of_u64 m"
    unfolding float_of_u64_def using fl64_ge_float [of 1 "of_nat (unat m)"] is_float64_of_int [of 1] by simp
  then have "float_of_u64 m / float_of_u64 m = 1" by simp
  moreover have "fl64 1 = 1" "fl64 10 = 10" using fl64_of_int [of 1] fl64_of_int [of 10] by simp_all
  moreover have "round_half_up 10 = 10" using round_half_up_int [of 10] by simp
  ultimately show ?thesis by (simp add: calibrated_weight_def)
qed

lemma calibrated_weight_mono:
  assumes "r \<le> r'"
  shows "calibrated_weight r m \<le> calibrated_weight r' m"
proof -
  have "float_of_u64 r \<le> float_of_u64 r'"
    unfolding float_of_u64_def using assms by (intro fl64_mono) (metis of_nat_le_iff word_le_nat_alt)
  moreover have "0 \<le> float_of_u64 m" unfolding float_of_u64_def by (intro fl64_nonneg of_nat_0_le_iff)
  ultimately have "float_of_u64 r / float_of_u64 m \<le> float_of_u64 r' / float_of_u64 m" by (rule divide_right_mono)
  then have "fl64 (float_of_u64 r / float_of_u64 m) \<le> fl64 (float_of_u64 r' / float_of_u64 m)" by (rule fl64_mono)
  then have "min (max (fl64 (float_of_u64 r / float_of_u64 m)) 1) 100 * 10
      \<le> min (max (fl64 (float_of_u64 r' / float_of_u64 m)) 1) 100 * 10" by simp
  then have "round_half_up (fl64 (min (max (fl64 (float_of_u64 r / float_of_u64 m)) 1) 100 * 10))
      \<le> round_half_up (fl64 (min (max (fl64 (float_of_u64 r' / float_of_u64 m)) 1) 100 * 10))"
    by (intro round_half_up_mono fl64_mono)
  then show ?thesis unfolding calibrated_weight_def Let_def by (intro fl64_mono divide_right_mono) simp_all
qed

section \<open>Calibrated paths\<close>

lemma fold_minimum:
  "foldl (\<lambda>m p. if pd_received p < m then pd_received p else m) a ps \<le> a
   \<and> (\<forall>p \<in> set ps. foldl (\<lambda>m p. if pd_received p < m then pd_received p else m) a ps \<le> pd_received p)
   \<and> (foldl (\<lambda>m p. if pd_received p < m then pd_received p else m) a ps = a
      \<or> foldl (\<lambda>m p. if pd_received p < m then pd_received p else m) a ps \<in> pd_received ` set ps)"
proof (induction ps arbitrary: a)
  case (Cons p ps)
  from Cons [of "if pd_received p < a then pd_received p else a"] show ?case
    by (auto split: if_splits)
qed simp

lemma minimum_received_le: "p \<in> set (measured ps) \<Longrightarrow> minimum_received ps \<le> pd_received p"
  using fold_minimum [of "- 1" "measured ps"] by (simp add: minimum_received_def)

lemma minimum_received_pos: "minimum_received ps \<noteq> - 1 \<Longrightarrow> 0 < minimum_received ps"
  using fold_minimum [of "- 1" "measured ps"] by (auto simp: minimum_received_def measured_def)

lemma by_name_get:
  "map_get (by_name ps) n = Some d \<Longrightarrow> d \<in> set (measured ps) \<and> pd_name d = n"
proof -
  have "map_get m n = Some d \<or> d \<in> set ds \<and> pd_name d = n"
    if "map_get (foldl (\<lambda>m p. map_put m (pd_name p) p) m ds) n = Some d" for m ds
    using that
  proof (induction ds arbitrary: m)
    case (Cons c ds)
    from Cons.IH [of "map_put m (pd_name c) c"] Cons.prems show ?case by (auto simp: map_get_put split: if_splits)
  qed simp
  from this [of "[]" "measured ps"] show "map_get (by_name ps) n = Some d \<Longrightarrow> ?thesis"
    by (simp add: by_name_def)
qed

text \<open>C33: Calibration keeps discovered paths only, each as it was except for its weight, and only paths that a healthy
  measurement under its name has seen bytes of. The weight is between 1 and 100, is 1 for the least that was
  received on any path, and a path on which more was received has no smaller weight.\<close>

theorem calibration_weights:
  assumes "calibrate_paths ps discovered = Some paths" "p \<in> set paths"
  shows "\<exists>q d. q \<in> set discovered \<and> p = q\<lparr>pt_weight := pt_weight p\<rparr> \<and> d \<in> set ps \<and> pd_name d = pt_name p \<and> pd_healthy d
    \<and> 0 < pd_received d \<and> pt_weight p = calibrated_weight (pd_received d) (minimum_received ps)
    \<and> 1 \<le> pt_weight p \<and> pt_weight p \<le> 100
    \<and> (pd_received d = minimum_received ps \<longrightarrow> pt_weight p = 1)
    \<and> (\<forall>r \<ge> pd_received d. pt_weight p \<le> calibrated_weight r (minimum_received ps))"
proof -
  from assms have least: "minimum_received ps \<noteq> - 1"
    and "p \<in> set (concat (map (\<lambda>p. case map_get (by_name ps) (pt_name p) of None \<Rightarrow> []
        | Some d \<Rightarrow> [p\<lparr>pt_weight := calibrated_weight (pd_received d) (minimum_received ps)\<rparr>]) discovered))"
    by (auto simp: calibrate_paths_def Let_def split: if_splits)
  then obtain q where "q \<in> set discovered" "p \<in> set (case map_get (by_name ps) (pt_name q) of None \<Rightarrow> []
        | Some d \<Rightarrow> [q\<lparr>pt_weight := calibrated_weight (pd_received d) (minimum_received ps)\<rparr>])"
    by auto
  then obtain d where q: "q \<in> set discovered" "map_get (by_name ps) (pt_name q) = Some d"
    "p = q\<lparr>pt_weight := calibrated_weight (pd_received d) (minimum_received ps)\<rparr>"
    by (cases "map_get (by_name ps) (pt_name q)") auto
  from by_name_get [OF q(2)] have d: "d \<in> set ps" "pd_name d = pt_name p" "pd_healthy d" "0 < pd_received d"
    using q(3) by (auto simp: measured_def)
  have w: "pt_weight p = calibrated_weight (pd_received d) (minimum_received ps)" using q(3) by simp
  show ?thesis
    using q(1,3) d w calibrated_weight_bounds calibrated_weight_mono calibrated_weight_least [OF minimum_received_pos [OF least]]
    by (intro exI [of _ q] exI [of _ d]) auto
qed

lemma same_path_set_eq:
  assumes "same_path_set a b" "distinct (map app_path_key b)"
  shows "app_path_key ` set a = app_path_key ` set b"
proof (rule sym, rule card_subset_eq)
  show "app_path_key ` set b \<subseteq> app_path_key ` set a" using assms(1) by (auto simp: same_path_set_def)
  then have "card (app_path_key ` set b) \<le> card (app_path_key ` set a)" by (intro card_mono) simp_all
  moreover have "card (app_path_key ` set b) = length b" using assms(2) by (metis distinct_card length_map set_map)
  moreover have "card (app_path_key ` set a) \<le> length a" by (metis card_length length_map set_map)
  ultimately show "card (app_path_key ` set b) = card (app_path_key ` set a)" using assms(1) by (simp add: same_path_set_def)
qed simp

section \<open>A start that fails\<close>

lemma run_commands_quiet: "run_commands R cs hist = (e, hist1) \<Longrightarrow> \<exists>ds. hist1 = hist @ ds \<and> set ds \<subseteq> set cs"
proof (induction R cs hist arbitrary: e hist1 rule: run_commands.induct)
  case (2 R c cs hist)
  show ?case
  proof (cases "fst (R hist c)")
    case True
    with 2 obtain ds where "hist1 = (hist @ [c]) @ ds" "set ds \<subseteq> set cs" by fastforce
    then show ?thesis by (intro exI [of _ "c # ds"]) auto
  qed (use 2 in \<open>auto intro: exI [of _ "[c]"]\<close>)
qed simp

lemma owes_head: "owes R h c u \<Longrightarrow> (\<exists>t. c = ''ip'' # ''rule'' # t) \<or> (\<exists>t. c = ''powershell.exe'' # t)"
  by (auto simp: owes_def add_rule_def powershell_def)

lemma setup_commands_quiet:
  "c \<in> set (setup_linux_commands i a m rs) \<or> c \<in> set (setup_windows_commands i p k m rs) \<Longrightarrow> \<not> owes R h c u"
  by (auto simp: setup_linux_commands_def setup_windows_commands_def dest: owes_head)

lemma quiet_run:
  assumes "run_commands R cs hist = (e, hist1)" "\<And>c h u. c \<in> set cs \<Longrightarrow> \<not> owes R h c u"
  shows "guard_step R g hist g hist1"
proof -
  obtain ds where "hist1 = hist @ ds" "set ds \<subseteq> set cs" using run_commands_quiet [OF assms(1)] by blast
  then show ?thesis using assms(2) by (simp, intro guard_step_quiet) blast
qed

lemma setup_interface_step:
  assumes "setup_interface L R i a m rs hist = (e, hist1)"
  shows "guard_step R g hist g hist1"
proof (cases "ol_os L")
  case Linux
  with assms have "run_commands R (setup_linux_commands i a m rs) hist = (e, hist1)" by (simp add: setup_interface_def)
  then show ?thesis by (rule quiet_run) (use setup_commands_quiet in blast)
next
  case OtherOS
  with assms show ?thesis by (simp add: setup_interface_def)
next
  case Windows
  consider "hist1 = hist" | p k where "run_commands R (setup_windows_commands i p k m rs) hist = (e, hist1)"
    using assms Windows by (auto simp: setup_interface_def split: option.splits)
  then show ?thesis
  proof cases
    case 2
    then show ?thesis by (rule quiet_run) (use setup_commands_quiet in blast)
  qed simp
qed

lemma protect_relay_guard:
  assumes "protect_relay L R server paths hist = (Inr g, hist1)"
  shows "guard_step R new_guard hist g hist1"
  using assms by (auto simp: protect_relay_def split: option.splits prod.splits if_splits dest!: protect_paths_step)

lemma guard_relay_step:
  assumes "guard_relay E profile hist = (Inr guard, hist1)"
  shows "guard_step (te_runner E) new_guard hist (case guard of None \<Rightarrow> new_guard | Some g \<Rightarrow> g) hist1"
  using assms by (auto simp: guard_relay_def split: if_splits prod.splits sum.splits dest!: protect_relay_guard)

lemma configure_device_step: "configure_device E profile name hist = (e, hist1) \<Longrightarrow> guard_step (te_runner E) g hist g hist1"
  by (auto simp: configure_device_def split: if_splits dest: setup_interface_step)

text \<open>Closing the guard of a start, if it has one, leaves no debt of its commands.\<close>

definition guard_pending :: "runner \<Rightarrow> route_guard option \<Rightarrow> argv list \<Rightarrow> argv list \<Rightarrow> bool" where
  "guard_pending R guard hist h = guard_step R new_guard hist (case guard of None \<Rightarrow> new_guard | Some g \<Rightarrow> g) h"

lemma close_option_undone: "guard_pending R guard hist h \<Longrightarrow> undone R hist (close_guard_option guard h)"
proof (cases guard)
  case None
  assume "guard_pending R guard hist h"
  with None show ?thesis by (auto simp: guard_pending_def undone_def guard_step_def close_guard_option_def new_guard_def)
next
  case (Some g)
  assume "guard_pending R guard hist h"
  with Some close_settles [of R hist g h] show ?thesis by (simp add: guard_pending_def undone_def close_guard_option_def)
qed

interpretation routes: route_service "guard_relay E" "\<lambda>(profile, name). configure_device E profile name" close_guard_option
  "undone (te_runner E)" "guard_pending (te_runner E)" for E
proof
  fix profile hist e h1
  assume "guard_relay E profile hist = (Inl e, h1)"
  then have "cc_traffic_mode profile = ''all''"
    "protect_relay (te_os E) (te_runner E) (cc_server profile) (physical_paths (cc_paths profile)) hist = (Inl e, h1)"
    by (auto simp: guard_relay_def split: if_splits prod.splits sum.splits)
  with protect_relay_settles [of "te_os E" "te_runner E" "cc_server profile" "physical_paths (cc_paths profile)" hist]
  show "undone (te_runner E) hist h1" by (simp add: released_def undone_def)
next
  show "guard_pending (te_runner E) g hist h1" if "guard_relay E profile hist = (Inr g, h1)" for profile hist g h1
    using guard_relay_step [OF that] by (simp add: guard_pending_def)
next
  show "guard_pending (te_runner E) g hist h2"
    if "guard_pending (te_runner E) g hist h1" "(case q of (profile, name) \<Rightarrow> configure_device E profile name) h1 = (e, h2)"
    for g hist h1 q e h2
  proof (cases q)
    case (Pair profile name)
    with that(2) have "guard_step (te_runner E) (case g of None \<Rightarrow> new_guard | Some g \<Rightarrow> g) h1 (case g of None \<Rightarrow> new_guard | Some g \<Rightarrow> g) h2"
      by (simp add: configure_device_step)
    with that(1) show ?thesis unfolding guard_pending_def by (rule guard_step_trans)
  qed
qed (rule close_option_undone)

lemmas configured_undone = routes.released_configured [where q = "(profile, name)" for profile name, unfolded prod.case]

text \<open>What was done with the device when a start ended in this way.\<close>

definition device_calls_of :: "app_error option + 'a \<Rightarrow> device_call list" where
  "device_calls_of r =
     (case r of
        Inl (Some (SetupError e)) \<Rightarrow> [OpenDevice, CloseDevice]
      | Inl (Some (EngineError e)) \<Rightarrow> [OpenDevice, CloseDevice]
      | Inl _ \<Rightarrow> []
      | Inr x \<Rightarrow> [OpenDevice])"

lemma bring_up_undone:
  assumes "bring_up E profile hist = (r, calls, hist1)"
  shows "calls = device_calls_of (map_sum Some id r)
    \<and> undone (te_runner E) hist (case r of Inl e \<Rightarrow> hist1 | Inr (guard, d, c) \<Rightarrow> close_guard_option guard hist1)"
proof -
  obtain p h where first: "guard_relay E profile hist = (p, h)" by fastforce
  show ?thesis
  proof (cases p)
    case (Inl e)
    with assms first routes.protect_fails [of E profile hist e h] show ?thesis by (auto simp: bring_up_def device_calls_of_def)
  next
    case (Inr guard)
    note protected = first [unfolded Inr]
    show ?thesis
    proof (cases "open_native (te_device E) (nat (cc_mtu profile))")
      case None
      with assms protected routes.released_early [OF protected] show ?thesis by (auto simp: bring_up_def device_calls_of_def)
    next
      case (Some device)
      obtain s h2 where conf: "configure_device E profile (nt_name device) h = (s, h2)" by fastforce
      from assms protected Some conf configured_undone [OF protected conf] show ?thesis
        by (cases s; cases "new_client (te_lib E) profile True (te_registry E) (te_engine_nonce E)")
          (auto simp: bring_up_def device_calls_of_def)
    qed
  qed
qed

lemma calibrate_error: "calibrate E profile paths cached = Inl e \<Longrightarrow> device_calls_of (Inl (Some e)) = []"
  by (auto simp: calibrate_def device_calls_of_def split: if_splits sum.splits option.splits)

lemma start_cases:
  assumes "start E profile n m hist = (r, m1, calls, hist1)"
  obtains (early) e where "r = Inl e" "calls = []" "hist1 = hist" "device_calls_of r = []"
    | (brought) profile1 e where "bring_up E profile1 hist = (e, calls, hist1)" "r = map_sum Some id e"
proof (cases "isl r \<and> calls = [] \<and> hist1 = hist \<and> device_calls_of r = []")
  case True
  then show ?thesis by (cases r) (auto intro: early)
next
  case False
  with assms have "\<exists>profile1 e. bring_up E profile1 hist = (e, calls, hist1) \<and> r = map_sum Some id e"
    by (auto simp: start_def Let_def device_calls_of_def dest!: calibrate_error split: option.splits if_splits sum.splits prod.splits)
      (metis map_sum.simps id_apply)+
  then show ?thesis using brought by blast
qed

lemma start_manager:
  assumes "start E profile n m hist = (r, m1, calls, hist1)"
  shows "(r = Inl None \<longrightarrow> m1 = m) \<and> (\<forall>e. r = Inl (Some e) \<longrightarrow> manager_state ready m1 = (AppError, Some e) \<and> mn_cancel m1 = mn_cancel m)
    \<and> (\<not> isl r \<longrightarrow> mn_cancel m1 = Some n)"
  using assms
  by (auto simp: start_def start_begin_def start_failed_def start_calibrated_def start_activated_def manager_state_def Let_def
      split: option.splits if_splits sum.splits prod.splits)


section \<open>Interleaved calls\<close>

text \<open>The runs in which no start is called while another one calibrates.\<close>

inductive serial_reachable :: "app_world \<Rightarrow> bool" where
  init: "serial_reachable new_world"
| step: "serial_reachable w \<Longrightarrow> ev \<noteq> CallStart \<or> mn_state (aw_manager w) \<noteq> AppCalibrating
    \<Longrightarrow> serial_reachable (manager_step w ev)"

definition idle :: "app_world \<Rightarrow> bool" where
  "idle w \<longleftrightarrow> aw_starts w = [] \<and> aw_clients w = [] \<and> mn_cancel (aw_manager w) = None
     \<and> mn_state (aw_manager w) \<in> {AppStopped, AppError}"

definition preparing :: "app_world \<Rightarrow> bool" where
  "preparing w \<longleftrightarrow> aw_clients w = [] \<and> mn_cancel (aw_manager w) = None
     \<and> (aw_starts w = [Calibrating] \<and> mn_state (aw_manager w) = AppCalibrating
        \<or> aw_starts w = [Opening] \<and> mn_state (aw_manager w) = AppStarting)"

definition active :: "nat \<Rightarrow> bool \<Rightarrow> app_world \<Rightarrow> bool" where
  "active n cancelled w \<longleftrightarrow> aw_starts w = [] \<and> aw_clients w = [(n, cancelled)] \<and> mn_cancel (aw_manager w) = Some n
     \<and> mn_state (aw_manager w) = (if cancelled then AppStopping else AppStarting)"

lemmas manager_ops = start_begin_def start_calibrated_def start_failed_def start_activated_def run_ended_def stop_begin_def call_stop_def

lemma step_idle:
  "idle w \<Longrightarrow> idle (manager_step w ev) \<or> preparing (manager_step w ev)"
  by (cases ev) (auto simp: idle_def preparing_def manager_ops)

lemma step_preparing:
  "preparing w \<Longrightarrow> ev \<noteq> CallStart \<or> mn_state (aw_manager w) \<noteq> AppCalibrating
   \<Longrightarrow> idle (manager_step w ev) \<or> preparing (manager_step w ev) \<or> (\<exists>n. active n False (manager_step w ev))"
  by (cases ev) (auto simp: idle_def preparing_def active_def manager_ops drop_nth_def)

lemma step_active:
  "active n b w \<Longrightarrow> idle (manager_step w ev) \<or> (\<exists>b'. active n b' (manager_step w ev))"
  by (cases ev) (auto simp: idle_def active_def manager_ops split: if_splits)

lemma serial_phases: "serial_reachable w \<Longrightarrow> idle w \<or> preparing w \<or> (\<exists>n b. active n b w)"
proof (induction rule: serial_reachable.induct)
  case init
  then show ?case by (simp add: idle_def new_world_def new_manager_def)
next
  case (step w ev)
  then show ?case using step_idle [of w ev] step_preparing [of w ev] step_active [of _ _ w ev] by blast
qed

text \<open>C26: When no start is called while another calibrates, at most one client runs, the state is starting or stopping
  as long as it does, so that another start is refused, and \<open>Stop\<close> always reaches it; when none runs and none is
  being started, \<open>Stop\<close> is refused and a start is accepted.\<close>

theorem at_most_one_client:
  assumes "serial_reachable w"
  shows "length (aw_clients w) \<le> 1
    \<and> (\<forall>n b. (n, b) \<in> set (aw_clients w) \<longrightarrow>
         start_begin (aw_manager w) = None \<and> (\<exists>m. stop_begin (aw_manager w) = Some (n, m))
         \<and> (n, True) \<in> set (aw_clients (manager_step w CallStop)))
    \<and> (aw_clients w = [] \<and> aw_starts w = [] \<longrightarrow> stop_begin (aw_manager w) = None \<and> start_begin (aw_manager w) \<noteq> None)"
  using serial_phases [OF assms]
  by (auto simp: idle_def preparing_def active_def manager_ops split: if_splits)

theorem at_most_one_client_witness:
  "\<exists>m. stop_begin (aw_manager (foldl manager_step new_world [CallStart, Calibrated 0 [], ClientStarts 0])) = Some (0, m)"
proof -
  have "serial_reachable (manager_step (manager_step (manager_step new_world CallStart) (Calibrated 0 [])) (ClientStarts 0))"
    by (intro serial_reachable.step serial_reachable.init) (simp_all add: new_world_def new_manager_def manager_ops)
  from at_most_one_client [OF this] show ?thesis
    by (simp add: new_world_def new_manager_def manager_ops drop_nth_def)
qed

section \<open>A client that is lost\<close>

text \<open>All runs, with starts called at any time.\<close>

inductive any_reachable :: "app_world \<Rightarrow> bool" where
  init: "any_reachable new_world"
| step: "any_reachable w \<Longrightarrow> any_reachable (manager_step w ev)"

text \<open>Clients are named once, by numbers below the next one.\<close>

definition named_once :: "app_world \<Rightarrow> bool" where
  "named_once w \<longleftrightarrow> distinct (map fst (aw_clients w)) \<and> (\<forall>c \<in> set (aw_clients w). fst c < aw_next w)"

lemma cancel_names [simp]: "fst \<circ> (\<lambda>c. if fst c = n then (n, b) else c) = fst"
  by (auto simp: fun_eq_iff)

lemma named_once_step: "named_once w \<Longrightarrow> named_once (manager_step w ev)"
  by (cases ev)
    (auto simp: named_once_def call_stop_def distinct_map_filter less_Suc_eq split: option.splits if_splits)

lemma any_named_once: "any_reachable w \<Longrightarrow> named_once w"
proof (induction rule: any_reachable.induct)
  case init
  show ?case by (simp add: named_once_def new_world_def)
qed (rule named_once_step)

text \<open>Client \<open>n\<close> has not been told to end, and the manager does not know it.\<close>

definition lost :: "nat \<Rightarrow> app_world \<Rightarrow> bool" where
  "lost n w \<longleftrightarrow> n < aw_next w \<and> mn_cancel (aw_manager w) \<noteq> Some n \<and> (n, True) \<notin> set (aw_clients w)"

lemma lost_step:
  "lost n w \<Longrightarrow> lost n (manager_step w ev)
     \<and> ((n, False) \<in> set (aw_clients (manager_step w ev)) \<longleftrightarrow> (n, False) \<in> set (aw_clients w) \<and> (\<forall>f. ev \<noteq> ClientEnds n f))"
  by (cases ev) (force simp: lost_def manager_ops map_get_None_iff split: option.splits if_splits)+

lemma lost_run:
  "lost n w \<Longrightarrow> lost n (foldl manager_step w evs)
     \<and> ((n, False) \<in> set (aw_clients (foldl manager_step w evs))
        \<longleftrightarrow> (n, False) \<in> set (aw_clients w) \<and> (\<forall>f. ClientEnds n f \<notin> set evs))"
  by (induction evs arbitrary: w) (auto simp: lost_step)

lemma second_client:
  assumes "any_reachable w" "(n, False) \<in> set (aw_clients w)" "i < length (aw_starts w)" "aw_starts w ! i = Opening"
  shows "lost n (manager_step w (ClientStarts i)) \<and> (n, False) \<in> set (aw_clients (manager_step w (ClientStarts i)))"
proof -
  have "named_once w" using assms(1) by (rule any_named_once)
  then have "n < aw_next w" "(n, True) \<notin> set (aw_clients w)"
    using assms(2) by (force simp: named_once_def distinct_map inj_on_def)+
  with assms(2-4) show ?thesis by (auto simp: lost_def start_activated_def)
qed

text \<open>C27: A start is accepted while another calibrates, and when a client starts beside one that runs, the manager
  loses the one that runs, whatever is called and happens later: no \<open>Stop\<close> reaches it, it is never told to end, and it
  runs until it ends by itself.\<close>

theorem concurrent_starts_lose_a_client:
  assumes "any_reachable w" "(n, False) \<in> set (aw_clients w)" "i < length (aw_starts w)" "aw_starts w ! i = Opening"
    and later: "w1 = foldl manager_step (manager_step w (ClientStarts i)) evs"
  shows "(\<forall>m. mn_state m = AppCalibrating \<longrightarrow> start_begin m \<noteq> None)
    \<and> (\<forall>m. stop_begin (aw_manager w1) \<noteq> Some (n, m)) \<and> (n, True) \<notin> set (aw_clients w1)
    \<and> ((n, False) \<in> set (aw_clients w1) \<longleftrightarrow> (\<forall>failed. ClientEnds n failed \<notin> set evs))"
proof -
  note lost = second_client [OF assms(1-4)]
  have "lost n w1 \<and> ((n, False) \<in> set (aw_clients w1) \<longleftrightarrow> (\<forall>failed. ClientEnds n failed \<notin> set evs))"
    unfolding later using lost_run lost by blast
  then show ?thesis by (auto simp: lost_def stop_begin_def start_begin_def split: option.splits)
qed

text \<open>Two starts that were called while the first calibrated. When the client of the second was stopped and has ended, the
  manager says that it is stopped and refuses to stop, while the client of the first runs.\<close>

definition two_starts :: app_world where
  "two_starts = foldl manager_step new_world [CallStart, CallStart, Calibrated 0 [], Calibrated 1 [], ClientStarts 0]"

lemma any_reachable_run: "any_reachable w \<Longrightarrow> any_reachable (foldl manager_step w evs)"
  by (induction evs arbitrary: w) (auto intro: any_reachable.step)

lemma two_starts_run:
  "aw_clients two_starts = [(0, False)] \<and> aw_starts two_starts = [Opening]"
  "let m = aw_manager (foldl manager_step (manager_step two_starts (ClientStarts 0)) [CallStop, ClientEnds 1 None])
   in mn_state m = AppStopped \<and> stop_begin m = None"
  by (simp_all add: two_starts_def new_world_def new_manager_def manager_ops drop_nth_def)

theorem concurrent_starts_lose_a_client_witness:
  "let w = foldl manager_step (manager_step two_starts (ClientStarts 0)) [CallStop, ClientEnds 1 None]
   in (0, False) \<in> set (aw_clients w) \<and> mn_state (aw_manager w) = AppStopped \<and> stop_begin (aw_manager w) = None"
proof -
  let ?evs = "[CallStop, ClientEnds 1 None]"
  have "any_reachable two_starts" unfolding two_starts_def by (intro any_reachable_run any_reachable.init)
  moreover have "(0, False) \<in> set (aw_clients two_starts)" "0 < length (aw_starts two_starts)" "aw_starts two_starts ! 0 = Opening"
    using two_starts_run(1) by simp_all
  ultimately have "(0, False) \<in> set (aw_clients (foldl manager_step (manager_step two_starts (ClientStarts 0)) ?evs))
      \<longleftrightarrow> (\<forall>failed. ClientEnds 0 failed \<notin> set ?evs)"
    using concurrent_starts_lose_a_client [of two_starts 0 0, OF _ _ _ _ refl, of ?evs] by blast
  moreover have "\<forall>failed. ClientEnds 0 failed \<notin> set ?evs" by simp
  ultimately show ?thesis using two_starts_run(2) unfolding Let_def by blast
qed

section \<open>Examples\<close>

definition demo_measurement :: "string \<Rightarrow> u64 \<Rightarrow> path_diagnostic" where
  "demo_measurement n r = \<lparr> pd_name = n, pd_rtt = 0, pd_sent = r, pd_received = r, pd_healthy = True \<rparr>"

definition demo_discovered :: "string \<Rightarrow> path_config" where
  "demo_discovered n = \<lparr> pt_name = n, pt_local_address = [], pt_interface = n, pt_weight = 1, pt_enabled = None \<rparr>"

lemma demo_calibration:
  "calibrate_paths [demo_measurement ''a'' 3000, demo_measurement ''b'' 1000] [demo_discovered ''a'', demo_discovered ''b''] =
     Some [(demo_discovered ''a'')\<lparr>pt_weight := calibrated_weight 3000 1000\<rparr>, (demo_discovered ''b'')\<lparr>pt_weight := calibrated_weight 1000 1000\<rparr>]"
  by (simp add: calibrate_paths_def by_name_def minimum_received_def measured_def demo_measurement_def demo_discovered_def)

theorem calibration_weights_witness:
  "1 \<le> pt_weight ((demo_discovered ''a'')\<lparr>pt_weight := calibrated_weight 3000 1000\<rparr>)
   \<and> pt_weight ((demo_discovered ''a'')\<lparr>pt_weight := calibrated_weight 3000 1000\<rparr>) \<le> 100"
proof -
  have "(demo_discovered ''a'')\<lparr>pt_weight := calibrated_weight 3000 1000\<rparr>
      \<in> set [(demo_discovered ''a'')\<lparr>pt_weight := calibrated_weight 3000 1000\<rparr>, (demo_discovered ''b'')\<lparr>pt_weight := calibrated_weight 1000 1000\<rparr>]"
    by (rule list.set_intros)
  from calibration_weights [OF demo_calibration this] show ?thesis by (elim exE conjE) (rule conjI)
qed

text \<open>A start whose device cannot be created; the paths are those of the last calibration.\<close>

definition demo_start_profile :: client_config where
  "demo_start_profile = \<lparr> cc_server = ''relay:51820'', cc_client_id = [], cc_psk = [], cc_psk_env = [], cc_tunnel_name = ''lf0'',
     cc_tunnel_address = ''10.0.0.2/24'', cc_mtu = 1280,
     cc_paths = [\<lparr> pt_name = ''eth'', pt_local_address = ''192.168.1.7'', pt_interface = ''eth0'', pt_weight = 1, pt_enabled = None \<rparr>],
     cc_auto_discover = False, cc_routes = [], cc_traffic_mode = ''all'', cc_configure_interface = True, cc_health_interval = 0,
     cc_stats_interval = 0, cc_handshake_timeout = 0, cc_reorder_delay = 0, cc_reorder_window = 512,
     cc_logging = \<lparr> lc_level = ''info'', lc_format = ''text'' \<rparr>, cc_metrics_listen = [] \<rparr>"

definition demo_start_env :: start_env where
  "demo_start_env = \<lparr> te_lib = \<lparr> nl_getenv = (\<lambda>_. []), nl_resolve_udp = (\<lambda>_. True), nl_parse_ip = (\<lambda>_. None), nl_split_host = (\<lambda>_. None) \<rparr>,
     te_interfaces = None, te_defaults = [], te_calibration_nonce = None, te_diagnose = (\<lambda>c. None), te_os = two_uplinks,
     te_runner = obedient, te_device = Some None, te_engine_nonce = None, te_registry = new_registry ''client'' zero_time \<rparr>"

definition demo_failed_start :: "(app_error option + route_guard option \<times> native \<times> client) \<times> manager \<times> device_call list \<times> argv list" where
  "demo_failed_start = start demo_start_env demo_start_profile 0 (new_manager\<lparr>mn_cached := cc_paths demo_start_profile\<rparr>) []"

lemma demo_failed_run:
  "demo_failed_start = (Inl (Some TunnelError), fst (snd demo_failed_start), [],
     [] @ path_commands (table_number 2) ''10.0.0.1'' eth @ [flush_table (table_number 2), delete_rule (table_number 2)])"
  by (simp add: demo_failed_start_def start_def demo_start_profile_def demo_start_env_def new_manager_def start_begin_def discover_paths_def
      enabled_paths_def path_enabled_def calibrate_def same_path_set_def bring_up_def guard_relay_def physical_paths_def demo_protect
      protect_path_def Let_def route_text new_guard_def close_guard_def close_guard_option_def open_native_def path_commands_def) (simp add: eth_def)

text \<open>A start without a guard, whose interface cannot be configured.\<close>

definition demo_split_start :: "(app_error option + route_guard option \<times> native \<times> client) \<times> manager \<times> device_call list \<times> argv list" where
  "demo_split_start = start (demo_start_env\<lparr>te_device := Some (Some ''lf0''), te_runner := (\<lambda>h c. (False, []))\<rparr>)
     (demo_start_profile\<lparr>cc_traffic_mode := ''split''\<rparr>) 0 (new_manager\<lparr>mn_cached := cc_paths demo_start_profile\<rparr>) []"

lemma demo_split_run: "\<exists>e. fst demo_split_start = Inl (Some (SetupError e))"
  by (simp add: demo_split_start_def start_def demo_start_profile_def demo_start_env_def new_manager_def start_begin_def discover_paths_def
      enabled_paths_def path_enabled_def calibrate_def same_path_set_def bring_up_def guard_relay_def Let_def open_native_def
      configure_device_def setup_interface_def setup_linux_commands_def two_uplinks_def)


end
