(* ===== verification/Enrollment.thy ===== *)
theory Enrollment
  imports Service
begin

text \<open>
  \<open>internal/controlplane/client.go\<close>: fetching a profile from the control plane and writing it to its file. The
  HTTP exchange is a function of the endpoint and the request; a redirect is an answer like any other, since the
  client never follows one. Encoding the profile is a function of the environment.
\<close>

section \<open>The endpoint\<close>

record url =
  ur_scheme :: string
  ur_user :: bool
  ur_host :: string
  ur_path :: string
  ur_query :: string
  ur_fragment :: string

text \<open>What \<open>net/url\<close> makes of a text, and the host name of a URL (\<open>Hostname\<close>: without port and brackets).\<close>

record url_lib =
  ul_parse :: "string \<Rightarrow> url option"
  ul_hostname :: "url \<Rightarrow> string"

datatype fetch_error =
    ErrURL | ErrURLParts | ErrNotHTTPS | ErrURLHost | ErrNoCode | ErrExchange
  | ErrRejected string | ErrDecode | ErrInvalidProfile config_error

text \<open>\<open>strings.EqualFold(s, "localhost")\<close>: besides the ASCII letters, the long s folds to an s.\<close>

fun fold_localhost :: "string \<Rightarrow> string" where
  "fold_localhost [] = []"
| "fold_localhost (c # s) =
     (if c = CHR 0xC5 \<and> take 1 s = [CHR 0xBF] then CHR ''s'' # fold_localhost (drop 1 s)
      else lower_char c # fold_localhost s)"

definition is_loopback_host :: "net_lib \<Rightarrow> string \<Rightarrow> bool" where
  "is_loopback_host L host \<longleftrightarrow> fold_localhost host = ''localhost'' \<or> nl_parse_ip L host = Some True"

definition trim_right_slashes :: "string \<Rightarrow> string" where
  "trim_right_slashes s = rev (dropWhile (\<lambda>c. c = CHR ''/'') (rev s))"

definition enrollment_endpoint :: "net_lib \<Rightarrow> url_lib \<Rightarrow> string \<Rightarrow> fetch_error + url" where
  "enrollment_endpoint L U baseURL =
     (case ul_parse U (trim_space baseURL) of
        None \<Rightarrow> Inl ErrURL
      | Some u \<Rightarrow>
          if ur_user u \<or> ur_query u \<noteq> [] \<or> ur_fragment u \<noteq> [] then Inl ErrURLParts
          else if ur_scheme u \<noteq> ''https'' \<and> (ur_scheme u \<noteq> ''http'' \<or> \<not> is_loopback_host L (ul_hostname U u))
            then Inl ErrNotHTTPS
          else if ul_hostname U u = [] then Inl ErrURLHost
          else Inr (u\<lparr>ur_path := trim_right_slashes (ur_path u) @ ''/v1/enroll''\<rparr>))"

section \<open>Fetching a profile\<close>

text \<open>\<open>ha_error\<close>: the error text of a JSON body, empty if there is none; \<open>ha_profile\<close>: the profile of a body
  that decodes without unknown fields.\<close>

record http_answer =
  ha_status :: nat
  ha_status_text :: string
  ha_error :: string
  ha_profile :: "client_config option"

type_synonym exchange = "url \<Rightarrow> enrollment_request \<Rightarrow> http_answer option"

definition profile_of_answer :: "net_lib \<Rightarrow> http_answer \<Rightarrow> fetch_error + client_config" where
  "profile_of_answer L a =
     (if ha_status a \<noteq> 201 then Inl (ErrRejected (if ha_error a = [] then ha_status_text a else ha_error a))
      else case ha_profile a of
        None \<Rightarrow> Inl ErrDecode
      | Some p \<Rightarrow> (case validate_client L p of Some e \<Rightarrow> Inl (ErrInvalidProfile e) | None \<Rightarrow> Inr p))"

text \<open>The second component is what was sent, and where.\<close>

definition fetch_profile ::
  "net_lib \<Rightarrow> url_lib \<Rightarrow> exchange \<Rightarrow> string \<Rightarrow> string \<Rightarrow> string \<Rightarrow> string
   \<Rightarrow> (fetch_error + client_config) \<times> (url \<times> enrollment_request) list" where
  "fetch_profile L U X baseURL activationCode deviceName platform =
     (case enrollment_endpoint L U baseURL of
        Inl e \<Rightarrow> (Inl e, [])
      | Inr endpoint \<Rightarrow>
          if trim_space activationCode = [] then (Inl ErrNoCode, [])
          else
            let request = \<lparr> er_code = activationCode, er_device_name = deviceName, er_platform = platform \<rparr> in
            (case X endpoint request of
               None \<Rightarrow> Inl ErrExchange
             | Some answer \<Rightarrow> profile_of_answer L answer, [(endpoint, request)]))"

section \<open>Writing it\<close>

record stored_file =
  fl_content :: string
  fl_mode :: nat

type_synonym disk = "string \<Rightarrow> stored_file option"

datatype disk_call =
    StatPath | MakeDirectories | CreateCheck | CloseCheck | RemoveCheck | CreateTemp | ChmodTemp | EncodeProfile
  | SyncTemp | CloseTemp | RenameTemp | LinkTemp | RemoveTemp | RemovePath | ChmodPath | RemoveAtEnd

text \<open>Which calls fail; the names that \<open>CreateTemp\<close> finds; how much of the text is written when encoding fails;
  the file that another process puts at the path between the check and the commit, if any.\<close>

record disk_env =
  de_fails :: "disk_call \<Rightarrow> bool"
  de_check_name :: string
  de_temp_name :: string
  de_json :: "client_config \<Rightarrow> string"
  de_written :: nat
  de_intruder :: "stored_file option"

datatype write_error = ErrNoPath | ErrExists | ErrCall disk_call

definition private_mode :: nat where "private_mode = 384"

definition empty_file :: stored_file where
  "empty_file = \<lparr> fl_content = [], fl_mode = private_mode \<rparr>"

definition prepare_profile_path :: "disk_env \<Rightarrow> string \<Rightarrow> bool \<Rightarrow> disk \<Rightarrow> write_error option \<times> disk" where
  "prepare_profile_path E path replace d =
     (if trim_space path = [] then (Some ErrNoPath, d)
      else if \<not> replace \<and> de_fails E StatPath then (Some (ErrCall StatPath), d)
      else if \<not> replace \<and> d path \<noteq> None then (Some ErrExists, d)
      else if de_fails E MakeDirectories then (Some (ErrCall MakeDirectories), d)
      else if de_fails E CreateCheck then (Some (ErrCall CreateCheck), d)
      else
        let d1 = d(de_check_name E \<mapsto> empty_file);
            d2 = (if de_fails E RemoveCheck then d1 else d1(de_check_name E := None)) in
        (if de_fails E CloseCheck then Some (ErrCall CloseCheck)
         else if de_fails E RemoveCheck then Some (ErrCall RemoveCheck) else None, d2))"

definition remove_at_end :: "disk_env \<Rightarrow> disk \<Rightarrow> disk" where
  "remove_at_end E d = (if de_fails E RemoveAtEnd then d else d(de_temp_name E := None))"

text \<open>\<open>write_temp\<close> leaves the complete text in the temporary file or stops with the call that failed.\<close>

definition write_temp :: "disk_env \<Rightarrow> client_config \<Rightarrow> disk \<Rightarrow> write_error option \<times> disk" where
  "write_temp E profile d =
     (if de_fails E ChmodTemp then (Some (ErrCall ChmodTemp), d)
      else if de_fails E EncodeProfile then
        (Some (ErrCall EncodeProfile),
         d(de_temp_name E \<mapsto> \<lparr> fl_content = take (de_written E) (de_json E profile), fl_mode = private_mode \<rparr>))
      else
        let d1 = d(de_temp_name E \<mapsto> \<lparr> fl_content = de_json E profile, fl_mode = private_mode \<rparr>) in
        (if de_fails E SyncTemp then Some (ErrCall SyncTemp)
         else if de_fails E CloseTemp then Some (ErrCall CloseTemp) else None, d1))"

definition commit_profile :: "disk_env \<Rightarrow> string \<Rightarrow> bool \<Rightarrow> disk \<Rightarrow> write_error option \<times> disk" where
  "commit_profile E path replace d =
     (if replace then
        if de_fails E RenameTemp then (Some (ErrCall RenameTemp), d)
        else (None, d(path := d (de_temp_name E), de_temp_name E := None))
      else if de_fails E LinkTemp then (Some (ErrCall LinkTemp), d)
      else if d path \<noteq> None then (Some ErrExists, d)
      else
        let d1 = d(path := d (de_temp_name E)) in
        if de_fails E RemoveTemp
        then (Some (ErrCall RemoveTemp), if de_fails E RemovePath then d1 else d1(path := None))
        else (None, d1(de_temp_name E := None)))"

definition write_profile ::
  "disk_env \<Rightarrow> string \<Rightarrow> client_config \<Rightarrow> bool \<Rightarrow> disk \<Rightarrow> write_error option \<times> disk" where
  "write_profile E path profile replace d =
     (case prepare_profile_path E path replace d of
        (Some e, d1) \<Rightarrow> (Some e, d1)
      | (None, d1) \<Rightarrow>
          if de_fails E CreateTemp then (Some (ErrCall CreateTemp), d1)
          else
            (case write_temp E profile (d1(de_temp_name E \<mapsto> empty_file)) of
               (Some e, d2) \<Rightarrow> (Some e, remove_at_end E d2)
             | (None, d2) \<Rightarrow>
                 (case commit_profile E path replace (case de_intruder E of None \<Rightarrow> d2 | Some f \<Rightarrow> d2(path \<mapsto> f)) of
                    (Some e, d3) \<Rightarrow> (Some e, remove_at_end E d3)
                  | (None, d3) \<Rightarrow>
                      if de_fails E ChmodPath then (Some (ErrCall ChmodPath), d3)
                      else (None, d3(path := map_option (\<lambda>f. f\<lparr>fl_mode := private_mode\<rparr>) (d3 path))))))"

end
