(* ===== verification/Enrollment_Facts.thy ===== *)
theory Enrollment_Facts
  imports Enrollment Service_Facts
begin

text \<open>
  The client's side of the enrollment: the activation code only goes to a protected endpoint, the profile that
  comes back is the one the relay has admitted, and its file is written whole or not at all.
\<close>

section \<open>Where the code goes\<close>

lemma enrollment_endpoint_safe:
  assumes "enrollment_endpoint L U base = Inr u"
  shows "(ur_scheme u = ''https'' \<or> ur_scheme u = ''http'' \<and> (\<exists>v. ul_parse U (trim_space base) = Some v
      \<and> ur_host v = ur_host u \<and> is_loopback_host L (ul_hostname U v)))
    \<and> \<not> ur_user u \<and> ur_query u = [] \<and> ur_fragment u = [] \<and> (\<exists>prefix. ur_path u = prefix @ ''/v1/enroll'')"
  using assms by (auto simp: enrollment_endpoint_def split: option.splits if_splits)

text \<open>C: An activation code is sent at most once and only to the enrollment endpoint of the given URL: over HTTPS, or
  over HTTP to a loopback host, without credentials, query or fragment; and what is sent is the code as it was given.\<close>

theorem code_goes_to_endpoint:
  assumes "(u, request) \<in> set (snd (fetch_profile L U X base code name platform))"
  shows "enrollment_endpoint L U base = Inr u \<and> er_code request = code \<and> trim_space code \<noteq> []
    \<and> (ur_scheme u = ''https'' \<or> ur_scheme u = ''http'' \<and> (\<exists>v. ul_parse U (trim_space base) = Some v
         \<and> ur_host v = ur_host u \<and> is_loopback_host L (ul_hostname U v)))
    \<and> \<not> ur_user u \<and> ur_query u = [] \<and> ur_fragment u = []
    \<and> length (snd (fetch_profile L U X base code name platform)) = 1"
  using assms enrollment_endpoint_safe [of L U base u]
  by (auto simp: fetch_profile_def Let_def split: sum.splits if_splits)

section \<open>The profile of the relay\<close>

text \<open>The answer of the control plane as the client reads it.\<close>

definition answer_of :: "http_reply \<Rightarrow> http_answer" where
  "answer_of rp =
     \<lparr> ha_status = rp_status rp, ha_status_text = [],
       ha_error = (case rp_body rp of ErrorText t \<Rightarrow> t | _ \<Rightarrow> []),
       ha_profile = (case rp_body rp of ProfileBody p \<Rightarrow> Some p | _ \<Rightarrow> None) \<rparr>"

text \<open>C28: From the activation code to the admitted device: when the control plane has created the device, the client
  takes the profile in the answer, and the relay admits the client identifier in it with the key and the tunnel
  address in it.\<close>

theorem enrollment_end_to_end:
  assumes C: "gcm_laws C" and re: "app_reachable C L V c a" and mg: "sc_management c = Some mg"
    and rq: "request_ok (static_ids c) (sr_store (ap_service a)) e rq"
    and run: "serve C V (relay_hooks L) e rq (ap_service a) (ap_server a) = (rp, s', r')"
    and created: "rp_status rp = 201" "rp_body rp = ProfileBody p"
    and reach: "nl_resolve_udp L' (mg_public_relay mg)"
    and sent: "enrollment_endpoint L' U base = Inr u" "trim_space code \<noteq> []"
      "X u \<lparr> er_code = code, er_device_name = name, er_platform = platform \<rparr> = Some (answer_of rp)"
  shows "fst (fetch_profile L' U X base code name platform) = Inr p
    \<and> (\<exists>key ip. client_key L' p = Inr key \<and> ip_of_text (cc_tunnel_address p) = Some ip
         \<and> admitted r' (cc_client_id p) = Some (key, Addr4 ip))"
proof -
  have ok: "validate_client L' p = None \<and> Some (cc_server p) = map_option mg_public_relay (sc_management c)
    \<and> (\<exists>key ip. client_key L' p = Inr key \<and> ip_of_text (cc_tunnel_address p) = Some ip
         \<and> admitted r' (cc_client_id p) = Some (key, Addr4 ip))"
    by (rule created_profile_usable [OF C re mg reach rq run created])
  have "profile_of_answer L' (answer_of rp) = Inr p"
    using ok created by (simp add: profile_of_answer_def answer_of_def)
  with sent ok show ?thesis by (simp add: fetch_profile_def)
qed

section \<open>The file of the profile\<close>

text \<open>\<open>CreateTemp\<close> finds names of its own.\<close>

definition fresh_names :: "disk_env \<Rightarrow> string \<Rightarrow> disk \<Rightarrow> bool" where
  "fresh_names E path d \<longleftrightarrow> distinct [path, de_check_name E, de_temp_name E] \<and> d (de_check_name E) = None \<and> d (de_temp_name E) = None"

definition whole :: "disk_env \<Rightarrow> client_config \<Rightarrow> stored_file" where
  "whole E p = \<lparr> fl_content = de_json E p, fl_mode = private_mode \<rparr>"

lemma prepare_path:
  "fresh_names E path d \<Longrightarrow> prepare_profile_path E path replace d = (r, d1) \<Longrightarrow>
     d1 path = d path \<and> d1 (de_temp_name E) = None \<and> (r = None \<longrightarrow> \<not> replace \<longrightarrow> d path = None)"
  by (auto simp: prepare_profile_path_def fresh_names_def Let_def split: if_splits)

lemma write_temp_path:
  "fresh_names E path d \<Longrightarrow> write_temp E p d1 = (r, d2) \<Longrightarrow>
     d2 path = d1 path \<and> (r = None \<longrightarrow> d2 (de_temp_name E) = Some (whole E p))"
  by (auto simp: write_temp_def whole_def fresh_names_def Let_def split: if_splits)

lemma commit_path:
  assumes "fresh_names E path d" "d2 (de_temp_name E) = Some w" "commit_profile E path replace d2 = (r, d3)"
  shows "if r = None then d3 path = Some w \<and> (\<not> replace \<longrightarrow> d2 path = None)
    else d3 path = d2 path \<or> (\<not> replace \<and> d2 path = None \<and> d3 path = Some w \<and> de_fails E RemovePath)"
  using assms by (auto simp: commit_profile_def fresh_names_def Let_def split: if_splits)

lemma remove_at_end_path: "fresh_names E path d \<Longrightarrow> remove_at_end E d2 path = d2 path"
  by (auto simp: remove_at_end_def fresh_names_def)

lemma written_profile:
  assumes fresh: "fresh_names E path d" and run: "write_profile E path p replace d = (r, d')"
  shows "(d' path = d path \<or> d' path = de_intruder E \<or> d' path = Some (whole E p))
    \<and> (r = None \<longrightarrow> d' path = Some (whole E p))
    \<and> (\<not> replace \<and> d path \<noteq> None \<longrightarrow> r \<noteq> None \<and> d' path = d path)
    \<and> (\<not> replace \<and> de_intruder E \<noteq> None \<longrightarrow> r \<noteq> None \<and> (d' path = d path \<or> d' path = de_intruder E))"
proof -
  obtain r1 d1 where pre: "prepare_profile_path E path replace d = (r1, d1)" by fastforce
  note p1 = prepare_path [OF fresh pre]
  obtain r2 d2 where temp: "write_temp E p (d1(de_temp_name E \<mapsto> empty_file)) = (r2, d2)" by fastforce
  have ne: "path \<noteq> de_temp_name E" using fresh by (simp add: fresh_names_def)
  note p2 = write_temp_path [OF fresh temp]
  define dm where "dm = (case de_intruder E of None \<Rightarrow> d2 | Some f \<Rightarrow> d2(path \<mapsto> f))"
  obtain r3 d3 where com: "commit_profile E path replace dm = (r3, d3)" by fastforce
  show ?thesis
  proof (cases "r1 = None \<and> \<not> de_fails E CreateTemp \<and> r2 = None")
    case False
    then have "r \<noteq> None \<and> d' path = d path"
      using run pre temp p1 p2 ne remove_at_end_path [OF fresh] by (auto simp: write_profile_def split: if_splits option.splits)
    then show ?thesis by auto
  next
    case True
    have w: "dm (de_temp_name E) = Some (whole E p)" using True p2 ne by (auto simp: dm_def split: option.splits)
    have m: "dm path = (case de_intruder E of None \<Rightarrow> d path | Some f \<Rightarrow> Some f)"
      using p1 p2 ne by (auto simp: dm_def split: option.splits)
    note p3 = commit_path [OF fresh w com]
    have "(r3 \<noteq> None \<and> r = r3 \<and> d' path = d3 path) \<or> (r3 = None \<and> d' path = d3 path)"
      using run pre temp com True p3 remove_at_end_path [OF fresh]
      by (auto simp: write_profile_def dm_def [symmetric] whole_def split: if_splits option.splits)
    then show ?thesis using p1 p3 m True by (auto split: if_splits option.splits)
  qed
qed

text \<open>C29: The profile is written whole or not at all, whatever call fails: afterwards the path has what it had (or what
  another process put there meanwhile) or the complete profile, readable by its owner only, and after a success
  the latter. Without \<open>replace\<close> a file that was there, or that came while the profile was fetched, is never
  overwritten, and that is an error.\<close>

theorem profile_whole_or_untouched:
  assumes fresh: "fresh_names E path d" and run: "write_profile E path p replace d = (r, d')"
  shows "(d' path = d path \<or> d' path = de_intruder E \<or> d' path = Some (whole E p))
    \<and> (r = None \<longrightarrow> d' path = Some (whole E p))
    \<and> (\<not> replace \<and> d path \<noteq> None \<longrightarrow> r \<noteq> None \<and> d' path = d path)
    \<and> (\<not> replace \<and> de_intruder E \<noteq> None \<longrightarrow> r \<noteq> None \<and> (d' path = d path \<or> d' path = de_intruder E))"
  by (rule written_profile [OF fresh run])

end
