(* ===== verification/Enrollment_Demo.thy ===== *)
theory Enrollment_Demo
  imports Enrollment_Facts Service_Demo
begin

text \<open>
  A device that fetches its profile from the relay of the service's demo and writes it.
\<close>

definition demo_url :: url where
  "demo_url = \<lparr> ur_scheme = ''https'', ur_user = False, ur_host = ''cp'', ur_path = ''/'', ur_query = [], ur_fragment = [] \<rparr>"

definition demo_url_lib :: url_lib where
  "demo_url_lib = \<lparr> ul_parse = (\<lambda>s. Some demo_url), ul_hostname = ur_host \<rparr>"

definition demo_endpoint :: url where
  "demo_endpoint = demo_url\<lparr>ur_path := ''/v1/enroll''\<rparr>"

definition demo_exchange :: exchange where
  "demo_exchange u request = Some (answer_of demo_answer)"

lemma demo_endpoint_ok: "enrollment_endpoint demo_managed_lib demo_url_lib ''https://cp/'' = Inr demo_endpoint"
  by (simp add: enrollment_endpoint_def demo_url_lib_def demo_url_def demo_endpoint_def trim_right_slashes_def)

lemma demo_code_text: "trim_space ''code'' \<noteq> []"
  by code_simp

theorem code_goes_to_endpoint_witness:
  "enrollment_endpoint demo_managed_lib demo_url_lib ''https://cp/'' = Inr demo_endpoint \<and> trim_space ''code'' \<noteq> []"
proof -
  have "(demo_endpoint, \<lparr> er_code = ''code'', er_device_name = ''n'', er_platform = ''linux'' \<rparr>)
      \<in> set (snd (fetch_profile demo_managed_lib demo_url_lib demo_exchange ''https://cp/'' ''code'' ''n'' ''linux''))"
    using demo_code_text by (simp add: fetch_profile_def demo_endpoint_ok Let_def)
  from code_goes_to_endpoint [OF this] show ?thesis by blast
qed

theorem enrollment_end_to_end_witness:
  "fst (fetch_profile demo_managed_lib demo_url_lib demo_exchange ''https://cp/'' ''code'' ''n'' ''linux'') = Inr demo_profile
   \<and> (\<exists>key ip. client_key demo_managed_lib demo_profile = Inr key \<and> ip_of_text (cc_tunnel_address demo_profile) = Some ip
        \<and> admitted (ap_server demo_app2) (cc_client_id demo_profile) = Some (key, Addr4 ip))"
proof (rule enrollment_end_to_end [OF gcm_laws_demo demo_app_reachable _ demo_fresh demo_served _ _ _ demo_endpoint_ok demo_code_text])
  show "sc_management demo_managed_config = Some demo_management" by (simp add: demo_managed_config_def)
  show "nl_resolve_udp demo_managed_lib (mg_public_relay demo_management)" by (simp add: demo_managed_lib_def demo_lib_def)
qed (simp_all add: demo_answer_def demo_exchange_def)

text \<open>The temporary file cannot be removed after the link: the profile is taken back.\<close>

definition demo_disk_env :: disk_env where
  "demo_disk_env = \<lparr> de_fails = (\<lambda>c. c = RemoveTemp), de_check_name = ''.check'', de_temp_name = ''.temp'',
     de_json = (\<lambda>p. ''{}''), de_written = 0, de_intruder = None \<rparr>"

theorem profile_whole_or_untouched_witness:
  "snd (write_profile demo_disk_env ''profile.json'' demo_profile False (\<lambda>_. None)) ''profile.json'' \<in>
     {None, Some (whole demo_disk_env demo_profile)}"
proof -
  obtain r d' where run: "write_profile demo_disk_env ''profile.json'' demo_profile False (\<lambda>_. None) = (r, d')" by fastforce
  have "fresh_names demo_disk_env ''profile.json'' (\<lambda>_. None)" by (simp add: fresh_names_def demo_disk_env_def)
  from profile_whole_or_untouched [OF this run] run show ?thesis by (auto simp: demo_disk_env_def)
qed

end
