(* ===== verification/Cli.thy ===== *)
theory Cli
  imports Manager Enrollment
begin

text \<open>
  \<open>cmd/linkforge/main.go\<close>: the commands of the program, as far as they are more than parsing flags and printing:
  the choice of the command, running the services together, the enrollment, the figures of the doctor, key
  generation, the client without its control panel, and \<open>CurrentPlatform\<close>.
\<close>

section \<open>Commands\<close>

datatype cli_command =
    AppCommand "string list" | ClientCommand "string list" | ServerCommand "string list" | DoctorCommand "string list"
  | EnrollCommand "string list" | InterfacesCommand | KeygenCommand | VersionCommand | HelpCommand
  | NoCommand | UnknownCommand string

definition parse_command :: "string list \<Rightarrow> cli_command" where
  "parse_command args =
     (case args of
        [] \<Rightarrow> NoCommand
      | c # rest \<Rightarrow>
          if c = ''app'' then AppCommand rest else if c = ''client'' then ClientCommand rest
          else if c = ''server'' then ServerCommand rest else if c = ''doctor'' then DoctorCommand rest
          else if c = ''enroll'' then EnrollCommand rest else if c = ''interfaces'' then InterfacesCommand
          else if c = ''keygen'' then KeygenCommand else if c = ''version'' then VersionCommand
          else if c = ''help'' \<or> c = ''-h'' \<or> c = ''--help'' then HelpCommand else UnknownCommand c)"

definition keygen :: "bytes option \<Rightarrow> bytes option \<Rightarrow> proto_error + string \<times> string" where
  "keygen rnd1 rnd2 =
     (case generate_key rnd1 of
        Inl e \<Rightarrow> Inl e
      | Inr key \<Rightarrow> (case generate_client_id rnd2 of Inl e \<Rightarrow> Inl e | Inr i \<Rightarrow> Inr (i, key)))"

definition current_platform :: "string \<Rightarrow> string" where
  "current_platform goos = (if goos \<in> {''windows'', ''linux'', ''darwin''} then goos else ''other'')"

section \<open>Services\<close>

text \<open>\<open>completions\<close>: the results of the services in the order in which they end. Cancelling with \<open>cancel\<close> ends the
  parent context if it is the parent's own cancel function (\<open>own\<close>), as it is for both commands. The second
  component is what is still running when the function returns.\<close>

fun await_services :: "bool \<Rightarrow> bool \<Rightarrow> nat \<Rightarrow> 'e option list \<Rightarrow> 'e option \<times> nat" where
  "await_services own done_before (Suc n) (c # completions) =
     (if c \<noteq> None then (c, n)
      else if done_before \<or> own then (None, n)
      else await_services own done_before n completions)"
| "await_services own done_before n completions = (None, n)"

definition run_services :: "bool \<Rightarrow> bool \<Rightarrow> nat \<Rightarrow> string \<Rightarrow> 'e option list \<Rightarrow> 'e option \<times> nat" where
  "run_services own done_before applications metricsListen completions =
     await_services own done_before (applications + (if metricsListen \<noteq> [] then 1 else 0)) completions"

section \<open>Enrolling\<close>

datatype enroll_error = EnrollHostname | EnrollPath write_error | EnrollFetch fetch_error | EnrollWrite write_error

text \<open>The flags \<open>-url\<close>, \<open>-code\<close>, \<open>-code-env\<close>, \<open>-output\<close>, \<open>-device-name\<close> and \<open>-force\<close>. The check of the path and the
  write meet the disk each with their own environment.\<close>

record enroll_flags =
  ef_url :: string
  ef_code :: string
  ef_code_env :: string
  ef_output :: string
  ef_device_name :: string
  ef_force :: bool

definition enroll_code :: "net_lib \<Rightarrow> enroll_flags \<Rightarrow> string" where
  "enroll_code L f = (if ef_code f = [] \<and> ef_code_env f \<noteq> [] then nl_getenv L (ef_code_env f) else ef_code f)"

definition run_enroll ::
  "net_lib \<Rightarrow> url_lib \<Rightarrow> exchange \<Rightarrow> string option \<Rightarrow> string \<Rightarrow> disk_env \<Rightarrow> disk_env \<Rightarrow> enroll_flags \<Rightarrow> disk
   \<Rightarrow> (enroll_error + client_config) \<times> (url \<times> enrollment_request) list \<times> disk" where
  "run_enroll L U X hostname goos E1 E2 f d =
     (case (if ef_device_name f = [] then hostname else Some (ef_device_name f)) of
        None \<Rightarrow> (Inl EnrollHostname, [], d)
      | Some deviceName \<Rightarrow>
          (case prepare_profile_path E1 (ef_output f) (ef_force f) d of
             (Some e, d1) \<Rightarrow> (Inl (EnrollPath e), [], d1)
           | (None, d1) \<Rightarrow>
               (case fetch_profile L U X (ef_url f) (enroll_code L f) deviceName (current_platform goos) of
                  (Inl e, sent) \<Rightarrow> (Inl (EnrollFetch e), sent, d1)
                | (Inr profile, sent) \<Rightarrow>
                    (case write_profile E2 (ef_output f) profile (ef_force f) d1 of
                       (Some e, d2) \<Rightarrow> (Inl (EnrollWrite e), sent, d2)
                     | (None, d2) \<Rightarrow> (Inr profile, sent, d2)))))"

section \<open>The client\<close>

text \<open>\<open>runClient\<close> up to the services, with the paths it discovers; no calibration and no manager.\<close>

definition run_client ::
  "start_env \<Rightarrow> client_config \<Rightarrow> argv list
   \<Rightarrow> (app_error + route_guard option \<times> native \<times> client) \<times> device_call list \<times> argv list" where
  "run_client E c hist =
     (case discover_paths c (te_interfaces E) (te_defaults E) of
        None \<Rightarrow> (Inl NoUsablePath, [], hist)
      | Some paths \<Rightarrow>
          if paths = [] then (Inl NoUsablePath, [], hist)
          else bring_up E (c\<lparr>cc_paths := paths, cc_auto_discover := False\<rparr>) hist)"

text \<open>What \<open>runApp\<close> does with the manager when the control panel has ended.\<close>

definition app_exit :: "bool \<Rightarrow> manager \<Rightarrow> manager" where
  "app_exit ready m =
     (if fst (manager_state ready m) \<in> {AppRunning, AppStarting}
      then (case stop_begin m of None \<Rightarrow> m | Some (n, m1) \<Rightarrow> m1) else m)"

section \<open>The doctor\<close>

text \<open>\<open>Duration.Seconds\<close> of a duration that is not negative.\<close>

definition duration_seconds :: "duration \<Rightarrow> rat" where
  "duration_seconds d = fl64 (of_int (d div second) + fl64 (of_int (d mod second) / 1000000000))"

text \<open>Megabits per second; the count of bits wraps at 64 bits.\<close>

definition rate_mbps :: "rat \<Rightarrow> u64 \<Rightarrow> rat" where
  "rate_mbps seconds n = fl64 (fl64 (float_of_u64 (n * 8) / seconds) / 1000000)"

definition healthy_path_count :: "path_diagnostic list \<Rightarrow> nat" where
  "healthy_path_count ps = length (filter (\<lambda>p. pd_healthy p \<and> 0 < pd_received p) ps)"

record display_path =
  dp_name :: string
  dp_rtt_ms :: rat
  dp_upload :: rat
  dp_echo :: rat
  dp_sent :: u64
  dp_received :: u64
  dp_weight :: rat
  dp_healthy :: bool

record display_result =
  ds_seconds :: rat
  ds_upload :: rat
  ds_echo :: rat
  ds_sent :: u64
  ds_received :: u64
  ds_expected :: nat
  ds_connected :: nat
  ds_paths :: "display_path list"
  ds_connectivity :: bool
  ds_bonding :: bool
  ds_all_paths :: bool

text \<open>The least echo rate of a healthy path, \<^const>\<open>None\<close> while it is still \<open>MaxFloat64\<close>.\<close>

definition min_echo :: "rat \<Rightarrow> path_diagnostic list \<Rightarrow> rat option" where
  "min_echo seconds ps =
     foldl (\<lambda>m p. let rate = rate_mbps seconds (pd_received p) in
              if pd_healthy p \<and> 0 < pd_received p then (case m of None \<Rightarrow> Some rate | Some r \<Rightarrow> Some (if rate < r then rate else r)) else m)
       None ps"

definition display_path_of :: "rat \<Rightarrow> rat option \<Rightarrow> path_diagnostic \<Rightarrow> display_path" where
  "display_path_of seconds least p =
     (let echo = rate_mbps seconds (pd_received p) in
      \<lparr> dp_name = pd_name p, dp_rtt_ms = fl64 (fl64 (of_int (pd_rtt p)) / 1000000), dp_upload = rate_mbps seconds (pd_sent p),
        dp_echo = echo, dp_sent = pd_sent p, dp_received = pd_received p,
        dp_weight = (case least of
           None \<Rightarrow> 0
         | Some m \<Rightarrow> if 0 < echo then fl64 (of_int (round_half_up (fl64 (fl64 (echo / m) * 10))) / 10) else 0),
        dp_healthy = pd_healthy p \<rparr>)"

definition doctor_report :: "nat \<Rightarrow> diagnostic_result \<Rightarrow> display_result" where
  "doctor_report expected r =
     (let seconds = duration_seconds (dr_duration r); healthy = healthy_path_count (dr_paths r) in
      \<lparr> ds_seconds = seconds, ds_upload = rate_mbps seconds (dr_sent r), ds_echo = rate_mbps seconds (dr_received r),
        ds_sent = dr_sent r, ds_received = dr_received r, ds_expected = expected, ds_connected = length (dr_paths r),
        ds_paths = map (display_path_of seconds (min_echo seconds (dr_paths r))) (dr_paths r),
        ds_connectivity = (0 < dr_received r \<and> 0 < healthy), ds_bonding = (0 < dr_received r \<and> 1 < healthy),
        ds_all_paths = (0 < expected \<and> healthy = expected) \<rparr>)"

end
