(* ===== verification/Cli_Facts.thy ===== *)
theory Cli_Facts
  imports Cli Enrollment_Facts Manager_Facts
begin

text \<open>
  The enrollment command spends an activation code only when the profile can be written, the services that run
  together end with the first of them, and what the doctor's verdicts stand for.
\<close>

section \<open>Enrolling\<close>

text \<open>C30: The enrollment command sends the activation code only after the output path has passed its check, and at most
  once. When it reports success, the disk has the complete profile at the path, the profile is valid and came in
  the answer to that request; when it does not, the path has what it had, what another process put there, or the
  complete profile.\<close>

theorem enrollment_command_safe:
  assumes run: "run_enroll L U X hostname goos E1 E2 f d = (r, sent, d')"
    and fresh1: "fresh_names E1 (ef_output f) d"
    and fresh2: "fresh_names E2 (ef_output f) (snd (prepare_profile_path E1 (ef_output f) (ef_force f) d))"
  shows "(sent \<noteq> [] \<longrightarrow> fst (prepare_profile_path E1 (ef_output f) (ef_force f) d) = None \<and> length sent = 1
           \<and> er_code (snd (hd sent)) = enroll_code L f)
    \<and> (case r of
         Inr p \<Rightarrow> d' (ef_output f) = Some (whole E2 p) \<and> validate_client L p = None
           \<and> (\<exists>u q a. sent = [(u, q)] \<and> X u q = Some a \<and> ha_status a = 201 \<and> ha_profile a = Some p)
       | Inl e \<Rightarrow> d' (ef_output f) = d (ef_output f) \<or> d' (ef_output f) = de_intruder E2
           \<or> (\<exists>p. e \<in> EnrollWrite ` UNIV \<and> d' (ef_output f) = Some (whole E2 p)))"
proof -
  obtain r1 d1 where pre: "prepare_profile_path E1 (ef_output f) (ef_force f) d = (r1, d1)" by fastforce
  have same: "d1 (ef_output f) = d (ef_output f)" using prepare_path [OF fresh1 pre] by blast
  define name where "name = the (if ef_device_name f = [] then hostname else Some (ef_device_name f))"
  obtain r2 s2 where fetch: "fetch_profile L U X (ef_url f) (enroll_code L f) name (current_platform goos) = (r2, s2)" by fastforce
  show ?thesis
  proof (cases "(if ef_device_name f = [] then hostname else Some (ef_device_name f)) = None \<or> r1 \<noteq> None")
    case True
    with run pre same show ?thesis by (auto simp: run_enroll_def split: option.splits if_splits)
  next
    case False
    have s2: "s2 = [] \<or> (\<exists>u q. s2 = [(u, q)] \<and> er_code q = enroll_code L f)"
      using fetch by (auto simp: fetch_profile_def Let_def split: sum.splits if_splits)
    show ?thesis
    proof (cases r2)
      case (Inl e)
      with False run pre fetch name_def same s2 show ?thesis by (auto simp: run_enroll_def split: option.splits if_splits)
    next
      case (Inr p)
      obtain r3 d3 where wr: "write_profile E2 (ef_output f) p (ef_force f) d1 = (r3, d3)" by fastforce
      have w: "(d3 (ef_output f) = d (ef_output f) \<or> d3 (ef_output f) = de_intruder E2 \<or> d3 (ef_output f) = Some (whole E2 p))
          \<and> (r3 = None \<longrightarrow> d3 (ef_output f) = Some (whole E2 p))"
        using written_profile [OF fresh2 [unfolded pre snd_conv] wr] same by simp
      have ok: "validate_client L p = None \<and> (\<exists>u q a. s2 = [(u, q)] \<and> X u q = Some a \<and> ha_status a = 201 \<and> ha_profile a = Some p)"
        using fetch Inr by (auto simp: fetch_profile_def profile_of_answer_def Let_def split: sum.splits if_splits option.splits)
      have "sent = s2 \<and> d' = d3 \<and> r = (case r3 of None \<Rightarrow> Inr p | Some e \<Rightarrow> Inl (EnrollWrite e))"
        using False run pre fetch name_def Inr wr by (auto simp: run_enroll_def split: option.splits if_splits)
      then show ?thesis using w ok s2 pre False by (cases r3) auto
    qed
  qed
qed

section \<open>The client without the panel\<close>

text \<open>\<open>runClient\<close> leaves no more behind than \<open>Start\<close> does.\<close>

lemma run_client_undone:
  assumes "run_client E c hist = (r, calls, hist1)" "isl r"
  shows "undone (te_runner E) hist hist1 \<and> calls \<in> {[], [OpenDevice, CloseDevice]}"
proof (cases "calls = [] \<and> hist1 = hist")
  case False
  with assms obtain paths where "bring_up E (c\<lparr>cc_paths := paths, cc_auto_discover := False\<rparr>) hist = (r, calls, hist1)"
    by (auto simp: run_client_def split: option.splits if_splits)
  from bring_up_undone [OF this] assms(2) show ?thesis
    by (cases r) (auto simp: device_calls_of_def split: app_error.splits)
qed (simp add: undone_def)

section \<open>Services\<close>

text \<open>C: Both commands hand the cancel function of the very context they run under to the services' loop, so the loop
  ends with the first service that ends, whatever its result: all the others are still running then.\<close>

theorem services_end_with_the_first:
  assumes "0 < applications" "completions \<noteq> []"
  shows "run_services True False applications metricsListen completions
    = (hd completions, applications + (if metricsListen \<noteq> [] then 1 else 0) - 1)"
proof -
  obtain c cs where c: "completions = c # cs" using assms(2) by (cases completions) auto
  obtain n where n: "applications + (if metricsListen \<noteq> [] then 1 else 0) = Suc n" using assms(1) by (cases applications) auto
  show ?thesis unfolding run_services_def n by (simp add: c)
qed

text \<open>With a cancel function of its own the loop would have waited for all of them.\<close>

lemma services_wait_for_all:
  "length completions = n \<Longrightarrow> list_all (\<lambda>c. c = None) completions \<Longrightarrow> await_services False False n completions = (None, 0)"
  by (induction n arbitrary: completions) (auto simp: length_Suc_conv)

section \<open>The doctor\<close>

lemma min_echo_fold:
  assumes "foldl (\<lambda>m p. let rate = f p in if Q p then (case m of None \<Rightarrow> Some rate | Some r \<Rightarrow> Some (if rate < r then rate else r)) else m)
    a ps = b"
  shows "(\<forall>x. a = Some x \<longrightarrow> (\<exists>y. b = Some y \<and> y \<le> x)) \<and> (\<forall>p \<in> set ps. Q p \<longrightarrow> (\<exists>y. b = Some y \<and> y \<le> (f p :: rat)))
    \<and> (\<forall>y. b = Some y \<longrightarrow> a = Some y \<or> (\<exists>p \<in> set ps. Q p \<and> y = f p))"
  using assms
proof (induction ps arbitrary: a)
  case (Cons p ps)
  define a' where "a' = (let rate = f p in if Q p then (case a of None \<Rightarrow> Some rate | Some r \<Rightarrow> Some (if rate < r then rate else r)) else a)"
  from Cons.prems have "foldl (\<lambda>m p. let rate = f p in if Q p then (case m of None \<Rightarrow> Some rate | Some r \<Rightarrow> Some (if rate < r then rate else r)) else m)
    a' ps = b" by (simp add: a'_def)
  note ih = Cons.IH [OF this]
  have first: "\<exists>y. a' = Some y \<and> y \<le> x" if "a = Some x" for x
    using that by (auto simp: a'_def Let_def)
  have own: "\<exists>y. a' = Some y \<and> y \<le> f p" if "Q p"
    using that by (auto simp: a'_def Let_def split: option.splits)
  have origin: "a = Some y \<or> Q p \<and> y = f p" if "a' = Some y" for y
    using that by (auto simp: a'_def Let_def split: option.splits if_splits)
  have rest: "\<exists>z. b = Some z \<and> z \<le> y" if "a' = Some y" for y using ih that by blast
  show ?case
  proof (intro conjI allI ballI impI)
    show "\<exists>y. b = Some y \<and> y \<le> x" if "a = Some x" for x
      using first [OF that] rest order_trans by blast
    show "\<exists>y. b = Some y \<and> y \<le> f q" if "q \<in> set (p # ps)" "Q q" for q
      using that own rest ih order_trans by (metis set_ConsD)
    show "a = Some y \<or> (\<exists>p \<in> set (p # ps). Q p \<and> y = f p)" if "b = Some y" for y
      using that origin ih by (metis list.set_intros)
  qed
qed simp

lemma min_echo_least:
  assumes "p \<in> set ps" "pd_healthy p" "0 < pd_received p"
  obtains m q where "min_echo seconds ps = Some m" "m \<le> rate_mbps seconds (pd_received p)"
    "q \<in> set ps" "pd_healthy q" "0 < pd_received q" "m = rate_mbps seconds (pd_received q)"
  using assms that min_echo_fold [OF min_echo_def [symmetric], of seconds ps] by fastforce

lemma tenth_weight:
  assumes "1 \<le> x"
  shows "1 \<le> fl64 (of_int (round_half_up (fl64 (fl64 x * 10))) / 10)"
proof -
  have one: "(1 :: rat) \<le> fl64 x" using fl64_ge_float [of 1 x] is_float64_of_int [of 1] assms by simp
  then have "(10 :: rat) \<le> fl64 (fl64 x * 10)" using fl64_ge_float [of 10 "fl64 x * 10"] is_float64_of_int [of 10] by simp
  then have "10 \<le> round_half_up (fl64 (fl64 x * 10))" using round_half_up_mono [of 10] round_half_up_int [of 10] by fastforce
  then have "(10 :: rat) \<le> of_int (round_half_up (fl64 (fl64 x * 10)))" by (metis of_int_le_iff of_int_numeral)
  then show ?thesis using fl64_ge_float [of 1] is_float64_of_int [of 1] by simp
qed

lemma tenth_weight_1: "fl64 (of_int (round_half_up (fl64 (fl64 1 * 10))) / 10) = 1"
  using fl64_of_int [of 1] fl64_of_int [of 10] round_half_up_int [of 10] by simp

text \<open>C: The doctor recommends weights for the working paths only relative to the slowest of them: when every working
  path has a positive rate, each gets a weight of at least 1, and the slowest gets 1.\<close>

theorem doctor_weights:
  assumes "p \<in> set (dr_paths r)" "pd_healthy p" "0 < pd_received p"
    and pos: "\<And>q. q \<in> set (dr_paths r) \<Longrightarrow> pd_healthy q \<Longrightarrow> 0 < pd_received q
      \<Longrightarrow> 0 < rate_mbps (duration_seconds (dr_duration r)) (pd_received q)"
  shows "\<exists>i < length (dr_paths r). dr_paths r ! i = p \<and> 1 \<le> dp_weight (ds_paths (doctor_report expected r) ! i)
    \<and> (\<exists>j < length (dr_paths r). pd_healthy (dr_paths r ! j) \<and> dp_weight (ds_paths (doctor_report expected r) ! j) = 1
         \<and> dp_echo (ds_paths (doctor_report expected r) ! j) \<le> dp_echo (ds_paths (doctor_report expected r) ! i))"
proof -
  let ?s = "duration_seconds (dr_duration r)"
  obtain m q where m: "min_echo ?s (dr_paths r) = Some m" "m \<le> rate_mbps ?s (pd_received p)"
    and q: "q \<in> set (dr_paths r)" "pd_healthy q" "0 < pd_received q" "m = rate_mbps ?s (pd_received q)"
    using min_echo_least [OF assms(1-3)] by metis
  have m0: "0 < m" using pos [OF q(1-3)] q(4) by simp
  obtain i j where i: "i < length (dr_paths r)" "dr_paths r ! i = p" and j: "j < length (dr_paths r)" "dr_paths r ! j = q"
    using assms(1) q(1) by (metis in_set_conv_nth)
  have "dp_weight (display_path_of ?s (Some m) p) \<ge> 1"
    using m(2) m0 tenth_weight [of "rate_mbps ?s (pd_received p) / m"] by (simp add: display_path_of_def Let_def)
  moreover have "dp_weight (display_path_of ?s (Some m) q) = 1"
    using q(4) m0 tenth_weight_1 by (simp add: display_path_of_def Let_def)
  moreover have "dp_echo (display_path_of ?s (Some m) q) \<le> dp_echo (display_path_of ?s (Some m) p)"
    using m(2) q(4) by (simp add: display_path_of_def Let_def)
  ultimately show ?thesis
    using i j q(2) m(1) by (intro exI [of _ i]) (auto simp: doctor_report_def Let_def intro!: exI [of _ j])
qed

end
