(* ===== verification/Cli_Demo.thy ===== *)
theory Cli_Demo
  imports Cli_Facts Enrollment_Demo
begin

text \<open>
  Closed examples of the commands: a device that enrolls itself, a client whose metrics service ends, and a doctor
  run over two paths.
\<close>

definition demo_flags :: enroll_flags where
  "demo_flags = \<lparr> ef_url = ''https://cp/'', ef_code = ''code'', ef_code_env = [], ef_output = ''profile.json'',
     ef_device_name = ''n'', ef_force = False \<rparr>"

definition demo_disk_ok :: disk_env where
  "demo_disk_ok = demo_disk_env\<lparr>de_fails := (\<lambda>_. False)\<rparr>"

definition demo_enroll_run :: "(enroll_error + client_config) \<times> (url \<times> enrollment_request) list \<times> disk" where
  "demo_enroll_run = run_enroll demo_managed_lib demo_url_lib demo_exchange None ''linux'' demo_disk_ok demo_disk_ok demo_flags (\<lambda>_. None)"

lemma demo_path_text: "trim_space ''profile.json'' \<noteq> []"
  by (subst trim_space_plain) (simp_all add: plain_char_def)

lemma demo_prepared:
  "prepare_profile_path demo_disk_ok ''profile.json'' False (\<lambda>_. None) = (None, \<lambda>_. None)"
  using demo_path_text by (auto simp: prepare_profile_path_def demo_disk_ok_def demo_disk_env_def)

theorem enrollment_command_safe_witness:
  "(case fst demo_enroll_run of
      Inr p \<Rightarrow> snd (snd demo_enroll_run) ''profile.json'' = Some (whole demo_disk_ok p) \<and> validate_client demo_managed_lib p = None
    | Inl e \<Rightarrow> snd (snd demo_enroll_run) ''profile.json'' \<in> {None, Some (whole demo_disk_ok demo_profile)} \<or> e \<in> EnrollWrite ` UNIV)"
proof -
  obtain r sent d' where run: "run_enroll demo_managed_lib demo_url_lib demo_exchange None ''linux'' demo_disk_ok demo_disk_ok demo_flags (\<lambda>_. None)
      = (r, sent, d')" by (metis prod_cases3)
  have fresh: "fresh_names demo_disk_ok ''profile.json'' (\<lambda>_. None)"
    by (simp add: fresh_names_def demo_disk_ok_def demo_disk_env_def)
  have out: "ef_output demo_flags = ''profile.json''" "ef_force demo_flags = False" by (simp_all add: demo_flags_def)
  have "de_intruder demo_disk_ok = None" by (simp add: demo_disk_ok_def demo_disk_env_def)
  then show ?thesis
    using enrollment_command_safe [OF run] fresh by (auto simp: demo_enroll_run_def run out demo_prepared split: sum.splits)
qed

theorem services_end_with_the_first_witness:
  "run_services True False 1 '':9090'' [None, Some (0 :: nat)] = (None, 1)"
  using services_end_with_the_first [of 1 "[None, Some (0 :: nat)]" "'':9090''"] by simp

definition demo_report :: diagnostic_result where
  "demo_report = \<lparr> dr_duration = 5 * second, dr_sent = 4000, dr_received = 4000,
     dr_paths = [demo_measurement ''a'' 3000, demo_measurement ''b'' 1000] \<rparr>"

lemma demo_seconds: "duration_seconds (dr_duration demo_report) = 5"
  using fl64_of_int [of 5] by (simp add: duration_seconds_def demo_report_def second_def)

lemma demo_rate: "5 \<le> (of_nat (unat (n * 8)) :: rat) \<Longrightarrow> 0 < rate_mbps 5 n"
proof -
  assume "5 \<le> (of_nat (unat (n * 8)) :: rat)"
  then have "5 \<le> float_of_u64 (n * 8)" unfolding float_of_u64_def
    using fl64_ge_float [of 5] is_float64_of_int [of 5] by simp
  then have "1 \<le> fl64 (float_of_u64 (n * 8) / 5)" using fl64_ge_float [of 1] is_float64_of_int [of 1] by simp
  then have "1 / 2 ^ 20 \<le> fl64 (float_of_u64 (n * 8) / 5) / 1000000" by simp
  moreover have "is_float64 (1 / 2 ^ 20)" using is_float64_dyadic [of 1 "- 20"] by (simp add: power_int_minus)
  ultimately have "1 / 2 ^ 20 \<le> rate_mbps 5 n" unfolding rate_mbps_def by (rule fl64_ge_float)
  then show "0 < rate_mbps 5 n" by (rule less_le_trans [rotated]) simp
qed

theorem doctor_weights_witness:
  "\<exists>i < 2. 1 \<le> dp_weight (ds_paths (doctor_report 2 demo_report) ! i)"
proof -
  have "\<exists>i < length (dr_paths demo_report). dr_paths demo_report ! i = demo_measurement ''a'' 3000
      \<and> 1 \<le> dp_weight (ds_paths (doctor_report 2 demo_report) ! i)
      \<and> (\<exists>j < length (dr_paths demo_report). pd_healthy (dr_paths demo_report ! j) \<and> dp_weight (ds_paths (doctor_report 2 demo_report) ! j) = 1
           \<and> dp_echo (ds_paths (doctor_report 2 demo_report) ! j) \<le> dp_echo (ds_paths (doctor_report 2 demo_report) ! i))"
  proof (rule doctor_weights)
    fix q assume "q \<in> set (dr_paths demo_report)"
    then have "pd_received q = 3000 \<or> pd_received q = 1000" by (auto simp: demo_report_def demo_measurement_def)
    then show "0 < rate_mbps (duration_seconds (dr_duration demo_report)) (pd_received q)"
      unfolding demo_seconds by (auto intro!: demo_rate)
  qed (simp_all add: demo_report_def demo_measurement_def)
  moreover have "length (dr_paths demo_report) = 2" by (simp add: demo_report_def)
  ultimately show ?thesis by metis
qed

end
