(* ===== verification/Loading.thy ===== *)
theory Loading
  imports Netconfig
begin

text \<open>
  Loading a configuration (\<open>loadStrict\<close>, \<open>LoadClient\<close>, \<open>LoadServer\<close> of \<open>internal/config/config.go\<close>) and the
  interfaces with a default route (\<open>defaults_linux.go\<close>, \<open>defaults_windows.go\<close>, \<open>defaults_other.go\<close>). Decoding JSON
  is the standard library's: what the decoder makes of the file is an argument.
\<close>

section \<open>Configuration files\<close>

text \<open>The first value of the file without unknown fields, and what follows it.\<close>

datatype trailing = NothingMore | AnotherValue | TrailingData

datatype 'a config_file = NoFile | Undecodable | FileValue 'a trailing

datatype load_error = ErrOpen | ErrDecodeFile | ErrMultipleValues | ErrTrailing | ErrInvalid config_error

definition load_strict :: "'a config_file \<Rightarrow> load_error + 'a" where
  "load_strict f =
     (case f of
        NoFile \<Rightarrow> Inl ErrOpen
      | Undecodable \<Rightarrow> Inl ErrDecodeFile
      | FileValue x t \<Rightarrow>
          (case t of NothingMore \<Rightarrow> Inr x | AnotherValue \<Rightarrow> Inl ErrMultipleValues | TrailingData \<Rightarrow> Inl ErrTrailing))"

definition load_client :: "net_lib \<Rightarrow> client_config config_file \<Rightarrow> load_error + client_config" where
  "load_client L f =
     (case load_strict f of
        Inl e \<Rightarrow> Inl e
      | Inr c \<Rightarrow>
          let c1 = client_defaults c in
          (case validate_client L c1 of Some e \<Rightarrow> Inl (ErrInvalid e) | None \<Rightarrow> Inr c1))"

definition load_server :: "net_lib \<Rightarrow> server_config config_file \<Rightarrow> load_error + server_config" where
  "load_server L f =
     (case load_strict f of
        Inl e \<Rightarrow> Inl e
      | Inr c \<Rightarrow>
          let c1 = server_defaults c in
          (case validate_server L c1 of Some e \<Rightarrow> Inl (ErrInvalid e) | None \<Rightarrow> Inr c1))"

section \<open>Interfaces with a default route\<close>

text \<open>\<open>strconv.ParseUint(s, 16, 32)\<close>\<close>

fun parse_hex_from :: "nat \<Rightarrow> string \<Rightarrow> nat option" where
  "parse_hex_from acc [] = Some acc"
| "parse_hex_from acc (c # s) =
     (case hex_value c of
        None \<Rightarrow> None
      | Some d \<Rightarrow> if 2 ^ 32 \<le> 16 * acc + d then None else parse_hex_from (16 * acc + d) s)"

definition parse_hex32 :: "string \<Rightarrow> nat option" where
  "parse_hex32 s = (if s = [] then None else parse_hex_from 0 s)"

text \<open>The lines of \<open>/proc/net/route\<close>, or none if it cannot be read.\<close>

definition route_line_interface :: "string \<Rightarrow> string list" where
  "route_line_interface line =
     (let fs = fields line in
      if length fs < 4 \<or> fs ! 1 \<noteq> ''00000000'' then []
      else case parse_hex32 (fs ! 3) of
        None \<Rightarrow> []
      | Some flags \<Rightarrow> if odd flags then [fs ! 0] else [])"

definition default_interfaces_linux :: "string list option \<Rightarrow> string list" where
  "default_interfaces_linux ls = (case ls of None \<Rightarrow> [] | Some lines \<Rightarrow> remdups (concat (map route_line_interface lines)))"

text \<open>The output of \<open>route.exe print -4\<close>.\<close>

definition route_print_address :: "string \<Rightarrow> string list" where
  "route_print_address line =
     (let fs = fields line in
      if 5 \<le> length fs \<and> fs ! 0 = ''0.0.0.0'' \<and> fs ! 1 = ''0.0.0.0'' then [''ip:'' @ fs ! 3] else [])"

definition default_interfaces_windows :: "string option \<Rightarrow> string list" where
  "default_interfaces_windows out =
     (case out of None \<Rightarrow> [] | Some t \<Rightarrow> remdups (concat (map route_print_address (split_on (CHR 0x0A) t))))"

definition default_interfaces_other :: "string list" where
  "default_interfaces_other = []"

section \<open>What loading guarantees\<close>

lemma load_client_valid:
  "load_client L f = Inr c \<Longrightarrow> validate_client L c = None \<and> (\<exists>c0. f = FileValue c0 NothingMore \<and> c = client_defaults c0)"
  by (auto simp: load_client_def load_strict_def Let_def split: config_file.splits trailing.splits option.splits)

lemma load_server_valid:
  "load_server L f = Inr c \<Longrightarrow> validate_server L c = None \<and> (\<exists>c0. f = FileValue c0 NothingMore \<and> c = server_defaults c0)"
  by (auto simp: load_server_def load_strict_def Let_def split: config_file.splits trailing.splits option.splits)

lemma parse_hex_from_bound: "parse_hex_from acc s = Some n \<Longrightarrow> acc < 2 ^ 32 \<Longrightarrow> n < 2 ^ 32"
  by (induction acc s rule: parse_hex_from.induct) (auto split: option.splits if_splits)

lemma parse_hex32_bound: "parse_hex32 s = Some n \<Longrightarrow> n < 2 ^ 32"
  unfolding parse_hex32_def using parse_hex_from_bound [of 0 s n] by (simp split: if_splits)

end
