(* ===== verification/Panel.thy ===== *)
theory Panel
  imports Metrics
begin

text \<open>
  The HTTP side of \<open>internal/metrics/metrics.go\<close>: the routes of the local panel and the text exposition. The page of
  the dashboard is an argument, and so is the formatting of a \<open>float64\<close> by the standard library.
\<close>

section \<open>Text exposition\<close>

definition format_uint :: "u64 \<Rightarrow> string" where
  "format_uint w = decimal (unat w)"

definition format_int :: "int \<Rightarrow> string" where
  "format_int n = (if n < 0 then ''-'' @ decimal (nat (- n)) else decimal (nat n))"

text \<open>A \<open>float64\<close> of a duration: seconds and nanoseconds are converted and added, for the round trip time the
  nanoseconds are divided.\<close>

definition uptime_seconds :: "duration \<Rightarrow> rat" where
  "uptime_seconds d = fl64 (of_int (d div second) + fl64 (of_int (d mod second) / 1000000000))"

definition rtt_seconds :: "path_metric \<Rightarrow> rat" where
  "rtt_seconds p = fl64 (fl64 (of_int (pm_rtt_nanos p)) / 1000000000)"

definition role_samples :: "registry \<Rightarrow> (string \<times> string \<times> string) list" where
  "role_samples m =
     [(''linkforge_sent_packets_total'', ''Encrypted packets sent.'', format_uint (mt_sent_packets m)),
      (''linkforge_sent_bytes_total'', ''Encrypted payload bytes sent.'', format_uint (mt_sent_bytes m)),
      (''linkforge_received_packets_total'', ''Authenticated packets received.'', format_uint (mt_received_packets m)),
      (''linkforge_received_bytes_total'', ''Authenticated payload bytes received.'', format_uint (mt_received_bytes m)),
      (''linkforge_invalid_packets_total'', ''Malformed packets dropped.'', format_uint (mt_invalid_packets m)),
      (''linkforge_auth_failures_total'', ''Authentication failures.'', format_uint (mt_auth_failures m)),
      (''linkforge_no_path_drops_total'', ''Packets dropped because no healthy path existed.'', format_uint (mt_no_path_drops m)),
      (''linkforge_reorder_skips_total'', ''Missing global packet sequences skipped after the reorder deadline.'',
         format_uint (mt_reorder_skips m)),
      (''linkforge_tun_read_errors_total'', ''TUN read failures.'', format_uint (mt_tun_read_errors m)),
      (''linkforge_tun_write_errors_total'', ''TUN write failures.'', format_uint (mt_tun_write_errors m)),
      (''linkforge_active_sessions'', ''Currently active client sessions.'', format_int (mt_active_sessions m))]"

definition path_samples :: "(rat \<Rightarrow> string) \<Rightarrow> path_metric \<Rightarrow> (string \<times> string \<times> string) list" where
  "path_samples ff p =
     [(''linkforge_path_sent_packets_total'', ''Packets sent on a path.'', format_uint (pm_sent_packets p)),
      (''linkforge_path_sent_bytes_total'', ''Payload bytes sent on a path.'', format_uint (pm_sent_bytes p)),
      (''linkforge_path_received_packets_total'', ''Packets received on a path.'', format_uint (pm_received_packets p)),
      (''linkforge_path_received_bytes_total'', ''Payload bytes received on a path.'', format_uint (pm_received_bytes p)),
      (''linkforge_path_auth_failures_total'', ''Authentication failures by path.'', format_uint (pm_auth_failures p)),
      (''linkforge_path_replay_drops_total'', ''Replay-window drops by path.'', format_uint (pm_replay_drops p)),
      (''linkforge_path_write_errors_total'', ''Socket write errors by path.'', format_uint (pm_write_errors p)),
      (''linkforge_path_healthy'', ''Whether the path is healthy.'', format_uint (if pm_healthy p then 1 else 0)),
      (''linkforge_path_rtt_seconds'', ''Last smoothed path RTT.'', ff (rtt_seconds p))]"

definition render_all :: "(string \<times> string) list \<Rightarrow> (string \<times> string \<times> string) list \<Rightarrow> string" where
  "render_all labels ms = concat (map (\<lambda>(name, help, v). render_metric name help labels v) ms)"

definition serve_metrics :: "(rat \<Rightarrow> string) \<Rightarrow> registry \<Rightarrow> gotime \<Rightarrow> string" where
  "serve_metrics ff m now =
     (let role = (''role'', quote (mt_role m)) in
      render_metric ''linkforge_uptime_seconds'' ''Process uptime.'' [] (ff (uptime_seconds (time_sub now (mt_started m))))
      @ render_all [role] (role_samples m)
      @ concat (map (\<lambda>name. render_all [role, (''path'', quote name)] (path_samples ff (fst (registry_path m name))))
          (sort_strings (map fst (mt_paths m)))))"

section \<open>Routes\<close>

datatype panel_body =
    DashboardPage string | PanelText string | StatusBody status | ExpositionBody string | ControlBody control_response | NotFoundBody

record panel_reply =
  pr_status :: nat
  pr_headers :: "(string \<times> string) list"
  pr_body :: panel_body

definition json_type :: "string \<times> string" where
  "json_type = (''Content-Type'', ''application/json'')"

definition replace_first :: "string \<Rightarrow> string \<Rightarrow> string \<Rightarrow> string" where
  "replace_first old new s =
     (case find (\<lambda>i. take (length old) (drop i s) = old) [0..<Suc (length s)] of
        None \<Rightarrow> s
      | Some i \<Rightarrow> take i s @ new @ drop (i + length old) s)"

definition serve_dashboard :: "string \<Rightarrow> registry \<Rightarrow> string \<Rightarrow> panel_reply" where
  "serve_dashboard page m path =
     (if path \<noteq> ''/'' \<and> path \<noteq> ''/dashboard'' then \<lparr> pr_status = 404, pr_headers = [], pr_body = NotFoundBody \<rparr>
      else \<lparr> pr_status = 200,
             pr_headers = [(''Content-Type'', ''text/html; charset=utf-8''), (''Cache-Control'', ''no-store''), (''X-Content-Type-Options'', ''nosniff'')],
             pr_body = DashboardPage (replace_first ''__CONTROL_TOKEN__'' (mt_control_token m) page) \<rparr>)"

definition control_status :: "control_response \<Rightarrow> nat" where
  "control_status r = (case r of Forbidden \<Rightarrow> 403 | Conflict e \<Rightarrow> 409 | ControlOk \<Rightarrow> 200)"

text \<open>The mux sends a path that no other pattern matches to the dashboard. The second component is the callback that
  ran.\<close>

definition panel_route ::
  "(rat \<Rightarrow> string) \<Rightarrow> string \<Rightarrow> registry \<Rightarrow> gotime \<Rightarrow> http_method \<Rightarrow> string \<Rightarrow> string \<Rightarrow> panel_reply \<times> control_action" where
  "panel_route ff page m now meth path token =
     (if path = ''/healthz'' then (\<lparr> pr_status = 200, pr_headers = [json_type], pr_body = PanelText ''ok'' \<rparr>, NoAction)
      else if path = ''/readyz'' then
        (\<lparr> pr_status = (if mt_ready m then 200 else 503), pr_headers = [json_type],
           pr_body = PanelText (if mt_ready m then ''ready'' else ''not_ready'') \<rparr>, NoAction)
      else if path = ''/metrics'' then
        (\<lparr> pr_status = 200, pr_headers = [(''Content-Type'', ''text/plain; version=0.0.4'')],
           pr_body = ExpositionBody (serve_metrics ff m now) \<rparr>, NoAction)
      else if path = ''/api/v1/status'' then
        (\<lparr> pr_status = 200, pr_headers = [json_type, (''Cache-Control'', ''no-store''), (''X-Content-Type-Options'', ''nosniff'')],
           pr_body = StatusBody (snapshot m now) \<rparr>, NoAction)
      else if path = ''/api/v1/control/start'' \<or> path = ''/api/v1/control/stop'' then
        (let (action, r) = serve_control m meth path token in
         (\<lparr> pr_status = control_status r, pr_headers = [json_type, (''Cache-Control'', ''no-store'')], pr_body = ControlBody r \<rparr>, action))
      else (serve_dashboard page m path, NoAction))"

section \<open>What the panel keeps\<close>

text \<open>A callback runs only for a POST to its own path with the token.\<close>

lemma panel_action:
  assumes "panel_route ff page m now meth path token = (r, action)" "action \<noteq> NoAction"
  shows "meth = POST \<and> token = mt_control_token m \<and> mt_control m \<noteq> None
    \<and> (action = RunStart \<longrightarrow> path = ''/api/v1/control/start'') \<and> (action = RunStop \<longrightarrow> path = ''/api/v1/control/stop'')"
proof -
  have path: "path = ''/api/v1/control/start'' \<or> path = ''/api/v1/control/stop''"
    by (rule ccontr) (use assms in \<open>simp add: panel_route_def split: if_splits\<close>)
  have suffixes: "\<not> has_suffix ''/api/v1/control/start'' ''/stop''" "\<not> has_suffix ''/api/v1/control/stop'' ''/start''"
    by (simp_all add: has_suffix_def)
  obtain r1 where "serve_control m meth path token = (action, r1)"
    using assms(1) path by (auto simp: panel_route_def split: prod.splits)
  then show ?thesis
    using assms(2) path suffixes by (cases "mt_control m") (auto simp: serve_control_def split: if_splits option.splits bool.splits)
qed

text \<open>No label value can end its line or its quotation.\<close>

lemma quote_one_line: "CHR 0x0A \<notin> set (quote s)"
  by (auto simp: quote_def quote_char_def)

end
