(* ===== verification/Engine_Run.thy ===== *)
theory Engine_Run
  imports Client_Facts Server_Inv
begin

text \<open>
  The frame around the loops of the engines: \<open>Run\<close> of \<open>internal/engine/client.go\<close> and \<open>internal/engine/server.go\<close>, and
  the listening of the control plane and the panel (\<open>Run\<close> of \<open>service.go\<close>, \<open>Serve\<close> of \<open>metrics.go\<close>). What the loops do
  until one of them ends is a list of steps of the engine.
\<close>

section \<open>How a run ends\<close>

text \<open>The context is done, or a loop ends with an error that only says that something was closed, or another one.\<close>

datatype loop_end = ContextDone | LoopClosed | LoopFailed

datatype run_error = NoTunnelDevice | ConnectFailed client_error | ListenFailed | LoopError

definition loop_result :: "loop_end \<Rightarrow> run_error option" where
  "loop_result fin = (if fin = LoopFailed then Some LoopError else None)"

section \<open>The client\<close>

fun client_steps ::
  "crypto \<Rightarrow> net_lib \<Rightarrow> (client_env \<times> client_event) list \<Rightarrow> client \<Rightarrow> client_output list \<times> client" where
  "client_steps C L [] c = ([], c)"
| "client_steps C L ((e, ev) # steps) c =
     (let (outs, c1) = client_step C L e c ev; (outs1, c2) = client_steps C L steps c1 in (outs @ outs1, c2))"

text \<open>The deferred calls run last to first: \<open>close\<close>, then \<open>SetReady(false)\<close>. When the connection fails none of them
  has been deferred yet.\<close>

definition client_run ::
  "crypto \<Rightarrow> net_lib \<Rightarrow> connect_env \<Rightarrow> (client_env \<times> client_event) list \<Rightarrow> client_env \<Rightarrow> loop_end \<Rightarrow> client
   \<Rightarrow> run_error option \<times> client_output list \<times> client" where
  "client_run C L ce steps e fin c =
     (if \<not> ct_tun c then (Some NoTunnelDevice, [], c)
      else case connect C L ce c of
        (Some err, c1) \<Rightarrow> (Some (ConnectFailed err), [], c1)
      | (None, c1) \<Rightarrow>
          (let (outs, c2) = client_steps C L steps (client_metrics (set_ready True) c1);
               (outs1, c3) = client_close C e c2 in
           (loop_result fin, map StartReceiver (ct_paths c1) @ outs @ outs1, client_metrics (set_ready False) c3)))"

section \<open>The relay\<close>

fun server_steps :: "crypto \<Rightarrow> net_lib \<Rightarrow> (env \<times> server_event) list \<Rightarrow> server \<Rightarrow> server_output list \<times> server" where
  "server_steps C L [] s = ([], s)"
| "server_steps C L ((e, ev) # steps) s =
     (let (outs, s1) = server_step C L e s ev; (outs1, s2) = server_steps C L steps s1 in (outs @ outs1, s2))"

definition server_ready :: "bool \<Rightarrow> server \<Rightarrow> server" where
  "server_ready b s = s\<lparr>sv_metrics := set_ready b (sv_metrics s)\<rparr>"

text \<open>\<open>listening\<close>: the address resolves and the socket opens. The second component says whether the tunnel device and
  the socket have been closed.\<close>

definition server_run ::
  "crypto \<Rightarrow> net_lib \<Rightarrow> bool \<Rightarrow> (env \<times> server_event) list \<Rightarrow> loop_end \<Rightarrow> server
   \<Rightarrow> run_error option \<times> bool \<times> server_output list \<times> server" where
  "server_run C L listening steps fin s =
     (if \<not> listening then (Some ListenFailed, False, [], s)
      else let (outs, s1) = server_steps C L steps (server_ready True s) in
        (loop_result fin, True, outs, server_ready False s1))"

section \<open>Listening\<close>

text \<open>The result of the shutdown when the context is done; otherwise the error with which listening ended, which is no
  error if the server was closed.\<close>

datatype 'e http_end = ShutDown "'e option" | ServerClosed | ServeError 'e

definition serve_until :: "'e http_end \<Rightarrow> 'e option" where
  "serve_until fin = (case fin of ShutDown r \<Rightarrow> r | ServerClosed \<Rightarrow> None | ServeError e \<Rightarrow> Some e)"

definition panel_serve :: "string \<Rightarrow> 'e http_end \<Rightarrow> 'e option" where
  "panel_serve listen fin = (if listen = [] then None else serve_until fin)"

section \<open>What a run leaves behind\<close>

lemma say_goodbye_identity: "client_identity (snd (say_goodbye C e rs c)) = client_identity c"
  by (induction rs arbitrary: c) (simp_all add: case_prod_beta)

lemma client_steps_identity: "client_identity (snd (client_steps C L steps c)) = client_identity c"
proof (induction steps arbitrary: c)
  case (Cons s steps)
  obtain e ev where s: "s = (e, ev)" by fastforce
  show ?case using Cons [of "snd (client_step C L e c ev)"] client_step_identity [of C L e c ev] by (simp add: s case_prod_beta)
qed simp

lemma say_goodbye_closes: "r \<in> set rs \<Longrightarrow> ClosePath r \<in> set (fst (say_goodbye C e rs c))"
  by (induction rs arbitrary: c) (auto simp: case_prod_beta)

lemma client_steps_reachable:
  "client_reachable C L cfg tun c \<Longrightarrow> client_reachable C L cfg tun (snd (client_steps C L steps c))"
proof (induction steps arbitrary: c)
  case (Cons s steps)
  obtain e ev where s: "s = (e, ev)" by fastforce
  obtain outs c1 where "client_step C L e c ev = (outs, c1)" by fastforce
  with Cons.IH [OF client_reachable.step [OF Cons.prems]] show ?case by (simp add: s case_prod_beta)
qed simp

lemma tun_of_identity: "client_identity c = client_identity d \<Longrightarrow> ct_tun c = ct_tun d"
  by (simp add: client_identity_def)

text \<open>C25: A run of the client that got as far as a session closes at its end every path in use and then, last of all, the
  tunnel device, and reports not ready. A run whose connection fails returns its error without having closed the
  device it was given.\<close>

theorem engine_run_releases:
  assumes run: "client_run C L ce steps e fin c = (res, outs, c')" and device: "ct_tun c"
  shows "(\<exists>err c1. connect C L ce c = (Some err, c1) \<and> res = Some (ConnectFailed err) \<and> CloseTun \<notin> set outs)
    \<or> (\<exists>c1 paths. connect C L ce c = (None, c1) \<and> res = loop_result fin \<and> \<not> mt_ready (ct_metrics c')
         \<and> paths = ct_paths (snd (client_steps C L steps (client_metrics (set_ready True) c1)))
         \<and> (\<exists>goodbye. (\<exists>before. outs = before @ goodbye @ [CloseTun]) \<and> (\<forall>r \<in> set paths. ClosePath r \<in> set goodbye)))"
proof -
  obtain err c1 where con: "connect C L ce c = (err, c1)" by fastforce
  show ?thesis
  proof (cases err)
    case (Some x)
    with run con device show ?thesis by (auto simp: client_run_def)
  next
    case None
    obtain outs0 c2 where steps: "client_steps C L steps (client_metrics (set_ready True) c1) = (outs0, c2)" by fastforce
    obtain bye c3 where bye: "say_goodbye C e (ct_paths c2) c2 = (bye, c3)" by fastforce
    have "ct_tun c1 = ct_tun c" by (rule tun_of_identity [OF identity_connect [OF con]])
    moreover have "client_identity c2 = client_identity c1"
      using client_steps_identity [of C L steps "client_metrics (set_ready True) c1"] steps by simp
    moreover have "client_identity c3 = client_identity c2" using say_goodbye_identity [of C e "ct_paths c2" c2] bye by simp
    ultimately have tun: "ct_tun c3" using device by (auto dest!: tun_of_identity)
    have closes: "\<forall>r \<in> set (ct_paths c2). ClosePath r \<in> set bye" using say_goodbye_closes [of _ "ct_paths c2" C e c2] bye by simp
    have all: "outs = (map StartReceiver (ct_paths c1) @ outs0) @ bye @ [CloseTun]" "res = loop_result fin"
      "c' = client_metrics (set_ready False) c3"
      using run con None device steps bye tun by (simp_all add: client_run_def client_close_def)
    show ?thesis
    proof (intro disjI2 exI conjI)
      show "connect C L ce c = (None, c1)" using con None by simp
      show "\<not> mt_ready (ct_metrics c')" by (simp add: all(3) client_metrics_def set_ready_def)
      show "ct_paths c2 = ct_paths (snd (client_steps C L steps (client_metrics (set_ready True) c1)))" using steps by simp
    qed (fact all closes)+
  qed
qed

text \<open>The same for the relay: it closes socket and device once it listened.\<close>

lemma relay_run_ends:
  "server_run C L listening steps fin s = (res, ended, outs, s') \<Longrightarrow> ended = listening \<and> (listening \<longrightarrow> \<not> mt_ready (sv_metrics s'))"
  by (auto simp: server_run_def server_ready_def set_ready_def split: prod.splits if_splits)

lemma server_steps_reachable: "reachable C L c s \<Longrightarrow> reachable C L c (snd (server_steps C L steps s))"
proof (induction steps arbitrary: s)
  case (Cons x steps)
  obtain e ev where x: "x = (e, ev)" by fastforce
  obtain outs s1 where "server_step C L e s ev = (outs, s1)" by fastforce
  with Cons.IH [OF reachable.step [OF Cons.prems]] show ?case by (simp add: x case_prod_beta)
qed simp

end
