(* ===== verification/Engine_Run_Demo.thy ===== *)
theory Engine_Run_Demo
  imports Engine_Run Client_Demo
begin

text \<open>
  A client that connects and is ended at once.
\<close>

definition demo_run :: "run_error option \<times> client_output list \<times> client" where
  "demo_run = client_run demo_crypto demo_lib demo_connect_env []
     \<lparr> cv_clock = (\<lambda>_. demo_time), cv_write_ok = (\<lambda>_. True), cv_tun_ok = (\<lambda>_. True) \<rparr> ContextDone demo_c0"

theorem engine_run_releases_witness:
  "fst demo_run = None \<and> last (fst (snd demo_run)) = CloseTun"
proof -
  obtain res outs c' where run: "client_run demo_crypto demo_lib demo_connect_env []
      \<lparr> cv_clock = (\<lambda>_. demo_time), cv_write_ok = (\<lambda>_. True), cv_tun_ok = (\<lambda>_. True) \<rparr> ContextDone demo_c0 = (res, outs, c')"
    by (metis prod_cases3)
  have "ct_tun demo_c0" by (simp add: demo_c0_def)
  with engine_run_releases [OF run] show ?thesis
    by (auto simp: demo_run_def run demo_connect(1) loop_result_def)
qed

end
