(* ===== verification/Spec2Isabelle.thy ===== *)
theory Spec2Isabelle
  imports Protocol_Facts Replay Reorder_Facts Scheduler_Facts Metrics Config_Facts Ip_Packet
    Server_Inv Server_Path Server_Facts Server_Handshake Demo Examples
    Client_Facts Client_Demo Tunnel_Contract Tunnel Tunnel_Down Connection Tunnel_Demo
    Store Store_Facts Store_Keys Store_Demo
    Service Service_Limit Server_Access Service_Contract Service_Facts Service_Demo
    Netconfig Netconfig_Facts Tun Manager Manager_Facts Enrollment Enrollment_Facts Enrollment_Demo
    Cli Cli_Facts Cli_Demo Loading Panel Engine_Run Engine_Run_Demo
begin

text \<open>
  LinkForge joins several uplinks of a client (Ethernet, Wi-Fi, tethering) into one encrypted tunnel to a relay. This
  library models the Go program under \<open>src/\<close> and proves what makes it correct. Names of definitions follow the
  names of the code; every definition that models code is listed with its lines in the manifest of the development.

  \<^bold>\<open>The program.\<close> The client opens one UDP path per uplink and shakes hands on each (\<open>internal/engine/client.go\<close>,
  \<open>internal/protocol\<close>): a signed HELLO, a signed WELCOME, and a key for the path derived from the client's key. A packet
  read from the tunnel device is numbered, given to one of the healthy paths by smooth weighted round robin
  (\<open>internal/scheduler\<close>), sealed and sent. The relay (\<open>internal/engine/server.go\<close>) authenticates it, drops replays, checks
  the inner source address against the client's tunnel address, restores the order in a reorder buffer
  (\<open>internal/reorder\<close>) and writes it to its own device; the other direction is alike. The control plane
  (\<open>internal/controlplane\<close>) keeps devices and activation codes in a data base, gives out profiles, and tells the relay
  through two hooks whom to admit. The client program has a panel (\<open>internal/metrics\<close>) and behind it a manager
  (\<open>internal/clientapp\<close>) that calibrates the paths, routes the encrypted packets around the tunnel
  (\<open>internal/netconfig\<close>), opens the device (\<open>internal/tun\<close>) and runs the engine; \<open>cmd/linkforge\<close> puts the parts together.

  \<^bold>\<open>Theories and sources.\<close>
  \<^item> Shared: \<open>Prelude\<close> (machine types, strings, association lists for Go maps, the collections), \<open>Go_Time\<close>, \<open>Byte_Order\<close>,
    \<open>Go_Text\<close>, \<open>Go_Base64\<close>, \<open>Go_Float\<close> (binary64 as rounded rationals), \<open>Go_Netip\<close>: what the code uses of Go's library.
  \<^item> \<open>Protocol\<close>, \<open>Protocol_Facts\<close>: \<open>protocol.go\<close> (headers, HELLO, WELCOME, data, AEAD framing, HKDF); \<open>Replay\<close>: its
    anti-replay window with the refinement of a set of numbers; \<open>Ip_Packet\<close>: \<open>ip.go\<close>.
  \<^item> \<open>Reorder\<close>, \<open>Reorder_Facts\<close>: \<open>reorder.go\<close>; \<open>Scheduler\<close>, \<open>Scheduler_Facts\<close>: \<open>scheduler.go\<close>.
  \<^item> \<open>Config\<close>, \<open>Config_Facts\<close>: \<open>config.go\<close> (checks, defaults, discovery of paths); \<open>Loading\<close>: loading the files and
    \<open>defaults_linux.go\<close>, \<open>defaults_windows.go\<close>, \<open>defaults_other.go\<close>.
  \<^item> \<open>Metrics\<close>, \<open>Panel\<close>: \<open>metrics.go\<close> (counters, snapshot, control endpoint; text exposition, routes).
  \<^item> \<open>Server\<close>: state and handlers of \<open>server.go\<close>; \<open>Server_Inv\<close> (invariant, kept by every step), \<open>Server_Path\<close> (replays,
    packet numbers), \<open>Server_Facts\<close> (spoofing, routing), \<open>Server_Handshake\<close>, \<open>Server_Access\<close> (the table of credentials).
  \<^item> \<open>Client\<close>: state and handlers of \<open>client.go\<close>; \<open>Client_Inv\<close>, \<open>Client_Facts\<close>.
  \<^item> \<open>Engine_Run\<close>: \<open>Run\<close> of both engines around a list of their steps, and the end of the HTTP services.
  \<^item> \<open>Tunnel_Contract\<close>: the interface between the two ends, as locales of a sender, a receiver and a tunnel; \<open>Tunnel\<close> and
    \<open>Tunnel_Down\<close> interpret them on client and relay in both directions; \<open>Connection\<close>: both ends of the handshake.
  \<^item> \<open>Store\<close>, \<open>Store_Facts\<close>, \<open>Store_Keys\<close>: \<open>store.go\<close>; \<open>Service\<close>, \<open>Service_Limit\<close>, \<open>Service_Facts\<close>: \<open>service.go\<close> and the wiring
    of \<open>runServer\<close>; \<open>Service_Contract\<close>: what the control plane relies on in the relay, as a locale that \<open>Service_Facts\<close>
    interprets on the relay's own operations.
  \<^item> \<open>Enrollment\<close>, \<open>Enrollment_Facts\<close>: \<open>controlplane/client.go\<close>.
  \<^item> \<open>Netconfig\<close>, \<open>Netconfig_Facts\<close>: \<open>netconfig.go\<close>; \<open>Tun\<close>: \<open>tun/device.go\<close>; \<open>Manager\<close>, \<open>Manager_Facts\<close>: \<open>manager.go\<close>;
    the locale \<open>route_service\<close> of \<open>Netconfig_Facts\<close> states what the manager relies on in the routes and is interpreted on them.
  \<^item> \<open>Cli\<close>, \<open>Cli_Facts\<close>: \<open>cmd/linkforge/main.go\<close>.
  \<^item> \<open>Demo\<close>, \<open>Examples\<close>, \<open>Client_Demo\<close>, \<open>Tunnel_Demo\<close>, \<open>Store_Demo\<close>, \<open>Service_Demo\<close>, \<open>Enrollment_Demo\<close>, \<open>Cli_Demo\<close>, \<open>Engine_Run_Demo\<close>: concrete runs,
    and for every property with hypotheses an instance in which they hold.

  \<^bold>\<open>How state and operations are modelled.\<close> A Go struct is a record with one field per field of the struct that
  is not a lock, a logger or a socket; pointers to sessions and paths are indexes into a heap (a list), so that the
  indexes of the relay may share an object. A Go map is an association list, whose order stands for the order of
  iteration; every fact holds for every order. Integers have their width (\<open>u64\<close>, \<open>u32\<close>, \<open>u16\<close> as words; \<open>int64\<close>
  durations as integers with their wrap-around or saturation written out; \<open>float64\<close> as rationals rounded after each
  operation). Errors are values. An operation that holds its locks from begin to end is one function and one step;
  \<open>reconnectPath\<close> and \<open>rejoinAll\<close>, which wait for the network in between, are two steps each, and the manager's
  \<open>Start\<close>, which takes its lock several times, is one step per locked section. Steps of one component interleave in any
  order: \<open>reachable\<close>, \<open>client_reachable\<close>, \<open>app_reachable\<close>, \<open>serial_reachable\<close> and \<open>any_reachable\<close> are the states that runs of steps reach,
  and the invariants are proved by induction over them. The handlers of the control plane are one step each.

  \<^bold>\<open>Arguments that stand for other code.\<close> The cryptography of Go's library and \<open>golang.org/x/crypto\<close> is the record
  \<open>crypto\<close>; \<open>gcm_laws\<close> states what is used of it (opening undoes sealing, and only that; lengths), and the toy instance of
  \<open>Demo\<close> satisfies it. Random numbers, clock readings, the outcome of every network, file and data base operation, the
  answers of the HTTP server, the commands of the operating system and the device of the WireGuard library are
  arguments of the definition that uses them; the theorems hold for all of them unless a hypothesis says otherwise.
  Decoding JSON is left out: a request or a file is the value that the decoder leaves, or the fact that it fails.

  \<^bold>\<open>What is shown.\<close>
  \<^item> Data plane: bursts of at most 64 packets over several paths arrive whole and in order in both directions whatever the
    order of arrival within the reorder delay; no packet number and no AEAD nonce repeats under a key; a datagram that was accepted once is never
    accepted again; nobody writes a packet with another client's address; what is not authentic changes counters
    only; the reorder buffer delivers in order, accounts for every number and gives up gaps in time; the round robin
    is never as much as one turn ahead of the exact shares and meets them after a full cycle (weights that are integers, paths that
    stay healthy); the device's packets are read whole and in order.
  \<^item> Sessions: the handshake leaves both ends with one path that agrees on everything; repeated and restarted
    handshakes; the indexes of the relay agree in every reachable state; a running client has one session.
  \<^item> Control plane: relay and data base agree on who is admitted in every state between requests that
    are handled one after another (\<open>rotate_revoke_race\<close> shows what two at a time can do); revocation is immediate and
    final; a code enrolls one device; changes need the token or a code; addresses are the lowest free ones; the
    limiter's rate; and from the activation code to the admitted device across client, control plane and relay.
  \<^item> Client program: routing changes are undone on every way out; the rules of the paths stay in place while others are
    set up (on Linux, one source address per interface; with two the first loses its rule); a start that fails leaves nothing behind; calibrated weights; at most one engine as long as starts do not
    overlap, and the engine that is lost when they do; the profile file is written whole or not at all.

  \<^bold>\<open>Termination.\<close> No fuel is used. Loops over the code's data are structural recursions; the recursions that are not
  (trimming and splitting text, decimal digits, the search for an address) have a measure. The waiting loops of
  \<open>connectPath\<close> recurse over the list of what the socket answers, so a run ends when the deadline of the code has
  passed or the list is exhausted, and the liveness theorem says when the answer comes in time.

  \<^bold>\<open>Not modelled.\<close> Binding sockets to interfaces and their buffers (\<open>internal/netbind\<close>, \<open>engine/udp.go\<close>: system calls only);
  the goroutines and sockets of \<open>Run\<close> of engine, relay and control plane and of \<open>metrics.Serve\<close> (\<open>Engine_Run\<close> has what they do
  before and after the steps); the periodic statistics log, \<open>internal/logging\<close> and the constant page \<open>metrics/dashboard.go\<close>; JSON texts and the
  text of durations; flag parsing, signals, the browser, the list of interfaces and the printed help of \<open>main.go\<close>; the
  texts of most errors. They hold no state of their own that the modelled operations read.
\<close>

end
